(* ===== verification/Prelude.thy ===== *)
theory Prelude
  imports Main "HOL-Library.Word" "HOL-Library.List_Lexorder" "HOL-Library.Char_ord"
    "HOL-Library.Product_Lexorder"
begin

text \<open>
  Shared ground of the development: Rust's machine integers, the result type, the
  few string operations of \<open>str\<close> the components use, and generic lemmas about
  results, maps and lists. Strings are byte lists (\<open>char list\<close>), so \<open>length\<close> is
  Rust's \<open>str::len\<close> and the order of \<^theory_text>\<open>HOL-Library.List_Lexorder\<close> over
  \<^theory_text>\<open>HOL-Library.Char_ord\<close> is \<open>str\<close>'s byte-wise order.
\<close>

section \<open>Collections used by the automation\<close>

named_theorems result_iff
  \<open>when a fallible step returns normally\<close>

named_theorems frame
  \<open>fields of a state that an operation leaves alone\<close>

section \<open>Machine integers\<close>

type_synonym u32 = "32 word"
type_synonym u64 = "64 word"

definition sat_inc :: "'a::len word \<Rightarrow> 'a word" where
  "sat_inc x = (if x = - 1 then x else x + 1)"

lemma sat_inc_max [simp]: "sat_inc (- 1) = - 1"
  by (simp add: sat_inc_def)

lemma unat_sat_inc: "unat (sat_inc x) = (if x = - 1 then unat x else Suc (unat x))"
proof (cases "x = - 1")
  case True
  then show ?thesis by (simp add: sat_inc_def)
next
  case False
  then have "1 + x \<noteq> 0"
    by (metis add.commute add_eq_0_iff)
  then have "unat (1 + x) = Suc (unat x)"
    by (rule unatSuc)
  with False show ?thesis by (simp add: sat_inc_def add.commute)
qed

lemma less_sat_inc_iff: "x < sat_inc x \<longleftrightarrow> x \<noteq> - 1"
  by (simp add: word_less_nat_alt unat_sat_inc)

lemma le_sat_inc: "x \<le> sat_inc x"
  by (simp add: word_le_nat_alt unat_sat_inc)

lemma word_le_minus_one [simp]: "(x :: 'a::len word) \<le> - 1"
  by (rule word_order.extremum)

lemma minus_one_le_iff [simp]: "- 1 \<le> (x :: 'a::len word) \<longleftrightarrow> x = - 1"
  by (rule word_order.extremum_unique)

lemma max_minus_one [simp]: "max (- 1) (x :: 'a::len word) = - 1" "max (x :: 'a::len word) (- 1) = - 1"
  by (simp_all add: max_def)

lemma not_minus_one_less [simp]: "\<not> - 1 < (x :: 'a::len word)"
  by (simp add: not_less)

lemma word_less_minus_one_iff: "(x :: 'a::len word) < - 1 \<longleftrightarrow> x \<noteq> - 1"
  by (simp add: less_le)

lemma less_sat_inc_max_iff: "a < sat_inc (max a b) \<longleftrightarrow> a \<noteq> - 1"
proof (cases "max a b = - 1")
  case True
  then show ?thesis by (simp add: word_less_minus_one_iff)
next
  case False
  then have "a < sat_inc (max a b)"
    using less_sat_inc_iff [of "max a b"] by (meson le_less_trans max.cobounded1)
  moreover have "a \<noteq> - 1"
    using False by (auto simp: max_def split: if_splits)
  ultimately show ?thesis by simp
qed

text \<open>The value an SQLite INTEGER column holds for a \<open>u64\<close>:
  \<open>i64::try_from(x).unwrap_or(i64::MAX)\<close>; reading it back is the identity.\<close>

definition i64_max :: u64 where
  "i64_max = 0x7FFFFFFFFFFFFFFF"

definition clamp_i64 :: "u64 \<Rightarrow> u64" where
  "clamp_i64 x = (if x \<le> i64_max then x else i64_max)"

lemma clamp_i64_id [simp]: "x \<le> i64_max \<Longrightarrow> clamp_i64 x = x"
  by (simp add: clamp_i64_def)

lemma clamp_i64_le [simp]: "clamp_i64 x \<le> i64_max"
  by (simp add: clamp_i64_def)

lemma clamp_i64_mono: "x \<le> y \<Longrightarrow> clamp_i64 x \<le> clamp_i64 y"
  by (auto simp: clamp_i64_def)

lemma clamp_i64_idem [simp]: "clamp_i64 (clamp_i64 x) = clamp_i64 x"
  by simp

section \<open>Results\<close>

type_synonym ('e, 'a) res = "'e + 'a"

definition bindR :: "('e, 'a) res \<Rightarrow> ('a \<Rightarrow> ('e, 'b) res) \<Rightarrow> ('e, 'b) res" where
  "bindR m f = (case m of Inl e \<Rightarrow> Inl e | Inr x \<Rightarrow> f x)"

lemma bindR_simps [simp]:
  "bindR (Inl e) f = Inl e"
  "bindR (Inr x) f = f x"
  by (simp_all add: bindR_def)

lemma bindR_cong [fundef_cong]:
  "m = m' \<Longrightarrow> (\<And>x. m' = Inr x \<Longrightarrow> f x = f' x) \<Longrightarrow> bindR m f = bindR m' f'"
  by (cases m') auto

lemma bindR_Inr_iff [result_iff]: "bindR m f = Inr y \<longleftrightarrow> (\<exists>x. m = Inr x \<and> f x = Inr y)"
  by (cases m) auto

lemma bindR_Inl_iff: "bindR m f = Inl e \<longleftrightarrow> m = Inl e \<or> (\<exists>x. m = Inr x \<and> f x = Inl e)"
  by (cases m) auto

lemma bindR_assoc: "bindR (bindR m f) g = bindR m (\<lambda>x. bindR (f x) g)"
  by (cases m) auto

text \<open>A \<open>for\<close> loop whose body may return early with an error.\<close>

fun foldR :: "('x \<Rightarrow> 's \<Rightarrow> ('e, 's) res) \<Rightarrow> 'x list \<Rightarrow> 's \<Rightarrow> ('e, 's) res" where
  "foldR f [] s = Inr s"
| "foldR f (x # xs) s = bindR (f x s) (foldR f xs)"

lemma foldR_append: "foldR f (xs @ ys) s = bindR (foldR f xs s) (foldR f ys)"
proof (induction xs arbitrary: s)
  case Nil
  then show ?case by simp
next
  case (Cons x xs)
  then have "foldR f (xs @ ys) = (\<lambda>s. bindR (foldR f xs s) (foldR f ys))"
    by (simp add: fun_eq_iff)
  then show ?case by (simp add: bindR_assoc)
qed

lemma foldR_invariant:
  assumes "foldR f xs s = Inr t" and "P s"
    and "\<And>x s t. x \<in> set xs \<Longrightarrow> P s \<Longrightarrow> f x s = Inr t \<Longrightarrow> P t"
  shows "P t"
  using assms by (induction xs arbitrary: s) (auto simp: result_iff)

lemma foldR_frame:
  assumes "foldR f xs s = Inr t"
    and "\<And>x s t. x \<in> set xs \<Longrightarrow> f x s = Inr t \<Longrightarrow> g t = g s"
  shows "g t = g s"
  using foldR_invariant [OF assms(1), of "\<lambda>u. g u = g s"] assms(2) by metis

text \<open>Mapping a fallible function over a list, up to the first error.\<close>

fun map_res :: "('a \<Rightarrow> 'e + 'b) \<Rightarrow> 'a list \<Rightarrow> 'e + 'b list" where
  "map_res f [] = Inr []"
| "map_res f (x # xs) = bindR (f x) (\<lambda>y. bindR (map_res f xs) (\<lambda>ys. Inr (y # ys)))"

lemma map_res_Inr: "(\<And>x. x \<in> set xs \<Longrightarrow> f x = Inr (g x)) \<Longrightarrow> map_res f xs = Inr (map g xs)"
  by (induction xs) auto

lemma map_res_Inr_iff: "map_res f xs = Inr ys \<longleftrightarrow> list_all2 (\<lambda>x y. f x = Inr y) xs ys"
  by (induction xs arbitrary: ys) (auto simp: result_iff list_all2_Cons1)

section \<open>Strings\<close>

text \<open>\<open>str::split_once(c)\<close>: the parts before and after the first \<open>c\<close>.\<close>

fun split_once :: "'c \<Rightarrow> 'c list \<Rightarrow> ('c list \<times> 'c list) option" where
  "split_once c [] = None"
| "split_once c (x # xs) =
     (if x = c then Some ([], xs)
      else map_option (\<lambda>(l, r). (x # l, r)) (split_once c xs))"

lemma split_once_Some: "split_once c s = Some (l, r) \<longleftrightarrow> s = l @ c # r \<and> c \<notin> set l"
proof (induction s arbitrary: l)
  case Nil
  then show ?case by simp
next
  case (Cons x s)
  show ?case
  proof (cases l)
    case Nil
    then show ?thesis by auto
  next
    case (Cons y l')
    then show ?thesis by (auto simp: Cons.IH)
  qed
qed

lemma split_once_None: "split_once c s = None \<longleftrightarrow> c \<notin> set s"
  by (induction s) auto

end
