(* ===== verification/Hlc.thy ===== *)
theory Hlc
  imports Prelude
begin

text \<open>
  The hybrid logical clock of \<^verbatim>\<open>crates/pergamon-core/src/sync/hlc.rs\<close>: the stamp, its
  total order (instantiated as the library's \<open>linorder\<close>), the local tick and the
  receive rule. Counters and wall times keep their width, so the saturating
  increment of the code is visible in the statements.
\<close>

section \<open>Stamps and their order\<close>

datatype hlc = Hlc (wall_millis: u64) (hcounter: u32) (hdevice: string)

datatype ordering = Less | Equal | Greater

definition cmp :: "'a::linorder \<Rightarrow> 'a \<Rightarrow> ordering" where
  "cmp a b = (if a < b then Less else if a = b then Equal else Greater)"

fun then_with :: "ordering \<Rightarrow> ordering \<Rightarrow> ordering" where
  "then_with Equal c = c"
| "then_with Less _ = Less"
| "then_with Greater _ = Greater"

definition causal_key :: "hlc \<Rightarrow> u64 \<times> u32" where
  "causal_key c = (wall_millis c, hcounter c)"

definition hlc_cmp :: "hlc \<Rightarrow> hlc \<Rightarrow> ordering" where
  "hlc_cmp a b = then_with (cmp (causal_key a) (causal_key b)) (cmp (hdevice a) (hdevice b))"

lemma cmp_simps [simp]:
  "cmp a b = Less \<longleftrightarrow> a < b"
  "cmp a b = Equal \<longleftrightarrow> a = b"
  "cmp a b = Greater \<longleftrightarrow> b < a"
  by (auto simp: cmp_def)

lemma then_with_simps [simp]:
  "then_with o1 o2 = Less \<longleftrightarrow> o1 = Less \<or> o1 = Equal \<and> o2 = Less"
  "then_with o1 o2 = Equal \<longleftrightarrow> o1 = Equal \<and> o2 = Equal"
  "then_with o1 o2 = Greater \<longleftrightarrow> o1 = Greater \<or> o1 = Equal \<and> o2 = Greater"
  by (cases o1; cases o2; simp)+

lemma hlc_cmp_Equal: "hlc_cmp a b = Equal \<longleftrightarrow> a = b"
  by (cases a; cases b) (auto simp: hlc_cmp_def causal_key_def)

lemma hlc_cmp_Less:
  "hlc_cmp a b = Less \<longleftrightarrow>
     wall_millis a < wall_millis b
     \<or> wall_millis a = wall_millis b \<and> hcounter a < hcounter b
     \<or> wall_millis a = wall_millis b \<and> hcounter a = hcounter b \<and> hdevice a < hdevice b"
  by (auto simp: hlc_cmp_def causal_key_def less_prod_def less_le)

lemma hlc_cmp_Greater: "hlc_cmp a b = Greater \<longleftrightarrow> hlc_cmp b a = Less"
  by (auto simp: hlc_cmp_def)

instantiation hlc :: linorder
begin

definition less_hlc :: "hlc \<Rightarrow> hlc \<Rightarrow> bool" where
  "less_hlc a b \<longleftrightarrow> hlc_cmp a b = Less"

definition less_eq_hlc :: "hlc \<Rightarrow> hlc \<Rightarrow> bool" where
  "less_eq_hlc a b \<longleftrightarrow> hlc_cmp a b \<noteq> Greater"

instance
proof
  fix a b c :: hlc
  show "a < b \<longleftrightarrow> a \<le> b \<and> \<not> b \<le> a"
    by (auto simp: less_hlc_def less_eq_hlc_def hlc_cmp_Greater hlc_cmp_Less)
  show "a \<le> a"
    by (simp add: less_eq_hlc_def hlc_cmp_Greater hlc_cmp_Less)
  show "a \<le> b \<Longrightarrow> b \<le> c \<Longrightarrow> a \<le> c"
    by (auto simp: less_eq_hlc_def hlc_cmp_Greater hlc_cmp_Less)
  show "a \<le> b \<Longrightarrow> b \<le> a \<Longrightarrow> a = b"
    by (cases "hlc_cmp a b") (auto simp: less_eq_hlc_def hlc_cmp_Greater hlc_cmp_Equal)
  show "a \<le> b \<or> b \<le> a"
    by (cases "hlc_cmp a b") (auto simp: less_eq_hlc_def hlc_cmp_Greater)
qed

end

lemma less_hlc_iff:
  "(a::hlc) < b \<longleftrightarrow>
     wall_millis a < wall_millis b
     \<or> wall_millis a = wall_millis b \<and> hcounter a < hcounter b
     \<or> wall_millis a = wall_millis b \<and> hcounter a = hcounter b \<and> hdevice a < hdevice b"
  by (simp add: less_hlc_def hlc_cmp_Less)

section \<open>Advancing a clock\<close>

definition tick :: "hlc \<Rightarrow> u64 \<Rightarrow> hlc" where
  "tick c now =
     (if wall_millis c < now then Hlc now 0 (hdevice c)
      else Hlc (wall_millis c) (sat_inc (hcounter c)) (hdevice c))"

definition observe :: "hlc \<Rightarrow> hlc \<Rightarrow> u64 \<Rightarrow> hlc" where
  "observe c remote now =
     (let wall = max (max (wall_millis c) (wall_millis remote)) now;
          counter =
            (if wall = wall_millis c \<and> wall = wall_millis remote
             then sat_inc (max (hcounter c) (hcounter remote))
             else if wall = wall_millis c then sat_inc (hcounter c)
             else if wall = wall_millis remote then sat_inc (hcounter remote)
             else 0)
      in Hlc wall counter (hdevice c))"

definition hlc_zero :: "string \<Rightarrow> hlc" where
  "hlc_zero d = Hlc 0 0 d"

lemma hdevice_tick [frame, simp]: "hdevice (tick c now) = hdevice c"
  by (simp add: tick_def)

lemma hdevice_observe [frame, simp]: "hdevice (observe c r now) = hdevice c"
  by (simp add: observe_def Let_def)

lemma wall_tick: "wall_millis (tick c now) = max (wall_millis c) now"
  by (auto simp: tick_def max_def dest: less_imp_le)

lemma wall_observe:
  "wall_millis (observe c r now) = max (max (wall_millis c) (wall_millis r)) now"
  by (simp add: observe_def Let_def)

lemma tick_less_iff:
  "c < tick c now \<longleftrightarrow> wall_millis c < now \<or> hcounter c \<noteq> - 1"
  by (auto simp: less_hlc_iff tick_def less_sat_inc_iff)

lemma tick_ge: "c \<le> tick c now"
proof (cases "wall_millis c < now \<or> hcounter c \<noteq> - 1")
  case True
  then show ?thesis by (simp add: tick_less_iff less_imp_le)
next
  case False
  then have "tick c now = c" by (cases c) (simp add: tick_def)
  then show ?thesis by simp
qed

lemma observe_counter_eq:
  "wall_millis (observe c r now) = wall_millis c \<Longrightarrow>
   hcounter c < hcounter (observe c r now) \<longleftrightarrow> hcounter c \<noteq> - 1"
  by (cases "wall_millis c = wall_millis r")
     (simp_all add: wall_observe observe_def Let_def less_sat_inc_iff less_sat_inc_max_iff)

lemma observe_counter_remote_eq:
  "wall_millis (observe c r now) = wall_millis r \<Longrightarrow>
   hcounter r < hcounter (observe c r now) \<longleftrightarrow> hcounter r \<noteq> - 1"
  by (cases "wall_millis c = wall_millis r")
     (simp_all add: wall_observe observe_def Let_def less_sat_inc_iff less_sat_inc_max_iff
        max.commute [of "hcounter c"])

lemma observe_wall_ge:
  "wall_millis c \<le> wall_millis (observe c r now)"
  "wall_millis r \<le> wall_millis (observe c r now)"
  by (simp_all add: wall_observe le_max_iff_disj)

lemma observe_counter_saturated:
  "wall_millis (observe c r now) = wall_millis c \<Longrightarrow> hcounter c = - 1 \<Longrightarrow> hcounter (observe c r now) = - 1"
  "wall_millis (observe c r now) = wall_millis r \<Longrightarrow> hcounter r = - 1 \<Longrightarrow> hcounter (observe c r now) = - 1"
  by (cases "wall_millis c = wall_millis r", simp_all add: wall_observe observe_def Let_def)+

section \<open>Correctness of the update rules\<close>

text \<open>
  A tick never takes the local clock backwards, and the stamp it returns is strictly
  greater than the previous one exactly when the physical clock has moved past it or the
  32-bit counter has not saturated.
\<close>
theorem tick_advances:
  "c \<le> tick c now \<and> (c < tick c now \<longleftrightarrow> wall_millis c < now \<or> hcounter c \<noteq> - 1)"
  by (simp add: tick_ge tick_less_iff)

theorem tick_advances_witness:
  "Hlc 5 0 ''a'' < tick (Hlc 5 0 ''a'') 5 \<and> \<not> Hlc 5 (- 1) ''a'' < tick (Hlc 5 (- 1) ''a'') 5"
  using tick_advances [of "Hlc 5 0 ''a''" 5] tick_advances [of "Hlc 5 (- 1) ''a''" 5] by simp

lemma observe_local_less_iff:
  "c < observe c r now \<longleftrightarrow> wall_millis (observe c r now) \<noteq> wall_millis c \<or> hcounter c \<noteq> - 1"
  using observe_wall_ge(1) [of c r now] observe_counter_eq [of c r now]
  by (auto simp: less_hlc_iff)

lemma observe_remote_less_iff:
  "r < observe c r now \<longleftrightarrow>
     wall_millis (observe c r now) \<noteq> wall_millis r \<or> hcounter r \<noteq> - 1 \<or> hdevice r < hdevice c"
  using observe_wall_ge(2) [of r c now] observe_counter_remote_eq [of c r now]
    observe_counter_saturated(2) [of c r now]
  by (auto simp: less_hlc_iff)

text \<open>
  Receiving a remote stamp moves the local clock strictly past both its own last value
  and the remote stamp, except when the 32-bit counter has saturated within the winning
  millisecond: then the local clock stands still, and it is past the remote stamp only
  through the device tie-break.
\<close>
theorem observe_stays_ahead:
  "(c < observe c r now \<longleftrightarrow> wall_millis (observe c r now) \<noteq> wall_millis c \<or> hcounter c \<noteq> - 1)
   \<and> (r < observe c r now \<longleftrightarrow>
        wall_millis (observe c r now) \<noteq> wall_millis r \<or> hcounter r \<noteq> - 1 \<or> hdevice r < hdevice c)"
  by (simp add: observe_local_less_iff observe_remote_less_iff)

theorem observe_stays_ahead_witness:
  "Hlc 5 0 ''a'' < observe (Hlc 5 0 ''a'') (Hlc 9 3 ''b'') 1 \<and> Hlc 9 3 ''b'' < observe (Hlc 5 0 ''a'') (Hlc 9 3 ''b'') 1"
  using observe_stays_ahead [of "Hlc 5 0 ''a''" "Hlc 9 3 ''b''" 1] by simp

section \<open>Runs of one device's clock\<close>

datatype clock_event = Local u64 | Received hlc u64

fun clock_step :: "hlc \<Rightarrow> clock_event \<Rightarrow> hlc" where
  "clock_step c (Local now) = tick c now"
| "clock_step c (Received r now) = observe c r now"

fun clock_run :: "hlc \<Rightarrow> clock_event list \<Rightarrow> hlc" where
  "clock_run c [] = c"
| "clock_run c (e # es) = clock_run (clock_step c e) es"

text \<open>The stamps a device attaches to its own events, oldest first.\<close>

fun stamps :: "hlc \<Rightarrow> clock_event list \<Rightarrow> hlc list" where
  "stamps c [] = []"
| "stamps c (Local now # es) = tick c now # stamps (tick c now) es"
| "stamps c (Received r now # es) = stamps (observe c r now) es"

text \<open>No step of the run starts from a saturated counter.\<close>

fun unsaturated :: "hlc \<Rightarrow> clock_event list \<Rightarrow> bool" where
  "unsaturated c [] = True"
| "unsaturated c (e # es) =
     (hcounter c \<noteq> - 1 \<and> unsaturated (clock_step c e) es)"

lemma clock_step_less: "hcounter c \<noteq> - 1 \<Longrightarrow> c < clock_step c e"
  by (cases e) (simp_all add: tick_less_iff observe_local_less_iff)

lemma stamps_above: "unsaturated c es \<Longrightarrow> s \<in> set (stamps c es) \<Longrightarrow> c < s"
proof (induction c es rule: stamps.induct)
  case (1 c)
  then show ?case by simp
next
  case (2 c now es)
  then show ?case using clock_step_less [of c "Local now"] by (auto intro: less_trans)
next
  case (3 c r now es)
  then show ?case using clock_step_less [of c "Received r now"] by (auto intro: less_trans)
qed

lemma stamps_sorted: "unsaturated c es \<Longrightarrow> sorted_wrt (<) (stamps c es)"
  by (induction c es rule: stamps.induct) (auto simp: stamps_above)

lemma clock_step_device [frame, simp]: "hdevice (clock_step c e) = hdevice c"
  by (cases e) simp_all

lemma clock_step_ge: "c \<le> clock_step c e"
proof (cases e)
  case (Local now)
  then show ?thesis by (simp add: tick_ge)
next
  case (Received r now)
  show ?thesis
  proof (cases "c < observe c r now")
    case True
    then show ?thesis by (simp add: Received)
  next
    case False
    then have "wall_millis (observe c r now) = wall_millis c" and "hcounter c = - 1"
      by (simp_all add: observe_local_less_iff)
    then have "observe c r now = c"
      using observe_counter_saturated(1) by (cases c; cases "observe c r now") (metis hlc.sel hdevice_observe)
    then show ?thesis by (simp add: Received)
  qed
qed

lemma clock_run_ge: "c \<le> clock_run c es"
  by (induction es arbitrary: c) (auto intro: order_trans [OF clock_step_ge])

lemma clock_run_device [frame, simp]: "hdevice (clock_run c es) = hdevice c"
  by (induction es arbitrary: c) auto

lemma clock_run_append: "clock_run c (es @ fs) = clock_run (clock_run c es) fs"
  by (induction es arbitrary: c) auto

text \<open>
  C40. Whatever a device does and receives, as long as its counter does not saturate its own
  stamps are strictly increasing in the order they are issued, so no two of its changes
  carry the same stamp.
\<close>
theorem stamps_strictly_increase:
  assumes "unsaturated c es"
  shows "sorted_wrt (<) (stamps c es) \<and> distinct (stamps c es)
         \<and> (\<forall>s \<in> set (stamps c es). hdevice s = hdevice c \<and> c < s)"
proof -
  have "hdevice s = hdevice c" if "s \<in> set (stamps c es)" for s
    using that by (induction c es rule: stamps.induct) auto
  moreover have "distinct (stamps c es)"
    using stamps_sorted [OF assms] by (simp add: strict_sorted_iff)
  ultimately show ?thesis
    using assms stamps_sorted stamps_above by blast
qed

theorem stamps_strictly_increase_witness:
  "sorted_wrt (<) (stamps (hlc_zero ''a'') [Local 5, Local 5, Received (Hlc 9 3 ''b'') 4, Local 1])"
  using stamps_strictly_increase
    [of "hlc_zero ''a''" "[Local 5, Local 5, Received (Hlc 9 3 ''b'') 4, Local 1]"]
  by (simp add: hlc_zero_def tick_def observe_def less_hlc_iff sat_inc_def)

lemma causal_le_observe: "causal_key r \<le> causal_key (observe c r now)"
  using observe_wall_ge(2) [of r c now] observe_counter_remote_eq [of c r now]
    observe_counter_saturated(2) [of c r now]
  by (auto simp: causal_key_def less_eq_prod_def le_less)

lemma hlc_le_causal: "a \<le> b \<Longrightarrow> causal_key a \<le> causal_key b"
  by (auto simp: le_less less_hlc_iff causal_key_def less_prod_def)

text \<open>
  A clock dominates everything it has seen: after any run, no stamp received on the way
  is causally ahead of the clock, and it is strictly behind unless the counter has
  saturated.
\<close>
theorem clock_dominates_received:
  assumes "Received r now \<in> set es"
  shows "causal_key r \<le> causal_key (clock_run c es)
         \<and> (hcounter (clock_run c es) \<noteq> - 1 \<longrightarrow> causal_key r < causal_key (clock_run c es))"
proof -
  obtain es1 es2 where es: "es = es1 @ Received r now # es2"
    using assms by (meson split_list)
  define c1 where "c1 = clock_run c es1"
  define c2 where "c2 = observe c1 r now"
  have le1: "causal_key r \<le> causal_key c2"
    by (simp add: c2_def causal_le_observe)
  have le2: "causal_key c2 \<le> causal_key (clock_run c es)"
    by (simp add: es clock_run_append c1_def c2_def hlc_le_causal clock_run_ge)
  have "hcounter (clock_run c es) = - 1" if eq: "causal_key r = causal_key (clock_run c es)"
  proof -
    from eq le1 le2 have "causal_key c2 = causal_key r" by simp
    with observe_counter_remote_eq [of c1 r now] have "hcounter r = - 1"
      by (simp add: c2_def causal_key_def)
    with eq show ?thesis by (simp add: causal_key_def)
  qed
  with le1 le2 show ?thesis by (auto simp: le_less)
qed

theorem clock_dominates_received_witness:
  "causal_key (Hlc 9 3 ''b'') < causal_key (clock_run (hlc_zero ''a'') [Received (Hlc 9 3 ''b'') 4])"
  using clock_dominates_received [of "Hlc 9 3 ''b''" 4 "[Received (Hlc 9 3 ''b'') 4]" "hlc_zero ''a''"]
  by (simp add: hlc_zero_def observe_def sat_inc_def)

end
