(* ===== verification/Json.thy ===== *)
theory Json
  imports Prelude
begin

text \<open>
  The JSON values of \<^verbatim>\<open>serde_json\<close> the sync code moves around. A number is what
  \<open>serde_json::Number\<close> holds: a non-negative integer up to \<open>u64::MAX\<close>, a negative
  one down to \<open>i64::MIN\<close>, or a finite \<open>f64\<close>, represented by its bit pattern (one
  representative for the two zeros, so that equality is numeric equality). An object
  is a \<open>serde_json::Map\<close>, which without the \<open>preserve_order\<close> feature (not enabled in
  this workspace) is a \<open>BTreeMap\<close>: here an association list kept sorted by key, whose
  order is the iteration order.
\<close>

datatype f64 = F64 (bits: u64)

datatype number = PosInt u64 | NegInt int | Float f64

datatype json =
    JNull
  | JBool bool
  | JNum number
  | JStr string
  | JArr "json list"
  | JObj "(string \<times> json) list"

text \<open>\<open>Value::as_bool\<close> and \<open>Value::as_str\<close>.\<close>

fun as_bool :: "json \<Rightarrow> bool option" where
  "as_bool (JBool b) = Some b"
| "as_bool _ = None"

fun as_str :: "json \<Rightarrow> string option" where
  "as_str (JStr s) = Some s"
| "as_str _ = None"

section \<open>Maps from strings to values, in key order\<close>

type_synonym 'v smap = "(string \<times> 'v) list"

definition wf_smap :: "'v smap \<Rightarrow> bool" where
  "wf_smap m \<longleftrightarrow> sorted_wrt (<) (map fst m)"

fun smap_insert :: "string \<Rightarrow> 'v \<Rightarrow> 'v smap \<Rightarrow> 'v smap" where
  "smap_insert k v [] = [(k, v)]"
| "smap_insert k v ((k', v') # m) =
     (if k < k' then (k, v) # (k', v') # m
      else if k = k' then (k, v) # m
      else (k', v') # smap_insert k v m)"

definition smap_get :: "'v smap \<Rightarrow> string \<Rightarrow> 'v option" where
  "smap_get m k = map_of m k"

definition smap_remove :: "string \<Rightarrow> 'v smap \<Rightarrow> 'v smap" where
  "smap_remove k m = filter (\<lambda>(k', _). k' \<noteq> k) m"

lemma wf_smap_Nil [simp]: "wf_smap []"
  by (simp add: wf_smap_def)

lemma wf_smap_Cons [simp]:
  "wf_smap ((k, v) # m) \<longleftrightarrow> (\<forall>k' \<in> fst ` set m. k < k') \<and> wf_smap m"
  by (auto simp: wf_smap_def)

lemma wf_smap_distinct: "wf_smap m \<Longrightarrow> distinct (map fst m)"
  by (simp add: wf_smap_def strict_sorted_iff)

lemma smap_get_simps [simp]:
  "smap_get [] k = None"
  "smap_get ((k', v) # m) k = (if k' = k then Some v else smap_get m k)"
  by (simp_all add: smap_get_def)

lemma keys_smap_insert: "fst ` set (smap_insert k v m) = insert k (fst ` set m)"
proof (induction m)
  case Nil
  then show ?case by simp
next
  case (Cons p m)
  then show ?case by (cases p) (simp add: insert_commute)
qed

lemma wf_smap_insert [simp]: "wf_smap m \<Longrightarrow> wf_smap (smap_insert k v m)"
proof (induction m)
  case Nil
  then show ?case by simp
next
  case (Cons p m)
  show ?case
  proof (cases p)
    case (Pair k' v')
    with Cons show ?thesis
      by (cases k k' rule: linorder_cases) (auto simp: keys_smap_insert intro: less_trans)
  qed
qed

lemma smap_get_None_iff: "smap_get m k = None \<longleftrightarrow> k \<notin> fst ` set m"
  by (simp add: smap_get_def map_of_eq_None_iff)

lemma smap_get_insert [simp]:
  "smap_get (smap_insert k v m) k' = (if k' = k then Some v else smap_get m k')"
  by (induction m) auto

lemma smap_get_remove [simp]:
  "smap_get (smap_remove k m) k' = (if k' = k then None else smap_get m k')"
  by (induction m) (auto simp: smap_remove_def)

lemma wf_smap_remove [simp]: "wf_smap m \<Longrightarrow> wf_smap (smap_remove k m)"
  by (induction m) (auto simp: smap_remove_def image_iff)

lemma smap_get_Some_set: "wf_smap m \<Longrightarrow> smap_get m k = Some v \<longleftrightarrow> (k, v) \<in> set m"
  by (simp add: smap_get_def map_of_eq_Some_iff wf_smap_distinct)

end
