(* ===== verification/Wire.thy ===== *)
theory Wire
  imports Prelude
begin

text \<open>
  The contract every enumeration of the code that is stored or sent as text keeps:
  a total printer (\<open>as_str\<close>, \<open>Display\<close>) and a partial parser (\<open>from_wire\<close>,
  \<open>FromStr\<close>) that accepts exactly the printed forms. The clients of the contract are
  the proofs about storage rows and filter queries; the providers interpret the
  locale in their own theories.
\<close>

locale wire_enum =
  fixes to_wire :: "'a \<Rightarrow> string"
    and of_wire :: "string \<Rightarrow> 'a option"
  assumes of_to_wire: "of_wire (to_wire x) = Some x"
    and to_of_wire: "of_wire s = Some x \<Longrightarrow> s = to_wire x"
begin

lemma of_wire_iff: "of_wire s = Some x \<longleftrightarrow> s = to_wire x"
  using of_to_wire to_of_wire by blast

lemma to_wire_eq_iff: "to_wire x = to_wire y \<longleftrightarrow> x = y"
  by (metis of_to_wire option.inject)

lemma of_wire_None_iff: "of_wire s = None \<longleftrightarrow> s \<notin> range to_wire"
  by (metis of_to_wire of_wire_iff option.distinct(1) option.exhaust rangeE rangeI)

lemma map_of_wire: "those (map of_wire (map to_wire xs)) = Some xs"
  by (induction xs) (simp_all add: of_to_wire)

lemma those_of_wire: "those (map of_wire ss) = Some xs \<longleftrightarrow> ss = map to_wire xs"
proof (induction ss arbitrary: xs)
  case Nil
  then show ?case by auto
next
  case (Cons s ss)
  then show ?case
    by (cases xs) (auto simp: of_wire_iff of_to_wire to_wire_eq_iff split: option.splits)
qed

end

end
