(* ===== verification/Change_Event.thy ===== *)
theory Change_Event
  imports Hlc Json Wire
begin

text \<open>
  The decrypted event body of \<^verbatim>\<open>crates/pergamon-core/src/sync/event.rs\<close>: entity
  classes, operations, the blob manifest and \<open>ChangeBody\<close>. The JSON encoding of a
  body is \<^verbatim>\<open>serde_json\<close>'s and stays a parameter of the components that use it.
\<close>

datatype entity_type =
    Document
  | Tag
  | Collection
  | TagEdge
  | CollectionEdge
  | Highlight
  | Note
  | ReviewCard
  | ReviewLog
  | FeedSubscription
  | Settings

fun et_as_str :: "entity_type \<Rightarrow> string" where
  "et_as_str Document = ''document''"
| "et_as_str Tag = ''tag''"
| "et_as_str Collection = ''collection''"
| "et_as_str TagEdge = ''tag_edge''"
| "et_as_str CollectionEdge = ''collection_edge''"
| "et_as_str Highlight = ''highlight''"
| "et_as_str Note = ''note''"
| "et_as_str ReviewCard = ''review_card''"
| "et_as_str ReviewLog = ''review_log''"
| "et_as_str FeedSubscription = ''feed_subscription''"
| "et_as_str Settings = ''settings''"

definition et_from_wire :: "string \<Rightarrow> entity_type option" where
  "et_from_wire s =
     (if s = ''document'' then Some Document
      else if s = ''tag'' then Some Tag
      else if s = ''collection'' then Some Collection
      else if s = ''tag_edge'' then Some TagEdge
      else if s = ''collection_edge'' then Some CollectionEdge
      else if s = ''highlight'' then Some Highlight
      else if s = ''note'' then Some Note
      else if s = ''review_card'' then Some ReviewCard
      else if s = ''review_log'' then Some ReviewLog
      else if s = ''feed_subscription'' then Some FeedSubscription
      else if s = ''settings'' then Some Settings
      else None)"

fun is_append_only :: "entity_type \<Rightarrow> bool" where
  "is_append_only ReviewLog = True"
| "is_append_only _ = False"

definition is_edge :: "entity_type \<Rightarrow> bool" where
  "is_edge et \<longleftrightarrow> et = TagEdge \<or> et = CollectionEdge"

interpretation et_wire: wire_enum et_as_str et_from_wire
proof unfold_locales
  fix x :: entity_type
  show "et_from_wire (et_as_str x) = Some x"
    by (cases x) (simp_all add: et_from_wire_def)
next
  fix s x
  assume "et_from_wire s = Some x"
  then show "s = et_as_str x"
    by (auto simp: et_from_wire_def split: if_splits)
qed

datatype op = Upsert | Delete | FieldPatch

fun op_as_str :: "op \<Rightarrow> string" where
  "op_as_str Upsert = ''upsert''"
| "op_as_str Delete = ''delete''"
| "op_as_str FieldPatch = ''field_patch''"

definition op_from_wire :: "string \<Rightarrow> op option" where
  "op_from_wire s =
     (if s = ''upsert'' then Some Upsert
      else if s = ''delete'' then Some Delete
      else if s = ''field_patch'' then Some FieldPatch
      else None)"

interpretation op_wire: wire_enum op_as_str op_from_wire
proof unfold_locales
  fix x :: op
  show "op_from_wire (op_as_str x) = Some x"
    by (cases x) (simp_all add: op_from_wire_def)
next
  fix s x
  assume "op_from_wire s = Some x"
  then show "s = op_as_str x"
    by (auto simp: op_from_wire_def split: if_splits)
qed

record blob_manifest_entry =
  bm_ct_hash :: string
  bm_role :: string
  bm_plaintext_hash :: string
  bm_plaintext_len :: u64

record change_body =
  cb_entity_type :: entity_type
  cb_entity_id :: string
  cb_op :: op
  cb_clock :: hlc
  cb_base_version :: "hlc option"
  cb_fields :: "json smap"
  cb_blob_manifest :: "blob_manifest_entry list"

definition blob_refs :: "change_body \<Rightarrow> string list" where
  "blob_refs body = map bm_ct_hash (cb_blob_manifest body)"

text \<open>
  The wire strings of entity classes and operations round-trip in both directions: the
  parser accepts exactly the strings the printer produces, and returns the value printed.
\<close>
theorem event_wire_roundtrip:
  "(et_from_wire s = Some et \<longleftrightarrow> s = et_as_str et) \<and> (op_from_wire t = Some oper \<longleftrightarrow> t = op_as_str oper)"
  by (simp add: et_wire.of_wire_iff op_wire.of_wire_iff)

end
