(* ===== verification/Review.thy ===== *)
theory Review
  imports Json Wire
begin

text \<open>
  The derived merge of review scheduling, \<^verbatim>\<open>crates/pergamon-core/src/sync/review.rs\<close>,
  with the card states and ratings of \<^verbatim>\<open>fsrs.rs\<close>. The fold takes the scheduler as an
  argument, as the code does; its floating-point conversions (milliseconds to days and
  back) are the two fields of \<open>day_conv\<close>. Epoch milliseconds are \<open>i64\<close>: integers with
  saturating arithmetic written out.
\<close>

section \<open>Card states and ratings\<close>

datatype card_state = New | Learning | Review | Relearning

fun cs_as_str :: "card_state \<Rightarrow> string" where
  "cs_as_str New = ''new''"
| "cs_as_str Learning = ''learning''"
| "cs_as_str Review = ''review''"
| "cs_as_str Relearning = ''relearning''"

definition cs_from_str :: "string \<Rightarrow> card_state option" where
  "cs_from_str s =
     (if s = ''new'' then Some New
      else if s = ''learning'' then Some Learning
      else if s = ''review'' then Some Review
      else if s = ''relearning'' then Some Relearning
      else None)"

interpretation cs_wire: wire_enum cs_as_str cs_from_str
proof unfold_locales
  fix x :: card_state
  show "cs_from_str (cs_as_str x) = Some x"
    by (cases x) (simp_all add: cs_from_str_def)
next
  fix s x
  assume "cs_from_str s = Some x"
  then show "s = cs_as_str x"
    by (auto simp: cs_from_str_def split: if_splits)
qed

datatype rating = Again | Hard | Good | Easy

fun rating_value :: "rating \<Rightarrow> u32" where
  "rating_value Again = 1"
| "rating_value Hard = 2"
| "rating_value Good = 3"
| "rating_value Easy = 4"

definition rating_from_value :: "u32 \<Rightarrow> rating option" where
  "rating_from_value v =
     (if v = 1 then Some Again else if v = 2 then Some Hard
      else if v = 3 then Some Good else if v = 4 then Some Easy else None)"

lemma rating_from_value_iff: "rating_from_value v = Some r \<longleftrightarrow> v = rating_value r"
  by (cases r) (auto simp: rating_from_value_def split: if_splits)

section \<open>The derived schedule\<close>

record memory_state =
  ms_stability :: f64
  ms_difficulty :: f64

record schedule_output =
  so_memory :: memory_state
  so_scheduled_days :: f64
  so_next_state :: card_state

type_synonym scheduler =
  "card_state \<Rightarrow> memory_state option \<Rightarrow> f64 \<Rightarrow> rating \<Rightarrow> schedule_output"

text \<open>\<open>(delta as f64 / MILLIS_PER_DAY).max(0.0)\<close>, the constant \<open>0.0\<close>, and
  \<open>(days * MILLIS_PER_DAY) as i64\<close>.\<close>

record day_conv =
  days_of_millis :: "int \<Rightarrow> f64"
  days_zero :: f64
  millis_of_days :: "f64 \<Rightarrow> int"

definition sat_i64 :: "int \<Rightarrow> int" where
  "sat_i64 x = max (- (2 ^ 63)) (min (2 ^ 63 - 1) x)"

record review_log_entry =
  rl_id :: string
  rl_reviewed_at_ms :: int
  rl_rating :: rating

record derived_card =
  dc_state :: card_state
  dc_stability :: "f64 option"
  dc_difficulty :: "f64 option"
  dc_last_reviewed_at_ms :: "int option"
  dc_due_at_ms :: "int option"
  dc_scheduled_days :: "f64 option"
  dc_review_count :: u32
  dc_lapse_count :: u32

definition derived_card_default :: derived_card where
  "derived_card_default =
     \<lparr>dc_state = New, dc_stability = None, dc_difficulty = None, dc_last_reviewed_at_ms = None,
      dc_due_at_ms = None, dc_scheduled_days = None, dc_review_count = 0, dc_lapse_count = 0\<rparr>"

text \<open>The local variables of the loop in \<open>derive_card_state\<close>.\<close>

record fold_state =
  fs_derived :: derived_card
  fs_memory :: "memory_state option"
  fs_state :: card_state
  fs_last_ms :: "int option"
  fs_last_id :: "string option"

definition review_key :: "review_log_entry \<Rightarrow> int \<times> string" where
  "review_key e = (rl_reviewed_at_ms e, rl_id e)"

definition derive_step :: "day_conv \<Rightarrow> scheduler \<Rightarrow> review_log_entry \<Rightarrow> fold_state \<Rightarrow> fold_state" where
  "derive_step dc schedule entry st =
     (if fs_last_id st = Some (rl_id entry) \<and> fs_last_ms st = Some (rl_reviewed_at_ms entry) then st
      else
        let elapsed_days =
              (case fs_last_ms st of None \<Rightarrow> days_zero dc
               | Some prev \<Rightarrow> days_of_millis dc (sat_i64 (rl_reviewed_at_ms entry - prev)));
            output = schedule (fs_state st) (fs_memory st) elapsed_days (rl_rating entry);
            due_delta_ms = millis_of_days dc (so_scheduled_days output);
            d = fs_derived st
        in \<lparr>fs_derived = d\<lparr>dc_scheduled_days := Some (so_scheduled_days output),
                            dc_due_at_ms := Some (sat_i64 (rl_reviewed_at_ms entry + due_delta_ms)),
                            dc_review_count := dc_review_count d + 1,
                            dc_lapse_count := (if rl_rating entry = Again then dc_lapse_count d + 1
                                               else dc_lapse_count d)\<rparr>,
            fs_memory = Some (so_memory output),
            fs_state = so_next_state output,
            fs_last_ms = Some (rl_reviewed_at_ms entry),
            fs_last_id = Some (rl_id entry)\<rparr>)"

definition fold_init :: fold_state where
  "fold_init = \<lparr>fs_derived = derived_card_default, fs_memory = None, fs_state = New,
                fs_last_ms = None, fs_last_id = None\<rparr>"

definition fold_finish :: "fold_state \<Rightarrow> derived_card" where
  "fold_finish st =
     (fs_derived st)\<lparr>dc_state := fs_state st,
       dc_stability := map_option ms_stability (fs_memory st),
       dc_difficulty := map_option ms_difficulty (fs_memory st),
       dc_last_reviewed_at_ms := fs_last_ms st\<rparr>"

definition derive_card_state :: "day_conv \<Rightarrow> scheduler \<Rightarrow> review_log_entry list \<Rightarrow> derived_card" where
  "derive_card_state dc schedule logs =
     fold_finish (fold (derive_step dc schedule) (sort_key review_key logs) fold_init)"

section \<open>Order independence\<close>

text \<open>The id is the primary key of the log table: one id, one entry.\<close>

definition id_determines :: "review_log_entry list \<Rightarrow> bool" where
  "id_determines logs \<longleftrightarrow> (\<forall>e \<in> set logs. \<forall>e' \<in> set logs. rl_id e = rl_id e' \<longrightarrow> e = e')"

definition last_is :: "fold_state \<Rightarrow> review_log_entry \<Rightarrow> bool" where
  "last_is st e \<longleftrightarrow> fs_last_id st = Some (rl_id e) \<and> fs_last_ms st = Some (rl_reviewed_at_ms e)"

lemma last_is_step: "last_is (derive_step dc sch e st) e"
  by (simp add: derive_step_def last_is_def Let_def)

lemma derive_step_skip: "last_is st e \<Longrightarrow> derive_step dc sch e st = st"
  by (simp add: derive_step_def last_is_def)

lemma fold_remdups_adj:
  "fold (derive_step dc sch) (remdups_adj es) st = fold (derive_step dc sch) es st"
proof (induction es arbitrary: st rule: remdups_adj.induct)
  case 1
  then show ?case by simp
next
  case (2 e)
  then show ?case by simp
next
  case (3 e e' es)
  then show ?case by (simp add: derive_step_skip last_is_step)
qed

lemma strictly_sorted_remdups_adj:
  assumes "sorted (map f es)" and "inj_on f (set es)"
  shows "sorted_wrt (<) (map f (remdups_adj es))"
  using assms
proof (induction es rule: remdups_adj.induct)
  case (3 x y xs)
  show ?case
  proof (cases "x = y")
    case True
    with 3 show ?thesis by (simp add: inj_on_def)
  next
    case False
    with "3.prems" have "f x < f y" by (auto simp: inj_on_def less_le)
    moreover have "f y \<le> f z" if "z \<in> set (y # xs)" for z using that "3.prems" by auto
    moreover have "sorted_wrt (<) (map f (remdups_adj (y # xs)))"
      using 3 False by (simp add: inj_on_def)
    ultimately show ?thesis using False by (auto intro: less_le_trans)
  qed
qed simp_all

lemma strictly_sorted_unique:
  fixes f :: "'a \<Rightarrow> 'b::linorder"
  assumes "sorted_wrt (<) (map f xs)" and "sorted_wrt (<) (map f ys)"
    and "set xs = set ys" and "inj_on f (set xs)"
  shows "xs = ys"
proof -
  have "map f xs = map f ys"
    using assms(3) by (intro strict_sorted_equal [OF assms(2,1)]) simp
  then show ?thesis
    using assms(3,4) by (simp add: inj_on_map_eq_map)
qed

lemma review_key_inj: "id_determines logs \<Longrightarrow> inj_on review_key (set logs)"
  by (auto simp: id_determines_def inj_on_def review_key_def)

lemma canonical_logs:
  assumes "id_determines logs"
  shows "sorted_wrt (<) (map review_key (remdups_adj (sort_key review_key logs)))"
    and "set (remdups_adj (sort_key review_key logs)) = set logs"
  using assms review_key_inj [OF assms] by (auto intro!: strictly_sorted_remdups_adj)

lemma derive_card_state_canonical:
  "derive_card_state dc sch logs =
   fold_finish (fold (derive_step dc sch) (remdups_adj (sort_key review_key logs)) fold_init)"
  by (simp add: derive_card_state_def fold_remdups_adj)

lemma derive_same_logs:
  assumes "set logs = set logs'" and "id_determines logs"
  shows "derive_card_state dc schedule logs = derive_card_state dc schedule logs'"
proof -
  have "id_determines logs'" using assms by (simp add: id_determines_def)
  then have "remdups_adj (sort_key review_key logs) = remdups_adj (sort_key review_key logs')"
    using assms canonical_logs review_key_inj
    by (intro strictly_sorted_unique [of review_key]) simp_all
  then show ?thesis by (simp add: derive_card_state_canonical)
qed

text \<open>
  C30. Every device holding the same review logs derives the same card, whatever order they
  arrived in and however often they were delivered, provided an id names one log.
\<close>
theorem derive_converges:
  assumes "set logs = set logs'" and "id_determines logs"
  shows "derive_card_state dc schedule logs = derive_card_state dc schedule logs'"
  using assms by (rule derive_same_logs)

text \<open>A small scheduler with which the witnesses evaluate.\<close>

definition demo_conv :: day_conv where
  "demo_conv = \<lparr>days_of_millis = (\<lambda>ms. F64 (of_int ms)), days_zero = F64 0,
                millis_of_days = (\<lambda>d. uint (bits d))\<rparr>"

definition demo_schedule :: scheduler where
  "demo_schedule st mem elapsed r =
     \<lparr>so_memory = \<lparr>ms_stability = elapsed, ms_difficulty = F64 (ucast (rating_value r))\<rparr>,
      so_scheduled_days = F64 (ucast (rating_value r)),
      so_next_state = (if r = Again then Relearning else Review)\<rparr>"

definition log1 :: review_log_entry where
  "log1 = \<lparr>rl_id = ''a'', rl_reviewed_at_ms = 1000, rl_rating = Good\<rparr>"

definition log2 :: review_log_entry where
  "log2 = \<lparr>rl_id = ''b'', rl_reviewed_at_ms = 500, rl_rating = Again\<rparr>"

lemma demo_ids: "id_determines [log1, log2, log1]"
  by (simp add: id_determines_def log1_def log2_def)

theorem derive_converges_witness:
  "derive_card_state demo_conv demo_schedule [log1, log2, log1] =
   derive_card_state demo_conv demo_schedule [log2, log1]"
  by (rule derive_converges [OF _ demo_ids]) auto

section \<open>What the fold counts\<close>

lemma derive_step_counts:
  "\<not> last_is st e \<Longrightarrow> dc_review_count (fs_derived (derive_step dc sch e st)) = dc_review_count (fs_derived st) + 1"
  "\<not> last_is st e \<Longrightarrow> dc_lapse_count (fs_derived (derive_step dc sch e st)) =
     dc_lapse_count (fs_derived st) + (if rl_rating e = Again then 1 else 0)"
  by (auto simp: derive_step_def last_is_def Let_def)

lemma last_is_determines:
  "last_is st e \<Longrightarrow> last_is st e' \<Longrightarrow> rl_id e = rl_id e'"
  by (simp add: last_is_def)

lemma fold_counts:
  assumes "distinct es" and "id_determines es"
  shows "dc_review_count (fs_derived (fold (derive_step dc sch) es fold_init)) = of_nat (length es)
    \<and> dc_lapse_count (fs_derived (fold (derive_step dc sch) es fold_init)) =
        of_nat (length (filter (\<lambda>e. rl_rating e = Again) es))
    \<and> fs_last_ms (fold (derive_step dc sch) es fold_init) =
        (if es = [] then None else Some (rl_reviewed_at_ms (last es)))
    \<and> (es \<noteq> [] \<longrightarrow> last_is (fold (derive_step dc sch) es fold_init) (last es))"
  using assms
proof (induction es rule: rev_induct)
  case Nil
  then show ?case by (simp add: fold_init_def derived_card_default_def)
next
  case (snoc e es)
  let ?st = "fold (derive_step dc sch) es fold_init"
  have "distinct es" and ids: "id_determines es"
    using snoc.prems by (simp_all add: id_determines_def)
  note IH = snoc.IH [OF this]
  have fresh: "\<not> last_is ?st e"
  proof
    assume l: "last_is ?st e"
    show False
    proof (cases "es = []")
      case True
      with l show False by (simp add: fold_init_def last_is_def)
    next
      case False
      with IH l have "rl_id (last es) = rl_id e" by (blast intro: last_is_determines)
      moreover have "last es \<in> set es" using False by simp
      ultimately have "e \<in> set es"
        using snoc.prems(2) by (auto simp: id_determines_def)
      with snoc.prems(1) show False by simp
    qed
  qed
  have "fs_last_ms (derive_step dc sch e ?st) = Some (rl_reviewed_at_ms e)"
    using last_is_step [of dc sch e ?st] by (simp add: last_is_def)
  with IH fresh show ?case
    by (simp add: derive_step_counts last_is_step add.commute)
qed

lemma length_filter_card: "distinct es \<Longrightarrow> length (filter P es) = card {e \<in> set es. P e}"
  by (metis distinct_card distinct_filter set_filter)

text \<open>
  No review is dropped and none is counted twice: the derived card counts each distinct
  log once (in 32 bits), counts its lapses, and is last reviewed at the latest of their
  times; a card without logs is the new card.
\<close>
theorem derive_counts:
  assumes "id_determines logs"
  shows "dc_review_count (derive_card_state dc schedule logs) = of_nat (card (set logs))
    \<and> dc_lapse_count (derive_card_state dc schedule logs) = of_nat (card {e \<in> set logs. rl_rating e = Again})
    \<and> dc_last_reviewed_at_ms (derive_card_state dc schedule logs) =
        (if logs = [] then None else Some (Max (rl_reviewed_at_ms ` set logs)))
    \<and> (logs = [] \<longrightarrow> derive_card_state dc schedule logs = derived_card_default)"
proof -
  let ?es = "remdups_adj (sort_key review_key logs)"
  have set_es: "set ?es = set logs" by simp
  have sorted: "sorted_wrt (<) (map review_key ?es)"
    by (rule canonical_logs(1) [OF assms])
  then have dist: "distinct ?es"
    using strict_sorted_iff distinct_map by blast
  have ids: "id_determines ?es" using assms by (simp add: id_determines_def)
  note counts = fold_counts [OF dist ids, of dc schedule]
  have last_max: "rl_reviewed_at_ms (last ?es) = Max (rl_reviewed_at_ms ` set logs)" if "logs \<noteq> []"
  proof -
    have ne: "?es \<noteq> []" using that set_es by (metis set_empty)
    then obtain front where es: "?es = front @ [last ?es]" by (metis append_butlast_last_id)
    have "rl_reviewed_at_ms e \<le> rl_reviewed_at_ms (last ?es)" if "e \<in> set ?es" for e
      using sorted that by (subst (asm) es, subst (asm) (2) es)
        (auto simp: sorted_wrt_append review_key_def less_prod_def)
    moreover have "last ?es \<in> set logs"
      using last_in_set [OF ne] set_es by blast
    ultimately show ?thesis
      using set_es by (intro Max_eqI [symmetric]) auto
  qed
  have "length ?es = card (set logs)"
    using distinct_card [OF dist] set_es by simp
  moreover have "length (filter (\<lambda>e. rl_rating e = Again) ?es) = card {e \<in> set logs. rl_rating e = Again}"
    using length_filter_card [OF dist] set_es by simp
  moreover have "?es = [] \<longleftrightarrow> logs = []"
    using set_es by (metis set_empty)
  ultimately show ?thesis
    using counts last_max
    by (simp add: derive_card_state_canonical fold_finish_def)
       (simp add: fold_init_def derived_card_default_def)
qed

theorem derive_counts_witness:
  "dc_review_count (derive_card_state demo_conv demo_schedule [log1, log2, log1]) = 2"
proof -
  have "{log1, log2, log1} = {log1, log2}" and "log1 \<noteq> log2"
    by (auto simp: log1_def log2_def)
  then show ?thesis
    using derive_counts [OF demo_ids, of demo_conv demo_schedule] by simp
qed

end
