(* ===== verification/Canonical.thy ===== *)
theory Canonical
  imports Change_Event Review "HOL-Library.AList"
begin

text \<open>
  The typed entity tables as the sync code reads and writes them: the field map and
  table part of \<^verbatim>\<open>crates/pergamon-storage/src/sync.rs\<close>. A table is an association list
  from row id to row, a row gives every column a value. What the SQLite engine adds to a
  statement is a parameter (\<open>sqlite\<close>): schema defaults, column affinity, the
  constraints a statement's resulting state must meet and the foreign-key actions of a
  delete; so are the textual renderings done by other crates.
\<close>

section \<open>Values and tables\<close>

datatype sql = SqlNull | SqlInt int | SqlReal f64 | SqlText string | SqlBlob string

type_synonym row = "string \<Rightarrow> sql"

record canon =
  tables :: "string \<Rightarrow> (string \<times> row) list"
  item_tags :: "(string \<times> string) set"
  item_collections :: "(string \<times> string) set"

record sqlite =
  col_default :: "string \<Rightarrow> string \<Rightarrow> sql"
  affinity :: "string \<Rightarrow> string \<Rightarrow> sql \<Rightarrow> sql"
  checks_ok :: "canon \<Rightarrow> bool"
  fks_ok :: "canon \<Rightarrow> bool"
  on_delete :: "string \<Rightarrow> string \<Rightarrow> canon \<Rightarrow> canon"
  cast_integer :: "sql \<Rightarrow> int"
  utf8_lossy :: "string \<Rightarrow> string"
  f64_of_u64 :: "u64 \<Rightarrow> f64"
  json_text :: "json \<Rightarrow> string"
  rfc3339_millis :: "string \<Rightarrow> int option"
  millis_rfc3339 :: "int \<Rightarrow> string"

datatype storage_error = SqliteError | Constraint string | Serialization | Generic string

type_synonym 'a sres = "storage_error + 'a"

definition tbl_get :: "canon \<Rightarrow> string \<Rightarrow> string \<Rightarrow> row option" where
  "tbl_get c t i = map_of (tables c t) i"

definition tbl_put :: "string \<Rightarrow> string \<Rightarrow> row \<Rightarrow> canon \<Rightarrow> canon" where
  "tbl_put t i r c = c\<lparr>tables := (tables c)(t := AList.update i r (tables c t))\<rparr>"

definition tbl_delete :: "string \<Rightarrow> string \<Rightarrow> canon \<Rightarrow> canon" where
  "tbl_delete t i c = c\<lparr>tables := (tables c)(t := AList.delete i (tables c t))\<rparr>"

lemma tbl_get_put [simp]:
  "tbl_get (tbl_put t i r c) t' i' = (if t' = t \<and> i' = i then Some r else tbl_get c t' i')"
  by (simp add: tbl_get_def tbl_put_def update_conv')

lemma tbl_get_delete [simp]:
  "tbl_get (tbl_delete t i c) t' i' = (if t' = t \<and> i' = i then None else tbl_get c t' i')"
  by (simp add: tbl_get_def tbl_delete_def delete_conv')

lemma tbl_put_edges [frame, simp]:
  "item_tags (tbl_put t i r c) = item_tags c"
  "item_collections (tbl_put t i r c) = item_collections c"
  by (simp_all add: tbl_put_def)

text \<open>A plain statement fails when the state it would leave violates a constraint; with
  \<open>OR IGNORE\<close> only a foreign-key violation is an error, anything else skips the row.\<close>

definition exec_sql :: "sqlite \<Rightarrow> canon \<Rightarrow> canon sres" where
  "exec_sql q c' = (if checks_ok q c' \<and> fks_ok q c' then Inr c' else Inl SqliteError)"

definition exec_or_ignore :: "sqlite \<Rightarrow> canon \<Rightarrow> canon \<Rightarrow> canon sres" where
  "exec_or_ignore q c c' =
     (if \<not> checks_ok q c' then Inr c else if fks_ok q c' then Inr c' else Inl SqliteError)"

lemma exec_sql_iff [result_iff]: "exec_sql q c = Inr c' \<longleftrightarrow> c' = c \<and> checks_ok q c \<and> fks_ok q c"
  by (auto simp: exec_sql_def)

section \<open>Conversions\<close>

definition is_finite :: "f64 \<Rightarrow> bool" where
  "is_finite f \<longleftrightarrow> (drop_bit 52 (bits f)) mod 2048 \<noteq> 2047"

definition norm_zero :: "f64 \<Rightarrow> f64" where
  "norm_zero f = (if bits f = 0x8000000000000000 then F64 0 else f)"

fun sql_to_json :: "sqlite \<Rightarrow> sql \<Rightarrow> json" where
  "sql_to_json q SqlNull = JNull"
| "sql_to_json q (SqlInt i) = JNum (if i < 0 then NegInt i else PosInt (of_int i))"
| "sql_to_json q (SqlReal f) = (if is_finite f then JNum (Float (norm_zero f)) else JNull)"
| "sql_to_json q (SqlText t) = JStr (utf8_lossy q t)"
| "sql_to_json q (SqlBlob b) = JStr (utf8_lossy q b)"

fun json_to_sql :: "sqlite \<Rightarrow> json \<Rightarrow> sql" where
  "json_to_sql q JNull = SqlNull"
| "json_to_sql q (JBool b) = SqlInt (if b then 1 else 0)"
| "json_to_sql q (JNum (PosInt n)) =
     (if n \<le> i64_max then SqlInt (uint n) else SqlReal (f64_of_u64 q n))"
| "json_to_sql q (JNum (NegInt i)) = SqlInt i"
| "json_to_sql q (JNum (Float f)) = SqlReal f"
| "json_to_sql q (JStr s) = SqlText s"
| "json_to_sql q v = SqlText (json_text q v)"

section \<open>Column vocabulary\<close>

definition DOCUMENT_COLS :: "string list" where
  "DOCUMENT_COLS = [''url'', ''title'', ''author'', ''content_type'', ''status'',
     ''content_text'', ''excerpt'', ''published_at'', ''read_at'']"

definition HIGHLIGHT_COLS :: "string list" where
  "HIGHLIGHT_COLS = [''title'', ''status'', ''quote_text'', ''note'', ''color'',
     ''position_start'', ''position_end'', ''source_item_id'']"

definition REVIEW_CARD_COLS :: "string list" where
  "REVIEW_CARD_COLS = [''content_item_id'', ''state'', ''stability'', ''difficulty'', ''due_at'',
     ''last_reviewed_at'', ''review_count'', ''lapse_count'', ''scheduled_days'']"

definition REVIEW_LOG_COLS :: "string list" where
  "REVIEW_LOG_COLS = [''card_id'', ''rating'', ''state_before'', ''stability_before'',
     ''difficulty_before'', ''state_after'', ''stability_after'', ''difficulty_after'',
     ''elapsed_days'', ''scheduled_days'', ''reviewed_at'']"

fun allowed_columns :: "entity_type \<Rightarrow> string list" where
  "allowed_columns Document = DOCUMENT_COLS"
| "allowed_columns Tag = [''name'']"
| "allowed_columns Collection = [''name'', ''parent_id'', ''sort_order'']"
| "allowed_columns Note = [''content_item_id'', ''body'']"
| "allowed_columns FeedSubscription = [''title'', ''url'', ''site_url'', ''description'', ''folder_id'']"
| "allowed_columns Settings = [''value'']"
| "allowed_columns ReviewCard = REVIEW_CARD_COLS"
| "allowed_columns ReviewLog = REVIEW_LOG_COLS"
| "allowed_columns Highlight = HIGHLIGHT_COLS"
| "allowed_columns TagEdge = []"
| "allowed_columns CollectionEdge = []"

text \<open>The table and NOT NULL defaults of each single-table entity.\<close>

fun table_of :: "entity_type \<Rightarrow> string" where
  "table_of Document = ''content_items''"
| "table_of Highlight = ''content_items''"
| "table_of Tag = ''tags''"
| "table_of Collection = ''collections''"
| "table_of Note = ''notes''"
| "table_of FeedSubscription = ''feeds''"
| "table_of Settings = ''settings''"
| "table_of ReviewCard = ''review_cards''"
| "table_of ReviewLog = ''review_logs''"
| "table_of TagEdge = ''content_item_tags''"
| "table_of CollectionEdge = ''content_item_collections''"

fun insert_defaults :: "entity_type \<Rightarrow> (string \<times> string) list" where
  "insert_defaults Document = [(''title'', ''''), (''content_type'', ''article''), (''status'', ''inbox'')]"
| "insert_defaults Tag = [(''name'', '''')]"
| "insert_defaults Collection = [(''name'', '''')]"
| "insert_defaults Note = [(''body'', '''')]"
| "insert_defaults FeedSubscription = [(''title'', ''''), (''url'', '''')]"
| "insert_defaults Settings = [(''value'', '''')]"
| "insert_defaults ReviewCard = [(''state'', ''new'')]"
| "insert_defaults _ = []"

definition reject_unknown_columns :: "entity_type \<Rightarrow> json smap \<Rightarrow> unit sres" where
  "reject_unknown_columns et fm =
     (case find (\<lambda>k. k \<notin> set (allowed_columns et)) (map fst fm) of
        Some k \<Rightarrow> Inl (Constraint k)
      | None \<Rightarrow> Inr ())"

lemma reject_unknown_columns_iff [result_iff]:
  "reject_unknown_columns et fm = Inr u \<longleftrightarrow> fst ` set fm \<subseteq> set (allowed_columns et)"
proof (cases "find (\<lambda>k. k \<notin> set (allowed_columns et)) (map fst fm)")
  case None
  then have "\<forall>k \<in> fst ` set fm. k \<in> set (allowed_columns et)"
    by (simp add: find_None_iff)
  with None show ?thesis by (auto simp: reject_unknown_columns_def)
next
  case (Some k)
  then have "k \<in> fst ` set fm" and "k \<notin> set (allowed_columns et)"
    by (auto simp: find_Some_iff image_iff in_set_conv_nth) (metis fst_conv nth_mem)
  with Some show ?thesis by (auto simp: reject_unknown_columns_def)
qed

section \<open>Reading rows\<close>

definition row_fields :: "sqlite \<Rightarrow> string list \<Rightarrow> row \<Rightarrow> json smap" where
  "row_fields q cols r = fold (\<lambda>col m. smap_insert col (sql_to_json q (r col)) m) cols []"

definition read_columns :: "sqlite \<Rightarrow> canon \<Rightarrow> string \<Rightarrow> string \<Rightarrow> string list \<Rightarrow> json smap option" where
  "read_columns q c t i cols = map_option (row_fields q cols) (tbl_get c t i)"

definition read_highlight :: "sqlite \<Rightarrow> canon \<Rightarrow> string \<Rightarrow> json smap option" where
  "read_highlight q c i =
     (case (tbl_get c ''content_items'' i, tbl_get c ''highlight_meta'' i) of
        (Some ci, Some hm) \<Rightarrow>
          Some (row_fields q HIGHLIGHT_COLS
            (\<lambda>col. if col = ''title'' \<or> col = ''status'' then ci col else hm col))
      | _ \<Rightarrow> None)"

definition read_entity_fields :: "sqlite \<Rightarrow> canon \<Rightarrow> entity_type \<Rightarrow> string \<Rightarrow> json smap option" where
  "read_entity_fields q c et i =
     (if et = Highlight then read_highlight q c i
      else if is_edge et then None
      else read_columns q c (table_of et) i (allowed_columns et))"

section \<open>Writing rows\<close>

text \<open>The columns of an UPDATE, in map order; each value passes the column's affinity.\<close>

definition set_columns :: "sqlite \<Rightarrow> string \<Rightarrow> json smap \<Rightarrow> row \<Rightarrow> row" where
  "set_columns q t fm r =
     fold (\<lambda>(col, v) r. r(col := affinity q t col (json_to_sql q v))) fm r"

definition new_row :: "sqlite \<Rightarrow> string \<Rightarrow> json smap \<Rightarrow> (string \<times> string) list \<Rightarrow> row" where
  "new_row q t fm defaults =
     set_columns q t fm
       (fold (\<lambda>(col, d) r. if smap_get fm col = None then r(col := affinity q t col (SqlText d)) else r)
          defaults (col_default q t))"

definition upsert_single ::
  "sqlite \<Rightarrow> string \<Rightarrow> string \<Rightarrow> json smap \<Rightarrow> (string \<times> string) list \<Rightarrow> canon \<Rightarrow> canon sres" where
  "upsert_single q t i fm defaults c =
     (case tbl_get c t i of
        Some r \<Rightarrow> if fm \<noteq> [] then exec_sql q (tbl_put t i (set_columns q t fm r) c) else Inr c
      | None \<Rightarrow> exec_sql q (tbl_put t i (new_row q t fm defaults) c))"

definition insert_append_only ::
  "sqlite \<Rightarrow> string \<Rightarrow> string \<Rightarrow> json smap \<Rightarrow> (string \<times> string) list \<Rightarrow> canon \<Rightarrow> canon sres" where
  "insert_append_only q t i fm defaults c =
     (case tbl_get c t i of
        Some _ \<Rightarrow> Inr c
      | None \<Rightarrow> exec_or_ignore q c (tbl_put t i (new_row q t fm defaults) c))"

definition str_field :: "json smap \<Rightarrow> string \<Rightarrow> string \<Rightarrow> string" where
  "str_field fm k d = (case Option.bind (smap_get fm k) as_str of Some s \<Rightarrow> s | None \<Rightarrow> d)"

text \<open>The \<open>content_items\<close> shell: both its columns are always written, from the field map
  or from the fixed fallbacks.\<close>

definition highlight_shell :: "sqlite \<Rightarrow> string \<Rightarrow> json smap \<Rightarrow> canon \<Rightarrow> canon" where
  "highlight_shell q i fm c =
     (let t = ''content_items'';
          title = affinity q t ''title'' (SqlText (str_field fm ''title'' []));
          status = affinity q t ''status'' (SqlText (str_field fm ''status'' ''inbox''))
      in case tbl_get c t i of
           Some r \<Rightarrow> tbl_put t i (r(''title'' := title, ''status'' := status)) c
         | None \<Rightarrow> tbl_put t i ((col_default q t)(''title'' := title,
                     ''content_type'' := affinity q t ''content_type'' (SqlText ''highlight''),
                     ''status'' := status)) c)"

definition highlight_annotation :: "sqlite \<Rightarrow> string \<Rightarrow> json smap \<Rightarrow> canon \<Rightarrow> canon" where
  "highlight_annotation q i fm c =
     (let t = ''highlight_meta'';
          meta = smap_remove ''status'' (smap_remove ''title'' fm)
      in case tbl_get c t i of
           Some r \<Rightarrow> tbl_put t i (set_columns q t meta r) c
         | None \<Rightarrow> tbl_put t i (new_row q t meta [(''quote_text'', [])]) c)"

definition upsert_highlight :: "sqlite \<Rightarrow> string \<Rightarrow> json smap \<Rightarrow> canon \<Rightarrow> canon sres" where
  "upsert_highlight q i fm c =
     bindR (exec_sql q (highlight_shell q i fm c))
       (\<lambda>c1. exec_sql q (highlight_annotation q i fm c1))"

definition delete_entity_row :: "sqlite \<Rightarrow> entity_type \<Rightarrow> string \<Rightarrow> canon \<Rightarrow> canon sres" where
  "delete_entity_row q et i c =
     (if et = ReviewLog \<or> is_edge et then Inr c
      else if tbl_get c (table_of et) i = None then Inr c
      else exec_sql q (on_delete q (table_of et) i (tbl_delete (table_of et) i c)))"

definition write_entity_fields ::
  "sqlite \<Rightarrow> entity_type \<Rightarrow> string \<Rightarrow> json smap \<Rightarrow> op \<Rightarrow> canon \<Rightarrow> canon sres" where
  "write_entity_fields q et i fm oper c =
     (if oper = Delete then delete_entity_row q et i c
      else bindR (reject_unknown_columns et fm) (\<lambda>_.
        if et = ReviewLog then insert_append_only q (table_of et) i fm (insert_defaults et) c
        else if et = Highlight then upsert_highlight q i fm c
        else if is_edge et then Inr c
        else upsert_single q (table_of et) i fm (insert_defaults et) c))"

section \<open>Membership edges\<close>

definition split_edge_id :: "string \<Rightarrow> (string \<times> string) sres" where
  "split_edge_id edge_id =
     (case split_once (CHR '':'') edge_id of
        None \<Rightarrow> Inl (Generic ''malformed edge id'')
      | Some p \<Rightarrow> Inr p)"

definition apply_edge_membership ::
  "sqlite \<Rightarrow> entity_type \<Rightarrow> string \<Rightarrow> bool \<Rightarrow> canon \<Rightarrow> canon sres" where
  "apply_edge_membership q et i present c =
     bindR (split_edge_id i) (\<lambda>p.
       case et of
         TagEdge \<Rightarrow>
           (if \<not> present then exec_sql q (c\<lparr>item_tags := item_tags c - {p}\<rparr>)
            else if p \<in> item_tags c then Inr c
            else exec_or_ignore q c (c\<lparr>item_tags := insert p (item_tags c)\<rparr>))
       | CollectionEdge \<Rightarrow>
           (if \<not> present then exec_sql q (c\<lparr>item_collections := item_collections c - {p}\<rparr>)
            else if p \<in> item_collections c then Inr c
            else exec_or_ignore q c (c\<lparr>item_collections := insert p (item_collections c)\<rparr>))
       | _ \<Rightarrow> Inl (Generic ''apply_edge_membership called with a non-edge entity''))"

section \<open>What a write may change\<close>

lemma set_columns_other: "col \<notin> fst ` set fm \<Longrightarrow> set_columns q t fm r col = r col"
  unfolding set_columns_def by (induction fm arbitrary: r) auto

lemma set_columns_Nil [simp]: "set_columns q t [] r = r"
  by (simp add: set_columns_def)

lemma set_columns_Cons:
  "set_columns q t ((k, v) # fm) r = set_columns q t fm (r(k := affinity q t k (json_to_sql q v)))"
  by (simp add: set_columns_def)

lemma set_columns_get:
  "wf_smap fm \<Longrightarrow> smap_get fm col = Some v \<Longrightarrow>
   set_columns q t fm r col = affinity q t col (json_to_sql q v)"
proof (induction fm arbitrary: r)
  case Nil
  then show ?case by simp
next
  case (Cons p fm)
  obtain k v' where p: "p = (k, v')" by (cases p)
  show ?case
  proof (cases "k = col")
    case True
    with Cons.prems p have "col \<notin> fst ` set fm" and "v' = v" by auto
    with True p show ?thesis by (simp add: set_columns_Cons set_columns_other)
  next
    case False
    with Cons p show ?thesis by (simp add: set_columns_Cons)
  qed
qed

text \<open>
  The column allowlist is closed against a hostile peer: a create or patch that names any
  column outside the entity's fixed vocabulary is refused with the offending name, before
  any statement is built from it.
\<close>
theorem unknown_columns_refused:
  assumes "oper \<noteq> Delete" and "\<not> fst ` set fm \<subseteq> set (allowed_columns et)"
  shows "\<exists>k \<in> fst ` set fm. k \<notin> set (allowed_columns et)
           \<and> write_entity_fields q et i fm oper c = Inl (Constraint k)"
proof -
  have "find (\<lambda>k. k \<notin> set (allowed_columns et)) (map fst fm) \<noteq> None"
    using assms(2) by (auto simp: find_None_iff)
  then obtain k where k: "find (\<lambda>k. k \<notin> set (allowed_columns et)) (map fst fm) = Some k"
    by auto
  then have "k \<in> fst ` set fm" and "k \<notin> set (allowed_columns et)"
    by (auto simp: find_Some_iff image_iff in_set_conv_nth) (metis fst_conv nth_mem)
  with k assms(1) show ?thesis
    by (intro bexI [of _ k]) (simp_all add: write_entity_fields_def reject_unknown_columns_def)
qed

text \<open>A permissive engine for the witnesses: no schema defaults, no coercions, no constraints.\<close>

definition demo_sqlite :: sqlite where
  "demo_sqlite = \<lparr>col_default = (\<lambda>_ _. SqlNull), affinity = (\<lambda>_ _ v. v), checks_ok = (\<lambda>_. True),
     fks_ok = (\<lambda>_. True), on_delete = (\<lambda>_ _ c. c), cast_integer = (\<lambda>v. case v of SqlInt i \<Rightarrow> i | _ \<Rightarrow> 0),
     utf8_lossy = (\<lambda>s. s), f64_of_u64 = F64, json_text = (\<lambda>v. case v of JStr s \<Rightarrow> s | _ \<Rightarrow> []),
     rfc3339_millis = (\<lambda>_. None), millis_rfc3339 = (\<lambda>_. [])\<rparr>"

definition empty_canon :: canon where
  "empty_canon = \<lparr>tables = (\<lambda>_. []), item_tags = {}, item_collections = {}\<rparr>"

lemma demo_sqlite_simps [simp]:
  "col_default demo_sqlite t col = SqlNull" "affinity demo_sqlite t col v = v"
  "checks_ok demo_sqlite c" "fks_ok demo_sqlite c" "on_delete demo_sqlite t i c = c"
  "utf8_lossy demo_sqlite s = s" "json_text demo_sqlite (JStr s) = s"
  by (simp_all add: demo_sqlite_def)

theorem unknown_columns_refused_witness:
  "write_entity_fields demo_sqlite Tag ''t1'' [(''name, id'', JStr ''x'')] FieldPatch empty_canon
   = Inl (Constraint ''name, id'')"
  using unknown_columns_refused
    [of FieldPatch "[(''name, id'', JStr ''x'')]" Tag demo_sqlite "''t1''" empty_canon]
  by simp

definition single_table :: "entity_type \<Rightarrow> bool" where
  "single_table et \<longleftrightarrow> et \<noteq> Highlight \<and> et \<noteq> ReviewLog \<and> \<not> is_edge et"

lemma write_single:
  "oper \<noteq> Delete \<Longrightarrow> single_table et \<Longrightarrow>
   write_entity_fields q et i fm oper c =
   bindR (reject_unknown_columns et fm) (\<lambda>_. upsert_single q (table_of et) i fm (insert_defaults et) c)"
  by (simp add: write_entity_fields_def single_table_def)

text \<open>
  A field patch of an existing row of a single-table entity writes the given columns, with
  the value the column's affinity makes of them, and leaves every other column of the
  row, every other row and the membership tables alone.
\<close>
theorem patch_writes_only_its_fields:
  assumes "single_table et" and "oper \<noteq> Delete" and "wf_smap fm"
    and "tbl_get c (table_of et) i = Some r"
    and "write_entity_fields q et i fm oper c = Inr c'"
  shows "\<exists>r'. tbl_get c' (table_of et) i = Some r'
      \<and> (\<forall>col. r' col = (case smap_get fm col of
             Some v \<Rightarrow> affinity q (table_of et) col (json_to_sql q v) | None \<Rightarrow> r col))
      \<and> (\<forall>t' i'. (t', i') \<noteq> (table_of et, i) \<longrightarrow> tbl_get c' t' i' = tbl_get c t' i')
      \<and> item_tags c' = item_tags c \<and> item_collections c' = item_collections c"
proof -
  have c': "c' = (if fm = [] then c else tbl_put (table_of et) i (set_columns q (table_of et) fm r) c)"
    using assms by (auto simp: write_single upsert_single_def result_iff split: if_splits)
  have "set_columns q (table_of et) fm r col = (case smap_get fm col of
          Some v \<Rightarrow> affinity q (table_of et) col (json_to_sql q v) | None \<Rightarrow> r col)" for col
  proof (cases "smap_get fm col")
    case None
    then have "col \<notin> fst ` set fm" by (simp add: smap_get_None_iff)
    with None show ?thesis by (simp add: set_columns_other)
  next
    case (Some v)
    with assms(3) show ?thesis by (simp add: set_columns_get)
  qed
  with assms(4) c' show ?thesis by (cases "fm = []") auto
qed

theorem patch_writes_only_its_fields_witness:
  "\<exists>c'. write_entity_fields demo_sqlite Tag ''t1'' [(''name'', JStr ''b'')] FieldPatch
      (tbl_put ''tags'' ''t1'' (\<lambda>_. SqlNull) empty_canon) = Inr c'
    \<and> (\<exists>r'. tbl_get c' ''tags'' ''t1'' = Some r' \<and> r' ''name'' = SqlText ''b'')"
proof -
  let ?c = "tbl_put ''tags'' ''t1'' (\<lambda>_. SqlNull) empty_canon"
  obtain c' where w: "write_entity_fields demo_sqlite Tag ''t1'' [(''name'', JStr ''b'')] FieldPatch ?c = Inr c'"
    by (simp add: write_single single_table_def is_edge_def upsert_single_def
        exec_sql_def reject_unknown_columns_def)
  show ?thesis
    using patch_writes_only_its_fields [OF _ _ _ _ w, of "\<lambda>_. SqlNull"] w
    by (auto simp: single_table_def is_edge_def)
qed

text \<open>
  A highlight is the exception: writing a field map that carries no title and no status
  (such as the one-field patches the pull side writes) overwrites both columns of an
  existing highlight with the fallbacks, the empty title and \<open>inbox\<close>.
\<close>
theorem highlight_patch_resets_shell:
  assumes "write_entity_fields q Highlight i fm oper c = Inr c'" and "oper \<noteq> Delete"
    and "tbl_get c ''content_items'' i = Some r"
    and "smap_get fm ''title'' = None" and "smap_get fm ''status'' = None"
  shows "\<exists>r'. tbl_get c' ''content_items'' i = Some r'
      \<and> r' ''title'' = affinity q ''content_items'' ''title'' (SqlText [])
      \<and> r' ''status'' = affinity q ''content_items'' ''status'' (SqlText ''inbox'')"
  using assms
  by (auto simp: write_entity_fields_def result_iff upsert_highlight_def highlight_shell_def
      highlight_annotation_def str_field_def Let_def split: option.splits)

theorem highlight_patch_resets_shell_witness:
  "\<exists>c' r'. write_entity_fields demo_sqlite Highlight ''h'' [(''color'', JStr ''red'')] FieldPatch
      (tbl_put ''content_items'' ''h'' (\<lambda>_. SqlText ''old'') empty_canon) = Inr c'
    \<and> tbl_get c' ''content_items'' ''h'' = Some r' \<and> r' ''title'' = SqlText []"
proof -
  let ?c = "tbl_put ''content_items'' ''h'' (\<lambda>_. SqlText ''old'') empty_canon"
  obtain c' where w: "write_entity_fields demo_sqlite Highlight ''h'' [(''color'', JStr ''red'')] FieldPatch ?c = Inr c'"
    by (simp add: write_entity_fields_def reject_unknown_columns_def HIGHLIGHT_COLS_def
        upsert_highlight_def exec_sql_def)
  show ?thesis
    using highlight_patch_resets_shell [OF w, of "\<lambda>_. SqlText ''old''"] w by auto
qed

end
