(* ===== verification/Convergence.thy ===== *)
theory Convergence
  imports Prelude
begin

text \<open>
  The contract between a replicated data structure and the devices that fold events into
  it: an event is a state transformer, applying an event twice is applying it once, and
  two events that may meet (\<open>compat\<close>) commute. What the client gets is independence of
  the order and multiplicity of delivery. The set edges and the last-writer-wins cells
  of \<^verbatim>\<open>sync/merge.rs\<close> and the relay's stores interpret it.
\<close>

locale replicated =
  fixes step :: "'op \<Rightarrow> 's \<Rightarrow> 's"
    and compat :: "'op \<Rightarrow> 'op \<Rightarrow> bool"
  assumes step_comm: "compat a b \<Longrightarrow> step a (step b s) = step b (step a s)"
    and step_idem: "step a (step a s) = step a s"
begin

lemma fold_step_comm:
  "(\<And>y. y \<in> set xs \<Longrightarrow> compat x y) \<Longrightarrow> fold step xs (step x s) = step x (fold step xs s)"
proof (induction xs arbitrary: s)
  case Nil
  then show ?case by simp
next
  case (Cons y xs)
  have "compat x y" by (simp add: Cons.prems)
  then have "step y (step x s) = step x (step y s)"
    by (rule step_comm [symmetric])
  with Cons show ?case by simp
qed

lemma fold_fold_comm:
  "(\<And>x y. x \<in> set xs \<Longrightarrow> y \<in> set ys \<Longrightarrow> compat x y) \<Longrightarrow>
   fold step xs (fold step ys s) = fold step ys (fold step xs s)"
proof (induction xs arbitrary: s)
  case Nil
  then show ?case by simp
next
  case (Cons x xs)
  then have "step x (fold step ys s) = fold step ys (step x s)"
    by (simp add: fold_step_comm)
  with Cons show ?case by simp
qed

lemma fold_absorb_one:
  assumes "x \<in> set ys" and "\<And>y. y \<in> set ys \<Longrightarrow> compat x y"
  shows "step x (fold step ys s) = fold step ys s"
proof -
  obtain as bs where ys: "ys = as @ x # bs" using assms(1) by (meson split_list)
  have "fold step ys s = fold step bs (step x (fold step as s))"
    by (simp add: ys)
  also have "\<dots> = step x (fold step bs (fold step as s))"
    using assms(2) by (intro fold_step_comm) (simp add: ys)
  finally show ?thesis by (simp add: step_idem)
qed

lemma fold_absorb:
  "set xs \<subseteq> set ys \<Longrightarrow> (\<And>x y. x \<in> set ys \<Longrightarrow> y \<in> set ys \<Longrightarrow> compat x y) \<Longrightarrow>
   fold step xs (fold step ys s) = fold step ys s"
  by (induction xs) (auto simp: fold_absorb_one)

lemma order_independent:
  assumes "set xs = set ys"
    and "\<And>x y. x \<in> set xs \<Longrightarrow> y \<in> set xs \<Longrightarrow> compat x y"
  shows "fold step xs s = fold step ys s"
proof -
  have "fold step xs s = fold step ys (fold step xs s)"
    using assms by (intro fold_absorb [symmetric]) auto
  also have "\<dots> = fold step xs (fold step ys s)"
    using assms by (intro fold_fold_comm) auto
  also have "\<dots> = fold step ys s"
    using assms by (intro fold_absorb) auto
  finally show ?thesis .
qed

end

end
