(* ===== verification/Merge.thy ===== *)
theory Merge
  imports Change_Event Convergence
begin

text \<open>
  The conflict policy of \<^verbatim>\<open>crates/pergamon-core/src/sync/merge.rs\<close>: the strategy
  table, the single-field merge (last writer wins, conflict copy) and the
  observed-remove member of a membership edge. Values are compared only for equality,
  so the merge is generic in them, as the code's is in the shape of its JSON values.
\<close>

section \<open>Strategies\<close>

datatype conflict_strategy = Lww | SetUnionTombstone | DerivedMerge | ConflictCopy

fun strategy_for :: "entity_type \<Rightarrow> string \<Rightarrow> conflict_strategy" where
  "strategy_for Document field =
     (if field = ''content_text'' \<or> field = ''body'' \<or> field = ''notes'' then ConflictCopy else Lww)"
| "strategy_for Tag field = Lww"
| "strategy_for Collection field = Lww"
| "strategy_for TagEdge field = SetUnionTombstone"
| "strategy_for CollectionEdge field = SetUnionTombstone"
| "strategy_for Highlight field = (if field = ''note'' then ConflictCopy else Lww)"
| "strategy_for Note field = (if field = ''body'' then ConflictCopy else Lww)"
| "strategy_for ReviewCard field = (if field = ''enabled'' then Lww else DerivedMerge)"
| "strategy_for ReviewLog field = Lww"
| "strategy_for FeedSubscription field = Lww"
| "strategy_for Settings field = Lww"

section \<open>Merging one field\<close>

record 'v field_merge =
  fm_local :: "('v \<times> hlc) option"
  fm_incoming_value :: 'v
  fm_incoming_clock :: hlc
  fm_base_version :: "hlc option"

datatype 'v merge_decision =
    KeepLocal
  | TakeIncoming
  | KeepBoth (winner: 'v) (winner_clock: hlc) (loser: 'v) (loser_clock: hlc)

definition merge_lww :: "'v field_merge \<Rightarrow> 'v merge_decision" where
  "merge_lww m =
     (case fm_local m of
        None \<Rightarrow> TakeIncoming
      | Some (_, local_clock) \<Rightarrow>
          if fm_incoming_clock m > local_clock then TakeIncoming else KeepLocal)"

definition merge_conflict_copy :: "'v field_merge \<Rightarrow> 'v merge_decision" where
  "merge_conflict_copy m =
     (case fm_local m of
        None \<Rightarrow> TakeIncoming
      | Some (local_value, local_clock) \<Rightarrow>
          if local_value = fm_incoming_value m
          then (if fm_incoming_clock m > local_clock then TakeIncoming else KeepLocal)
          else if fm_base_version m = Some local_clock then TakeIncoming
          else if fm_incoming_clock m > local_clock
          then KeepBoth (fm_incoming_value m) (fm_incoming_clock m) local_value local_clock
          else KeepBoth local_value local_clock (fm_incoming_value m) (fm_incoming_clock m))"

definition merge_field :: "conflict_strategy \<Rightarrow> 'v field_merge \<Rightarrow> 'v merge_decision" where
  "merge_field strategy m =
     (case strategy of ConflictCopy \<Rightarrow> merge_conflict_copy m | _ \<Rightarrow> merge_lww m)"

text \<open>
  What a decision leaves behind, as \<open>apply_fields\<close> carries it out: the live cell and the
  values put in the conflict inbox.
\<close>

fun live_after :: "'v field_merge \<Rightarrow> 'v merge_decision \<Rightarrow> ('v \<times> hlc) option" where
  "live_after m KeepLocal = fm_local m"
| "live_after m TakeIncoming = Some (fm_incoming_value m, fm_incoming_clock m)"
| "live_after m (KeepBoth w wc l lc) = Some (w, wc)"

fun inbox_after :: "'v merge_decision \<Rightarrow> ('v \<times> hlc) list" where
  "inbox_after (KeepBoth w wc l lc) = [(l, lc)]"
| "inbox_after _ = []"

definition kept_values :: "'v field_merge \<Rightarrow> 'v merge_decision \<Rightarrow> 'v set" where
  "kept_values m d = fst ` (set_option (live_after m d) \<union> set (inbox_after d))"

lemma merge_field_lww:
  "strategy \<noteq> ConflictCopy \<Longrightarrow> merge_field strategy m = merge_lww m"
  by (cases strategy) (simp_all add: merge_field_def)

lemma merge_field_conflict_copy: "merge_field ConflictCopy m = merge_conflict_copy m"
  by (simp add: merge_field_def)

text \<open>
  C20. Authored prose is never silently dropped: a conflict-copy merge keeps the incoming
  value and the local value, live or in the conflict inbox, unless the writer had edited
  exactly the version held (then the local value is superseded); and it records a
  conflict only for two different values, the live one being the one with the greater
  stamp.
\<close>
theorem conflict_copy_keeps_prose:
  assumes "fm_local m = Some (v, c)"
  shows "fm_incoming_value m \<in> kept_values m (merge_field ConflictCopy m)
    \<and> (v \<in> kept_values m (merge_field ConflictCopy m) \<or> fm_base_version m = Some c)
    \<and> (\<forall>w wc l lc. merge_field ConflictCopy m = KeepBoth w wc l lc \<longrightarrow> w \<noteq> l \<and> lc \<le> wc
          \<and> {(w, wc), (l, lc)} = {(v, c), (fm_incoming_value m, fm_incoming_clock m)})"
  using assms
  by (auto simp: merge_field_conflict_copy merge_conflict_copy_def kept_values_def not_less
      split: if_splits)

theorem conflict_copy_keeps_prose_witness:
  "''mine'' \<in> kept_values
     \<lparr>fm_local = Some (''mine'', Hlc 5 0 ''a''), fm_incoming_value = ''theirs'',
      fm_incoming_clock = Hlc 9 0 ''b'', fm_base_version = Some (Hlc 1 0 ''a'')\<rparr>
     (merge_field ConflictCopy
     \<lparr>fm_local = Some (''mine'', Hlc 5 0 ''a''), fm_incoming_value = ''theirs'',
      fm_incoming_clock = Hlc 9 0 ''b'', fm_base_version = Some (Hlc 1 0 ''a'')\<rparr>)"
  using conflict_copy_keeps_prose
    [of "\<lparr>fm_local = Some (''mine'', Hlc 5 0 ''a''), fm_incoming_value = ''theirs'',
      fm_incoming_clock = Hlc 9 0 ''b'', fm_base_version = Some (Hlc 1 0 ''a'')\<rparr>"
      "''mine''" "Hlc 5 0 ''a''"]
  by simp

section \<open>Last writer wins as a replicated cell\<close>

text \<open>One delivery of a write \<open>(value, clock)\<close> to a cell under \<open>merge_lww\<close>.\<close>

definition lww_deliver :: "'v \<times> hlc \<Rightarrow> ('v \<times> hlc) option \<Rightarrow> ('v \<times> hlc) option" where
  "lww_deliver w cell =
     (let m = \<lparr>fm_local = cell, fm_incoming_value = fst w, fm_incoming_clock = snd w,
               fm_base_version = None\<rparr>
      in live_after m (merge_field Lww m))"

definition lww_compat :: "'v \<times> hlc \<Rightarrow> 'v \<times> hlc \<Rightarrow> bool" where
  "lww_compat w w' \<longleftrightarrow> (snd w = snd w' \<longrightarrow> fst w = fst w')"

lemma lww_deliver_simps [simp]:
  "lww_deliver w None = Some w"
  "lww_deliver w (Some (v, c)) = (if c < snd w then Some w else Some (v, c))"
  by (simp_all add: lww_deliver_def merge_field_lww merge_lww_def)

interpretation lww: replicated lww_deliver lww_compat
proof unfold_locales
  fix a b :: "'v \<times> hlc" and s :: "('v \<times> hlc) option"
  assume "lww_compat a b"
  then show "lww_deliver a (lww_deliver b s) = lww_deliver b (lww_deliver a s)"
    by (cases s; cases a; cases b) (auto simp: lww_compat_def)
next
  fix a :: "'v \<times> hlc" and s :: "('v \<times> hlc) option"
  show "lww_deliver a (lww_deliver a s) = lww_deliver a s"
    by (cases s; cases a) auto
qed

lemma lww_fold_clock:
  assumes "fold lww_deliver ws cell = Some (v, c)"
  shows "(\<forall>w \<in> set ws. snd w \<le> c) \<and> (\<forall>v' c'. cell = Some (v', c') \<longrightarrow> c' \<le> c)
    \<and> ((v, c) \<in> set ws \<or> cell = Some (v, c))"
  using assms
proof (induction ws arbitrary: cell)
  case Nil
  then show ?case by simp
next
  case (Cons w ws)
  note IH = Cons.IH [of "lww_deliver w cell"]
  show ?case
  proof (cases cell)
    case None
    with Cons.prems IH show ?thesis by (cases w) auto
  next
    case (Some p)
    with Cons.prems IH show ?thesis
      by (cases w; cases p) (auto simp: not_less split: if_splits)
  qed
qed

text \<open>
  A last-writer-wins field converges: delivering the same writes in any order and any
  number of times, with equal stamps only on equal values, gives the same cell on every
  device, and that cell holds a write whose stamp no delivered write exceeds.
\<close>
theorem lww_converges:
  assumes "set ws = set ws'" and "\<And>w w'. w \<in> set ws \<Longrightarrow> w' \<in> set ws \<Longrightarrow> lww_compat w w'"
  shows "fold lww_deliver ws cell = fold lww_deliver ws' cell
    \<and> (\<forall>v c. fold lww_deliver ws None = Some (v, c) \<longrightarrow> (v, c) \<in> set ws \<and> (\<forall>w \<in> set ws. snd w \<le> c))"
  using lww.order_independent [OF assms] lww_fold_clock [of ws None] by blast

theorem lww_converges_witness:
  "fold lww_deliver [(''x'', Hlc 1 0 ''a''), (''y'', Hlc 2 0 ''b'')] None
   = fold lww_deliver [(''y'', Hlc 2 0 ''b''), (''x'', Hlc 1 0 ''a''), (''y'', Hlc 2 0 ''b'')] None"
proof -
  let ?ws = "[(''x'', Hlc 1 0 ''a''), (''y'', Hlc 2 0 ''b'')]"
  have c: "lww_compat w w'" if "w \<in> set ?ws" and "w' \<in> set ?ws" for w w'
    using that by (auto simp: lww_compat_def)
  show ?thesis
    using lww_converges [of ?ws "[(''y'', Hlc 2 0 ''b''), (''x'', Hlc 1 0 ''a''), (''y'', Hlc 2 0 ''b'')]" None, OF _ c]
    by (simp add: insert_commute)
qed

section \<open>Observed-remove set members\<close>

record set_member =
  add_clock :: "hlc option"
  remove_clock :: "hlc option"

definition set_member_default :: set_member where
  "set_member_default = \<lparr>add_clock = None, remove_clock = None\<rparr>"

definition is_present :: "set_member \<Rightarrow> bool" where
  "is_present m =
     (case (add_clock m, remove_clock m) of
        (None, _) \<Rightarrow> False
      | (Some _, None) \<Rightarrow> True
      | (Some add, Some remove) \<Rightarrow> add > remove)"

record set_merge_outcome =
  smo_member :: set_member
  smo_present :: bool

text \<open>The update of the chosen slot: kept when it already holds a stamp at least as great.\<close>

definition slot_update :: "hlc option \<Rightarrow> hlc \<Rightarrow> hlc option" where
  "slot_update slot clock =
     (case slot of Some existing \<Rightarrow> if clock \<le> existing then slot else Some clock
      | None \<Rightarrow> Some clock)"

definition merge_set_member :: "set_member \<Rightarrow> bool \<Rightarrow> hlc \<Rightarrow> set_merge_outcome" where
  "merge_set_member local incoming_is_add incoming_clock =
     (let member =
        (if incoming_is_add
         then local\<lparr>add_clock := slot_update (add_clock local) incoming_clock\<rparr>
         else local\<lparr>remove_clock := slot_update (remove_clock local) incoming_clock\<rparr>)
      in \<lparr>smo_member = member, smo_present = is_present member\<rparr>)"

definition deliver_edge :: "bool \<times> hlc \<Rightarrow> set_member \<Rightarrow> set_member" where
  "deliver_edge e m = smo_member (merge_set_member m (fst e) (snd e))"

lemma deliver_edge_simps [simp]:
  "deliver_edge (True, c) m = m\<lparr>add_clock := slot_update (add_clock m) c\<rparr>"
  "deliver_edge (False, c) m = m\<lparr>remove_clock := slot_update (remove_clock m) c\<rparr>"
  by (simp_all add: deliver_edge_def merge_set_member_def Let_def)

lemma slot_update_comm: "slot_update (slot_update s a) b = slot_update (slot_update s b) a"
  by (cases s) (auto simp: slot_update_def)

lemma slot_update_idem: "slot_update (slot_update s a) a = slot_update s a"
  by (cases s) (auto simp: slot_update_def)

interpretation edge: replicated deliver_edge "\<lambda>_ _. True"
  by unfold_locales
     (auto simp: deliver_edge_def merge_set_member_def Let_def slot_update_comm slot_update_idem)

lemma set_member_eqI:
  "add_clock m = add_clock m' \<Longrightarrow> remove_clock m = remove_clock m' \<Longrightarrow> m = (m' :: set_member)"
  by (cases m; cases m') simp

text \<open>The greatest stamp of a set of deliveries, if any: what a slot means.\<close>

definition greatest :: "hlc set \<Rightarrow> hlc option" where
  "greatest S = (if S = {} then None else Some (Max S))"

lemma slot_update_greatest:
  "finite S \<Longrightarrow> slot_update (greatest S) c = greatest (insert c S)"
  by (auto simp: slot_update_def greatest_def max_def)

lemma fold_edge_greatest:
  "finite A \<Longrightarrow> finite R \<Longrightarrow>
   fold deliver_edge es \<lparr>add_clock = greatest A, remove_clock = greatest R\<rparr> =
   \<lparr>add_clock = greatest (A \<union> {c. (True, c) \<in> set es}),
    remove_clock = greatest (R \<union> {c. (False, c) \<in> set es})\<rparr>"
proof (induction es arbitrary: A R)
  case Nil
  then show ?case by simp
next
  case (Cons e es)
  have ins [simp]: "insert x S \<union> T = S \<union> insert x T" for x :: hlc and S T by blast
  obtain b c where e: "e = (b, c)" by (cases e)
  have "{x. x = c \<or> (d, x) \<in> set es} = insert c {x. (d, x) \<in> set es}" for d by auto
  with Cons e show ?case
    by (cases b) (simp_all add: slot_update_greatest ins)
qed

lemma fold_edge_default:
  "fold deliver_edge es set_member_default =
   \<lparr>add_clock = greatest {c. (True, c) \<in> set es}, remove_clock = greatest {c. (False, c) \<in> set es}\<rparr>"
  using fold_edge_greatest [of "{}" "{}" es] by (simp add: set_member_default_def greatest_def)

lemma finite_edge_clocks [simp]: "finite {c. (b, c) \<in> set es}"
  by (rule finite_subset [of _ "snd ` set es"]) (auto simp: image_iff, force)

lemma present_after_deliveries:
  "is_present (fold deliver_edge es set_member_default) \<longleftrightarrow>
     (\<exists>a. (True, a) \<in> set es \<and> (\<forall>r. (False, r) \<in> set es \<longrightarrow> r < a))"
proof -
  let ?A = "{c. (True, c) \<in> set es}" and ?R = "{c. (False, c) \<in> set es}"
  have "is_present \<lparr>add_clock = greatest ?A, remove_clock = greatest ?R\<rparr> \<longleftrightarrow>
        (\<exists>a \<in> ?A. \<forall>r \<in> ?R. r < a)"
  proof (cases "?A = {}")
    case True
    then show ?thesis by (simp add: is_present_def greatest_def)
  next
    case False
    then have "Max ?A \<in> ?A" by (intro Max_in) simp_all
    moreover have "a \<le> Max ?A" if "a \<in> ?A" for a using that by (simp add: Max_ge)
    ultimately show ?thesis
      using False by (auto simp: is_present_def greatest_def intro: less_le_trans)
  qed
  then show ?thesis by (simp add: fold_edge_default)
qed

text \<open>
  A membership edge meets its set specification: after folding any deliveries from the
  initial state the slots hold the greatest add and the greatest remove stamp, and the
  edge is present exactly when some delivered add is later than every delivered remove.
\<close>
theorem edge_present_iff:
  "fold deliver_edge es set_member_default =
     \<lparr>add_clock = greatest {c. (True, c) \<in> set es}, remove_clock = greatest {c. (False, c) \<in> set es}\<rparr>
   \<and> (is_present (fold deliver_edge es set_member_default) \<longleftrightarrow>
        (\<exists>a. (True, a) \<in> set es \<and> (\<forall>r. (False, r) \<in> set es \<longrightarrow> r < a)))"
  using fold_edge_default present_after_deliveries by blast

theorem edge_present_iff_witness:
  "is_present (fold deliver_edge [(False, Hlc 1 0 ''b''), (True, Hlc 2 0 ''a'')] set_member_default)"
proof -
  have "Hlc 1 0 ''b'' < Hlc 2 0 ''a''" by (simp add: less_hlc_iff)
  then show ?thesis
    by (intro edge_present_iff [THEN conjunct2, THEN iffD2] exI [of _ "Hlc 2 0 ''a''"]) auto
qed

text \<open>
  Membership edges converge: every device that has received the same adds and removes,
  in any order and with any repetition, holds the same member state from any common
  start.
\<close>
theorem edges_converge:
  assumes "set es = set es'"
  shows "fold deliver_edge es m = fold deliver_edge es' m"
  using edge.order_independent [OF assms] by simp

theorem edges_converge_witness:
  "fold deliver_edge [(True, Hlc 1 0 ''a''), (False, Hlc 2 0 ''b'')] set_member_default =
   fold deliver_edge [(False, Hlc 2 0 ''b''), (True, Hlc 1 0 ''a''), (False, Hlc 2 0 ''b'')] set_member_default"
  by (rule edges_converge) auto

text \<open>
  Removal is decided by stamps alone: an edge added at one device and removed at another
  that never saw the add is absent everywhere once both are delivered, whenever the
  remove carries the greater (or the same) stamp.
\<close>
theorem unobserved_remove_wins:
  assumes "a \<le> r"
  shows "\<not> is_present (fold deliver_edge [(True, a), (False, r)] set_member_default)
       \<and> \<not> is_present (fold deliver_edge [(False, r), (True, a)] set_member_default)"
  unfolding present_after_deliveries using assms by auto

theorem unobserved_remove_wins_witness:
  "\<not> is_present (fold deliver_edge [(True, Hlc 5 0 ''a''), (False, Hlc 6 0 ''b'')] set_member_default)"
  using unobserved_remove_wins [of "Hlc 5 0 ''a''" "Hlc 6 0 ''b''"]
  by (simp add: less_hlc_iff order.order_iff_strict)

end
