(* ===== verification/Sync_Store.thy ===== *)
theory Sync_Store
  imports Canonical Merge
begin

text \<open>
  The client's sync bookkeeping, \<^verbatim>\<open>crates/pergamon-storage/src/sync.rs\<close> over the tables
  of migration V13: identity and clock, the outbox, per-field clocks, set edges,
  tombstones, applied changes, the conflict inbox, the recomputation of review cards and
  \<open>emit_change\<close>. A SQLite statement on these tables is the update of one field of the
  record; \<open>u64\<close> columns hold the clamp to \<open>i64\<close> the code writes. Random identifiers come
  from the supply \<open>fresh\<close>. What the record leaves out are the \<open>created_at\<close> columns.
\<close>

section \<open>State\<close>

record outbox_row =
  ob_change_id :: string
  ob_entity_type :: entity_type
  ob_entity_id :: string
  ob_op :: op
  ob_body :: string
  ob_blob_refs :: "string list"
  ob_local_seq :: nat
  ob_acked_seq :: "u64 option"

record conflict_row =
  cr_id :: string
  cr_entity_type :: entity_type
  cr_entity_id :: string
  cr_field :: string
  cr_loser_value :: string
  cr_loser_clock :: hlc
  cr_dismissed :: bool

record db =
  st_account_id :: "string option"
  st_device_id :: "string option"
  st_key_epoch :: u32
  st_cursor_seq :: u64
  st_hlc_wall :: u64
  st_hlc_counter :: u32
  st_server_url :: "string option"
  st_baseline_done :: bool
  outbox :: "outbox_row list"
  local_next :: nat
  clocks :: "entity_type \<times> string \<times> string \<Rightarrow> hlc option"
  edges :: "entity_type \<times> string \<Rightarrow> set_member option"
  tombs :: "entity_type \<times> string \<Rightarrow> hlc option"
  applied :: "string \<Rightarrow> u64 option"
  conflicts :: "conflict_row list"
  store :: canon
  fresh :: "nat \<Rightarrow> string"
  fresh_n :: nat

text \<open>The JSON encoding of an event body.\<close>

record codec =
  body_bytes :: "change_body \<Rightarrow> string"
  body_of_bytes :: "string \<Rightarrow> change_body option"

definition new_uuid :: "db \<Rightarrow> string \<times> db" where
  "new_uuid db = (fresh db (fresh_n db), db\<lparr>fresh_n := Suc (fresh_n db)\<rparr>)"

text \<open>A stamp as the integer columns hold it.\<close>

definition stored_hlc :: "hlc \<Rightarrow> hlc" where
  "stored_hlc c = Hlc (clamp_i64 (wall_millis c)) (hcounter c) (hdevice c)"

section \<open>Identity, cursor and clock\<close>

definition set_sync_identity :: "string \<Rightarrow> string \<Rightarrow> u32 \<Rightarrow> string option \<Rightarrow> db \<Rightarrow> db" where
  "set_sync_identity account device epoch url db =
     db\<lparr>st_account_id := Some account, st_device_id := Some device, st_key_epoch := epoch,
        st_server_url := url\<rparr>"

definition sync_cursor :: "db \<Rightarrow> u64" where
  "sync_cursor db = st_cursor_seq db"

definition set_key_epoch :: "u32 \<Rightarrow> db \<Rightarrow> db" where
  "set_key_epoch epoch db = db\<lparr>st_key_epoch := epoch\<rparr>"

definition set_sync_cursor :: "u64 \<Rightarrow> db \<Rightarrow> db" where
  "set_sync_cursor seq db = db\<lparr>st_cursor_seq := clamp_i64 seq\<rparr>"

definition sync_hlc :: "db \<Rightarrow> hlc" where
  "sync_hlc db = Hlc (st_hlc_wall db) (st_hlc_counter db)
                   (case st_device_id db of Some d \<Rightarrow> d | None \<Rightarrow> [])"

definition set_sync_hlc :: "hlc \<Rightarrow> db \<Rightarrow> db" where
  "set_sync_hlc c db = db\<lparr>st_hlc_wall := clamp_i64 (wall_millis c), st_hlc_counter := hcounter c\<rparr>"

definition tick_local_hlc :: "u64 \<Rightarrow> db \<Rightarrow> hlc \<times> db" where
  "tick_local_hlc now db = (let next = tick (sync_hlc db) now in (next, set_sync_hlc next db))"

definition observe_remote_hlc :: "hlc \<Rightarrow> u64 \<Rightarrow> db \<Rightarrow> db" where
  "observe_remote_hlc remote now db = set_sync_hlc (observe (sync_hlc db) remote now) db"

section \<open>Outbox\<close>

definition next_local_seq :: "db \<Rightarrow> nat \<times> db" where
  "next_local_seq db = (local_next db, db\<lparr>local_next := Suc (local_next db)\<rparr>)"

definition enqueue_outbox :: "codec \<Rightarrow> change_body \<Rightarrow> db \<Rightarrow> string \<times> db" where
  "enqueue_outbox cod body db =
     (let (change_id, db1) = new_uuid db;
          (seq, db2) = next_local_seq db1;
          entry = \<lparr>ob_change_id = change_id, ob_entity_type = cb_entity_type body,
                 ob_entity_id = cb_entity_id body, ob_op = cb_op body, ob_body = body_bytes cod body,
                 ob_blob_refs = blob_refs body, ob_local_seq = seq, ob_acked_seq = None\<rparr>
      in (change_id, db2\<lparr>outbox := outbox db2 @ [entry]\<rparr>))"

definition pending_rows :: "db \<Rightarrow> outbox_row list" where
  "pending_rows db = sort_key ob_local_seq (filter (\<lambda>r. ob_acked_seq r = None) (outbox db))"

definition pending_outbox :: "nat \<Rightarrow> db \<Rightarrow> outbox_row list" where
  "pending_outbox limit db = take limit (pending_rows db)"

definition pending_outbox_count :: "db \<Rightarrow> nat" where
  "pending_outbox_count db = length (filter (\<lambda>r. ob_acked_seq r = None) (outbox db))"

definition mark_outbox_acked :: "string \<Rightarrow> u64 \<Rightarrow> db \<Rightarrow> db" where
  "mark_outbox_acked change_id server_seq db =
     db\<lparr>outbox := map (\<lambda>r. if ob_change_id r = change_id
                            then r\<lparr>ob_acked_seq := Some (clamp_i64 server_seq)\<rparr> else r) (outbox db)\<rparr>"

text \<open>The distinct references of all rows, in the order of a \<open>BTreeSet\<close>.\<close>

definition outbox_blob_refs :: "db \<Rightarrow> string list" where
  "outbox_blob_refs db = sort (remdups (concat (map ob_blob_refs (outbox db))))"

section \<open>Clocks, edges, tombstones, applied changes, conflicts\<close>

definition entity_clock :: "db \<Rightarrow> entity_type \<Rightarrow> string \<Rightarrow> string \<Rightarrow> hlc option" where
  "entity_clock db et i field = clocks db (et, i, field)"

definition set_entity_clock :: "entity_type \<Rightarrow> string \<Rightarrow> string \<Rightarrow> hlc \<Rightarrow> db \<Rightarrow> db" where
  "set_entity_clock et i field c db = db\<lparr>clocks := (clocks db)((et, i, field) := Some (stored_hlc c))\<rparr>"

definition set_edge :: "db \<Rightarrow> entity_type \<Rightarrow> string \<Rightarrow> set_member" where
  "set_edge db et i = (case edges db (et, i) of Some m \<Rightarrow> m | None \<Rightarrow> set_member_default)"

definition save_set_edge :: "entity_type \<Rightarrow> string \<Rightarrow> set_member \<Rightarrow> db \<Rightarrow> db" where
  "save_set_edge et i m db =
     db\<lparr>edges := (edges db)((et, i) := Some \<lparr>add_clock = map_option stored_hlc (add_clock m),
                                            remove_clock = map_option stored_hlc (remove_clock m)\<rparr>)\<rparr>"

definition tombstone :: "db \<Rightarrow> entity_type \<Rightarrow> string \<Rightarrow> hlc option" where
  "tombstone db et i = tombs db (et, i)"

definition set_tombstone :: "entity_type \<Rightarrow> string \<Rightarrow> hlc \<Rightarrow> db \<Rightarrow> db" where
  "set_tombstone et i c db = db\<lparr>tombs := (tombs db)((et, i) := Some (stored_hlc c))\<rparr>"

definition is_change_applied :: "db \<Rightarrow> string \<Rightarrow> bool" where
  "is_change_applied db change_id \<longleftrightarrow> applied db change_id \<noteq> None"

definition mark_change_applied :: "string \<Rightarrow> u64 \<Rightarrow> db \<Rightarrow> db" where
  "mark_change_applied change_id server_seq db =
     (if applied db change_id = None
      then db\<lparr>applied := (applied db)(change_id := Some (clamp_i64 server_seq))\<rparr> else db)"

definition insert_conflict ::
  "sqlite \<Rightarrow> entity_type \<Rightarrow> string \<Rightarrow> string \<Rightarrow> json \<Rightarrow> hlc \<Rightarrow> db \<Rightarrow> db" where
  "insert_conflict q et i field v c db =
     (let (cid, db1) = new_uuid db;
          entry = \<lparr>cr_id = cid, cr_entity_type = et, cr_entity_id = i, cr_field = field,
                 cr_loser_value = json_text q v, cr_loser_clock = stored_hlc c, cr_dismissed = False\<rparr>
      in db1\<lparr>conflicts := conflicts db1 @ [entry]\<rparr>)"

definition dismiss_conflict :: "string \<Rightarrow> db \<Rightarrow> db" where
  "dismiss_conflict cid db =
     db\<lparr>conflicts := map (\<lambda>r. if cr_id r = cid then r\<lparr>cr_dismissed := True\<rparr> else r) (conflicts db)\<rparr>"

section \<open>Canonical rows through the database\<close>

definition write_entity :: "sqlite \<Rightarrow> entity_type \<Rightarrow> string \<Rightarrow> json smap \<Rightarrow> op \<Rightarrow> db \<Rightarrow> db sres" where
  "write_entity q et i fm oper db =
     bindR (write_entity_fields q et i fm oper (store db)) (\<lambda>c. Inr (db\<lparr>store := c\<rparr>))"

definition read_entity :: "sqlite \<Rightarrow> db \<Rightarrow> entity_type \<Rightarrow> string \<Rightarrow> json smap option" where
  "read_entity q db et i = read_entity_fields q (store db) et i"

definition edge_membership :: "sqlite \<Rightarrow> entity_type \<Rightarrow> string \<Rightarrow> bool \<Rightarrow> db \<Rightarrow> db sres" where
  "edge_membership q et i present db =
     bindR (apply_edge_membership q et i present (store db)) (\<lambda>c. Inr (db\<lparr>store := c\<rparr>))"

section \<open>Recomputing a review card\<close>

definition parse_epoch_millis :: "sqlite \<Rightarrow> string \<Rightarrow> int" where
  "parse_epoch_millis q s = (case rfc3339_millis q s of Some ms \<Rightarrow> ms | None \<Rightarrow> 0)"

definition review_log_card_id :: "db \<Rightarrow> string \<Rightarrow> string option sres" where
  "review_log_card_id db log_id =
     (case tbl_get (store db) ''review_logs'' log_id of
        None \<Rightarrow> Inr None
      | Some r \<Rightarrow> (case r ''card_id'' of SqlText s \<Rightarrow> Inr (Some s) | _ \<Rightarrow> Inl SqliteError))"

definition log_entry_of_row :: "sqlite \<Rightarrow> string \<times> row \<Rightarrow> review_log_entry option sres" where
  "log_entry_of_row q p =
     (case snd p ''reviewed_at'' of
        SqlText at \<Rightarrow>
          (let v = cast_integer q (snd p ''rating'') in
           if 0 \<le> v \<and> v < 2 ^ 32 then
             Inr (map_option (\<lambda>r. \<lparr>rl_id = fst p, rl_reviewed_at_ms = parse_epoch_millis q at, rl_rating = r\<rparr>)
                    (rating_from_value (of_int v)))
           else Inr None)
      | _ \<Rightarrow> Inl SqliteError)"

fun collect_entries :: "sqlite \<Rightarrow> (string \<times> row) list \<Rightarrow> review_log_entry list sres" where
  "collect_entries q [] = Inr []"
| "collect_entries q (p # ps) =
     bindR (log_entry_of_row q p) (\<lambda>e. bindR (collect_entries q ps) (\<lambda>es.
       Inr (case e of None \<Rightarrow> es | Some x \<Rightarrow> x # es)))"

definition review_log_entries_for_card :: "sqlite \<Rightarrow> db \<Rightarrow> string \<Rightarrow> review_log_entry list sres" where
  "review_log_entries_for_card q db card_id =
     collect_entries q (filter (\<lambda>(_, r). r ''card_id'' = SqlText card_id)
                              (tables (store db) ''review_logs''))"

definition opt_sql :: "('a \<Rightarrow> sql) \<Rightarrow> 'a option \<Rightarrow> sql" where
  "opt_sql f x = (case x of None \<Rightarrow> SqlNull | Some y \<Rightarrow> f y)"

definition write_derived_card_state :: "sqlite \<Rightarrow> string \<Rightarrow> derived_card \<Rightarrow> db \<Rightarrow> db sres" where
  "write_derived_card_state q card_id d db =
     (let t = ''review_cards'' in
      case tbl_get (store db) t card_id of
        None \<Rightarrow> Inr db
      | Some r \<Rightarrow>
          let a = affinity q t;
              r' = r(''state'' := a ''state'' (SqlText (cs_as_str (dc_state d))),
                     ''stability'' := a ''stability'' (opt_sql SqlReal (dc_stability d)),
                     ''difficulty'' := a ''difficulty'' (opt_sql SqlReal (dc_difficulty d)),
                     ''due_at'' := (case dc_due_at_ms d of
                         Some ms \<Rightarrow> a ''due_at'' (SqlText (millis_rfc3339 q ms))
                       | None \<Rightarrow> r ''due_at''),
                     ''last_reviewed_at'' := a ''last_reviewed_at''
                        (opt_sql (\<lambda>ms. SqlText (millis_rfc3339 q ms)) (dc_last_reviewed_at_ms d)),
                     ''review_count'' := a ''review_count'' (SqlInt (uint (dc_review_count d))),
                     ''lapse_count'' := a ''lapse_count'' (SqlInt (uint (dc_lapse_count d))),
                     ''scheduled_days'' := a ''scheduled_days'' (opt_sql SqlReal (dc_scheduled_days d)))
          in bindR (exec_sql q (tbl_put t card_id r' (store db))) (\<lambda>c. Inr (db\<lparr>store := c\<rparr>)))"

text \<open>The scheduler and its day conversions, fixed to the default parameters by the code.\<close>

record fsrs =
  default_v5 :: scheduler
  fsrs_days :: day_conv

definition recompute_review_card :: "sqlite \<Rightarrow> fsrs \<Rightarrow> string \<Rightarrow> db \<Rightarrow> db sres" where
  "recompute_review_card q fs card_id db =
     (if tbl_get (store db) ''review_cards'' card_id = None then Inr db
      else bindR (review_log_entries_for_card q db card_id) (\<lambda>logs.
        if logs = [] then Inr db
        else write_derived_card_state q card_id
               (derive_card_state (fsrs_days fs) (default_v5 fs) logs) db))"

section \<open>A concrete database\<close>

text \<open>An enrolled, empty database, for the witnesses.\<close>

definition demo_db :: db where
  "demo_db = \<lparr>st_account_id = Some ''acct'', st_device_id = Some ''dev'', st_key_epoch = 0,
     st_cursor_seq = 0, st_hlc_wall = 0, st_hlc_counter = 0, st_server_url = None,
     st_baseline_done = False, outbox = [], local_next = 1, clocks = (\<lambda>_. None), edges = (\<lambda>_. None),
     tombs = (\<lambda>_. None), applied = (\<lambda>_. None), conflicts = [], store = empty_canon,
     fresh = (\<lambda>n. replicate n (CHR ''u'')), fresh_n = 0\<rparr>"

definition demo_codec :: codec where
  "demo_codec = \<lparr>body_bytes = cb_entity_id, body_of_bytes = (\<lambda>_. None)\<rparr>"

definition demo_fs :: fsrs where
  "demo_fs = \<lparr>default_v5 = demo_schedule, fsrs_days = demo_conv\<rparr>"

lemma demo_db_simps [simp]:
  "st_device_id demo_db = Some ''dev''" "store demo_db = empty_canon" "outbox demo_db = []"
  "local_next demo_db = 1" "fresh_n demo_db = 0" "fresh demo_db n = replicate n (CHR ''u'')"
  "clocks demo_db = (\<lambda>_. None)" "edges demo_db = (\<lambda>_. None)" "tombs demo_db = (\<lambda>_. None)"
  "applied demo_db = (\<lambda>_. None)" "conflicts demo_db = []" "st_cursor_seq demo_db = 0"
  "st_baseline_done demo_db = False" "sync_hlc demo_db = Hlc 0 0 ''dev''"
  by (simp_all add: demo_db_def sync_hlc_def)

end
