(* ===== verification/Emit.thy ===== *)
theory Emit
  imports Sync_Store
begin

text \<open>
  Local mutations, \<open>Database::emit_change\<close> of \<^verbatim>\<open>crates/pergamon-storage/src/sync.rs\<close>:
  the tracked write that stamps clocks, computes the observed version and enqueues an
  outbox row. It runs in a transaction, so a failing step leaves the database as it was:
  the error carries no state.
\<close>

section \<open>Observed versions\<close>

definition base_version_for :: "db \<Rightarrow> entity_type \<Rightarrow> string \<Rightarrow> json smap \<Rightarrow> hlc option" where
  "base_version_for db et i fm =
     (case find (\<lambda>k. strategy_for et k = ConflictCopy) (map fst fm) of
        Some k \<Rightarrow> entity_clock db et i k
      | None \<Rightarrow> None)"

definition later_clock :: "hlc option \<Rightarrow> hlc option \<Rightarrow> hlc option" where
  "later_clock acc c =
     (case c of None \<Rightarrow> acc
      | Some clock \<Rightarrow> (case acc of Some current \<Rightarrow> if current \<ge> clock then Some current else Some clock
                       | None \<Rightarrow> Some clock))"

definition observed_prose_version :: "sqlite \<Rightarrow> db \<Rightarrow> entity_type \<Rightarrow> string \<Rightarrow> hlc option" where
  "observed_prose_version q db et i =
     (case read_entity q db et i of
        None \<Rightarrow> None
      | Some fm \<Rightarrow> fold (\<lambda>k acc. if strategy_for et k \<noteq> ConflictCopy then acc
                               else later_clock acc (entity_clock db et i k)) (map fst fm) None)"

section \<open>The tracked write\<close>

definition present_field :: "json smap \<Rightarrow> bool \<Rightarrow> bool" where
  "present_field fm d = (case Option.bind (smap_get fm ''present'') as_bool of Some b \<Rightarrow> b | None \<Rightarrow> d)"

definition apply_local_canonical ::
  "sqlite \<Rightarrow> entity_type \<Rightarrow> string \<Rightarrow> op \<Rightarrow> json smap \<Rightarrow> canon \<Rightarrow> canon sres" where
  "apply_local_canonical q et i oper fm c =
     (if is_edge et then apply_edge_membership q et i (present_field fm True) c
      else write_entity_fields q et i fm oper c)"

definition stamp_fields :: "entity_type \<Rightarrow> string \<Rightarrow> string list \<Rightarrow> hlc \<Rightarrow> db \<Rightarrow> db" where
  "stamp_fields et i ks c db = fold (\<lambda>k. set_entity_clock et i k c) ks db"

definition stamp_change :: "entity_type \<Rightarrow> string \<Rightarrow> op \<Rightarrow> json smap \<Rightarrow> hlc \<Rightarrow> db \<Rightarrow> db" where
  "stamp_change et i oper fm c db =
     (if oper = Delete then set_tombstone et i c db
      else let db1 = stamp_fields et i (map fst fm) c db in
        if is_edge et
        then save_set_edge et i
               (smo_member (merge_set_member (set_edge db1 et i) (present_field fm True) c)) db1
        else db1)"

definition emit_body ::
  "sqlite \<Rightarrow> entity_type \<Rightarrow> string \<Rightarrow> op \<Rightarrow> json smap \<Rightarrow> blob_manifest_entry list \<Rightarrow> hlc \<Rightarrow> db \<Rightarrow> change_body" where
  "emit_body q et i oper fm manifest clock db =
     \<lparr>cb_entity_type = et, cb_entity_id = i, cb_op = oper, cb_clock = clock,
      cb_base_version = (if oper = Delete then observed_prose_version q db et i
                         else base_version_for db et i fm),
      cb_fields = fm, cb_blob_manifest = manifest\<rparr>"

definition emit_change ::
  "sqlite \<Rightarrow> codec \<Rightarrow> entity_type \<Rightarrow> string \<Rightarrow> op \<Rightarrow> json smap \<Rightarrow> blob_manifest_entry list \<Rightarrow> u64
   \<Rightarrow> db \<Rightarrow> (string option \<times> db) sres" where
  "emit_change q cod et i oper fm manifest now db =
     (case st_device_id db of
        None \<Rightarrow> bindR (apply_local_canonical q et i oper fm (store db))
                  (\<lambda>c. Inr (None, db\<lparr>store := c\<rparr>))
      | Some _ \<Rightarrow>
          (let (clock, db1) = tick_local_hlc now db;
               body = emit_body q et i oper fm manifest clock db1
           in bindR (apply_local_canonical q et i oper fm (store db1)) (\<lambda>c.
                let db2 = stamp_change et i oper fm clock (db1\<lparr>store := c\<rparr>);
                    (change_id, db3) = enqueue_outbox cod body db2
                in Inr (Some change_id, db3))))"

section \<open>Frames\<close>

lemma stamp_fields_frame [frame]:
  "\<exists>ck. stamp_fields et i ks c db = db\<lparr>clocks := ck\<rparr>"
proof (induction ks arbitrary: db)
  case Nil
  have "stamp_fields et i [] c db = db\<lparr>clocks := clocks db\<rparr>"
    by (simp add: stamp_fields_def)
  then show ?case by blast
next
  case (Cons k ks)
  obtain ck where "stamp_fields et i ks c (set_entity_clock et i k c db)
      = (set_entity_clock et i k c db)\<lparr>clocks := ck\<rparr>"
    using Cons.IH by blast
  then have "stamp_fields et i (k # ks) c db = db\<lparr>clocks := ck\<rparr>"
    by (simp add: stamp_fields_def set_entity_clock_def)
  then show ?case by blast
qed

lemma stamp_change_frame [frame]:
  "\<exists>ck es ts. stamp_change et i oper fm c db = db\<lparr>clocks := ck, edges := es, tombs := ts\<rparr>"
proof -
  obtain ck where "stamp_fields et i (map fst fm) c db = db\<lparr>clocks := ck\<rparr>"
    using stamp_fields_frame by blast
  then have "stamp_change et i oper fm c db = db\<lparr>clocks := clocks (stamp_change et i oper fm c db),
      edges := edges (stamp_change et i oper fm c db), tombs := tombs (stamp_change et i oper fm c db)\<rparr>"
    by (simp add: stamp_change_def set_tombstone_def save_set_edge_def Let_def)
  then show ?thesis by blast
qed

lemma stamp_fields_clock:
  "clocks (stamp_fields et i ks c db) (et', i', k) =
     (if et' = et \<and> i' = i \<and> k \<in> set ks then Some (stored_hlc c) else clocks db (et', i', k))"
  unfolding stamp_fields_def by (induction ks arbitrary: db) (auto simp: set_entity_clock_def)

lemma stamp_change_clock:
  "oper \<noteq> Delete \<Longrightarrow> entity_clock (stamp_change et i oper fm c db) et i k =
     (if k \<in> fst ` set fm then Some (stored_hlc c) else entity_clock db et i k)"
  by (simp add: stamp_change_def entity_clock_def Let_def save_set_edge_def stamp_fields_clock)

lemma stamp_change_tombstone:
  "tombstone (stamp_change et i Delete fm c db) et i = Some (stored_hlc c)"
  by (simp add: stamp_change_def tombstone_def set_tombstone_def)

lemma enqueue_outbox_eq:
  "enqueue_outbox cod body db =
     (fresh db (fresh_n db),
      db\<lparr>outbox := outbox db @ [\<lparr>ob_change_id = fresh db (fresh_n db), ob_entity_type = cb_entity_type body,
         ob_entity_id = cb_entity_id body, ob_op = cb_op body, ob_body = body_bytes cod body,
         ob_blob_refs = blob_refs body, ob_local_seq = local_next db, ob_acked_seq = None\<rparr>],
         local_next := Suc (local_next db), fresh_n := Suc (fresh_n db)\<rparr>)"
  by (simp add: enqueue_outbox_def new_uuid_def next_local_seq_def)

lemma sync_hlc_set:
  "hdevice c = hdevice (sync_hlc db) \<Longrightarrow> sync_hlc (set_sync_hlc c db) = stored_hlc c"
  by (simp add: sync_hlc_def set_sync_hlc_def stored_hlc_def)

text \<open>The database after a tracked write whose canonical part returned \<open>c'\<close>.\<close>

definition emitted ::
  "sqlite \<Rightarrow> codec \<Rightarrow> entity_type \<Rightarrow> string \<Rightarrow> op \<Rightarrow> json smap \<Rightarrow> blob_manifest_entry list \<Rightarrow> u64
   \<Rightarrow> db \<Rightarrow> canon \<Rightarrow> db" where
  "emitted q cod et i oper fm manifest now db c' =
     (let clock = tick (sync_hlc db) now; db1 = set_sync_hlc clock db in
      snd (enqueue_outbox cod (emit_body q et i oper fm manifest clock db1)
             (stamp_change et i oper fm clock (db1\<lparr>store := c'\<rparr>))))"

lemma emit_change_enabled_iff:
  "st_device_id db = Some d \<Longrightarrow>
   emit_change q cod et i oper fm manifest now db = Inr (cid, db') \<longleftrightarrow>
   (\<exists>c'. apply_local_canonical q et i oper fm (store db) = Inr c'
      \<and> cid = Some (fresh db (fresh_n db)) \<and> db' = emitted q cod et i oper fm manifest now db c')"
proof -
  assume d: "st_device_id db = Some d"
  have f: "fresh (stamp_change et i oper fm c db1) = fresh db1"
    "fresh_n (stamp_change et i oper fm c db1) = fresh_n db1" for c db1
    using stamp_change_frame [of et i oper fm c db1] by auto
  show ?thesis
    using d by (auto simp: emit_change_def emitted_def tick_local_hlc_def Let_def result_iff f
        enqueue_outbox_eq set_sync_hlc_def)
qed

lemma emitted_fields:
  "outbox (emitted q cod et i oper fm manifest now db c') = outbox db @
     [\<lparr>ob_change_id = fresh db (fresh_n db), ob_entity_type = et, ob_entity_id = i, ob_op = oper,
       ob_body = body_bytes cod (emit_body q et i oper fm manifest (tick (sync_hlc db) now)
                                  (set_sync_hlc (tick (sync_hlc db) now) db)),
       ob_blob_refs = map bm_ct_hash manifest, ob_local_seq = local_next db, ob_acked_seq = None\<rparr>]"
  "store (emitted q cod et i oper fm manifest now db c') = c'"
  "local_next (emitted q cod et i oper fm manifest now db c') = Suc (local_next db)"
  "fresh (emitted q cod et i oper fm manifest now db c') = fresh db"
  "fresh_n (emitted q cod et i oper fm manifest now db c') = Suc (fresh_n db)"
  "conflicts (emitted q cod et i oper fm manifest now db c') = conflicts db"
  "applied (emitted q cod et i oper fm manifest now db c') = applied db"
  "st_device_id (emitted q cod et i oper fm manifest now db c') = st_device_id db"
  "sync_hlc (emitted q cod et i oper fm manifest now db c') = stored_hlc (tick (sync_hlc db) now)"
proof -
  let ?c = "tick (sync_hlc db) now"
  obtain ck es ts where "stamp_change et i oper fm ?c ((set_sync_hlc ?c db)\<lparr>store := c'\<rparr>)
      = (set_sync_hlc ?c db)\<lparr>store := c', clocks := ck, edges := es, tombs := ts\<rparr>"
    using stamp_change_frame [of et i oper fm ?c "(set_sync_hlc ?c db)\<lparr>store := c'\<rparr>"] by auto
  note s = this [unfolded set_sync_hlc_def]
  note simps = emitted_def Let_def enqueue_outbox_eq s set_sync_hlc_def emit_body_def blob_refs_def
  show "outbox (emitted q cod et i oper fm manifest now db c') = outbox db @
     [\<lparr>ob_change_id = fresh db (fresh_n db), ob_entity_type = et, ob_entity_id = i, ob_op = oper,
       ob_body = body_bytes cod (emit_body q et i oper fm manifest (tick (sync_hlc db) now)
                                  (set_sync_hlc (tick (sync_hlc db) now) db)),
       ob_blob_refs = map bm_ct_hash manifest, ob_local_seq = local_next db, ob_acked_seq = None\<rparr>]"
    "store (emitted q cod et i oper fm manifest now db c') = c'"
    "local_next (emitted q cod et i oper fm manifest now db c') = Suc (local_next db)"
    "fresh (emitted q cod et i oper fm manifest now db c') = fresh db"
    "fresh_n (emitted q cod et i oper fm manifest now db c') = Suc (fresh_n db)"
    "conflicts (emitted q cod et i oper fm manifest now db c') = conflicts db"
    "applied (emitted q cod et i oper fm manifest now db c') = applied db"
    "st_device_id (emitted q cod et i oper fm manifest now db c') = st_device_id db"
    by (simp_all add: simps)
  have "st_hlc_wall (emitted q cod et i oper fm manifest now db c') = st_hlc_wall (set_sync_hlc ?c db)"
    "st_hlc_counter (emitted q cod et i oper fm manifest now db c') = st_hlc_counter (set_sync_hlc ?c db)"
    "st_device_id (emitted q cod et i oper fm manifest now db c') = st_device_id (set_sync_hlc ?c db)"
    by (simp_all add: simps)
  then have "sync_hlc (emitted q cod et i oper fm manifest now db c') = sync_hlc (set_sync_hlc ?c db)"
    by (simp add: sync_hlc_def)
  also have "\<dots> = stored_hlc ?c" by (rule sync_hlc_set) simp
  finally show "sync_hlc (emitted q cod et i oper fm manifest now db c') = stored_hlc ?c" .
qed

lemma emitted_clocks:
  "oper \<noteq> Delete \<Longrightarrow> k \<in> fst ` set fm \<Longrightarrow>
   entity_clock (emitted q cod et i oper fm manifest now db c') et i k = Some (stored_hlc (tick (sync_hlc db) now))"
  "tombstone (emitted q cod et i Delete fm manifest now db c') et i = Some (stored_hlc (tick (sync_hlc db) now))"
  by (simp_all add: emitted_def Let_def enqueue_outbox_eq stamp_change_clock [unfolded entity_clock_def]
      entity_clock_def stamp_change_tombstone [unfolded tombstone_def] tombstone_def)

text \<open>
  With sync on, a local mutation that succeeds writes the canonical row, appends exactly
  one pending outbox row whose body carries the mutation under a fresh local stamp, and
  records that stamp on every field written, or as the tombstone of a delete.
\<close>
theorem emit_change_enabled:
  assumes "st_device_id db = Some d" and "emit_change q cod et i oper fm manifest now db = Inr (cid, db')"
  shows "\<exists>r body. outbox db' = outbox db @ [r] \<and> cid = Some (ob_change_id r) \<and> ob_acked_seq r = None
      \<and> ob_local_seq r = local_next db \<and> ob_body r = body_bytes cod body
      \<and> cb_entity_type body = et \<and> cb_entity_id body = i \<and> cb_op body = oper \<and> cb_fields body = fm
      \<and> cb_clock body = tick (sync_hlc db) now
      \<and> apply_local_canonical q et i oper fm (store db) = Inr (store db')
      \<and> sync_hlc db' = stored_hlc (tick (sync_hlc db) now)
      \<and> (if oper = Delete then tombstone db' et i = Some (stored_hlc (tick (sync_hlc db) now))
         else \<forall>k \<in> fst ` set fm. entity_clock db' et i k = Some (stored_hlc (tick (sync_hlc db) now)))"
proof -
  obtain c' where c': "apply_local_canonical q et i oper fm (store db) = Inr c'"
    and cid: "cid = Some (fresh db (fresh_n db))" and db': "db' = emitted q cod et i oper fm manifest now db c'"
    using assms by (auto simp: emit_change_enabled_iff)
  let ?body = "emit_body q et i oper fm manifest (tick (sync_hlc db) now) (set_sync_hlc (tick (sync_hlc db) now) db)"
  show ?thesis
    unfolding db' cid
    by (intro exI [of _ "last (outbox (emitted q cod et i oper fm manifest now db c'))"] exI [of _ ?body])
       (cases "oper = Delete"; use c' in \<open>simp add: emitted_fields emitted_clocks emit_body_def\<close>)
qed


lemma demo_tag_write:
  "apply_local_canonical demo_sqlite Tag ''t'' Upsert [(''name'', JStr ''n'')] empty_canon =
   Inr (tbl_put ''tags'' ''t'' (new_row demo_sqlite ''tags'' [(''name'', JStr ''n'')] [(''name'', [])]) empty_canon)"
  by (simp add: apply_local_canonical_def is_edge_def write_single single_table_def
      reject_unknown_columns_def upsert_single_def empty_canon_def tbl_get_def exec_sql_def)

theorem emit_change_enabled_witness:
  "\<exists>cid db'. emit_change demo_sqlite demo_codec Tag ''t'' Upsert [(''name'', JStr ''n'')] [] 7 demo_db = Inr (cid, db')
    \<and> (\<exists>r. outbox db' = [r] \<and> cid = Some (ob_change_id r) \<and> ob_local_seq r = 1)"
proof -
  obtain cid db' where e:
    "emit_change demo_sqlite demo_codec Tag ''t'' Upsert [(''name'', JStr ''n'')] [] 7 demo_db = Inr (cid, db')"
    using emit_change_enabled_iff [of demo_db "''dev''" demo_sqlite demo_codec Tag "''t''" Upsert] demo_tag_write
    by auto
  from emit_change_enabled [OF _ this] show ?thesis
    using e by fastforce
qed

text \<open>With sync off only the canonical row is written.\<close>

lemma emit_change_disabled_iff:
  "st_device_id db = None \<Longrightarrow>
   emit_change q cod et i oper fm manifest now db = Inr (cid, db') \<longleftrightarrow>
   (\<exists>c'. apply_local_canonical q et i oper fm (store db) = Inr c' \<and> cid = None \<and> db' = db\<lparr>store := c'\<rparr>)"
  by (auto simp: emit_change_def result_iff)

end
