(* ===== verification/Outbox.thy ===== *)
theory Outbox
  imports Emit
begin

text \<open>
  The contract between the outbox table and the push loop: the pending rows are a queue in
  local order, identified by their change ids, and an acknowledgement takes exactly its
  row out of it. The interface is a locale; the outbox of \<open>Sync_Store\<close> provides it under
  the table's invariant, which every tracked write keeps.
\<close>

section \<open>The interface\<close>

locale ack_queue =
  fixes pend :: "'s \<Rightarrow> 'r list"
    and ident :: "'r \<Rightarrow> 'i"
    and ack :: "'i \<Rightarrow> 'n \<Rightarrow> 's \<Rightarrow> 's"
    and inv :: "'s \<Rightarrow> bool"
  assumes distinct_pend: "inv s \<Longrightarrow> distinct (map ident (pend s))"
    and pend_ack: "inv s \<Longrightarrow> pend (ack i n s) = filter (\<lambda>r. ident r \<noteq> i) (pend s)"
    and inv_ack: "inv s \<Longrightarrow> inv (ack i n s)"
begin

lemma acks: "inv s \<Longrightarrow> inv (fold (\<lambda>(i, n). ack i n) as s)
    \<and> pend (fold (\<lambda>(i, n). ack i n) as s) = filter (\<lambda>r. ident r \<notin> fst ` set as) (pend s)"
proof (induction as arbitrary: s)
  case Nil
  then show ?case by simp
next
  case (Cons a as)
  obtain i n where a: "a = (i, n)" by (cases a)
  have "inv (ack i n s)" using Cons.prems by (rule inv_ack)
  from Cons.IH [OF this] Cons.prems a show ?case
    by (simp add: pend_ack conj_commute)
qed

lemma ack_prefix:
  assumes "inv s" and "fst ` set as = ident ` set (take k (pend s))"
  shows "pend (fold (\<lambda>(i, n). ack i n) as s) = drop k (pend s)"
proof -
  let ?ps = "pend s"
  have d: "distinct (map ident (take k ?ps @ drop k ?ps))"
    using distinct_pend [OF assms(1)] by simp
  have "filter (\<lambda>r. ident r \<notin> fst ` set as) (take k ?ps @ drop k ?ps) = drop k ?ps"
  proof -
    have "filter (\<lambda>r. ident r \<notin> fst ` set as) (take k ?ps) = []"
      by (simp add: assms(2) filter_empty_conv)
    moreover have "filter (\<lambda>r. ident r \<notin> fst ` set as) (drop k ?ps) = drop k ?ps"
      using d unfolding map_append distinct_append assms(2)
      by (intro filter_True) (metis IntI empty_iff image_eqI list.set_map)
    ultimately show ?thesis by (metis filter_append append_Nil)
  qed
  then show ?thesis using acks [OF assms(1), of as] by simp
qed

lemma ack_all:
  "inv s \<Longrightarrow> fst ` set as = ident ` set (pend s) \<Longrightarrow> pend (fold (\<lambda>(i, n). ack i n) as s) = []"
  using ack_prefix [of s as "length (pend s)"] by simp

end

section \<open>The table's invariant\<close>

definition wf_outbox :: "db \<Rightarrow> bool" where
  "wf_outbox db \<longleftrightarrow>
     inj (fresh db)
     \<and> sorted_wrt (<) (map ob_local_seq (outbox db))
     \<and> (\<forall>n \<in> set (map ob_local_seq (outbox db)). n < local_next db)
     \<and> set (map ob_change_id (outbox db)) \<subseteq> fresh db ` {..<fresh_n db}
     \<and> distinct (map ob_change_id (outbox db))"

lemma pending_rows_eq:
  assumes "wf_outbox db"
  shows "pending_rows db = filter (\<lambda>r. ob_acked_seq r = None) (outbox db)"
proof -
  have "sorted (map ob_local_seq (outbox db))"
    using assms by (auto simp: wf_outbox_def strict_sorted_iff)
  then have "sorted (map ob_local_seq (filter (\<lambda>r. ob_acked_seq r = None) (outbox db)))"
    by (rule sorted_filter)
  then show ?thesis
    unfolding pending_rows_def by (rule sort_key_id_if_sorted)
qed

lemma distinct_map_filter: "distinct (map f xs) \<Longrightarrow> distinct (map f (filter P xs))"
  by (induction xs) auto

lemma acked_fields [simp]:
  "ob_change_id (if b then r\<lparr>ob_acked_seq := x\<rparr> else r) = ob_change_id r"
  "ob_local_seq (if b then r\<lparr>ob_acked_seq := x\<rparr> else r) = ob_local_seq r"
  by simp_all

lemma wf_outbox_maps:
  "wf_outbox db \<Longrightarrow> map ob_local_seq (outbox db') = map ob_local_seq (outbox db) \<Longrightarrow>
   map ob_change_id (outbox db') = map ob_change_id (outbox db) \<Longrightarrow>
   local_next db' = local_next db \<Longrightarrow> fresh db' = fresh db \<Longrightarrow> fresh_n db \<le> fresh_n db' \<Longrightarrow>
   wf_outbox db'"
  unfolding wf_outbox_def
  by (metis image_mono lessThan_subset_iff order_trans)

lemma wf_outbox_ack: "wf_outbox db \<Longrightarrow> wf_outbox (mark_outbox_acked i n db)"
  by (erule wf_outbox_maps) (simp_all add: mark_outbox_acked_def)

lemma filter_acked:
  "filter (\<lambda>r. ob_acked_seq r = None)
     (map (\<lambda>r. if ob_change_id r = i then r\<lparr>ob_acked_seq := Some n\<rparr> else r) rs) =
   filter (\<lambda>r. ob_change_id r \<noteq> i) (filter (\<lambda>r. ob_acked_seq r = None) rs)"
  by (induction rs) auto

interpretation outbox_queue: ack_queue pending_rows ob_change_id mark_outbox_acked wf_outbox
proof unfold_locales
  fix db
  assume "wf_outbox db"
  then show "distinct (map ob_change_id (pending_rows db))"
    by (simp add: pending_rows_eq wf_outbox_def distinct_map_filter)
next
  fix db i n
  assume wf: "wf_outbox db"
  from pending_rows_eq [OF wf_outbox_ack [OF this]] show
    "pending_rows (mark_outbox_acked i n db) = filter (\<lambda>r. ob_change_id r \<noteq> i) (pending_rows db)"
    by (simp add: pending_rows_eq [OF wf] mark_outbox_acked_def filter_acked)
next
  fix db i n
  assume "wf_outbox db"
  then show "wf_outbox (mark_outbox_acked i n db)" by (rule wf_outbox_ack)
qed

lemma pending_count: "pending_outbox_count db = length (pending_rows db)"
  by (simp add: pending_outbox_count_def pending_rows_def)

section \<open>Enqueueing keeps it\<close>

lemma wf_outbox_append:
  assumes "wf_outbox db" and "outbox db' = outbox db @ [r]" and "fresh db' = fresh db"
    and "fresh_n db' = Suc (fresh_n db)" and "local_next db' = Suc (local_next db)"
    and "ob_change_id r = fresh db (fresh_n db)" and "ob_local_seq r = local_next db"
  shows "wf_outbox db'"
proof -
  have "fresh db (fresh_n db) \<notin> fresh db ` {..<fresh_n db}"
    using assms(1) by (auto simp: wf_outbox_def inj_eq)
  then show ?thesis
    using assms by (auto simp: wf_outbox_def sorted_wrt_append lessThan_Suc less_Suc_eq)
qed

lemma wf_outbox_cong:
  "wf_outbox db \<Longrightarrow> outbox db' = outbox db \<Longrightarrow> local_next db' = local_next db \<Longrightarrow>
   fresh db' = fresh db \<Longrightarrow> fresh_n db \<le> fresh_n db' \<Longrightarrow> wf_outbox db'"
  by (erule wf_outbox_maps) simp_all

lemma pending_after_append:
  assumes "wf_outbox db" and "wf_outbox db'" and "outbox db' = outbox db @ [r]" and "ob_acked_seq r = None"
  shows "pending_rows db' = pending_rows db @ [r]"
  using assms by (simp add: pending_rows_eq)

text \<open>
  The outbox is a first-in first-out queue of unique changes: a tracked write with sync on
  keeps the table's invariant and puts its row behind all pending ones, so what has been
  written first is pushed first and no two rows share a change id.
\<close>
theorem emit_change_queues_last:
  assumes "wf_outbox db" and "st_device_id db = Some d"
    and "emit_change q cod et i oper fm manifest now db = Inr (cid, db')"
  shows "wf_outbox db' \<and> (\<exists>r. pending_rows db' = pending_rows db @ [r] \<and> cid = Some (ob_change_id r)
      \<and> ob_entity_id r = i \<and> ob_change_id r \<notin> ob_change_id ` set (outbox db))"
proof -
  obtain c' where cid: "cid = Some (fresh db (fresh_n db))"
    and db': "db' = emitted q cod et i oper fm manifest now db c'"
    using assms by (auto simp: emit_change_enabled_iff)
  have wf: "wf_outbox db'"
    using assms(1) unfolding db' by (rule wf_outbox_append [OF _ emitted_fields(1)]) (simp_all add: emitted_fields)
  moreover have "distinct (map ob_change_id (outbox db'))"
    using wf by (simp add: wf_outbox_def)
  ultimately show ?thesis
    using pending_after_append [OF assms(1) wf] by (simp add: db' cid emitted_fields)
qed

lemma wf_demo_db [simp]: "wf_outbox demo_db"
  by (auto simp: wf_outbox_def intro!: injI dest: arg_cong [of _ _ length])

theorem emit_change_queues_last_witness:
  "\<exists>cid db' r. emit_change demo_sqlite demo_codec Tag ''t'' Upsert [(''name'', JStr ''n'')] [] 7 demo_db = Inr (cid, db')
    \<and> wf_outbox db' \<and> pending_rows db' = [r] \<and> ob_entity_id r = ''t''"
proof -
  obtain cid db' where e:
    "emit_change demo_sqlite demo_codec Tag ''t'' Upsert [(''name'', JStr ''n'')] [] 7 demo_db = Inr (cid, db')"
    using emit_change_enabled_iff [of demo_db "''dev''" demo_sqlite demo_codec Tag "''t''" Upsert] demo_tag_write
    by auto
  from emit_change_queues_last [OF wf_demo_db _ this] e show ?thesis
    by (fastforce simp: pending_rows_def)
qed

end
