(* ===== verification/Apply.thy ===== *)
theory Apply
  imports Outbox
begin

text \<open>
  The pull side of the merge, \<^verbatim>\<open>crates/pergamon-sync/src/apply.rs\<close>: one decrypted change
  is resolved against the local rows, clocks, edges and tombstones. The caller runs it in
  a transaction, so an error carries no state.
\<close>

section \<open>Edges\<close>

definition incoming_is_add :: "change_body \<Rightarrow> bool" where
  "incoming_is_add body =
     (case Option.bind (smap_get (cb_fields body) ''present'') as_bool of
        Some b \<Rightarrow> b | None \<Rightarrow> cb_op body \<noteq> Delete)"

definition apply_edge :: "sqlite \<Rightarrow> change_body \<Rightarrow> db \<Rightarrow> db sres" where
  "apply_edge q body db =
     (let et = cb_entity_type body; i = cb_entity_id body;
          outcome = merge_set_member (set_edge db et i) (incoming_is_add body) (cb_clock body)
      in edge_membership q et i (smo_present outcome) (save_set_edge et i (smo_member outcome) db))"

section \<open>Deletes\<close>

definition observed_by :: "change_body \<Rightarrow> hlc \<Rightarrow> bool" where
  "observed_by body c = (case cb_base_version body of Some base \<Rightarrow> c \<le> base | None \<Rightarrow> False)"

definition preserve_field :: "sqlite \<Rightarrow> change_body \<Rightarrow> string \<times> json \<Rightarrow> db \<Rightarrow> db" where
  "preserve_field q body p db =
     (let et = cb_entity_type body; i = cb_entity_id body; k = fst p in
      if strategy_for et k \<noteq> ConflictCopy then db
      else case entity_clock db et i k of
             None \<Rightarrow> db
           | Some c \<Rightarrow> if observed_by body c then db else insert_conflict q et i k (snd p) c db)"

definition preserve_unobserved_prose :: "sqlite \<Rightarrow> change_body \<Rightarrow> db \<Rightarrow> db" where
  "preserve_unobserved_prose q body db =
     (case read_entity q db (cb_entity_type body) (cb_entity_id body) of
        None \<Rightarrow> db
      | Some fm \<Rightarrow> fold (preserve_field q body) fm db)"

definition max_field_clock_dominated :: "sqlite \<Rightarrow> change_body \<Rightarrow> db \<Rightarrow> bool" where
  "max_field_clock_dominated q body db =
     (let et = cb_entity_type body; i = cb_entity_id body in
      case read_entity q db et i of
        None \<Rightarrow> True
      | Some fm \<Rightarrow> list_all (\<lambda>k. strategy_for et k = ConflictCopy
            \<or> (case entity_clock db et i k of Some c \<Rightarrow> \<not> c > cb_clock body | None \<Rightarrow> True)) (map fst fm))"

definition apply_delete :: "sqlite \<Rightarrow> change_body \<Rightarrow> db \<Rightarrow> db sres" where
  "apply_delete q body db =
     (let et = cb_entity_type body; i = cb_entity_id body;
          db1 = preserve_unobserved_prose q body (set_tombstone et i (cb_clock body) db)
      in if max_field_clock_dominated q body db1 then write_entity q et i [] Delete db1 else Inr db1)"

section \<open>Reviews\<close>

definition apply_review_log :: "sqlite \<Rightarrow> fsrs \<Rightarrow> change_body \<Rightarrow> db \<Rightarrow> db sres" where
  "apply_review_log q fs body db =
     bindR (write_entity q (cb_entity_type body) (cb_entity_id body) (cb_fields body) Upsert db) (\<lambda>db1.
     bindR (case Option.bind (smap_get (cb_fields body) ''card_id'') as_str of
              Some c \<Rightarrow> Inr (Some c)
            | None \<Rightarrow> review_log_card_id db1 (cb_entity_id body)) (\<lambda>card_id.
       case card_id of Some c \<Rightarrow> recompute_review_card q fs c db1 | None \<Rightarrow> Inr db1))"

definition apply_review_card :: "sqlite \<Rightarrow> fsrs \<Rightarrow> change_body \<Rightarrow> db \<Rightarrow> db sres" where
  "apply_review_card q fs body db =
     bindR (write_entity q (cb_entity_type body) (cb_entity_id body) (cb_fields body) Upsert db)
       (recompute_review_card q fs (cb_entity_id body))"

section \<open>Fields\<close>

definition write_one_field :: "sqlite \<Rightarrow> change_body \<Rightarrow> string \<Rightarrow> json \<Rightarrow> db \<Rightarrow> db sres" where
  "write_one_field q body k v db =
     write_entity q (cb_entity_type body) (cb_entity_id body) (smap_insert k v []) FieldPatch db"

text \<open>The merge input of a field: \<open>snap\<close> is the row as read before the loop.\<close>

definition merge_at :: "change_body \<Rightarrow> json smap option \<Rightarrow> db \<Rightarrow> string \<Rightarrow> json \<Rightarrow> json field_merge" where
  "merge_at body snap db k v =
     \<lparr>fm_local = (case (Option.bind snap (\<lambda>m. smap_get m k),
                        entity_clock db (cb_entity_type body) (cb_entity_id body) k) of
                    (Some lv, Some lc) \<Rightarrow> Some (lv, lc) | _ \<Rightarrow> None),
      fm_incoming_value = v, fm_incoming_clock = cb_clock body, fm_base_version = cb_base_version body\<rparr>"

definition carry_out :: "sqlite \<Rightarrow> change_body \<Rightarrow> string \<Rightarrow> json \<Rightarrow> json merge_decision \<Rightarrow> db \<Rightarrow> db sres" where
  "carry_out q body k v d db =
     (let et = cb_entity_type body; i = cb_entity_id body in
      case d of
        KeepLocal \<Rightarrow> Inr db
      | TakeIncoming \<Rightarrow>
          bindR (write_one_field q body k v db) (\<lambda>db1. Inr (set_entity_clock et i k (cb_clock body) db1))
      | KeepBoth w wc l lc \<Rightarrow>
          bindR (write_one_field q body k w db) (\<lambda>db1.
            Inr (insert_conflict q et i k l lc (set_entity_clock et i k wc db1))))"

definition apply_one_field ::
  "sqlite \<Rightarrow> change_body \<Rightarrow> hlc option \<Rightarrow> json smap option \<Rightarrow> string \<times> json \<Rightarrow> db \<Rightarrow> db sres" where
  "apply_one_field q body dead snap p db =
     (let et = cb_entity_type body; i = cb_entity_id body; k = fst p; v = snd p;
          strategy = strategy_for et k;
          merged = carry_out q body k v (merge_field strategy (merge_at body snap db k v)) db
      in case dead of
           None \<Rightarrow> merged
         | Some d \<Rightarrow>
             if strategy = ConflictCopy then Inr (insert_conflict q et i k v (cb_clock body) db)
             else if d > cb_clock body then Inr db
             else merged)"

definition apply_fields :: "sqlite \<Rightarrow> change_body \<Rightarrow> db \<Rightarrow> db sres" where
  "apply_fields q body db =
     (let et = cb_entity_type body; i = cb_entity_id body;
          dead = tombstone db et i; snap = read_entity q db et i
      in bindR (if snap = None \<and> dead = None then write_entity q et i (cb_fields body) Upsert db else Inr db)
           (foldR (apply_one_field q body dead snap) (cb_fields body)))"

definition apply_change :: "sqlite \<Rightarrow> fsrs \<Rightarrow> change_body \<Rightarrow> db \<Rightarrow> db sres" where
  "apply_change q fs body db =
     (if is_edge (cb_entity_type body) then apply_edge q body db
      else if cb_op body = Delete then apply_delete q body db
      else case cb_entity_type body of
             ReviewLog \<Rightarrow> apply_review_log q fs body db
           | ReviewCard \<Rightarrow> apply_review_card q fs body db
           | _ \<Rightarrow> apply_fields q body db)"

section \<open>Frames\<close>

lemma write_entity_iff [result_iff]:
  "write_entity q et i fm oper db = Inr db' \<longleftrightarrow>
   (\<exists>c. write_entity_fields q et i fm oper (store db) = Inr c \<and> db' = db\<lparr>store := c\<rparr>)"
  by (auto simp: write_entity_def result_iff)

text \<open>The inbox without its identifiers and dismissal marks.\<close>

definition inbox :: "db \<Rightarrow> (entity_type \<times> string \<times> string \<times> string \<times> hlc) list" where
  "inbox db = map (\<lambda>r. (cr_entity_type r, cr_entity_id r, cr_field r, cr_loser_value r, cr_loser_clock r))
                (conflicts db)"

lemma insert_conflict_frame [frame, simp]:
  "store (insert_conflict q et i k v c db) = store db"
  "clocks (insert_conflict q et i k v c db) = clocks db"
  "edges (insert_conflict q et i k v c db) = edges db"
  "tombs (insert_conflict q et i k v c db) = tombs db"
  "outbox (insert_conflict q et i k v c db) = outbox db"
  "local_next (insert_conflict q et i k v c db) = local_next db"
  "applied (insert_conflict q et i k v c db) = applied db"
  "st_cursor_seq (insert_conflict q et i k v c db) = st_cursor_seq db"
  "st_device_id (insert_conflict q et i k v c db) = st_device_id db"
  "fresh (insert_conflict q et i k v c db) = fresh db"
  "fresh_n (insert_conflict q et i k v c db) = Suc (fresh_n db)"
  "inbox (insert_conflict q et i k v c db) = inbox db @ [(et, i, k, json_text q v, stored_hlc c)]"
  by (simp_all add: insert_conflict_def new_uuid_def inbox_def)

lemma inbox_update [simp]:
  "inbox (db\<lparr>store := c\<rparr>) = inbox db" "inbox (db\<lparr>clocks := ck\<rparr>) = inbox db"
  "inbox (db\<lparr>tombs := ts\<rparr>) = inbox db" "inbox (db\<lparr>edges := es\<rparr>) = inbox db"
  by (simp_all add: inbox_def)

lemma read_entity_cong: "store db = store db' \<Longrightarrow> read_entity q db et i = read_entity q db' et i"
  by (simp add: read_entity_def)

end
