(* ===== verification/Apply_Live.thy ===== *)
theory Apply_Live
  imports Apply
begin

text \<open>
  Field changes on live rows: what \<open>apply_fields\<close> does to the row, the clocks and the
  inbox is, field by field, the decision of \<open>merge_field\<close>; the last-writer-wins fields of
  two devices converge through it.
\<close>

section \<open>One field\<close>

text \<open>The cell a decision writes, if it writes one.\<close>

fun written :: "'v field_merge \<Rightarrow> 'v merge_decision \<Rightarrow> ('v \<times> hlc) option" where
  "written m KeepLocal = None"
| "written m TakeIncoming = Some (fm_incoming_value m, fm_incoming_clock m)"
| "written m (KeepBoth w wc l lc) = Some (w, wc)"

definition decide :: "change_body \<Rightarrow> json smap option \<Rightarrow> db \<Rightarrow> string \<Rightarrow> json \<Rightarrow> json merge_decision" where
  "decide body snap db k v =
     merge_field (strategy_for (cb_entity_type body) k) (merge_at body snap db k v)"

definition cell_write :: "change_body \<Rightarrow> json smap option \<Rightarrow> db \<Rightarrow> string \<Rightarrow> json \<Rightarrow> (json \<times> hlc) option" where
  "cell_write body snap db k v = written (merge_at body snap db k v) (decide body snap db k v)"

definition inbox_write :: "sqlite \<Rightarrow> change_body \<Rightarrow> json smap option \<Rightarrow> db \<Rightarrow> string \<times> json
    \<Rightarrow> (entity_type \<times> string \<times> string \<times> string \<times> hlc) list" where
  "inbox_write q body snap db p =
     map (\<lambda>(l, lc). (cb_entity_type body, cb_entity_id body, fst p, json_text q l, stored_hlc lc))
       (inbox_after (decide body snap db (fst p) (snd p)))"

lemma merge_at_simps [simp]:
  "fm_incoming_value (merge_at body snap db k v) = v"
  "fm_incoming_clock (merge_at body snap db k v) = cb_clock body"
  "fm_base_version (merge_at body snap db k v) = cb_base_version body"
  by (simp_all add: merge_at_def)

lemma merge_at_cong:
  "entity_clock db (cb_entity_type body) (cb_entity_id body) k =
   entity_clock db' (cb_entity_type body) (cb_entity_id body) k \<Longrightarrow>
   merge_at body snap db k v = merge_at body snap db' k v"
  by (simp add: merge_at_def)

lemma decide_cong:
  assumes "entity_clock db (cb_entity_type body) (cb_entity_id body) k =
           entity_clock db' (cb_entity_type body) (cb_entity_id body) k"
  shows "decide body snap db k v = decide body snap db' k v"
    and "cell_write body snap db k v = cell_write body snap db' k v"
    and "inbox_write q body snap db (k, v) = inbox_write q body snap db' (k, v)"
  using merge_at_cong [OF assms] by (simp_all add: decide_def cell_write_def inbox_write_def)

section \<open>Columns\<close>

text \<open>The classes a change of which is resolved field by field.\<close>

definition merges_fields :: "entity_type \<Rightarrow> bool" where
  "merges_fields et \<longleftrightarrow> et \<noteq> ReviewCard \<and> et \<noteq> ReviewLog \<and> \<not> is_edge et"

text \<open>The title and status of a highlight live in its content item, which every write of the
  highlight resets; its other columns live in its annotation.\<close>

definition shell_column :: "entity_type \<Rightarrow> string \<Rightarrow> bool" where
  "shell_column et k \<longleftrightarrow> et = Highlight \<and> (k = ''title'' \<or> k = ''status'')"

definition column_table :: "entity_type \<Rightarrow> string \<Rightarrow> string" where
  "column_table et k = (if et = Highlight \<and> \<not> shell_column et k then ''highlight_meta'' else table_of et)"

definition column_at :: "canon \<Rightarrow> entity_type \<Rightarrow> string \<Rightarrow> string \<Rightarrow> sql option" where
  "column_at c et i k = map_option (\<lambda>r. r k) (tbl_get c (column_table et k) i)"

definition has_row :: "canon \<Rightarrow> entity_type \<Rightarrow> string \<Rightarrow> bool" where
  "has_row c et i \<longleftrightarrow> tbl_get c (table_of et) i \<noteq> None \<and> (et = Highlight \<longrightarrow> tbl_get c ''highlight_meta'' i \<noteq> None)"

definition shell_value :: "sqlite \<Rightarrow> string \<Rightarrow> string \<Rightarrow> json \<Rightarrow> sql" where
  "shell_value q col k v =
     affinity q ''content_items'' col (SqlText (str_field [(k, v)] col (if col = ''status'' then ''inbox'' else [])))"

lemma has_row_column: "has_row c et i \<Longrightarrow> column_at c et i k \<noteq> None"
  by (auto simp: has_row_def column_at_def column_table_def)

lemma column_table_plain: "et \<noteq> Highlight \<Longrightarrow> column_table et k = table_of et"
  by (simp add: column_table_def)

lemma highlight_columns:
  assumes "tbl_get c ''content_items'' i = Some r" and "tbl_get c ''highlight_meta'' i = Some h"
    and "c' = highlight_annotation q i [(k, v)] (highlight_shell q i [(k, v)] c)"
  shows "tbl_get c' ''content_items'' i = Some (r(''title'' := shell_value q ''title'' k v, ''status'' := shell_value q ''status'' k v))"
    and "tbl_get c' ''highlight_meta'' i =
      Some (if k = ''title'' \<or> k = ''status'' then h else h(k := affinity q ''highlight_meta'' k (json_to_sql q v)))"
  using assms
  by (simp_all add: highlight_shell_def highlight_annotation_def shell_value_def Let_def set_columns_Cons smap_remove_def)

lemma write_one_field_live:
  assumes "merges_fields et" and "cb_entity_type body = et" and "cb_entity_id body = i"
    and "has_row (store db) et i" and "write_one_field q body k v db = Inr db'"
  shows "\<exists>c. db' = db\<lparr>store := c\<rparr> \<and> has_row c et i \<and> (\<forall>k'. column_at c et i k' =
      (if shell_column et k' then Some (shell_value q k' k v)
       else if k' = k then Some (affinity q (column_table et k) k (json_to_sql q v))
       else column_at (store db) et i k'))"
proof (cases "et = Highlight")
  case True
  then obtain r h where rows: "tbl_get (store db) ''content_items'' i = Some r" "tbl_get (store db) ''highlight_meta'' i = Some h"
    using assms(4) by (auto simp: has_row_def)
  let ?c = "highlight_annotation q i [(k, v)] (highlight_shell q i [(k, v)] (store db))"
  have "db' = db\<lparr>store := ?c\<rparr>"
    using assms True by (auto simp: write_one_field_def write_entity_iff write_entity_fields_def result_iff upsert_highlight_def)
  moreover note h = highlight_columns [OF rows refl, of q k v]
  moreover have "has_row ?c et i" using h True by (simp add: has_row_def)
  ultimately show ?thesis
    using True rows by (intro exI [of _ ?c]) (auto simp: column_at_def column_table_def shell_column_def)
next
  case False
  then have st: "single_table et" using assms(1) by (simp add: merges_fields_def single_table_def)
  obtain r where r: "tbl_get (store db) (table_of et) i = Some r" using assms(4) by (auto simp: has_row_def)
  let ?c = "tbl_put (table_of et) i (r(k := affinity q (table_of et) k (json_to_sql q v))) (store db)"
  have "db' = db\<lparr>store := ?c\<rparr>"
    using assms st r by (auto simp: write_one_field_def result_iff write_single upsert_single_def set_columns_Cons split: if_splits)
  then show ?thesis
    using False r by (intro exI [of _ ?c]) (auto simp: has_row_def column_at_def column_table_def shell_column_def)
qed

definition col_after :: "sqlite \<Rightarrow> string \<Rightarrow> string \<Rightarrow> (json \<times> hlc) option \<Rightarrow> sql \<Rightarrow> sql" where
  "col_after q t k w old = (case w of None \<Rightarrow> old | Some (v, _) \<Rightarrow> affinity q t k (json_to_sql q v))"

text \<open>A shell column after field \<open>k\<close> was decided: reset by any write, to the value when it is its own.\<close>

definition shell_after :: "sqlite \<Rightarrow> string \<Rightarrow> string \<Rightarrow> (json \<times> hlc) option \<Rightarrow> sql \<Rightarrow> sql" where
  "shell_after q col k w old = (case w of None \<Rightarrow> old | Some (v, _) \<Rightarrow> shell_value q col k v)"

definition clock_after :: "(json \<times> hlc) option \<Rightarrow> hlc option \<Rightarrow> hlc option" where
  "clock_after w c = (case w of None \<Rightarrow> c | Some (_, wc) \<Rightarrow> Some (stored_hlc wc))"

lemma apply_one_field_live:
  assumes et: "merges_fields et" "cb_entity_type body = et" "cb_entity_id body = i"
    and row: "has_row (store db) et i"
    and a: "apply_one_field q body None snap (k, v) db = Inr db'"
  shows "has_row (store db') et i"
    and "column_at (store db') et i k' = map_option
           (if shell_column et k' then shell_after q k' k (cell_write body snap db k v)
            else if k' = k then col_after q (column_table et k) k (cell_write body snap db k v) else id)
           (column_at (store db) et i k')"
    and "entity_clock db' et i k' =
           (if k' = k then clock_after (cell_write body snap db k v) (entity_clock db et i k) else entity_clock db et i k')"
    and "inbox db' = inbox db @ inbox_write q body snap db (k, v)"
    and "tombs db' = tombs db"
proof -
  have c: "carry_out q body k v (decide body snap db k v) db = Inr db'"
    using a by (simp add: apply_one_field_def decide_def Let_def)
  note simps = carry_out_def result_iff cell_write_def inbox_write_def col_after_def shell_after_def clock_after_def
    set_entity_clock_def entity_clock_def
  note w = write_one_field_live [OF et row]
  obtain y where y: "column_at (store db) et i k' = Some y" using has_row_column [OF row] by blast
  show "has_row (store db') et i"
    using c row et by (cases "decide body snap db k v") (auto simp: simps Let_def dest!: w)
  show "column_at (store db') et i k' = map_option
           (if shell_column et k' then shell_after q k' k (cell_write body snap db k v)
            else if k' = k then col_after q (column_table et k) k (cell_write body snap db k v) else id)
           (column_at (store db) et i k')"
    using c y et by (cases "decide body snap db k v") (auto simp: simps Let_def dest!: w)
  show "entity_clock db' et i k' =
           (if k' = k then clock_after (cell_write body snap db k v) (entity_clock db et i k) else entity_clock db et i k')"
    using c et by (cases "decide body snap db k v") (auto simp: simps Let_def dest!: w)
  show "inbox db' = inbox db @ inbox_write q body snap db (k, v)"
    using c et by (cases "decide body snap db k v") (auto simp: simps Let_def dest!: w)
  show "tombs db' = tombs db"
    using c et by (cases "decide body snap db k v") (auto simp: simps Let_def dest!: w)
qed

section \<open>All fields of a change\<close>

text \<open>What the change writes to field \<open>k\<close>, decided against the state before the loop.\<close>

definition field_write :: "change_body \<Rightarrow> json smap \<Rightarrow> json smap option \<Rightarrow> db \<Rightarrow> string \<Rightarrow> (json \<times> hlc) option" where
  "field_write body fm snap db k =
     (case smap_get fm k of None \<Rightarrow> None | Some v \<Rightarrow> cell_write body snap db k v)"

text \<open>A column after the change: the value of its own decision, or for a shell column the value
  the last written field leaves.\<close>

definition column_after ::
  "sqlite \<Rightarrow> change_body \<Rightarrow> json smap \<Rightarrow> json smap option \<Rightarrow> db \<Rightarrow> string \<Rightarrow> sql \<Rightarrow> sql" where
  "column_after q body fm snap db k old =
     (if shell_column (cb_entity_type body) k
      then fold (\<lambda>(k', v). shell_after q k k' (cell_write body snap db k' v)) fm old
      else col_after q (column_table (cb_entity_type body) k) k (field_write body fm snap db k) old)"

lemma column_after_Nil [simp]: "column_after q body [] snap db k = id"
  by (rule ext) (simp add: column_after_def field_write_def col_after_def)

lemma apply_loop_live:
  assumes "merges_fields et" and "cb_entity_type body = et" and "cb_entity_id body = i" and "distinct (map fst fm)"
    and "has_row (store db) et i"
    and "foldR (apply_one_field q body None snap) fm db = Inr db'"
  shows "has_row (store db') et i
    \<and> (\<forall>k. column_at (store db') et i k = map_option (column_after q body fm snap db k) (column_at (store db) et i k))
    \<and> (\<forall>k. entity_clock db' et i k = clock_after (field_write body fm snap db k) (entity_clock db et i k))
    \<and> inbox db' = inbox db @ concat (map (inbox_write q body snap db) fm)
    \<and> tombs db' = tombs db"
  using assms(4-6)
proof (induction fm arbitrary: db)
  case Nil
  then show ?case by (simp add: field_write_def clock_after_def option.map_ident)
next
  case (Cons p fm)
  obtain k v where p: "p = (k, v)" by (cases p)
  obtain db1 where s: "apply_one_field q body None snap (k, v) db = Inr db1"
    and rest: "foldR (apply_one_field q body None snap) fm db1 = Inr db'"
    using Cons.prems(3) p by (auto simp: result_iff)
  note one = apply_one_field_live [OF assms(1-3) Cons.prems(2) s]
  have k: "k \<notin> fst ` set fm" and dist: "distinct (map fst fm)" using Cons.prems(1) p by simp_all
  have other: "entity_clock db1 et i k' = entity_clock db et i k'" if "k' \<noteq> k" for k'
    using one(3) that by simp
  note cong = decide_cong [of db1 body _ db, unfolded assms(2,3), OF other]
  have cw: "cell_write body snap db1 k' v' = cell_write body snap db k' v'" if "(k', v') \<in> set fm" for k' v'
    by (rule cong(2)) (use that k in force)
  have fw: "field_write body fm snap db1 k' = field_write body fm snap db k'" for k'
  proof (cases "k' = k")
    case True
    with k show ?thesis by (simp add: field_write_def smap_get_None_iff [THEN iffD2])
  next
    case False
    from cong(2) [OF this] show ?thesis by (simp add: field_write_def split: option.splits)
  qed
  have iw: "map (inbox_write q body snap db1) fm = map (inbox_write q body snap db) fm"
  proof (rule map_cong [OF refl])
    fix e assume "e \<in> set fm"
    with k have "fst e \<noteq> k" by force
    from cong(3) [OF this] show "inbox_write q body snap db1 e = inbox_write q body snap db e"
      by (cases e) simp
  qed
  have none: "field_write body fm snap db k = None"
    using k by (simp add: field_write_def smap_get_None_iff [THEN iffD2])
  have cons: "field_write body ((k, v) # fm) snap db k' =
      (if k' = k then cell_write body snap db k v else field_write body fm snap db k')" for k'
    by (simp add: field_write_def)
  have shell: "fold (\<lambda>(k', v). shell_after q x k' (cell_write body snap db1 k' v)) fm old =
      fold (\<lambda>(k', v). shell_after q x k' (cell_write body snap db k' v)) fm old" for x old
    by (rule fold_cong) (auto simp: cw)
  note IH = Cons.IH [OF dist one(1) rest]
  have "column_at (store db') et i x = map_option (column_after q body (p # fm) snap db x) (column_at (store db) et i x)" for x
  proof -
    obtain y where y: "column_at (store db) et i x = Some y" using has_row_column [OF Cons.prems(2)] by blast
    then show ?thesis
      using IH one(2) [of x] by (auto simp: column_after_def fw cons none p shell assms(2) col_after_def split: option.splits)
  qed
  moreover have "entity_clock db' et i x = clock_after (field_write body (p # fm) snap db x) (entity_clock db et i x)" for x
    by (cases "x = k") (use IH in \<open>simp_all add: fw cons none p one(3) clock_after_def\<close>)
  moreover have "inbox db' = inbox db @ concat (map (inbox_write q body snap db) (p # fm))"
    using IH by (simp add: iw one(4) p)
  moreover have "tombs db' = tombs db"
    using IH one(5) by simp
  ultimately show ?case using IH by simp
qed

section \<open>The refinement\<close>

lemma smap_get_row_fields:
  "smap_get (row_fields q cols r) k = (if k \<in> set cols then Some (sql_to_json q (r k)) else None)"
proof -
  have "smap_get (fold (\<lambda>col m. smap_insert col (sql_to_json q (r col)) m) cols m) k =
      (if k \<in> set cols then Some (sql_to_json q (r k)) else smap_get m k)" for m
    by (induction cols arbitrary: m) auto
  then show ?thesis by (simp add: row_fields_def)
qed

lemma read_entity_single:
  "single_table et \<Longrightarrow> tbl_get (store db) (table_of et) i = Some r \<Longrightarrow>
   read_entity q db et i = Some (row_fields q (allowed_columns et) r)"
  by (simp add: read_entity_def read_entity_fields_def read_columns_def single_table_def)

text \<open>The row as the merge reads it: the column values, found by column.\<close>

definition row_view :: "canon \<Rightarrow> entity_type \<Rightarrow> string \<Rightarrow> row" where
  "row_view c et i k = the (column_at c et i k)"

lemma row_fields_cong: "(\<And>k. k \<in> set cols \<Longrightarrow> r k = r' k) \<Longrightarrow> row_fields q cols r = row_fields q cols r'"
  by (auto simp: row_fields_def intro!: fold_cong)

lemma read_entity_row:
  assumes "merges_fields et"
  shows "read_entity q db et i =
    (if has_row (store db) et i then Some (row_fields q (allowed_columns et) (row_view (store db) et i)) else None)"
proof (cases "et = Highlight")
  case True
  then show ?thesis
    by (auto simp: read_entity_def read_entity_fields_def read_highlight_def has_row_def row_view_def column_at_def
        column_table_def shell_column_def split: option.split intro!: row_fields_cong)
next
  case False
  then show ?thesis
    using assms by (auto simp: read_entity_def read_entity_fields_def read_columns_def has_row_def row_view_def column_at_def
        column_table_def merges_fields_def intro!: row_fields_cong)
qed

lemma apply_change_fields:
  "merges_fields (cb_entity_type body) \<Longrightarrow> cb_op body \<noteq> Delete \<Longrightarrow> apply_change q fs body db = apply_fields q body db"
  by (cases "cb_entity_type body") (simp_all add: apply_change_def merges_fields_def)

lemma apply_fields_live:
  assumes "merges_fields et" and "cb_entity_type body = et" and "cb_entity_id body = i" and "wf_smap (cb_fields body)"
    and "tombstone db et i = None" and "has_row (store db) et i" and "apply_fields q body db = Inr db'"
  defines "snap \<equiv> Some (row_fields q (allowed_columns et) (row_view (store db) et i))"
  shows "has_row (store db') et i
    \<and> (\<forall>k. column_at (store db') et i k =
         map_option (column_after q body (cb_fields body) snap db k) (column_at (store db) et i k))
    \<and> (\<forall>k. entity_clock db' et i k = clock_after (field_write body (cb_fields body) snap db k) (entity_clock db et i k))
    \<and> inbox db' = inbox db @ concat (map (inbox_write q body snap db) (cb_fields body))
    \<and> tombs db' = tombs db"
proof -
  have "foldR (apply_one_field q body None snap) (cb_fields body) db = Inr db'"
    using assms by (simp add: apply_fields_def read_entity_row Let_def)
  then show ?thesis
    by (rule apply_loop_live [OF assms(1-3) wf_smap_distinct [OF assms(4)] assms(6)])
qed


text \<open>A live note held at stamp 5 and a concurrent edit of its body at stamp 9.\<close>

definition note_row :: row where
  "note_row = (\<lambda>_. SqlNull)(''body'' := SqlText ''mine'')"

definition note_db :: db where
  "note_db = set_entity_clock Note ''n'' ''body'' (Hlc 5 0 ''a'')
     (demo_db\<lparr>store := tbl_put ''notes'' ''n'' note_row empty_canon\<rparr>)"

definition note_edit :: "hlc option \<Rightarrow> change_body" where
  "note_edit base = \<lparr>cb_entity_type = Note, cb_entity_id = ''n'', cb_op = FieldPatch,
     cb_clock = Hlc 9 0 ''b'', cb_base_version = base, cb_fields = [(''body'', JStr ''theirs'')],
     cb_blob_manifest = []\<rparr>"

lemma note_edit_simps [simp]:
  "cb_entity_type (note_edit base) = Note" "cb_entity_id (note_edit base) = ''n''"
  "cb_op (note_edit base) = FieldPatch" "cb_fields (note_edit base) = [(''body'', JStr ''theirs'')]"
  "cb_clock (note_edit base) = Hlc 9 0 ''b''" "cb_base_version (note_edit base) = base"
  by (simp_all add: note_edit_def)

lemma single_table_simps [simp]:
  "single_table Note" "single_table Document" "single_table Tag"
  by (simp_all add: single_table_def is_edge_def)

lemma merges_fields_simps [simp]:
  "merges_fields Note" "merges_fields Document" "merges_fields Tag" "merges_fields Highlight"
  by (simp_all add: merges_fields_def is_edge_def)

lemma note_db_simps [simp]:
  "tombstone note_db Note ''n'' = None"
  "store note_db = tbl_put ''notes'' ''n'' note_row empty_canon"
  "entity_clock note_db Note ''n'' k = (if k = ''body'' then Some (Hlc 5 0 ''a'') else None)"
  "inbox note_db = []"
  by (simp_all add: note_db_def tombstone_def set_entity_clock_def entity_clock_def stored_hlc_def
      i64_max_def inbox_def)

lemma stored_small [simp]: "w \<le> i64_max \<Longrightarrow> stored_hlc (Hlc w n d) = Hlc w n d"
  by (simp add: stored_hlc_def)

lemma note_edit_decision:
  assumes "base \<noteq> Some (Hlc 5 0 ''a'')"
  shows "decide (note_edit base) (Some (row_fields demo_sqlite [''content_item_id'', ''body''] note_row)) note_db
     ''body'' (JStr ''theirs'') = KeepBoth (JStr ''theirs'') (Hlc 9 0 ''b'') (JStr ''mine'') (Hlc 5 0 ''a'')"
  using assms
  by (simp add: decide_def merge_at_def smap_get_row_fields note_row_def merge_field_conflict_copy
      merge_conflict_copy_def less_hlc_iff)

lemma note_edit_applies:
  "\<exists>db'. apply_fields demo_sqlite (note_edit base) note_db = Inr db'"
  by (cases "decide (note_edit base) (Some (row_fields demo_sqlite [''content_item_id'', ''body''] note_row)) note_db
     ''body'' (JStr ''theirs'')")
    (simp_all add: apply_fields_def read_entity_single apply_one_field_def carry_out_def Let_def
      decide_def write_one_field_def write_entity_def write_single reject_unknown_columns_def
      upsert_single_def exec_sql_def)


end
