(* ===== verification/Apply_Converge.thy ===== *)
theory Apply_Converge
  imports Apply_Live
begin

text \<open>
  Convergence through \<open>apply_change\<close>: the last-writer-wins cells and the membership edges of
  \<open>Merge\<close>, which are order independent, are what the database holds after applying changes.
\<close>

section \<open>Last-writer-wins columns\<close>

text \<open>The replicated cell of a column: its SQL value under the clock recorded for it.\<close>

definition field_cell :: "db \<Rightarrow> entity_type \<Rightarrow> string \<Rightarrow> string \<Rightarrow> (sql \<times> hlc) option" where
  "field_cell db et i k =
     (case (entity_clock db et i k, column_at (store db) et i k) of
        (Some c, Some x) \<Rightarrow> Some (x, c) | _ \<Rightarrow> None)"

definition live_row :: "db \<Rightarrow> entity_type \<Rightarrow> string \<Rightarrow> bool" where
  "live_row db et i \<longleftrightarrow> tombstone db et i = None \<and> has_row (store db) et i"

definition storable :: "hlc \<Rightarrow> bool" where
  "storable c \<longleftrightarrow> wall_millis c \<le> i64_max"

lemma stored_storable [simp]: "storable c \<Longrightarrow> stored_hlc c = c"
  by (cases c) (simp add: storable_def stored_hlc_def)

text \<open>A create or field patch of entity \<open>i\<close> that goes through \<open>apply_fields\<close>.\<close>

definition field_change :: "entity_type \<Rightarrow> string \<Rightarrow> change_body \<Rightarrow> bool" where
  "field_change et i b \<longleftrightarrow> merges_fields et \<and> cb_entity_type b = et \<and> cb_entity_id b = i \<and> cb_op b \<noteq> Delete \<and> wf_smap (cb_fields b) \<and> storable (cb_clock b)"

lemma apply_change_field:
  "field_change et i b \<Longrightarrow> apply_change q fs b db = apply_fields q b db"
  by (auto simp: field_change_def apply_change_fields)

definition lww_write :: "sqlite \<Rightarrow> string \<Rightarrow> change_body \<Rightarrow> (sql \<times> hlc) option" where
  "lww_write q k b =
     map_option (\<lambda>v. (affinity q (column_table (cb_entity_type b) k) k (json_to_sql q v), cb_clock b))
       (smap_get (cb_fields b) k)"

definition deliver_opt :: "('v \<times> hlc) option \<Rightarrow> ('v \<times> hlc) option \<Rightarrow> ('v \<times> hlc) option" where
  "deliver_opt w cell = (case w of None \<Rightarrow> cell | Some x \<Rightarrow> lww_deliver x cell)"

lemma lww_cell_write:
  assumes "strategy_for (cb_entity_type b) k \<noteq> ConflictCopy" and "k \<in> set (allowed_columns (cb_entity_type b))"
  shows "cell_write b (Some (row_fields q (allowed_columns (cb_entity_type b)) r)) db k v =
     (case entity_clock db (cb_entity_type b) (cb_entity_id b) k of
        None \<Rightarrow> Some (v, cb_clock b)
      | Some lc \<Rightarrow> if lc < cb_clock b then Some (v, cb_clock b) else None)"
  using assms
  by (simp add: cell_write_def decide_def merge_field_lww merge_lww_def merge_at_def smap_get_row_fields
      split: option.splits)

lemma apply_change_cell:
  assumes ch: "field_change et i b" and lww: "strategy_for et k \<noteq> ConflictCopy"
    and k: "k \<in> set (allowed_columns et)" "\<not> shell_column et k" and live: "live_row db et i"
    and a: "apply_change q fs b db = Inr db'"
  shows "live_row db' et i" and "field_cell db' et i k = deliver_opt (lww_write q k b) (field_cell db et i k)"
proof -
  have b: "merges_fields et" "cb_entity_type b = et" "cb_entity_id b = i" "wf_smap (cb_fields b)"
    and c: "storable (cb_clock b)"
    using ch by (auto simp: field_change_def)
  from live have t: "tombstone db et i = None" and row: "has_row (store db) et i"
    by (auto simp: live_row_def)
  have "apply_fields q b db = Inr db'" using a apply_change_field [OF ch] by simp
  note post = apply_fields_live [OF b t row this]
  obtain y where y: "column_at (store db) et i k = Some y" using has_row_column [OF row] by blast
  show "live_row db' et i"
    using post t by (auto simp: live_row_def tombstone_def)
  show "field_cell db' et i k = deliver_opt (lww_write q k b) (field_cell db et i k)"
  proof (cases "smap_get (cb_fields b) k")
    case None
    then show ?thesis
      using post y k(2) b(2) by (simp add: field_cell_def deliver_opt_def lww_write_def field_write_def column_after_def
          clock_after_def col_after_def split: option.splits)
  next
    case (Some v)
    note cw = lww_cell_write [of b k q "row_view (store db) et i" db v, unfolded b(2,3), OF lww k(1)]
    show ?thesis
      using post y k(2) Some c
      by (simp add: field_cell_def deliver_opt_def lww_write_def field_write_def cw column_after_def
          clock_after_def col_after_def b(2) split: option.splits)
  qed
qed

lemma apply_changes_cell:
  assumes "\<And>b. b \<in> set bs \<Longrightarrow> field_change et i b" and "strategy_for et k \<noteq> ConflictCopy"
    and "k \<in> set (allowed_columns et)" and "\<not> shell_column et k" and "live_row db et i"
    and "foldR (apply_change q fs) bs db = Inr db'"
  shows "field_cell db' et i k = fold deliver_opt (map (lww_write q k) bs) (field_cell db et i k)"
  using assms(1,5,6)
proof (induction bs arbitrary: db)
  case Nil
  then show ?case by simp
next
  case (Cons b bs)
  obtain db1 where s: "apply_change q fs b db = Inr db1" and rest: "foldR (apply_change q fs) bs db1 = Inr db'"
    using Cons.prems(3) by (auto simp: result_iff)
  have ch: "field_change et i b" by (rule Cons.prems(1)) simp
  note one = apply_change_cell [OF ch assms(2-4) Cons.prems(2) s]
  from Cons.IH [OF Cons.prems(1) one(1) rest] show ?case
    by (simp add: one(2))
qed

lemma fold_deliver_opt: "fold deliver_opt ws cell = fold lww_deliver (List.map_filter (\<lambda>w. w) ws) cell"
  by (induction ws arbitrary: cell) (auto simp: deliver_opt_def List.map_filter_simps split: option.splits)

lemma set_map_filter_id: "set (List.map_filter (\<lambda>w. w) ws) = {x. Some x \<in> set ws}"
  by (auto simp: List.map_filter_def image_iff) force

text \<open>
  C1. Two devices converge on a last-writer-wins field of a document, tag, collection, note, feed,
  setting or highlight, except the title and status of a highlight, which every write of it
  resets. Starting from the same cell on a live row, applying the same creates and patches of the
  entity in any order and with any repetition, all of them successfully, where changes that carry
  the same stamp write the same value, leaves the same column value and the same clock on both;
  and once one change writes the field the cell is set.
\<close>
theorem lww_fields_converge:
  assumes "set bs = set bs'" and "\<And>b. b \<in> set bs \<Longrightarrow> field_change et i b"
    and "\<And>b b'. b \<in> set bs \<Longrightarrow> b' \<in> set bs \<Longrightarrow> cb_clock b = cb_clock b' \<Longrightarrow>
           smap_get (cb_fields b) k \<noteq> None \<Longrightarrow> smap_get (cb_fields b') k \<noteq> None \<Longrightarrow>
           smap_get (cb_fields b) k = smap_get (cb_fields b') k"
    and "strategy_for et k \<noteq> ConflictCopy" and "k \<in> set (allowed_columns et)" and "\<not> shell_column et k"
    and "live_row db1 et i" and "live_row db2 et i" and "field_cell db1 et i k = field_cell db2 et i k"
    and "foldR (apply_change q fs) bs db1 = Inr db1'" and "foldR (apply_change q fs) bs' db2 = Inr db2'"
  shows "field_cell db1' et i k = field_cell db2' et i k
    \<and> ((\<exists>b \<in> set bs. smap_get (cb_fields b) k \<noteq> None) \<longrightarrow> field_cell db1' et i k \<noteq> None)"
proof -
  let ?ws = "List.map_filter (\<lambda>w. w) (map (lww_write q k) bs)"
  let ?ws' = "List.map_filter (\<lambda>w. w) (map (lww_write q k) bs')"
  have ch': "\<And>b. b \<in> set bs' \<Longrightarrow> field_change et i b" using assms(1,2) by blast
  have e: "set ?ws = set ?ws'" using assms(1) by (simp add: set_map_filter_id)
  have et: "cb_entity_type b = et" if "b \<in> set bs" for b
    using assms(2) [OF that] by (simp add: field_change_def)
  have compat: "lww_compat w w'" if ws: "w \<in> set ?ws" "w' \<in> set ?ws" for w w'
  proof -
    obtain b b' where "b \<in> set bs" "lww_write q k b = Some w" "b' \<in> set bs" "lww_write q k b' = Some w'"
      using ws by (auto simp: set_map_filter_id)
    with assms(3) [of b b'] et show ?thesis by (auto simp: lww_write_def lww_compat_def)
  qed
  have "field_cell db1' et i k = fold lww_deliver ?ws (field_cell db1 et i k)"
    using apply_changes_cell [OF assms(2) assms(4-7,10)] by (simp add: fold_deliver_opt)
  moreover have "field_cell db2' et i k = fold lww_deliver ?ws' (field_cell db1 et i k)"
    using apply_changes_cell [OF ch' assms(4-6,8,11)] by (simp add: fold_deliver_opt assms(9))
  moreover have "fold lww_deliver ws cell \<noteq> None" if "ws \<noteq> [] \<or> cell \<noteq> None" for ws and cell :: "(sql \<times> hlc) option"
    using that by (induction ws arbitrary: cell) (auto simp: neq_Nil_conv, (metis lww_deliver_simps option.exhaust surj_pair)+)
  moreover have "?ws \<noteq> []" if "\<exists>b \<in> set bs. smap_get (cb_fields b) k \<noteq> None"
  proof -
    from that obtain b w where "b \<in> set bs" "lww_write q k b = Some w" by (auto simp: lww_write_def)
    then have "w \<in> set ?ws" by (force simp: set_map_filter_id)
    then show ?thesis by force
  qed
  ultimately show ?thesis using lww.order_independent [OF e compat] by metis
qed

text \<open>On the permissive engine a well-formed change of a live row always applies.\<close>

lemma demo_write_one:
  assumes "merges_fields (cb_entity_type b)" and "k \<in> set (allowed_columns (cb_entity_type b))"
    and "has_row (store db) (cb_entity_type b) (cb_entity_id b)"
  shows "\<exists>db'. write_one_field demo_sqlite b k v db = Inr db'"
  using assms
  by (auto simp: write_one_field_def write_entity_def write_entity_fields_def reject_unknown_columns_def merges_fields_def
      has_row_def upsert_single_def upsert_highlight_def exec_sql_def)

lemma demo_one_field:
  assumes "merges_fields (cb_entity_type b)" and "k \<in> set (allowed_columns (cb_entity_type b))"
    and "has_row (store db) (cb_entity_type b) (cb_entity_id b)"
  shows "\<exists>db'. apply_one_field demo_sqlite b None snap (k, v) db = Inr db'
    \<and> has_row (store db') (cb_entity_type b) (cb_entity_id b)"
proof -
  have "\<exists>db'. carry_out demo_sqlite b k v d db = Inr db'" for d
  proof (cases d)
    case (KeepBoth w wc l lc)
    then show ?thesis using demo_write_one [of b k db w] assms by (auto simp: carry_out_def Let_def)
  qed (use demo_write_one [of b k db v] assms in \<open>auto simp: carry_out_def Let_def\<close>)
  then obtain db' where "apply_one_field demo_sqlite b None snap (k, v) db = Inr db'"
    by (auto simp: apply_one_field_def Let_def)
  with apply_one_field_live(1) [OF assms(1) refl refl assms(3) this] show ?thesis by blast
qed

lemma demo_loop:
  "merges_fields (cb_entity_type b) \<Longrightarrow> fst ` set fm \<subseteq> set (allowed_columns (cb_entity_type b)) \<Longrightarrow>
   has_row (store db) (cb_entity_type b) (cb_entity_id b) \<Longrightarrow>
   \<exists>db'. foldR (apply_one_field demo_sqlite b None snap) fm db = Inr db'"
proof (induction fm arbitrary: db)
  case Nil
  then show ?case by simp
next
  case (Cons p fm)
  then obtain db1 where s: "apply_one_field demo_sqlite b None snap p db = Inr db1"
    and r': "has_row (store db1) (cb_entity_type b) (cb_entity_id b)"
    using demo_one_field [of b "fst p" db snap "snd p"] by auto
  with Cons.IH [OF Cons.prems(1) _ r'] Cons.prems(2) show ?case by simp
qed

lemma demo_apply:
  assumes "field_change et i b" and "fst ` set (cb_fields b) \<subseteq> set (allowed_columns et)" and "live_row db et i"
  shows "\<exists>db'. apply_change demo_sqlite fs b db = Inr db' \<and> live_row db' et i"
proof -
  have b: "merges_fields et" "cb_entity_type b = et" "cb_entity_id b = i" "wf_smap (cb_fields b)"
    using assms(1) by (auto simp: field_change_def)
  from assms(3) have t: "tombstone db et i = None" and r: "has_row (store db) et i"
    by (auto simp: live_row_def)
  have "\<exists>db'. apply_fields demo_sqlite b db = Inr db'"
    using demo_loop [of b "cb_fields b" db "Some (row_fields demo_sqlite (allowed_columns et) (row_view (store db) et i))"]
      b t r assms(2) read_entity_row [OF b(1), of demo_sqlite db i]
    by (simp add: apply_fields_def Let_def)
  then obtain db' where "apply_fields demo_sqlite b db = Inr db'" ..
  moreover from this have "live_row db' et i"
    using apply_fields_live [OF b t r] t by (auto simp: live_row_def tombstone_def)
  ultimately show ?thesis using apply_change_field [OF assms(1)] by auto
qed

lemma demo_apply_all:
  "(\<And>b. b \<in> set bs \<Longrightarrow> field_change et i b \<and> fst ` set (cb_fields b) \<subseteq> set (allowed_columns et)) \<Longrightarrow>
   live_row db et i \<Longrightarrow> \<exists>db'. foldR (apply_change demo_sqlite fs) bs db = Inr db'"
proof (induction bs arbitrary: db)
  case Nil
  then show ?case by simp
next
  case (Cons b bs)
  then obtain db1 where s: "apply_change demo_sqlite fs b db = Inr db1" and l: "live_row db1 et i"
    using demo_apply [of et i b db fs] by auto
  with Cons.IH [OF Cons.prems(1) l] show ?case by simp
qed

definition title_edit :: "u64 \<Rightarrow> string \<Rightarrow> change_body" where
  "title_edit w s = \<lparr>cb_entity_type = Document, cb_entity_id = ''d'', cb_op = FieldPatch,
     cb_clock = Hlc w 0 ''b'', cb_base_version = None, cb_fields = [(''title'', JStr s)],
     cb_blob_manifest = []\<rparr>"

definition doc_db :: db where
  "doc_db = demo_db\<lparr>store := tbl_put ''content_items'' ''d'' (\<lambda>_. SqlNull) empty_canon\<rparr>"

lemma title_edit_change:
  "w \<le> i64_max \<Longrightarrow> field_change Document ''d'' (title_edit w s)"
  "cb_fields (title_edit w s) = [(''title'', JStr s)]" "cb_clock (title_edit w s) = Hlc w 0 ''b''"
  by (simp_all add: field_change_def title_edit_def storable_def)

lemma doc_db_live: "live_row doc_db Document ''d''"
  by (simp add: live_row_def doc_db_def tombstone_def has_row_def)

theorem lww_fields_converge_witness:
  "\<exists>db1 db2. foldR (apply_change demo_sqlite demo_fs) [title_edit 1 ''x'', title_edit 2 ''y''] doc_db = Inr db1
    \<and> foldR (apply_change demo_sqlite demo_fs) [title_edit 2 ''y'', title_edit 1 ''x'', title_edit 2 ''y''] doc_db = Inr db2
    \<and> field_cell db1 Document ''d'' ''title'' = field_cell db2 Document ''d'' ''title''"
proof -
  let ?bs = "[title_edit 1 ''x'', title_edit 2 ''y'']"
  let ?bs' = "[title_edit 2 ''y'', title_edit 1 ''x'', title_edit 2 ''y'']"
  have ch: "field_change Document ''d'' b" if "b \<in> set ?bs \<union> set ?bs'" for b
    using that title_edit_change(1) by (auto simp: i64_max_def)
  have keys: "fst ` set (cb_fields b) \<subseteq> set (allowed_columns Document)" if "b \<in> set ?bs \<union> set ?bs'" for b
    using that by (auto simp: title_edit_change DOCUMENT_COLS_def)
  obtain db1 where 1: "foldR (apply_change demo_sqlite demo_fs) ?bs doc_db = Inr db1"
    using demo_apply_all [OF _ doc_db_live, of ?bs demo_fs] ch keys by auto
  obtain db2 where 2: "foldR (apply_change demo_sqlite demo_fs) ?bs' doc_db = Inr db2"
    using demo_apply_all [OF _ doc_db_live, of ?bs' demo_fs] ch keys by auto
  have "field_cell db1 Document ''d'' ''title'' = field_cell db2 Document ''d'' ''title''"
    by (rule lww_fields_converge [OF _ _ _ _ _ _ doc_db_live doc_db_live refl 1 2, THEN conjunct1])
       (use ch in \<open>auto simp: title_edit_change DOCUMENT_COLS_def shell_column_def\<close>)
  with 1 2 show ?thesis by blast
qed

end
