(* ===== verification/Apply_Edge.thy ===== *)
theory Apply_Edge
  imports Apply_Converge
begin

text \<open>
  Membership edges through \<open>apply_change\<close>: the recorded member is the observed-remove fold
  of \<open>Merge\<close>, and the join table holds the pair exactly when that member is present.
\<close>

definition edge_change :: "entity_type \<Rightarrow> string \<Rightarrow> change_body \<Rightarrow> bool" where
  "edge_change et i b \<longleftrightarrow> is_edge et \<and> cb_entity_type b = et \<and> cb_entity_id b = i \<and> storable (cb_clock b)"

definition edge_event :: "change_body \<Rightarrow> bool \<times> hlc" where
  "edge_event b = (incoming_is_add b, cb_clock b)"

definition edge_members :: "entity_type \<Rightarrow> canon \<Rightarrow> (string \<times> string) set" where
  "edge_members et c = (if et = TagEdge then item_tags c else item_collections c)"

definition storable_member :: "set_member \<Rightarrow> bool" where
  "storable_member m \<longleftrightarrow> (\<forall>c \<in> set_option (add_clock m) \<union> set_option (remove_clock m). storable c)"

text \<open>The join tables carry no constraint but their key and the foreign keys.\<close>

definition edges_unchecked :: "sqlite \<Rightarrow> bool" where
  "edges_unchecked q \<longleftrightarrow>
     (\<forall>c S. checks_ok q (c\<lparr>item_tags := S\<rparr>) = checks_ok q c
          \<and> checks_ok q (c\<lparr>item_collections := S\<rparr>) = checks_ok q c)"

lemma storable_member_saved:
  "storable_member m \<Longrightarrow>
   \<lparr>add_clock = map_option stored_hlc (add_clock m), remove_clock = map_option stored_hlc (remove_clock m)\<rparr> = m"
  by (cases "add_clock m"; cases "remove_clock m"; cases m) (auto simp: storable_member_def)

lemma storable_deliver:
  "storable_member m \<Longrightarrow> storable c \<Longrightarrow> storable_member (deliver_edge (a, c) m)"
  by (cases a; cases "add_clock m"; cases "remove_clock m")
    (auto simp: storable_member_def slot_update_def)

lemma apply_edge_membership_members:
  assumes "is_edge et" and "split_once (CHR '':'') i = Some p" and "edges_unchecked q" and "checks_ok q c"
    and "apply_edge_membership q et i present c = Inr c'"
  shows "p \<in> edge_members et c' \<longleftrightarrow> present" and "checks_ok q c'"
  using assms
  by (auto simp: is_edge_def apply_edge_membership_def split_edge_id_def edge_members_def result_iff
      exec_or_ignore_def edges_unchecked_def split: if_splits)

lemma edge_membership_iff:
  "edge_membership q et i present db = Inr db' \<longleftrightarrow>
   (\<exists>c. apply_edge_membership q et i present (store db) = Inr c \<and> db' = db\<lparr>store := c\<rparr>)"
  by (auto simp: edge_membership_def result_iff)

lemma set_edge_saved:
  "storable_member m \<Longrightarrow> set_edge (save_set_edge et i m db) et i = m"
  by (simp add: set_edge_def save_set_edge_def storable_member_saved)

lemma set_edge_store [simp]: "set_edge (db\<lparr>store := c\<rparr>) et i = set_edge db et i"
  by (simp add: set_edge_def)

lemma store_save_set_edge [simp]: "store (save_set_edge et i m db) = store db"
  by (simp add: save_set_edge_def)

lemma apply_change_edge:
  assumes "edge_change et i b" and "storable_member (set_edge db et i)"
    and "split_once (CHR '':'') i = Some p" and "edges_unchecked q" and "checks_ok q (store db)"
    and "apply_change q fs b db = Inr db'"
  shows "set_edge db' et i = deliver_edge (edge_event b) (set_edge db et i)"
    and "p \<in> edge_members et (store db') \<longleftrightarrow> is_present (set_edge db' et i)"
    and "storable_member (set_edge db' et i)" and "checks_ok q (store db')"
proof -
  have b: "is_edge et" "cb_entity_type b = et" "cb_entity_id b = i" "storable (cb_clock b)"
    using assms(1) by (auto simp: edge_change_def)
  let ?o = "merge_set_member (set_edge db et i) (incoming_is_add b) (cb_clock b)"
  have m: "smo_member ?o = deliver_edge (edge_event b) (set_edge db et i)"
    by (simp add: deliver_edge_def edge_event_def)
  have pr: "smo_present ?o = is_present (smo_member ?o)"
    by (simp add: merge_set_member_def Let_def)
  have sm: "storable_member (smo_member ?o)"
    using storable_deliver [OF assms(2) b(4)] by (simp add: m edge_event_def)
  obtain c where c: "apply_edge_membership q et i (smo_present ?o) (store db) = Inr c"
    and db': "db' = (save_set_edge et i (smo_member ?o) db)\<lparr>store := c\<rparr>"
    using assms(6) b by (auto simp: apply_change_def apply_edge_def Let_def edge_membership_iff)
  show e: "set_edge db' et i = deliver_edge (edge_event b) (set_edge db et i)"
    using set_edge_saved [OF sm] by (simp add: db' m)
  show "p \<in> edge_members et (store db') \<longleftrightarrow> is_present (set_edge db' et i)"
    using apply_edge_membership_members(1) [OF b(1) assms(3,4,5) c] by (simp add: e pr m) (simp add: db')
  show "storable_member (set_edge db' et i)" using sm e m by simp
  show "checks_ok q (store db')"
    using apply_edge_membership_members(2) [OF b(1) assms(3,4,5) c] by (simp add: db')
qed

lemma apply_changes_edge:
  assumes "\<And>b. b \<in> set bs \<Longrightarrow> edge_change et i b"
    and "split_once (CHR '':'') i = Some p" and "edges_unchecked q"
    and "storable_member (set_edge db et i)" and "checks_ok q (store db)"
    and "foldR (apply_change q fs) bs db = Inr db'"
  shows "set_edge db' et i = fold deliver_edge (map edge_event bs) (set_edge db et i)
    \<and> (bs \<noteq> [] \<longrightarrow> (p \<in> edge_members et (store db') \<longleftrightarrow> is_present (set_edge db' et i)))"
  using assms(1,4-6)
proof (induction bs arbitrary: db)
  case Nil
  then show ?case by simp
next
  case (Cons b bs)
  obtain db1 where s: "apply_change q fs b db = Inr db1" and rest: "foldR (apply_change q fs) bs db1 = Inr db'"
    using Cons.prems(4) by (auto simp: result_iff)
  have ch: "edge_change et i b" by (rule Cons.prems(1)) simp
  note one = apply_change_edge [OF ch Cons.prems(2) assms(2,3) Cons.prems(3) s]
  note IH = Cons.IH [OF Cons.prems(1) one(3,4) rest]
  show ?case
  proof (cases "bs = []")
    case True
    with IH rest one(1,2) show ?thesis by simp
  next
    case False
    with IH one(1) show ?thesis by simp
  qed
qed

text \<open>
  C28. Two devices converge on a membership edge: applying the same edge changes in any order
  and with any repetition, from the same recorded member, leaves the same member on both,
  the fold of the observed-remove merge, and both join tables hold the pair exactly when
  that member is present.
\<close>
theorem edge_changes_converge:
  assumes "set bs = set bs'" and "bs \<noteq> []" and "\<And>b. b \<in> set bs \<Longrightarrow> edge_change et (l @ CHR '':'' # r) b"
    and "CHR '':'' \<notin> set l" and "edges_unchecked q"
    and "checks_ok q (store db1)" and "checks_ok q (store db2)"
    and "set_edge db1 et (l @ CHR '':'' # r) = m" and "set_edge db2 et (l @ CHR '':'' # r) = m"
    and "storable_member m"
    and "foldR (apply_change q fs) bs db1 = Inr db1'" and "foldR (apply_change q fs) bs' db2 = Inr db2'"
  shows "set_edge db1' et (l @ CHR '':'' # r) = fold deliver_edge (map edge_event bs) m
    \<and> set_edge db2' et (l @ CHR '':'' # r) = fold deliver_edge (map edge_event bs) m
    \<and> ((l, r) \<in> edge_members et (store db1') \<longleftrightarrow> is_present (fold deliver_edge (map edge_event bs) m))
    \<and> ((l, r) \<in> edge_members et (store db2') \<longleftrightarrow> is_present (fold deliver_edge (map edge_event bs) m))"
proof -
  let ?i = "l @ CHR '':'' # r"
  have p: "split_once (CHR '':'') ?i = Some (l, r)"
    using assms(4) by (simp add: split_once_Some)
  have ch': "\<And>b. b \<in> set bs' \<Longrightarrow> edge_change et ?i b" and ne: "bs' \<noteq> []"
    using assms(1-3) by auto
  have same: "fold deliver_edge (map edge_event bs') m = fold deliver_edge (map edge_event bs) m"
    using assms(1) by (intro edge.order_independent) simp_all
  have sm: "storable_member (set_edge db1 et ?i)" "storable_member (set_edge db2 et ?i)"
    using assms(8-10) by simp_all
  show ?thesis
    using apply_changes_edge [OF assms(3) p assms(5) sm(1) assms(6,11)]
      apply_changes_edge [OF ch' p assms(5) sm(2) assms(7,12)] assms(2,8,9) ne same by simp
qed

definition tag_change :: "bool \<Rightarrow> u64 \<Rightarrow> change_body" where
  "tag_change add w = \<lparr>cb_entity_type = TagEdge, cb_entity_id = ''d:t'', cb_op = Upsert,
     cb_clock = Hlc w 0 ''b'', cb_base_version = None, cb_fields = [(''present'', JBool add)],
     cb_blob_manifest = []\<rparr>"

lemma tag_change_ok: "w \<le> i64_max \<Longrightarrow> edge_change TagEdge (''d'' @ CHR '':'' # ''t'') (tag_change add w)"
  by (simp add: edge_change_def tag_change_def is_edge_def storable_def)

lemma demo_edge_apply: "\<exists>db'. apply_change demo_sqlite fs (tag_change add w) db = Inr db'"
  by (simp add: apply_change_def tag_change_def is_edge_def apply_edge_def edge_membership_def
      apply_edge_membership_def split_edge_id_def Let_def exec_sql_def exec_or_ignore_def)

theorem edge_changes_converge_witness:
  "\<exists>db1 db2. foldR (apply_change demo_sqlite demo_fs) [tag_change True 1, tag_change False 2] demo_db = Inr db1
    \<and> foldR (apply_change demo_sqlite demo_fs) [tag_change False 2, tag_change True 1] demo_db = Inr db2
    \<and> set_edge db1 TagEdge ''d:t'' = set_edge db2 TagEdge ''d:t''"
proof -
  let ?bs = "[tag_change True 1, tag_change False 2]" and ?bs' = "[tag_change False 2, tag_change True 1]"
  obtain db1 where 1: "foldR (apply_change demo_sqlite demo_fs) ?bs demo_db = Inr db1"
    using demo_edge_apply by (metis bindR_simps(2) foldR.simps)
  obtain db2 where 2: "foldR (apply_change demo_sqlite demo_fs) ?bs' demo_db = Inr db2"
    using demo_edge_apply by (metis bindR_simps(2) foldR.simps)
  have i: "''d'' @ CHR '':'' # ''t'' = ''d:t''" by simp
  have ch: "edge_change TagEdge (''d'' @ CHR '':'' # ''t'') b" if "b \<in> set ?bs" for b
    using that tag_change_ok [of 1 True] tag_change_ok [of 2 False] by (auto simp: i64_max_def)
  have u: "edges_unchecked demo_sqlite" by (simp add: edges_unchecked_def)
  have m: "set_edge demo_db TagEdge (''d'' @ CHR '':'' # ''t'') = set_member_default"
    by (simp add: set_edge_def)
  have s: "storable_member set_member_default" by (simp add: storable_member_def set_member_default_def)
  have "set ?bs = set ?bs'" and "?bs \<noteq> []" and "CHR '':'' \<notin> set ''d''" by auto
  from edge_changes_converge [OF this(1,2) ch this(3) u _ _ m m s 1 2]
  have "set_edge db1 TagEdge ''d:t'' = set_edge db2 TagEdge ''d:t''"
    by (simp add: i)
  with 1 2 show ?thesis by blast
qed

end
