(* ===== verification/Apply_Delete.thy ===== *)
theory Apply_Delete
  imports Apply_Live
begin

text \<open>
  Deletes and tombstones on the pull side: a delete wins over the fields it dominates, but
  prose it did not observe goes to the conflict inbox; a tombstoned entity takes no prose, and
  its row comes back only with a plain field that is not older than the delete.
\<close>

section \<open>Deletes\<close>

text \<open>The foreign-key actions of a delete do not bring the deleted row back.\<close>

definition deletes_stay :: "sqlite \<Rightarrow> bool" where
  "deletes_stay q \<longleftrightarrow> (\<forall>t i c. tbl_get c t i = None \<longrightarrow> tbl_get (on_delete q t i c) t i = None)"

lemma fold_preserve:
  "store (fold (preserve_field q body) fm db) = store db
   \<and> clocks (fold (preserve_field q body) fm db) = clocks db
   \<and> tombs (fold (preserve_field q body) fm db) = tombs db
   \<and> set (inbox (fold (preserve_field q body) fm db)) = set (inbox db) \<union>
       {(cb_entity_type body, cb_entity_id body, k, json_text q v, stored_hlc c) | k v c.
          (k, v) \<in> set fm \<and> strategy_for (cb_entity_type body) k = ConflictCopy
          \<and> entity_clock db (cb_entity_type body) (cb_entity_id body) k = Some c \<and> \<not> observed_by body c}"
proof (induction fm arbitrary: db)
  case Nil
  then show ?case by simp
next
  case (Cons p fm)
  have "store (preserve_field q body p db) = store db"
    "clocks (preserve_field q body p db) = clocks db"
    "tombs (preserve_field q body p db) = tombs db"
    "set (inbox (preserve_field q body p db)) = set (inbox db) \<union>
       {(cb_entity_type body, cb_entity_id body, k, json_text q v, stored_hlc c) | k v c.
          (k, v) = p \<and> strategy_for (cb_entity_type body) k = ConflictCopy
          \<and> entity_clock db (cb_entity_type body) (cb_entity_id body) k = Some c \<and> \<not> observed_by body c}"
    by (cases p; auto simp: preserve_field_def Let_def split: option.splits)+
  with Cons.IH [of "preserve_field q body p db"] show ?case
    by (auto simp: entity_clock_def)
qed

lemma tombstone_set [simp]: "tombstone (set_tombstone et i c db) et i = Some (stored_hlc c)"
  by (simp add: tombstone_def set_tombstone_def)

lemma set_tombstone_frame [frame, simp]:
  "store (set_tombstone et i c db) = store db" "clocks (set_tombstone et i c db) = clocks db"
  "inbox (set_tombstone et i c db) = inbox db" "entity_clock (set_tombstone et i c db) = entity_clock db"
  by (simp_all add: set_tombstone_def inbox_def entity_clock_def fun_eq_iff)

lemma preserve_unobserved_prose_frame:
  "store (preserve_unobserved_prose q body db) = store db"
  "clocks (preserve_unobserved_prose q body db) = clocks db"
  "tombs (preserve_unobserved_prose q body db) = tombs db"
  "set (inbox db) \<subseteq> set (inbox (preserve_unobserved_prose q body db))"
  using fold_preserve [of q body _ db]
  by (auto simp: preserve_unobserved_prose_def split: option.splits)

text \<open>A non-prose field of the row that is newer than the delete.\<close>

definition outlives :: "sqlite \<Rightarrow> change_body \<Rightarrow> db \<Rightarrow> bool" where
  "outlives q body db \<longleftrightarrow> (\<exists>fm k c. read_entity q db (cb_entity_type body) (cb_entity_id body) = Some fm
     \<and> k \<in> fst ` set fm \<and> strategy_for (cb_entity_type body) k \<noteq> ConflictCopy
     \<and> entity_clock db (cb_entity_type body) (cb_entity_id body) k = Some c \<and> cb_clock body < c)"

lemma dominated_iff: "max_field_clock_dominated q body db \<longleftrightarrow> \<not> outlives q body db"
  by (auto simp: max_field_clock_dominated_def outlives_def list_all_iff Let_def split: option.splits)

lemma outlives_cong:
  "store db = store db' \<Longrightarrow> clocks db = clocks db' \<Longrightarrow> outlives q body db = outlives q body db'"
  by (simp add: outlives_def read_entity_def entity_clock_def)

lemma delete_row_gone:
  assumes "deletes_stay q" and "et \<noteq> ReviewLog" and "\<not> is_edge et"
    and "write_entity_fields q et i [] Delete c = Inr c'"
  shows "tbl_get c' (table_of et) i = None"
  using assms
  by (auto simp: write_entity_fields_def delete_entity_row_def exec_sql_iff deletes_stay_def split: if_splits)

lemma store_same: "store db = c \<Longrightarrow> db\<lparr>store := c\<rparr> = db"
  by (cases db) simp

text \<open>
  C2. A pulled delete records its tombstone, removes the row exactly when no non-prose field
  of it is newer (else it leaves the row as it was), and loses no prose: every authored
  field of the row whose version the deleter had not seen is in the conflict inbox
  afterwards, next to everything that was there before.
\<close>
theorem delete_preserves_unseen_prose:
  assumes "cb_op body = Delete" and "cb_entity_type body = et" and "cb_entity_id body = i"
    and "\<not> is_edge et" and "et \<noteq> ReviewLog" and "deletes_stay q"
    and "apply_change q fs body db = Inr db'"
  shows "tombstone db' et i = Some (stored_hlc (cb_clock body))
    \<and> (if outlives q body db then store db' = store db else tbl_get (store db') (table_of et) i = None)
    \<and> set (inbox db) \<subseteq> set (inbox db')
    \<and> (\<forall>fm k v c. read_entity q db et i = Some fm \<and> (k, v) \<in> set fm \<and> strategy_for et k = ConflictCopy
         \<and> entity_clock db et i k = Some c \<and> \<not> observed_by body c
         \<longrightarrow> (et, i, k, json_text q v, stored_hlc c) \<in> set (inbox db'))"
proof -
  let ?db0 = "set_tombstone et i (cb_clock body) db"
  let ?db1 = "preserve_unobserved_prose q body ?db0"
  note fr = preserve_unobserved_prose_frame [where q = q and body = body and db = ?db0]
  have dom: "max_field_clock_dominated q body ?db1 \<longleftrightarrow> \<not> outlives q body db"
    unfolding dominated_iff using outlives_cong [of ?db1 db] fr by simp
  have a: "apply_delete q body db = Inr db'"
    using assms(1-4,7) by (simp add: apply_change_def)
  then have db': "if outlives q body db then db' = ?db1 else (\<exists>c. write_entity_fields q et i [] Delete (store db) = Inr c
        \<and> db' = ?db1\<lparr>store := c\<rparr>)"
    using assms(2,3) fr dom by (auto simp: apply_delete_def Let_def result_iff split: if_splits)
  then obtain c where c: "db' = ?db1\<lparr>store := c\<rparr>"
    using store_same [OF fr(1)] by (metis (full_types))
  have "tombstone db' et i = Some (stored_hlc (cb_clock body))"
    using fr by (simp add: c tombstone_def) (simp add: set_tombstone_def)
  moreover have "if outlives q body db then store db' = store db else tbl_get (store db') (table_of et) i = None"
    using db' fr delete_row_gone [OF assms(6,5,4)] by (auto split: if_splits)
  moreover have "set (inbox db) \<subseteq> set (inbox db')"
    using fr by (simp add: c)
  moreover have "(et, i, k, json_text q v, stored_hlc cl) \<in> set (inbox db')"
    if "read_entity q db et i = Some fm" "(k, v) \<in> set fm" "strategy_for et k = ConflictCopy"
      "entity_clock db et i k = Some cl" "\<not> observed_by body cl" for fm k v cl
  proof -
    have "read_entity q ?db0 et i = Some fm" using that(1) by (simp add: read_entity_def)
    then have "?db1 = fold (preserve_field q body) fm ?db0"
      by (simp add: preserve_unobserved_prose_def assms(2,3))
    with fold_preserve [of q body fm ?db0] that assms(2,3) show ?thesis by (auto simp: c)
  qed
  ultimately show ?thesis by blast
qed


text \<open>A delete of the witness note at stamp 7 that had seen version \<open>base\<close> of its body.\<close>

definition note_delete :: "hlc option \<Rightarrow> change_body" where
  "note_delete base = \<lparr>cb_entity_type = Note, cb_entity_id = ''n'', cb_op = Delete,
     cb_clock = Hlc 7 0 ''b'', cb_base_version = base, cb_fields = [], cb_blob_manifest = []\<rparr>"

lemma note_delete_simps [simp]:
  "cb_entity_type (note_delete base) = Note" "cb_entity_id (note_delete base) = ''n''"
  "cb_op (note_delete base) = Delete" "cb_clock (note_delete base) = Hlc 7 0 ''b''"
  "cb_base_version (note_delete base) = base"
  by (simp_all add: note_delete_def)

lemma demo_deletes_stay: "deletes_stay demo_sqlite"
  by (simp add: deletes_stay_def)

lemma note_row_read:
  "read_entity demo_sqlite note_db Note ''n'' = Some (row_fields demo_sqlite [''content_item_id'', ''body''] note_row)"
  by (simp add: read_entity_single)

lemma note_delete_dominates: "\<not> outlives demo_sqlite (note_delete base) note_db"
  by (auto simp: outlives_def)

lemma note_delete_applies: "\<exists>db'. apply_change demo_sqlite fs (note_delete base) note_db = Inr db'"
  by (simp add: apply_change_def apply_delete_def Let_def is_edge_def write_entity_def
      write_entity_fields_def delete_entity_row_def exec_sql_def split: option.splits)

theorem delete_preserves_unseen_prose_witness:
  "\<exists>db'. apply_change demo_sqlite demo_fs (note_delete None) note_db = Inr db'
    \<and> tbl_get (store db') ''notes'' ''n'' = None
    \<and> (Note, ''n'', ''body'', ''mine'', Hlc 5 0 ''a'') \<in> set (inbox db')"
proof -
  obtain db' where a: "apply_change demo_sqlite demo_fs (note_delete None) note_db = Inr db'"
    using note_delete_applies by blast
  have "(''body'', JStr ''mine'') \<in> set (row_fields demo_sqlite [''content_item_id'', ''body''] note_row)"
    by (simp add: row_fields_def note_row_def)
  moreover have "\<not> observed_by (note_delete None) (Hlc 5 0 ''a'')"
    by (simp add: observed_by_def)
  ultimately show ?thesis
    using delete_preserves_unseen_prose [OF _ _ _ _ _ demo_deletes_stay a, of Note "''n''"] a
      note_delete_dominates [of None] note_row_read
    by (fastforce simp: is_edge_def i64_max_def)
qed

section \<open>Tombstones\<close>

lemma foldR_tombstoned:
  assumes "\<And>k v. (k, v) \<in> set fm \<Longrightarrow>
      strategy_for (cb_entity_type body) k = ConflictCopy \<or> cb_clock body < dead"
    and "foldR (apply_one_field q body (Some dead) snap) fm db = Inr db'"
  shows "store db' = store db \<and> clocks db' = clocks db \<and> tombs db' = tombs db
    \<and> inbox db' = inbox db @
        map (\<lambda>(k, v). (cb_entity_type body, cb_entity_id body, k, json_text q v, stored_hlc (cb_clock body)))
          (filter (\<lambda>(k, _). strategy_for (cb_entity_type body) k = ConflictCopy) fm)"
  using assms
proof (induction fm arbitrary: db)
  case Nil
  then show ?case by simp
next
  case (Cons p fm)
  obtain k v where p: "p = (k, v)" by (cases p)
  have "strategy_for (cb_entity_type body) k = ConflictCopy \<or> cb_clock body < dead"
    using Cons.prems(1) [of k v] by (simp add: p)
  define db1 where s: "db1 = (if strategy_for (cb_entity_type body) k = ConflictCopy
        then insert_conflict q (cb_entity_type body) (cb_entity_id body) k v (cb_clock body) db else db)"
  have "apply_one_field q body (Some dead) snap p db = Inr db1"
    using \<open>strategy_for (cb_entity_type body) k = ConflictCopy \<or> cb_clock body < dead\<close>
    by (auto simp: s p apply_one_field_def Let_def)
  then have rest: "foldR (apply_one_field q body (Some dead) snap) fm db1 = Inr db'"
    using Cons.prems(2) by simp
  have "\<And>k v. (k, v) \<in> set fm \<Longrightarrow> strategy_for (cb_entity_type body) k = ConflictCopy \<or> cb_clock body < dead"
    by (rule Cons.prems(1), rule list.set_intros(2))
  from Cons.IH [OF this rest] show ?case by (auto simp: s p)
qed

text \<open>
  Prose never passes a tombstone: a create or patch of a tombstoned entity whose fields are authored
  prose or are older than the delete changes neither the row nor a clock, and puts its prose in
  the inbox. This holds as well when the row is live again: an entity that a newer plain field
  brought back takes no later prose edit, not even one made after reading the live row.
\<close>

lemma tombstoned_takes_no_prose:
  assumes "merges_fields et" and "cb_entity_type body = et" and "cb_entity_id body = i" and "cb_op body \<noteq> Delete"
    and "tombstone db et i = Some dead"
    and "\<And>k v. (k, v) \<in> set (cb_fields body) \<Longrightarrow> strategy_for et k = ConflictCopy \<or> cb_clock body < dead"
    and "apply_change q fs body db = Inr db'"
  shows "store db' = store db \<and> clocks db' = clocks db \<and> tombs db' = tombs db
    \<and> inbox db' = inbox db @
        map (\<lambda>(k, v). (et, i, k, json_text q v, stored_hlc (cb_clock body)))
          (filter (\<lambda>(k, _). strategy_for et k = ConflictCopy) (cb_fields body))"
proof -
  have "apply_fields q body db = Inr db'" using assms(1,2,4,7) by (simp add: apply_change_fields)
  then have "foldR (apply_one_field q body (Some dead) (read_entity q db et i)) (cb_fields body) db = Inr db'"
    using assms(2,3,5) by (simp add: apply_fields_def Let_def)
  from foldR_tombstoned [OF _ this] show ?thesis using assms(2,3,6) by auto
qed

text \<open>A field write brings the row up, whatever was there, and sets its column.\<close>

lemma write_one_field_any:
  assumes "merges_fields et" and "cb_entity_type body = et" and "cb_entity_id body = i"
    and "write_one_field q body k v db = Inr db'"
  shows "\<exists>c. db' = db\<lparr>store := c\<rparr> \<and> has_row c et i
    \<and> (\<not> shell_column et k \<longrightarrow> column_at c et i k = Some (affinity q (column_table et k) k (json_to_sql q v)))"
proof (cases "et = Highlight")
  case True
  let ?c = "highlight_annotation q i [(k, v)] (highlight_shell q i [(k, v)] (store db))"
  have "db' = db\<lparr>store := ?c\<rparr>"
    using assms True by (auto simp: write_one_field_def write_entity_iff write_entity_fields_def result_iff upsert_highlight_def)
  moreover have "has_row ?c et i"
    using True by (simp add: has_row_def highlight_annotation_def highlight_shell_def Let_def split: option.split)
  moreover have "column_at ?c et i k = Some (affinity q (column_table et k) k (json_to_sql q v))" if "\<not> shell_column et k"
    using True that by (simp add: column_at_def column_table_def shell_column_def highlight_annotation_def highlight_shell_def
        Let_def smap_remove_def set_columns_Cons new_row_def split: option.split)
  ultimately show ?thesis by blast
next
  case False
  then have st: "single_table et" using assms(1) by (simp add: merges_fields_def single_table_def)
  then obtain r where "db' = db\<lparr>store := tbl_put (table_of et) i
      (set_columns q (table_of et) [(k, v)] r) (store db)\<rparr>"
    using assms by (auto simp: write_one_field_def result_iff write_single upsert_single_def new_row_def split: option.splits)
  then show ?thesis
    using False by (auto simp: has_row_def column_at_def column_table_def set_columns_Cons)
qed

definition plain_field :: "entity_type \<Rightarrow> string \<Rightarrow> bool" where
  "plain_field et k \<longleftrightarrow> strategy_for et k \<noteq> ConflictCopy"

lemma revive_one:
  assumes et: "merges_fields et" "cb_entity_type body = et" "cb_entity_id body = i" and "\<not> cb_clock body < dead"
    and a: "apply_one_field q body (Some dead) None (k, v) db = Inr db'"
  shows "if plain_field et k
    then (\<exists>c. db' = set_entity_clock et i k (cb_clock body) (db\<lparr>store := c\<rparr>) \<and> write_one_field q body k v db = Inr (db\<lparr>store := c\<rparr>))
    else db' = insert_conflict q et i k v (cb_clock body) db"
proof -
  have "merge_field (strategy_for et k) (merge_at body None db k v) = TakeIncoming" if "plain_field et k"
    using that by (simp add: plain_field_def merge_field_lww merge_lww_def merge_at_def)
  with a et assms(4) write_one_field_any [OF et] show ?thesis
    by (auto simp: apply_one_field_def Let_def plain_field_def carry_out_def result_iff; blast)
qed

lemma revive_loop:
  assumes "merges_fields et" and "cb_entity_type body = et" and "cb_entity_id body = i" and "\<not> cb_clock body < dead"
    and "distinct (map fst fm)" and "foldR (apply_one_field q body (Some dead) None) fm db = Inr db'"
  shows "tombs db' = tombs db
    \<and> inbox db' = inbox db @ map (\<lambda>(k, v). (et, i, k, json_text q v, stored_hlc (cb_clock body)))
        (filter (\<lambda>(k, _). \<not> plain_field et k) fm)
    \<and> (\<forall>k. entity_clock db' et i k =
         (if plain_field et k \<and> k \<in> fst ` set fm then Some (stored_hlc (cb_clock body)) else entity_clock db et i k))
    \<and> (if \<exists>k \<in> fst ` set fm. plain_field et k then has_row (store db') et i else store db' = store db \<and> clocks db' = clocks db)
    \<and> (\<forall>k v. (k, v) \<in> set fm \<and> plain_field et k \<and> \<not> shell_column et k \<longrightarrow>
         column_at (store db') et i k = Some (affinity q (column_table et k) k (json_to_sql q v)))
    \<and> (has_row (store db) et i \<longrightarrow> has_row (store db') et i \<and> (\<forall>k. \<not> shell_column et k \<and> k \<notin> fst ` set fm \<longrightarrow>
         column_at (store db') et i k = column_at (store db) et i k))"
  using assms(5,6)
proof (induction fm arbitrary: db)
  case Nil
  then show ?case by auto
next
  case (Cons p fm)
  obtain k v where p: "p = (k, v)" by (cases p)
  obtain db1 where s: "apply_one_field q body (Some dead) None (k, v) db = Inr db1"
    and rest: "foldR (apply_one_field q body (Some dead) None) fm db1 = Inr db'"
    using Cons.prems(2) p by (auto simp: result_iff)
  have k: "k \<notin> fst ` set fm" and dist: "distinct (map fst fm)" using Cons.prems(1) p by simp_all
  note IH = Cons.IH [OF dist rest] and one = revive_one [OF assms(1-4) s]
  show ?case
  proof (cases "plain_field et k")
    case False
    with one have "db1 = insert_conflict q et i k v (cb_clock body) db" by simp
    with IH False show ?thesis by (auto simp: p entity_clock_def)
  next
    case True
    with one obtain c where db1: "db1 = set_entity_clock et i k (cb_clock body) (db\<lparr>store := c\<rparr>)"
      and w: "write_one_field q body k v db = Inr (db\<lparr>store := c\<rparr>)" by auto
    have st: "store db1 = c" "tombs db1 = tombs db" "inbox db1 = inbox db"
      "entity_clock db1 et i k' = (if k' = k then Some (stored_hlc (cb_clock body)) else entity_clock db et i k')" for k'
      by (simp_all add: db1 set_entity_clock_def entity_clock_def)
    from write_one_field_any [OF assms(1-3) w] have row: "has_row c et i"
      and col: "\<not> shell_column et k \<longrightarrow> column_at c et i k = Some (affinity q (column_table et k) k (json_to_sql q v))"
      by (auto dest: arg_cong [where f = store])
    have keep: "column_at c et i k' = column_at (store db) et i k'"
      if "has_row (store db) et i" "\<not> shell_column et k'" "k' \<noteq> k" for k'
      using write_one_field_live [OF assms(1-3) that(1) w] that by (auto dest: arg_cong [where f = store])
    have here: "has_row (store db') et i" "\<And>k'. \<not> shell_column et k' \<Longrightarrow> k' \<notin> fst ` set fm \<Longrightarrow>
        column_at (store db') et i k' = column_at c et i k'"
      using IH row st(1) by auto
    show ?thesis
    proof (intro conjI)
      show "tombs db' = tombs db" using IH st by simp
      show "inbox db' = inbox db @ map (\<lambda>(k, v). (et, i, k, json_text q v, stored_hlc (cb_clock body)))
          (filter (\<lambda>(k, _). \<not> plain_field et k) (p # fm))" using IH st(3) True by (simp add: p)
      show "\<forall>k'. entity_clock db' et i k' = (if plain_field et k' \<and> k' \<in> fst ` set (p # fm)
          then Some (stored_hlc (cb_clock body)) else entity_clock db et i k')" using IH st(4) True by (auto simp: p)
      show "if \<exists>k' \<in> fst ` set (p # fm). plain_field et k' then has_row (store db') et i
          else store db' = store db \<and> clocks db' = clocks db" using here(1) True p by auto
      show "\<forall>k' v'. (k', v') \<in> set (p # fm) \<and> plain_field et k' \<and> \<not> shell_column et k' \<longrightarrow>
          column_at (store db') et i k' = Some (affinity q (column_table et k') k' (json_to_sql q v'))"
        using IH here(2) [of k] k col by (auto simp: p)
      show "has_row (store db) et i \<longrightarrow> has_row (store db') et i \<and> (\<forall>k'. \<not> shell_column et k' \<and> k' \<notin> fst ` set (p # fm) \<longrightarrow>
          column_at (store db') et i k' = column_at (store db) et i k')"
        using here keep by (auto simp: p)
    qed
  qed
qed


text \<open>A note deleted at stamp 6, and an edit of its body at stamp 9.\<close>

definition gone_db :: db where
  "gone_db = set_tombstone Note ''n'' (Hlc 6 0 ''c'') demo_db"


end
