(* ===== verification/Collection_Order.thy ===== *)
theory Collection_Order
  imports Prelude
begin

text \<open>
  \<open>order_collections_parent_first\<close> of \<^verbatim>\<open>crates/pergamon-storage/src/sync.rs\<close>: the baseline
  sends a collection after its parent. The loop repeats passes over the collections until
  one adds nothing; what is left over is appended.
\<close>

record coll =
  co_id :: string
  co_parent :: "string option"

definition parent_ready :: "string set \<Rightarrow> string set \<Rightarrow> coll \<Rightarrow> bool" where
  "parent_ready ids emitted c =
     (case co_parent c of None \<Rightarrow> True | Some p \<Rightarrow> p \<notin> ids \<or> p \<in> emitted)"

definition pass_step ::
  "string set \<Rightarrow> coll \<Rightarrow> string set \<times> string list \<times> bool \<Rightarrow> string set \<times> string list \<times> bool" where
  "pass_step ids c st =
     (case st of (emitted, order, progressed) \<Rightarrow>
        if co_id c \<in> emitted then st
        else if parent_ready ids emitted c then (insert (co_id c) emitted, order @ [co_id c], True)
        else st)"

definition order_pass ::
  "string set \<Rightarrow> coll list \<Rightarrow> string set \<Rightarrow> string list \<Rightarrow> string set \<times> string list \<times> bool" where
  "order_pass ids cs emitted order = fold (pass_step ids) cs (emitted, order, False)"

lemma pass_step_cases:
  obtains "pass_step ids c (E, O', b) = (E, O', b)" "co_id c \<in> E \<or> \<not> parent_ready ids E c"
  | "pass_step ids c (E, O', b) = (insert (co_id c) E, O' @ [co_id c], True)"
      "co_id c \<notin> E" "parent_ready ids E c"
  by (cases "co_id c \<in> E"; cases "parent_ready ids E c") (auto simp: pass_step_def)

lemma fold_pass_progress: "snd (snd (fold (pass_step ids) cs (E, os, True)))"
  by (induction cs arbitrary: E os) (auto simp: pass_step_def)

lemma fold_pass_mono:
  "fold (pass_step ids) cs (E, os, b) = (E', os', b') \<Longrightarrow> E \<subseteq> E' \<and> E' \<subseteq> E \<union> co_id ` set cs"
proof (induction cs arbitrary: E os b)
  case (Cons c cs)
  show ?case
    by (rule pass_step_cases [of ids c E os b]) (use Cons in \<open>fastforce+\<close>)
qed simp

lemma fold_pass_grows:
  "fold (pass_step ids) cs (E, os, False) = (E', os', True) \<Longrightarrow> \<exists>c \<in> set cs. co_id c \<in> E' - E"
proof (induction cs arbitrary: E os)
  case (Cons c cs)
  show ?case
  proof (rule pass_step_cases [of ids c E os False])
    assume "pass_step ids c (E, os, False) = (insert (co_id c) E, os @ [co_id c], True)" and "co_id c \<notin> E"
    with Cons.prems fold_pass_mono [of ids cs "insert (co_id c) E" "os @ [co_id c]" True] show ?thesis
      by auto
  qed (use Cons in auto)
qed simp

lemma fold_pass_stuck:
  "fold (pass_step ids) cs (E, os, False) = (E', os', False) \<Longrightarrow>
   E' = E \<and> os' = os \<and> (\<forall>c \<in> set cs. co_id c \<in> E \<or> \<not> parent_ready ids E c)"
proof (induction cs)
  case (Cons c cs)
  show ?case
  proof (rule pass_step_cases [of ids c E os False])
    assume "pass_step ids c (E, os, False) = (insert (co_id c) E, os @ [co_id c], True)"
    with Cons.prems have "\<not> snd (snd (fold (pass_step ids) cs (insert (co_id c) E, os @ [co_id c], True)))"
      by simp
    then show ?thesis using fold_pass_progress by blast
  qed (use Cons in auto)
qed simp

lemma pass_shrinks:
  assumes "order_pass (co_id ` set cs) cs E os = (E', os', True)"
  shows "card (co_id ` set cs - E') < card (co_id ` set cs - E)"
proof -
  have f: "fold (pass_step (co_id ` set cs)) cs (E, os, False) = (E', os', True)"
    using assms by (simp add: order_pass_def)
  then obtain c where "c \<in> set cs" "co_id c \<in> E' - E"
    using fold_pass_grows by blast
  moreover have "E \<subseteq> E'" using fold_pass_mono [OF f] by simp
  ultimately have "co_id ` set cs - E' \<subset> co_id ` set cs - E"
    by auto
  then show ?thesis by (simp add: psubset_card_mono)
qed

text \<open>The \<open>loop\<close>: every pass that progresses emits a collection not emitted before.\<close>

function order_loop :: "coll list \<Rightarrow> string set \<Rightarrow> string list \<Rightarrow> string set \<times> string list" where
  "order_loop cs emitted order =
     (case order_pass (co_id ` set cs) cs emitted order of
        (emitted', order', progressed) \<Rightarrow>
          if progressed then order_loop cs emitted' order' else (emitted', order'))"
  by auto
termination
  by (relation "measure (\<lambda>(cs, emitted, _). card (co_id ` set cs - emitted))")
     (auto dest!: pass_shrinks [OF sym])

declare order_loop.simps [simp del]

definition order_collections_parent_first :: "coll list \<Rightarrow> string list" where
  "order_collections_parent_first cs =
     (case order_loop cs {} [] of
        (emitted, order) \<Rightarrow> order @ map co_id (filter (\<lambda>c. co_id c \<notin> emitted) cs))"

section \<open>The loop's invariant\<close>

definition parents_first :: "coll list \<Rightarrow> string list \<Rightarrow> bool" where
  "parents_first cs os \<longleftrightarrow>
     (\<forall>as x bs c p. os = as @ x # bs \<and> c \<in> set cs \<and> co_id c = x \<and> co_parent c = Some p
        \<and> p \<in> co_id ` set cs \<longrightarrow> p \<in> set as)"

definition order_inv :: "coll list \<Rightarrow> string set \<Rightarrow> string list \<Rightarrow> bool" where
  "order_inv cs E os \<longleftrightarrow> E = set os \<and> distinct os \<and> set os \<subseteq> co_id ` set cs \<and> parents_first cs os"

lemma parents_first_snoc:
  assumes "parents_first cs os" and "c \<in> set cs" and "parent_ready (co_id ` set cs) (set os) c"
    and "distinct (map co_id cs)"
  shows "parents_first cs (os @ [co_id c])"
  unfolding parents_first_def
proof (intro allI impI, elim conjE)
  fix as x bs d p
  assume s: "os @ [co_id c] = as @ x # bs" and d: "d \<in> set cs" "co_id d = x" "co_parent d = Some p"
    "p \<in> co_id ` set cs"
  show "p \<in> set as"
  proof (cases bs rule: rev_cases)
    case Nil
    with s d have "co_id d = co_id c" and as: "as = os" by simp_all
    then have "d = c" using assms(2,4) d(1) by (auto simp: distinct_map dest: inj_onD)
    with assms(3) d as show ?thesis by (simp add: parent_ready_def)
  next
    case (snoc bs' y)
    with s have "os = as @ x # bs'" by simp
    with assms(1) d show ?thesis unfolding parents_first_def by blast
  qed
qed

lemma order_inv_pass:
  "fold (pass_step (co_id ` set cs)) ds (E, os, b) = (E', os', b') \<Longrightarrow> set ds \<subseteq> set cs \<Longrightarrow>
   distinct (map co_id cs) \<Longrightarrow> order_inv cs E os \<Longrightarrow> order_inv cs E' os'"
proof (induction ds arbitrary: E os b)
  case (Cons d ds)
  show ?case
  proof (rule pass_step_cases [of "co_id ` set cs" d E os b])
    assume st: "pass_step (co_id ` set cs) d (E, os, b) = (insert (co_id d) E, os @ [co_id d], True)"
      and n: "co_id d \<notin> E" and r: "parent_ready (co_id ` set cs) E d"
    have "order_inv cs (insert (co_id d) E) (os @ [co_id d])"
      using Cons.prems n r parents_first_snoc [of cs os d] by (auto simp: order_inv_def)
    with Cons st show ?thesis by simp
  qed (use Cons in auto)
qed simp

lemma order_loop_inv:
  assumes "distinct (map co_id cs)" and "order_inv cs E os" and "order_loop cs E os = (E', os')"
  shows "order_inv cs E' os' \<and> (\<forall>c \<in> set cs. co_id c \<in> E' \<or> \<not> parent_ready (co_id ` set cs) E' c)"
  using assms
proof (induction cs E os rule: order_loop.induct)
  case (1 cs E os)
  obtain E1 os1 b where p: "order_pass (co_id ` set cs) cs E os = (E1, os1, b)"
    by (cases "order_pass (co_id ` set cs) cs E os")
  then have f: "fold (pass_step (co_id ` set cs)) cs (E, os, False) = (E1, os1, b)"
    by (simp add: order_pass_def)
  have inv: "order_inv cs E1 os1"
    using order_inv_pass [OF f] "1.prems" by simp
  show ?case
  proof (cases b)
    case True
    with "1.IH" [OF p [symmetric] refl] "1.prems" inv p show ?thesis
      by (simp add: order_loop.simps [of cs E os])
  next
    case False
    then have "E1 = E'" and "os1 = os'" using "1.prems" p by (simp_all add: order_loop.simps [of cs E os])
    with False f inv fold_pass_stuck [of "co_id ` set cs" cs E os E1 os1] show ?thesis by simp
  qed
qed

section \<open>The order\<close>

definition parent_rel :: "coll list \<Rightarrow> (string \<times> string) set" where
  "parent_rel cs = {(p, co_id c) | c p. c \<in> set cs \<and> co_parent c = Some p \<and> p \<in> co_id ` set cs}"

lemma finite_parent_rel: "finite (parent_rel cs)"
  by (rule finite_subset [of _ "co_id ` set cs \<times> co_id ` set cs"]) (auto simp: parent_rel_def)

lemma nothing_left:
  assumes "acyclic (parent_rel cs)"
    and "\<forall>c \<in> set cs. co_id c \<in> E \<or> \<not> parent_ready (co_id ` set cs) E c"
  shows "\<forall>c \<in> set cs. co_id c \<in> E"
proof (rule ccontr)
  assume "\<not> (\<forall>c \<in> set cs. co_id c \<in> E)"
  then have "co_id ` set cs - E \<noteq> {}" by auto
  moreover have "wf (parent_rel cs)"
    using finite_acyclic_wf [OF finite_parent_rel assms(1)] .
  ultimately obtain x where x: "x \<in> co_id ` set cs - E"
    and m: "\<And>y. (y, x) \<in> parent_rel cs \<Longrightarrow> y \<notin> co_id ` set cs - E"
    by (metis ex_in_conv wfE_min)
  then obtain c where c: "c \<in> set cs" "co_id c = x" "co_id c \<notin> E" by auto
  with assms(2) obtain p where "co_parent c = Some p" "p \<in> co_id ` set cs" "p \<notin> E"
    by (auto simp: parent_ready_def split: option.splits)
  with c m [of p] show False by (auto simp: parent_rel_def)
qed

lemma order_facts:
  assumes "distinct (map co_id cs)"
  shows "distinct (order_collections_parent_first cs)
    \<and> set (order_collections_parent_first cs) = co_id ` set cs
    \<and> (acyclic (parent_rel cs) \<longrightarrow> parents_first cs (order_collections_parent_first cs))"
proof -
  obtain E os where l: "order_loop cs {} [] = (E, os)" by (cases "order_loop cs {} []")
  have "order_inv cs {} []" by (simp add: order_inv_def parents_first_def)
  from order_loop_inv [OF assms this l] have inv: "E = set os" "distinct os" "set os \<subseteq> co_id ` set cs"
    "parents_first cs os" and stuck: "\<forall>c \<in> set cs. co_id c \<in> E \<or> \<not> parent_ready (co_id ` set cs) E c"
    by (auto simp: order_inv_def)
  have r: "order_collections_parent_first cs = os @ map co_id (filter (\<lambda>c. co_id c \<notin> E) cs)"
    by (simp add: order_collections_parent_first_def l)
  have "distinct (map co_id (filter (\<lambda>c. co_id c \<notin> E) cs))"
    using assms by (simp add: distinct_map inj_on_def)
  then have "distinct (order_collections_parent_first cs)"
    using inv by (auto simp: r)
  moreover have "set (order_collections_parent_first cs) = co_id ` set cs"
    using inv by (auto simp: r)
  moreover have "parents_first cs (order_collections_parent_first cs)" if "acyclic (parent_rel cs)"
  proof -
    have "filter (\<lambda>c. co_id c \<notin> E) cs = []"
      using nothing_left [OF that stuck] by (simp add: filter_empty_conv)
    with inv(4) show ?thesis by (simp add: r)
  qed
  ultimately show ?thesis by blast
qed

text \<open>
  The baseline's collection order drops nothing, repeats nothing, and, when the parent
  links form no cycle, puts every collection behind its parent whenever the parent is in
  the library, so a peer that applies them in order never meets a dangling reference.
\<close>
theorem collections_parent_first:
  assumes "distinct (map co_id cs)"
  shows "distinct (order_collections_parent_first cs)
    \<and> set (order_collections_parent_first cs) = co_id ` set cs
    \<and> (acyclic (parent_rel cs) \<longrightarrow> parents_first cs (order_collections_parent_first cs))"
  using assms by (rule order_facts)

theorem collections_parent_first_witness:
  "parents_first [\<lparr>co_id = ''b'', co_parent = Some ''a''\<rparr>, \<lparr>co_id = ''a'', co_parent = None\<rparr>]
     (order_collections_parent_first [\<lparr>co_id = ''b'', co_parent = Some ''a''\<rparr>, \<lparr>co_id = ''a'', co_parent = None\<rparr>])"
proof -
  let ?cs = "[\<lparr>co_id = ''b'', co_parent = Some ''a''\<rparr>, \<lparr>co_id = ''a'', co_parent = None\<rparr>]"
  have "parent_rel ?cs = {(''a'', ''b'')}"
    by (auto simp: parent_rel_def intro!: exI [of _ "\<lparr>co_id = ''b'', co_parent = Some ''a''\<rparr>"])
  moreover have "acyclic {}" by (simp add: acyclic_def)
  ultimately have "acyclic (parent_rel ?cs)" by (simp add: acyclic_insert)
  then show ?thesis using collections_parent_first [of ?cs] by simp
qed

end
