(* ===== verification/Library_Rows.thy ===== *)
theory Library_Rows
  imports Canonical Collection_Order "HOL-Library.Multiset"
begin

text \<open>
  The listings of \<^verbatim>\<open>crates/pergamon-storage/src/db.rs\<close> the backfill runs over: every row of a table
  is converted to a struct, which parses its identifiers and times. A text that does not parse is
  a panic (\<open>unreachable!\<close>), a column of the wrong type is an error where the code says \<open>?\<close> and a
  default where it says \<open>unwrap_or_default\<close>. Kept of a struct is what the backfill reads. The
  \<open>uuid\<close> and \<open>time\<close> crates and the order SQLite makes of an ORDER BY are parameters. The sort order
  column of the collection memberships is not kept, so its type is not checked.
\<close>

section \<open>Outcomes\<close>

text \<open>\<open>None\<close> is a panic.\<close>

type_synonym 'a run = "'a sres option"

definition done_with :: "'a \<Rightarrow> 'a run" where
  "done_with x = Some (Inr x)"

definition bindP :: "'a run \<Rightarrow> ('a \<Rightarrow> 'b run) \<Rightarrow> 'b run" where
  "bindP m f = (case m of None \<Rightarrow> None | Some (Inl e) \<Rightarrow> Some (Inl e) | Some (Inr x) \<Rightarrow> f x)"

lemma bindP_simps [simp]:
  "bindP (done_with x) f = f x" "bindP None f = None" "bindP (Some (Inl e)) f = Some (Inl e)" "bindP (Some (Inr x)) f = f x"
  by (simp_all add: bindP_def done_with_def)

lemma bindP_done: "bindP m f = done_with y \<longleftrightarrow> (\<exists>x. m = done_with x \<and> f x = done_with y)"
  by (auto simp: bindP_def done_with_def split: option.split sum.split)

lemma done_with_eq [simp]: "done_with x = done_with y \<longleftrightarrow> x = y"
  by (simp add: done_with_def)

fun checks :: "unit run list \<Rightarrow> 'a \<Rightarrow> 'a run" where
  "checks [] x = done_with x"
| "checks (r # rs) x = bindP r (\<lambda>_. checks rs x)"

section \<open>Reading a column\<close>

record listing =
  row_order :: "string \<Rightarrow> (string \<times> row) list \<Rightarrow> (string \<times> row) list"
  pair_order :: "string \<Rightarrow> (string \<times> string) set \<Rightarrow> (string \<times> string) list"
  uuid_text :: "string \<Rightarrow> string option"
  time_ok :: "string \<Rightarrow> bool"

text \<open>\<open>uuid_text\<close> is \<open>Uuid::parse_str\<close> followed by \<open>to_string\<close>.\<close>

definition parse_uuid :: "listing \<Rightarrow> string \<Rightarrow> string run" where
  "parse_uuid ls s = (case uuid_text ls s of None \<Rightarrow> None | Some t \<Rightarrow> done_with t)"

definition parse_time :: "listing \<Rightarrow> string \<Rightarrow> unit run" where
  "parse_time ls s = (if time_ok ls s then done_with () else None)"

definition get_text :: "sql \<Rightarrow> string sres" where
  "get_text v = (case v of SqlText s \<Rightarrow> Inr s | _ \<Rightarrow> Inl SqliteError)"

definition get_opt_text :: "sql \<Rightarrow> string option sres" where
  "get_opt_text v = (case v of SqlNull \<Rightarrow> Inr None | SqlText s \<Rightarrow> Inr (Some s) | _ \<Rightarrow> Inl SqliteError)"

definition get_i32 :: "sql \<Rightarrow> int sres" where
  "get_i32 v = (case v of SqlInt i \<Rightarrow> if - (2 ^ 31) \<le> i \<and> i < 2 ^ 31 then Inr i else Inl SqliteError | _ \<Rightarrow> Inl SqliteError)"

definition get_opt_i64 :: "sql \<Rightarrow> int option sres" where
  "get_opt_i64 v = (case v of SqlNull \<Rightarrow> Inr None | SqlInt i \<Rightarrow> Inr (Some i) | _ \<Rightarrow> Inl SqliteError)"

definition or_empty :: "string sres \<Rightarrow> string" where
  "or_empty r = (case r of Inl _ \<Rightarrow> [] | Inr s \<Rightarrow> s)"

definition or_none :: "'a option sres \<Rightarrow> 'a option" where
  "or_none r = (case r of Inl _ \<Rightarrow> None | Inr x \<Rightarrow> x)"

text \<open>\<open>row.get(i)?\<close>, where only success matters, and \<open>.map(|s| parse(&s))\<close>.\<close>

definition typed :: "'a sres \<Rightarrow> unit run" where
  "typed r = Some (map_sum id (\<lambda>_. ()) r)"

definition opt_uuid :: "listing \<Rightarrow> string option \<Rightarrow> string option run" where
  "opt_uuid ls v = (case v of None \<Rightarrow> done_with None | Some s \<Rightarrow> bindP (parse_uuid ls s) (\<lambda>t. done_with (Some t)))"

definition uuid_ok :: "listing \<Rightarrow> string option \<Rightarrow> unit run" where
  "uuid_ok ls v = bindP (opt_uuid ls v) (\<lambda>_. done_with ())"

definition opt_time :: "listing \<Rightarrow> string option \<Rightarrow> unit run" where
  "opt_time ls v = (case v of None \<Rightarrow> done_with () | Some s \<Rightarrow> parse_time ls s)"

section \<open>Converting a row\<close>

definition row_to_feed :: "listing \<Rightarrow> string \<times> row \<Rightarrow> string run" where
  "row_to_feed ls p = bindP (parse_uuid ls (fst p)) (checks
     [opt_time ls (or_none (get_opt_text (snd p ''last_fetched_at''))),
      uuid_ok ls (or_none (get_opt_text (snd p ''folder_id''))),
      parse_time ls (or_empty (get_text (snd p ''created_at''))),
      parse_time ls (or_empty (get_text (snd p ''updated_at'')))])"

definition row_to_note :: "listing \<Rightarrow> string \<times> row \<Rightarrow> string run" where
  "row_to_note ls p = bindP (parse_uuid ls (fst p)) (checks
     [uuid_ok ls (Some (or_empty (get_text (snd p ''content_item_id'')))),
      parse_time ls (or_empty (get_text (snd p ''created_at''))),
      parse_time ls (or_empty (get_text (snd p ''updated_at'')))])"

definition row_to_review_card :: "listing \<Rightarrow> string \<times> row \<Rightarrow> string run" where
  "row_to_review_card ls p = bindP (parse_uuid ls (fst p)) (checks
     [uuid_ok ls (Some (or_empty (get_text (snd p ''content_item_id'')))),
      parse_time ls (or_empty (get_text (snd p ''due_at''))),
      opt_time ls (or_none (get_opt_text (snd p ''last_reviewed_at''))),
      parse_time ls (or_empty (get_text (snd p ''created_at''))),
      parse_time ls (or_empty (get_text (snd p ''updated_at'')))])"

definition row_to_review_log :: "listing \<Rightarrow> string \<times> row \<Rightarrow> string run" where
  "row_to_review_log ls p = bindP (parse_uuid ls (fst p)) (checks
     [uuid_ok ls (Some (or_empty (get_text (snd p ''card_id'')))),
      parse_time ls (or_empty (get_text (snd p ''reviewed_at'')))])"

text \<open>An unknown content type is read as an article.\<close>

definition is_highlight_shell :: "row \<Rightarrow> bool" where
  "is_highlight_shell r \<longleftrightarrow> or_empty (get_text (r ''content_type'')) = ''highlight''"

definition row_to_content_item :: "listing \<Rightarrow> string \<times> row \<Rightarrow> (string \<times> bool) run" where
  "row_to_content_item ls p = bindP (parse_uuid ls (fst p)) (\<lambda>i. checks
     [opt_time ls (or_none (get_opt_text (snd p ''published_at''))),
      parse_time ls (or_empty (get_text (snd p ''created_at''))),
      parse_time ls (or_empty (get_text (snd p ''updated_at''))),
      opt_time ls (or_none (get_opt_text (snd p ''read_at'')))] (i, is_highlight_shell (snd p)))"

definition tag_row :: "listing \<Rightarrow> string \<times> row \<Rightarrow> string run" where
  "tag_row ls p = bindP (parse_uuid ls (fst p)) (\<lambda>i.
     bindP (typed (get_text (snd p ''name''))) (\<lambda>_.
     bindP (Some (get_text (snd p ''created_at''))) (\<lambda>t.
     checks [parse_time ls t] i)))"

definition collection_row :: "listing \<Rightarrow> string \<times> row \<Rightarrow> coll run" where
  "collection_row ls p = bindP (parse_uuid ls (fst p)) (\<lambda>i.
     bindP (typed (get_text (snd p ''name''))) (\<lambda>_.
     bindP (bindP (Some (get_opt_text (snd p ''parent_id''))) (opt_uuid ls)) (\<lambda>parent.
     bindP (checks [typed (get_i32 (snd p ''sort_order'')), typed (get_i32 (snd p ''is_smart'')),
                    typed (get_opt_text (snd p ''filter_query''))] ()) (\<lambda>_.
     bindP (Some (get_text (snd p ''created_at''))) (\<lambda>t.
     bindP (parse_time ls t) (\<lambda>_.
     bindP (Some (get_text (snd p ''updated_at''))) (\<lambda>u.
     checks [parse_time ls u] \<lparr>co_id = i, co_parent = parent\<rparr>)))))))"

definition highlight_row :: "listing \<Rightarrow> string \<times> row \<Rightarrow> string run" where
  "highlight_row ls p = bindP (parse_uuid ls (fst p)) (checks
     [bindP (Some (get_opt_text (snd p ''source_item_id''))) (uuid_ok ls),
      typed (get_text (snd p ''quote_text'')), typed (get_opt_text (snd p ''note'')),
      typed (get_opt_i64 (snd p ''position_start'')), typed (get_opt_i64 (snd p ''position_end'')),
      typed (get_opt_text (snd p ''color''))])"

definition pair_row :: "listing \<Rightarrow> string \<times> string \<Rightarrow> (string \<times> string) run" where
  "pair_row ls p = bindP (parse_uuid ls (fst p)) (\<lambda>a. bindP (parse_uuid ls (snd p)) (\<lambda>b. done_with (a, b)))"

section \<open>Listings\<close>

text \<open>\<open>for row in rows { xs.push(row?) }\<close>.\<close>

fun collect_rows :: "('a \<Rightarrow> 'b run) \<Rightarrow> 'a list \<Rightarrow> 'b list run" where
  "collect_rows f [] = done_with []"
| "collect_rows f (x # xs) = bindP (f x) (\<lambda>y. bindP (collect_rows f xs) (\<lambda>ys. done_with (y # ys)))"

definition table_rows :: "listing \<Rightarrow> canon \<Rightarrow> string \<Rightarrow> (string \<times> row) list" where
  "table_rows ls c t = row_order ls t (tables c t)"

definition list_feeds :: "listing \<Rightarrow> canon \<Rightarrow> string list run" where
  "list_feeds ls c = collect_rows (row_to_feed ls) (table_rows ls c ''feeds'')"

definition list_tags :: "listing \<Rightarrow> canon \<Rightarrow> string list run" where
  "list_tags ls c = collect_rows (tag_row ls) (table_rows ls c ''tags'')"

definition list_collections :: "listing \<Rightarrow> canon \<Rightarrow> coll list run" where
  "list_collections ls c = collect_rows (collection_row ls) (table_rows ls c ''collections'')"

definition list_all_content_items :: "listing \<Rightarrow> canon \<Rightarrow> (string \<times> bool) list run" where
  "list_all_content_items ls c = collect_rows (row_to_content_item ls) (table_rows ls c ''content_items'')"

definition list_all_highlight_meta :: "listing \<Rightarrow> canon \<Rightarrow> string list run" where
  "list_all_highlight_meta ls c = collect_rows (highlight_row ls) (table_rows ls c ''highlight_meta'')"

definition list_all_notes :: "listing \<Rightarrow> canon \<Rightarrow> string list run" where
  "list_all_notes ls c = collect_rows (row_to_note ls) (table_rows ls c ''notes'')"

definition list_all_review_cards :: "listing \<Rightarrow> canon \<Rightarrow> string list run" where
  "list_all_review_cards ls c = collect_rows (row_to_review_card ls) (table_rows ls c ''review_cards'')"

definition list_all_review_logs :: "listing \<Rightarrow> canon \<Rightarrow> string list run" where
  "list_all_review_logs ls c = collect_rows (row_to_review_log ls) (table_rows ls c ''review_logs'')"

definition list_all_content_item_tags :: "listing \<Rightarrow> canon \<Rightarrow> (string \<times> string) list run" where
  "list_all_content_item_tags ls c = collect_rows (pair_row ls) (pair_order ls ''content_item_tags'' (item_tags c))"

definition list_all_collection_items :: "listing \<Rightarrow> canon \<Rightarrow> (string \<times> string) list run" where
  "list_all_collection_items ls c =
     collect_rows (pair_row ls) (pair_order ls ''content_item_collections'' (item_collections c))"

definition settings_keys :: "listing \<Rightarrow> canon \<Rightarrow> string list run" where
  "settings_keys ls c = done_with (map fst (table_rows ls c ''settings''))"

section \<open>When a listing succeeds\<close>

lemma collect_rows_map: "(\<And>x. x \<in> set xs \<Longrightarrow> f x = done_with (g x)) \<Longrightarrow> collect_rows f xs = done_with (map g xs)"
  by (induction xs) auto

lemma collect_rows_done: "collect_rows f xs = done_with ys \<Longrightarrow> x \<in> set xs \<Longrightarrow> \<exists>y. f x = done_with y"
  by (induction xs arbitrary: ys) (auto simp: bindP_done)

text \<open>The listing queries return the rows of their table, in some order.\<close>

definition listing_complete :: "listing \<Rightarrow> canon \<Rightarrow> bool" where
  "listing_complete ls c \<longleftrightarrow> (\<forall>t rs. mset (row_order ls t rs) = mset rs)
     \<and> (\<forall>t. set (pair_order ls t (item_tags c)) = item_tags c)
     \<and> (\<forall>t. set (pair_order ls t (item_collections c)) = item_collections c)"

text \<open>Every row converts, and its identifiers print back as they are stored: what holds of a database
  only this application wrote, with identifiers made by the \<open>uuid\<close> crate.\<close>

definition coll_of_row :: "string \<times> row \<Rightarrow> coll" where
  "coll_of_row p = \<lparr>co_id = fst p, co_parent = or_none (get_opt_text (snd p ''parent_id''))\<rparr>"

definition canonical_rows :: "listing \<Rightarrow> canon \<Rightarrow> bool" where
  "canonical_rows ls c \<longleftrightarrow>
     (\<forall>p \<in> set (tables c ''feeds''). row_to_feed ls p = done_with (fst p))
   \<and> (\<forall>p \<in> set (tables c ''tags''). tag_row ls p = done_with (fst p))
   \<and> (\<forall>p \<in> set (tables c ''collections''). collection_row ls p = done_with (coll_of_row p))
   \<and> (\<forall>p \<in> set (tables c ''content_items''). row_to_content_item ls p = done_with (fst p, is_highlight_shell (snd p)))
   \<and> (\<forall>p \<in> set (tables c ''highlight_meta''). highlight_row ls p = done_with (fst p))
   \<and> (\<forall>p \<in> set (tables c ''notes''). row_to_note ls p = done_with (fst p))
   \<and> (\<forall>p \<in> set (tables c ''review_cards''). row_to_review_card ls p = done_with (fst p))
   \<and> (\<forall>p \<in> set (tables c ''review_logs''). row_to_review_log ls p = done_with (fst p))
   \<and> (\<forall>p \<in> item_tags c \<union> item_collections c. pair_row ls p = done_with p)"

definition row_ids :: "listing \<Rightarrow> string \<Rightarrow> canon \<Rightarrow> string list" where
  "row_ids ls t c = map fst (table_rows ls c t)"

lemma set_table_rows: "listing_complete ls c \<Longrightarrow> set (table_rows ls c t) = set (tables c t)"
  unfolding table_rows_def listing_complete_def by (metis set_mset_mset)

lemma set_row_ids: "listing_complete ls c \<Longrightarrow> set (row_ids ls t c) = fst ` set (tables c t)"
  by (simp add: row_ids_def set_table_rows)

lemma listings_succeed:
  assumes "listing_complete ls c" and "canonical_rows ls c"
  shows "list_feeds ls c = done_with (row_ids ls ''feeds'' c)" "list_tags ls c = done_with (row_ids ls ''tags'' c)"
    "list_collections ls c = done_with (map coll_of_row (table_rows ls c ''collections''))"
    "list_all_content_items ls c =
       done_with (map (\<lambda>p. (fst p, is_highlight_shell (snd p))) (table_rows ls c ''content_items''))"
    "list_all_highlight_meta ls c = done_with (row_ids ls ''highlight_meta'' c)"
    "list_all_notes ls c = done_with (row_ids ls ''notes'' c)"
    "list_all_review_cards ls c = done_with (row_ids ls ''review_cards'' c)"
    "list_all_review_logs ls c = done_with (row_ids ls ''review_logs'' c)"
    "list_all_content_item_tags ls c = done_with (pair_order ls ''content_item_tags'' (item_tags c))"
    "list_all_collection_items ls c = done_with (pair_order ls ''content_item_collections'' (item_collections c))"
    "settings_keys ls c = done_with (row_ids ls ''settings'' c)"
proof -
  note rows = set_table_rows [OF assms(1)]
  have pairs: "set (pair_order ls t (item_tags c)) = item_tags c" "set (pair_order ls t (item_collections c)) = item_collections c" for t
    using assms(1) by (simp_all add: listing_complete_def)
  have m: "(\<And>p. p \<in> set (tables c t) \<Longrightarrow> f p = done_with (g p)) \<Longrightarrow>
      collect_rows f (table_rows ls c t) = done_with (map g (table_rows ls c t))" for f :: "string \<times> row \<Rightarrow> 'a run" and g t
    by (rule collect_rows_map) (simp add: rows)
  show "list_collections ls c = done_with (map coll_of_row (table_rows ls c ''collections''))"
    unfolding list_collections_def using assms(2) by (intro collect_rows_map) (simp add: rows canonical_rows_def)
  show "list_all_content_items ls c =
      done_with (map (\<lambda>p. (fst p, is_highlight_shell (snd p))) (table_rows ls c ''content_items''))"
    unfolding list_all_content_items_def using assms(2) by (intro collect_rows_map) (simp add: rows canonical_rows_def)
  have p: "collect_rows (pair_row ls) ps = done_with ps" if "set ps \<subseteq> item_tags c \<union> item_collections c" for ps
  proof -
    have "collect_rows (pair_row ls) ps = done_with (map id ps)"
      using that assms(2) by (intro collect_rows_map) (auto simp: canonical_rows_def)
    then show ?thesis by simp
  qed
  show "list_all_content_item_tags ls c = done_with (pair_order ls ''content_item_tags'' (item_tags c))"
    "list_all_collection_items ls c = done_with (pair_order ls ''content_item_collections'' (item_collections c))"
    unfolding list_all_content_item_tags_def list_all_collection_items_def by (rule p; simp add: pairs)+
qed (use assms(2) in \<open>auto simp: list_feeds_def list_tags_def list_all_highlight_meta_def list_all_notes_def
    list_all_review_cards_def list_all_review_logs_def settings_keys_def row_ids_def canonical_rows_def
    set_table_rows [OF assms(1)] intro!: collect_rows_map\<close>)

text \<open>One identifier that does not parse stops the listing of its table.\<close>

lemma list_tags_uuid: "list_tags ls c = done_with is \<Longrightarrow> listing_complete ls c \<Longrightarrow> p \<in> set (tables c ''tags'') \<Longrightarrow>
    uuid_text ls (fst p) \<noteq> None"
  using collect_rows_done [of "tag_row ls" "table_rows ls c ''tags''" "is" p]
  by (auto simp: list_tags_def set_table_rows tag_row_def parse_uuid_def bindP_done split: option.splits) (simp add: done_with_def)

end
