(* ===== verification/Baseline.thy ===== *)
theory Baseline
  imports Library_Rows Outbox
begin

text \<open>
  The one-time backfill, \<open>enqueue_sync_baseline\<close> of \<^verbatim>\<open>crates/pergamon-storage/src/sync.rs\<close>, over the
  listings of \<open>Library_Rows\<close>.
\<close>

definition baseline_upsert ::
  "sqlite \<Rightarrow> codec \<Rightarrow> entity_type \<Rightarrow> u64 \<Rightarrow> string \<Rightarrow> db \<Rightarrow> nat \<times> db" where
  "baseline_upsert q cod et now i db =
     (case read_entity q db et i of
        None \<Rightarrow> (0, db)
      | Some fm \<Rightarrow>
          (let (clock, db1) = tick_local_hlc now db;
               db2 = stamp_fields et i (map fst fm) clock db1;
               body = \<lparr>cb_entity_type = et, cb_entity_id = i, cb_op = Upsert, cb_clock = clock,
                       cb_base_version = None, cb_fields = fm, cb_blob_manifest = []\<rparr>
           in (1, snd (enqueue_outbox cod body db2))))"

definition baseline_edge ::
  "codec \<Rightarrow> entity_type \<Rightarrow> u64 \<Rightarrow> string \<times> string \<Rightarrow> db \<Rightarrow> nat \<times> db" where
  "baseline_edge cod et now p db =
     (let edge_id = fst p @ CHR '':'' # snd p;
          (clock, db1) = tick_local_hlc now db;
          db2 = save_set_edge et edge_id (smo_member (merge_set_member (set_edge db1 et edge_id) True clock)) db1;
          body = \<lparr>cb_entity_type = et, cb_entity_id = edge_id, cb_op = Upsert, cb_clock = clock,
                  cb_base_version = None, cb_fields = [(''present'', JBool True)], cb_blob_manifest = []\<rparr>
      in (1, snd (enqueue_outbox cod body db2)))"

text \<open>A \<open>for\<close> loop of the backfill: \<open>n\<close> is the running count.\<close>

definition count_each :: "('a \<Rightarrow> db \<Rightarrow> nat \<times> db) \<Rightarrow> 'a list \<Rightarrow> nat \<times> db \<Rightarrow> nat \<times> db" where
  "count_each f xs st = fold (\<lambda>x (n, db). let (k, db') = f x db in (n + k, db')) xs st"

text \<open>One loop: list, then queue each. Only the store is listed, which no loop changes.\<close>

definition upsert_all ::
  "sqlite \<Rightarrow> codec \<Rightarrow> u64 \<Rightarrow> entity_type \<Rightarrow> (canon \<Rightarrow> string list run) \<Rightarrow> nat \<times> db \<Rightarrow> (nat \<times> db) run" where
  "upsert_all q cod now et list st =
     bindP (list (store (snd st))) (\<lambda>ids. done_with (count_each (baseline_upsert q cod et now) ids st))"

definition edge_all ::
  "codec \<Rightarrow> u64 \<Rightarrow> entity_type \<Rightarrow> (canon \<Rightarrow> (string \<times> string) list run) \<Rightarrow> nat \<times> db \<Rightarrow> (nat \<times> db) run" where
  "edge_all cod now et list st =
     bindP (list (store (snd st))) (\<lambda>ps. done_with (count_each (baseline_edge cod et now) ps st))"

definition collection_ids :: "listing \<Rightarrow> canon \<Rightarrow> string list run" where
  "collection_ids ls c = bindP (list_collections ls c) (\<lambda>cs. done_with (order_collections_parent_first cs))"

definition document_ids :: "listing \<Rightarrow> canon \<Rightarrow> string list run" where
  "document_ids ls c =
     bindP (list_all_content_items ls c) (\<lambda>items. done_with (map fst (filter (\<lambda>(_, highlight). \<not> highlight) items)))"

text \<open>A panic or an error unwinds the transaction, so it carries no state.\<close>

definition enqueue_sync_baseline ::
  "sqlite \<Rightarrow> listing \<Rightarrow> codec \<Rightarrow> u64 \<Rightarrow> db \<Rightarrow> (nat \<times> db) run" where
  "enqueue_sync_baseline q ls cod now db =
     (if st_device_id db = None
      then Some (Inl (Generic ''cannot enqueue sync baseline before sync is enabled (no device identity)''))
      else if st_baseline_done db then done_with (0, db)
      else
        bindP (upsert_all q cod now FeedSubscription (list_feeds ls) (0, db)) (\<lambda>st1.
        bindP (upsert_all q cod now Tag (list_tags ls) st1) (\<lambda>st2.
        bindP (upsert_all q cod now Collection (collection_ids ls) st2) (\<lambda>st3.
        bindP (upsert_all q cod now Document (document_ids ls) st3) (\<lambda>st4.
        bindP (upsert_all q cod now Highlight (list_all_highlight_meta ls) st4) (\<lambda>st5.
        bindP (upsert_all q cod now Note (list_all_notes ls) st5) (\<lambda>st6.
        bindP (upsert_all q cod now ReviewCard (list_all_review_cards ls) st6) (\<lambda>st7.
        bindP (upsert_all q cod now ReviewLog (list_all_review_logs ls) st7) (\<lambda>st8.
        bindP (edge_all cod now TagEdge (list_all_content_item_tags ls) st8) (\<lambda>st9.
        bindP (edge_all cod now CollectionEdge (list_all_collection_items ls) st9) (\<lambda>st10.
        bindP (upsert_all q cod now Settings (settings_keys ls) st10) (\<lambda>(n, db').
        done_with (n, db'\<lparr>st_baseline_done := True\<rparr>)))))))))))))"

section \<open>What a step appends\<close>

definition appended :: "db \<Rightarrow> (entity_type \<times> string) list \<Rightarrow> db \<Rightarrow> bool" where
  "appended db ts db' \<longleftrightarrow>
     store db' = store db \<and> st_device_id db' = st_device_id db
     \<and> (wf_outbox db \<longrightarrow> wf_outbox db')
     \<and> (\<exists>rs. outbox db' = outbox db @ rs \<and> map (\<lambda>r. (ob_entity_type r, ob_entity_id r)) rs = ts
           \<and> (\<forall>r \<in> set rs. ob_op r = Upsert \<and> ob_acked_seq r = None))"

lemma appended_Nil [simp]: "appended db [] db"
  by (simp add: appended_def)

lemma appended_trans: "appended db ts db' \<Longrightarrow> appended db' us db'' \<Longrightarrow> appended db (ts @ us) db''"
  by (fastforce simp: appended_def)

lemma enqueue_appended:
  assumes "outbox db1 = outbox db" and "fresh db1 = fresh db" and "fresh_n db1 = fresh_n db"
    and "local_next db1 = local_next db" and "store db1 = store db" and "st_device_id db1 = st_device_id db"
    and "cb_op body = Upsert"
  shows "appended db [(cb_entity_type body, cb_entity_id body)] (snd (enqueue_outbox cod body db1))"
proof -
  let ?db' = "snd (enqueue_outbox cod body db1)"
  obtain r where o': "outbox ?db' = outbox db @ [r]" and r: "ob_change_id r = fresh db (fresh_n db)"
    "ob_local_seq r = local_next db" "ob_op r = Upsert" "ob_acked_seq r = None"
    "ob_entity_type r = cb_entity_type body" "ob_entity_id r = cb_entity_id body"
    using assms by (simp add: enqueue_outbox_eq)
  have "wf_outbox ?db'" if "wf_outbox db"
    using that by (rule wf_outbox_append [OF _ o' _ _ _ r(1,2)]) (simp_all add: enqueue_outbox_eq assms)
  with o' r assms show ?thesis by (simp add: appended_def enqueue_outbox_eq)
qed

lemma baseline_upsert_appended:
  "(\<exists>fm. read_entity q db et i = Some fm) \<Longrightarrow>
   \<exists>db'. baseline_upsert q cod et now i db = (1, db') \<and> appended db [(et, i)] db'"
proof -
  assume "\<exists>fm. read_entity q db et i = Some fm"
  then obtain fm where fm: "read_entity q db et i = Some fm" by blast
  let ?c = "tick (sync_hlc db) now"
  let ?body = "\<lparr>cb_entity_type = et, cb_entity_id = i, cb_op = Upsert, cb_clock = ?c,
                       cb_base_version = None, cb_fields = fm, cb_blob_manifest = []\<rparr>"
  obtain ck where s: "stamp_fields et i (map fst fm) ?c (set_sync_hlc ?c db) = (set_sync_hlc ?c db)\<lparr>clocks := ck\<rparr>"
    using stamp_fields_frame by blast
  have "appended db [(cb_entity_type ?body, cb_entity_id ?body)]
      (snd (enqueue_outbox cod ?body ((set_sync_hlc ?c db)\<lparr>clocks := ck\<rparr>)))"
    by (rule enqueue_appended) (simp_all add: set_sync_hlc_def)
  with fm s show ?thesis by (simp add: baseline_upsert_def tick_local_hlc_def Let_def)
qed

lemma baseline_edge_appended:
  "\<exists>db'. baseline_edge cod et now p db = (1, db') \<and> appended db [(et, fst p @ CHR '':'' # snd p)] db'"
proof -
  let ?i = "fst p @ CHR '':'' # snd p" and ?c = "tick (sync_hlc db) now"
  let ?body = "\<lparr>cb_entity_type = et, cb_entity_id = ?i, cb_op = Upsert, cb_clock = ?c,
                  cb_base_version = None, cb_fields = [(''present'', JBool True)], cb_blob_manifest = []\<rparr>"
  have "appended db [(cb_entity_type ?body, cb_entity_id ?body)]
      (snd (enqueue_outbox cod ?body (save_set_edge et ?i m (set_sync_hlc ?c db))))" for m
    by (rule enqueue_appended) (simp_all add: set_sync_hlc_def save_set_edge_def)
  then show ?thesis by (simp add: baseline_edge_def tick_local_hlc_def Let_def)
qed


lemma count_each_appended:
  assumes "\<And>x db'. x \<in> set xs \<Longrightarrow> store db' = store db \<Longrightarrow>
      \<exists>db''. f x db' = (1, db'') \<and> appended db' [tgt x] db''"
  shows "\<exists>db'. count_each f xs (n, db) = (n + length xs, db') \<and> appended db (map tgt xs) db'"
  using assms
proof (induction xs arbitrary: n db)
  case Nil
  then show ?case by (auto simp: count_each_def)
next
  case (Cons x xs)
  from Cons.prems [of x db] obtain db1 where x: "f x db = (1, db1)" and a: "appended db [tgt x] db1"
    by auto
  then have st: "store db1 = store db" by (simp add: appended_def)
  have "\<And>y db'. y \<in> set xs \<Longrightarrow> store db' = store db1 \<Longrightarrow> \<exists>db''. f y db' = (1, db'') \<and> appended db' [tgt y] db''"
    using Cons.prems st by simp
  from Cons.IH [where n = "n + 1", OF this] obtain db2 where r: "count_each f xs (n + 1, db1) = (n + 1 + length xs, db2)"
    and b: "appended db1 (map tgt xs) db2" by auto
  have "appended db ([tgt x] @ map tgt xs) db2" by (rule appended_trans [OF a b])
  moreover have "count_each f (x # xs) (n, db) = count_each f xs (n + 1, db1)"
    using x by (simp add: count_each_def)
  ultimately show ?case using r by (intro exI [of _ db2]) simp
qed

text \<open>Every synced row of the library, as the plan of the backfill and as a set.\<close>

definition baseline_plan :: "listing \<Rightarrow> canon \<Rightarrow> (entity_type \<times> string) list" where
  "baseline_plan ls c =
     (let ids = (\<lambda>et t. map (Pair et) (row_ids ls t c));
          eds = (\<lambda>et t S. map (\<lambda>p. (et, fst p @ CHR '':'' # snd p)) (pair_order ls t S))
      in ids FeedSubscription ''feeds'' @ ids Tag ''tags''
         @ map (Pair Collection) (order_collections_parent_first (map coll_of_row (table_rows ls c ''collections'')))
         @ map (Pair Document) (map fst (filter (\<lambda>p. \<not> is_highlight_shell (snd p)) (table_rows ls c ''content_items'')))
         @ ids Highlight ''highlight_meta''
         @ ids Note ''notes'' @ ids ReviewCard ''review_cards'' @ ids ReviewLog ''review_logs''
         @ eds TagEdge ''content_item_tags'' (item_tags c)
         @ eds CollectionEdge ''content_item_collections'' (item_collections c)
         @ ids Settings ''settings'')"

fun in_library :: "canon \<Rightarrow> entity_type \<Rightarrow> string \<Rightarrow> bool" where
  "in_library c Document i \<longleftrightarrow> (\<exists>r. (i, r) \<in> set (tables c ''content_items'') \<and> \<not> is_highlight_shell r)"
| "in_library c Highlight i \<longleftrightarrow> i \<in> fst ` set (tables c ''highlight_meta'')"
| "in_library c TagEdge i \<longleftrightarrow> (\<exists>p \<in> item_tags c. i = fst p @ CHR '':'' # snd p)"
| "in_library c CollectionEdge i \<longleftrightarrow> (\<exists>p \<in> item_collections c. i = fst p @ CHR '':'' # snd p)"
| "in_library c et i \<longleftrightarrow> i \<in> fst ` set (tables c (table_of et))"

text \<open>The schema's keys the backfill relies on: collection ids are unique, and every highlight
  has its content item.\<close>

definition library_ok :: "canon \<Rightarrow> bool" where
  "library_ok c \<longleftrightarrow> distinct (map fst (tables c ''collections''))
     \<and> fst ` set (tables c ''highlight_meta'') \<subseteq> fst ` set (tables c ''content_items'')"

lemma set_ordered_colls:
  assumes "listing_complete ls c" and "library_ok c"
  shows "set (order_collections_parent_first (map coll_of_row (table_rows ls c ''collections''))) = fst ` set (tables c ''collections'')"
proof -
  have "mset (map fst (table_rows ls c ''collections'')) = mset (map fst (tables c ''collections''))"
    using assms(1) by (simp add: table_rows_def listing_complete_def)
  then have "distinct (map fst (table_rows ls c ''collections''))"
    using assms(2) by (metis library_ok_def mset_eq_imp_distinct_iff)
  then have "distinct (map co_id (map coll_of_row (table_rows ls c ''collections'')))"
    by (simp add: coll_of_row_def comp_def)
  from order_facts [OF this] set_table_rows [OF assms(1)] show ?thesis
    by (simp add: coll_of_row_def image_image)
qed

lemma plan_is_library:
  assumes "listing_complete ls c" and "library_ok c"
  shows "(et, i) \<in> set (baseline_plan ls c) \<longleftrightarrow> in_library c et i"
  using assms set_ordered_colls [OF assms] set_table_rows [OF assms(1)] set_row_ids [OF assms(1)]
  by (cases et) (auto simp: baseline_plan_def Let_def listing_complete_def image_iff)

lemma tbl_get_None_iff: "tbl_get c t i = None \<longleftrightarrow> i \<notin> fst ` set (tables c t)"
  by (simp add: tbl_get_def map_of_eq_None_iff)

lemma in_library_row:
  "in_library c et i \<Longrightarrow> \<not> is_edge et \<Longrightarrow> et \<noteq> Highlight \<Longrightarrow> tbl_get c (table_of et) i \<noteq> None"
  by (cases et) (auto simp: tbl_get_None_iff is_edge_def, force)

lemma library_readable:
  assumes "library_ok c" and "in_library c et i" and "\<not> is_edge et"
  shows "\<exists>fm. read_entity_fields q c et i = Some fm"
proof (cases "et = Highlight")
  case True
  with assms(1,2) have "tbl_get c ''highlight_meta'' i \<noteq> None" "tbl_get c ''content_items'' i \<noteq> None"
    by (auto simp: tbl_get_None_iff library_ok_def)
  with True show ?thesis by (auto simp: read_entity_fields_def read_highlight_def)
next
  case False
  with in_library_row [OF assms(2,3)] assms(3) show ?thesis
    by (auto simp: read_entity_fields_def read_columns_def)
qed

text \<open>One upsert loop of the backfill.\<close>

lemma upsert_loop:
  assumes "library_ok (store db)" and "\<And>i. i \<in> set is \<Longrightarrow> in_library (store db) et i" and "\<not> is_edge et"
  shows "\<exists>db'. count_each (baseline_upsert q cod et now) is (n, db) = (n + length is, db')
    \<and> appended db (map (Pair et) is) db'"
proof (rule count_each_appended)
  fix i and db' :: db
  assume "i \<in> set is" and "store db' = store db"
  with assms library_readable [OF assms(1) _ assms(3), of i q]
  have "\<exists>fm. read_entity q db' et i = Some fm" by (simp add: read_entity_def)
  then show "\<exists>db''. baseline_upsert q cod et now i db' = (1, db'') \<and> appended db' [(et, i)] db''"
    by (rule baseline_upsert_appended)
qed

lemma edge_loop:
  "\<exists>db'. count_each (baseline_edge cod et now) ps (n, db) = (n + length ps, db')
    \<and> appended db (map (\<lambda>p. (et, fst p @ CHR '':'' # snd p)) ps) db'"
  by (rule count_each_appended, rule baseline_edge_appended)


section \<open>The backfill\<close>

text \<open>A loop as a phase of the backfill that started at \<open>db0\<close> and has enqueued \<open>ts\<close>.\<close>

definition so_far :: "db \<Rightarrow> (entity_type \<times> string) list \<Rightarrow> nat \<times> db \<Rightarrow> bool" where
  "so_far db0 ts st \<longleftrightarrow> appended db0 ts (snd st) \<and> fst st = length ts"

lemma so_far_store: "so_far db0 ts (n, db) \<Longrightarrow> store db = store db0"
  by (simp add: so_far_def appended_def)

lemma upsert_phase:
  assumes "so_far db0 ts st" and "library_ok (store db0)" and "\<not> is_edge et"
    and "list (store db0) = done_with is" and "\<And>i. i \<in> set is \<Longrightarrow> in_library (store db0) et i"
  shows "\<exists>st'. upsert_all q cod now et list st = done_with st' \<and> so_far db0 (ts @ map (Pair et) is) st'"
proof -
  obtain n db where st: "st = (n, db)" by (cases st)
  with assms(1) have s: "store db = store db0" by (simp add: so_far_store)
  from upsert_loop [of db "is" et q cod now n] assms s obtain db' where
    "count_each (baseline_upsert q cod et now) is (n, db) = (n + length is, db')" "appended db (map (Pair et) is) db'"
    by auto
  with assms(1,4) st s show ?thesis by (auto simp: so_far_def upsert_all_def intro: appended_trans)
qed

lemma edge_phase:
  assumes "so_far db0 ts st" and "list (store db0) = done_with es"
  shows "\<exists>st'. edge_all cod now et list st = done_with st'
    \<and> so_far db0 (ts @ map (\<lambda>p. (et, fst p @ CHR '':'' # snd p)) es) st'"
proof -
  obtain n db where st: "st = (n, db)" by (cases st)
  with assms(1) have s: "store db = store db0" by (simp add: so_far_store)
  from edge_loop [of cod et now es n db] obtain db' where
    "count_each (baseline_edge cod et now) es (n, db) = (n + length es, db')"
    "appended db (map (\<lambda>p. (et, fst p @ CHR '':'' # snd p)) es) db'" by auto
  with assms st s show ?thesis by (auto simp: so_far_def edge_all_def intro: appended_trans)
qed

lemma ids_phase:
  assumes "so_far db0 ts st" and "library_ok (store db0)" and "listing_complete ls (store db0)"
    and "list (store db0) = done_with (row_ids ls t (store db0))"
    and "\<not> is_edge et" and "\<And>i. in_library (store db0) et i \<longleftrightarrow> i \<in> fst ` set (tables (store db0) t)"
  shows "\<exists>st'. upsert_all q cod now et list st = done_with st'
    \<and> so_far db0 (ts @ map (Pair et) (row_ids ls t (store db0))) st'"
proof -
  have "i \<in> set (row_ids ls t (store db0)) \<Longrightarrow> in_library (store db0) et i" for i
    by (simp add: set_row_ids [OF assms(3)] assms(6))
  from upsert_phase [where list = list, OF assms(1,2,5,4) this] show ?thesis .
qed

lemma baseline_run:
  assumes "st_device_id db \<noteq> None" and "\<not> st_baseline_done db" and "listing_complete ls (store db)"
    and "library_ok (store db)" and "canonical_rows ls (store db)"
  shows "\<exists>db1. appended db (baseline_plan ls (store db)) db1 \<and> enqueue_sync_baseline q ls cod now db =
      done_with (length (baseline_plan ls (store db)), db1\<lparr>st_baseline_done := True\<rparr>)"
proof -
  let ?c = "store db"
  note l = listings_succeed [OF assms(3,5)]
  let ?colls = "order_collections_parent_first (map coll_of_row (table_rows ls ?c ''collections''))"
  let ?docs = "map fst (filter (\<lambda>p. \<not> is_highlight_shell (snd p)) (table_rows ls ?c ''content_items''))"
  have colls: "collection_ids ls ?c = done_with ?colls" by (simp add: collection_ids_def l)
  have docs: "document_ids ls ?c = done_with ?docs"
    by (simp add: document_ids_def l filter_map comp_def case_prod_unfold)
  let ?ids = "\<lambda>et t. map (Pair et) (row_ids ls t ?c)"
  let ?edges = "\<lambda>et t S. map (\<lambda>p. (et, fst p @ CHR '':'' # snd p)) (pair_order ls t S)"
  have p0: "so_far db [] (0, db)" by (simp add: so_far_def)
  let ?t1 = "[] @ ?ids FeedSubscription ''feeds''"
  from ids_phase [where list = "list_feeds ls" and et = FeedSubscription, OF p0 assms(4,3) l(1), of q cod now] obtain s1 where
    1: "upsert_all q cod now FeedSubscription (list_feeds ls) (0, db) = done_with s1" and p1: "so_far db (?t1) s1" by (auto simp: is_edge_def)
  let ?t2 = "?t1 @ ?ids Tag ''tags''"
  from ids_phase [where list = "list_tags ls" and et = Tag, OF p1 assms(4,3) l(2), of q cod now] obtain s2 where
    2: "upsert_all q cod now Tag (list_tags ls) s1 = done_with s2" and p2: "so_far db (?t2) s2" by (auto simp: is_edge_def)
  let ?t3 = "?t2 @ map (Pair Collection) ?colls"
  have "i \<in> set ?colls \<Longrightarrow> in_library ?c Collection i" for i by (simp add: set_ordered_colls [OF assms(3,4)])
  from upsert_phase [where list = "collection_ids ls", OF p2 assms(4) _ colls this, of q cod now] obtain s3 where
    3: "upsert_all q cod now Collection (collection_ids ls) s2 = done_with s3" and p3: "so_far db (?t3) s3" by (auto simp: is_edge_def)
  let ?t4 = "?t3 @ map (Pair Document) ?docs"
  have "i \<in> set ?docs \<Longrightarrow> in_library ?c Document i" for i by (auto simp: set_table_rows [OF assms(3)])
  from upsert_phase [where list = "document_ids ls", OF p3 assms(4) _ docs this, of q cod now] obtain s4 where
    4: "upsert_all q cod now Document (document_ids ls) s3 = done_with s4" and p4: "so_far db (?t4) s4" by (auto simp: is_edge_def)
  let ?t5 = "?t4 @ ?ids Highlight ''highlight_meta''"
  from ids_phase [where list = "list_all_highlight_meta ls" and et = Highlight, OF p4 assms(4,3) l(5), of q cod now] obtain s5 where
    5: "upsert_all q cod now Highlight (list_all_highlight_meta ls) s4 = done_with s5" and p5: "so_far db (?t5) s5" by (auto simp: is_edge_def)
  let ?t6 = "?t5 @ ?ids Note ''notes''"
  from ids_phase [where list = "list_all_notes ls" and et = Note, OF p5 assms(4,3) l(6), of q cod now] obtain s6 where
    6: "upsert_all q cod now Note (list_all_notes ls) s5 = done_with s6" and p6: "so_far db (?t6) s6" by (auto simp: is_edge_def)
  let ?t7 = "?t6 @ ?ids ReviewCard ''review_cards''"
  from ids_phase [where list = "list_all_review_cards ls" and et = ReviewCard, OF p6 assms(4,3) l(7), of q cod now] obtain s7 where
    7: "upsert_all q cod now ReviewCard (list_all_review_cards ls) s6 = done_with s7" and p7: "so_far db (?t7) s7" by (auto simp: is_edge_def)
  let ?t8 = "?t7 @ ?ids ReviewLog ''review_logs''"
  from ids_phase [where list = "list_all_review_logs ls" and et = ReviewLog, OF p7 assms(4,3) l(8), of q cod now] obtain s8 where
    8: "upsert_all q cod now ReviewLog (list_all_review_logs ls) s7 = done_with s8" and p8: "so_far db (?t8) s8" by (auto simp: is_edge_def)
  let ?t9 = "?t8 @ ?edges TagEdge ''content_item_tags'' (item_tags ?c)"
  from edge_phase [where list = "list_all_content_item_tags ls", OF p8 l(9), of cod now TagEdge] obtain s9 where
    9: "edge_all cod now TagEdge (list_all_content_item_tags ls) s8 = done_with s9" and p9: "so_far db (?t9) s9" by blast
  let ?t10 = "?t9 @ ?edges CollectionEdge ''content_item_collections'' (item_collections ?c)"
  from edge_phase [where list = "list_all_collection_items ls", OF p9 l(10), of cod now CollectionEdge] obtain s10 where
    10: "edge_all cod now CollectionEdge (list_all_collection_items ls) s9 = done_with s10" and p10: "so_far db (?t10) s10" by blast
  let ?t11 = "?t10 @ ?ids Settings ''settings''"
  from ids_phase [where list = "settings_keys ls" and et = Settings, OF p10 assms(4,3) l(11), of q cod now] obtain s11 where
    11: "upsert_all q cod now Settings (settings_keys ls) s10 = done_with s11" and p11: "so_far db (?t11) s11" by (auto simp: is_edge_def)
  have "so_far db (baseline_plan ls ?c) s11"
    using p11 by (simp add: baseline_plan_def)
  moreover have "enqueue_sync_baseline q ls cod now db = done_with (fst s11, (snd s11)\<lparr>st_baseline_done := True\<rparr>)"
    using assms(1,2) by (auto simp: enqueue_sync_baseline_def 1 2 3 4 5 6 7 8 9 10 11 split_beta)
  ultimately show ?thesis by (auto simp: so_far_def)
qed


text \<open>
  A row that came from elsewhere need not have such an identifier: a pulled change is written under
  the identifier it names, whatever it is, and one tag whose identifier is no UUID stops the
  backfill, with a panic or an error raised by an earlier row.
\<close>

lemma upsert_loop_store: "store (snd (count_each (baseline_upsert q cod et now) is st)) = store (snd st)"
proof (induction "is" arbitrary: st)
  case (Cons i "is")
  obtain n db where st: "st = (n, db)" by (cases st)
  have "store (snd (baseline_upsert q cod et now i db)) = store db"
  proof (cases "read_entity q db et i")
    case (Some fm)
    then show ?thesis
      using baseline_upsert_appended [of q db et i cod now] by (auto simp: appended_def)
  qed (simp add: baseline_upsert_def)
  with Cons.IH [of "case baseline_upsert q cod et now i db of (k, db') \<Rightarrow> (n + k, db')"] show ?case
    by (simp add: count_each_def st split_beta)
qed (simp add: count_each_def)

lemma foreign_id_stops_backfill:
  assumes "st_device_id db \<noteq> None" and "\<not> st_baseline_done db" and "listing_complete ls (store db)"
    and "write_entity q Tag i fm Upsert db0 = Inr db" and "uuid_text ls i = None"
  shows "enqueue_sync_baseline q ls cod now db \<noteq> Some (Inr x)"
proof
  assume e: "enqueue_sync_baseline q ls cod now db = Some (Inr x)"
  have "tbl_get (store db) ''tags'' i \<noteq> None"
    using assms(4) by (auto simp: write_entity_def result_iff write_single single_table_def is_edge_def upsert_single_def
        split: option.splits if_splits)
  then obtain p where p: "p \<in> set (tables (store db) ''tags'')" "fst p = i"
    by (auto simp: tbl_get_None_iff image_iff)
  from e assms(1,2) obtain st1 st2 where s: "upsert_all q cod now FeedSubscription (list_feeds ls) (0, db) = done_with st1"
    "upsert_all q cod now Tag (list_tags ls) st1 = done_with st2"
    by (auto simp: enqueue_sync_baseline_def done_with_def [symmetric] bindP_done)
  then have "store (snd st1) = store db" by (auto simp: upsert_all_def bindP_done upsert_loop_store)
  with s(2) obtain "is" where "list_tags ls (store db) = done_with is" by (auto simp: upsert_all_def bindP_done)
  from list_tags_uuid [OF this assms(3) p(1)] p(2) assms(5) show False by simp
qed

text \<open>A library of one tag. The identifiers accepted here are those of the printed length.\<close>

definition demo_listing :: listing where
  "demo_listing = \<lparr>row_order = (\<lambda>_ rs. rs), pair_order = (\<lambda>_ S. if S = {} then [] else [(''d'', ''t'')]),
     uuid_text = (\<lambda>s. if length s = 36 then Some s else None), time_ok = (\<lambda>s. s \<noteq> [])\<rparr>"

definition demo_tag_id :: string where
  "demo_tag_id = ''5f1d2c3b-4a59-4687-9a0b-1c2d3e4f5a6b''"

definition tag_db :: db where
  "tag_db = demo_db\<lparr>store := tbl_put ''tags'' demo_tag_id
     (\<lambda>col. if col = ''name'' then SqlText ''rust'' else SqlText ''2025-01-15T10:00:00Z'') empty_canon\<rparr>"


end
