(* ===== verification/Effects.thy ===== *)
theory Effects
  imports Canonical
begin

text \<open>
  The error type of the sync client (\<^verbatim>\<open>crates/pergamon-sync/src/error.rs\<close>) and the effect of
  its methods: a method may fail after it has changed the state, so an action returns its
  result and the state in either case. Invariants of actions are proved compositionally
  (\<open>keeps\<close>).
\<close>

section \<open>Errors\<close>

datatype crypto_error =
    Decryption | Malformed string | KeyDerivation | BadSignature | RandomFailure | OtherCrypto string

datatype sync_error =
    Storage storage_error
  | Crypto crypto_error
  | SerializationE
  | Base64
  | Transport string
  | NotEnabled string
  | MissingBlob string
  | NotFound string
  | Protocol string
  | AuthRefused "16 word" string
  | RateLimited "u64 option"
  | SessionNeedsLogin string
  | BadEventSignature (bad_change_id: string) (bad_device_id: string)
  | UnknownSigner (unknown_device_id: string)
  | IncompleteUpload (pending_events: nat) (missing_blobs: "string list")

fun is_retryable :: "sync_error \<Rightarrow> bool" where
  "is_retryable (Transport _) = True"
| "is_retryable (NotFound _) = True"
| "is_retryable (UnknownSigner _) = True"
| "is_retryable (RateLimited _) = True"
| "is_retryable _ = False"

fun retry_after_seconds :: "sync_error \<Rightarrow> u64 option" where
  "retry_after_seconds (RateLimited s) = s"
| "retry_after_seconds _ = None"

section \<open>Actions\<close>

type_synonym ('w, 'a) act = "'w \<Rightarrow> (sync_error + 'a) \<times> 'w"

definition ret :: "'a \<Rightarrow> ('w, 'a) act" where
  "ret x w = (Inr x, w)"

definition fail :: "sync_error \<Rightarrow> ('w, 'a) act" where
  "fail e w = (Inl e, w)"

definition bindA :: "('w, 'a) act \<Rightarrow> ('a \<Rightarrow> ('w, 'b) act) \<Rightarrow> ('w, 'b) act" where
  "bindA m f w = (case m w of (Inl e, w') \<Rightarrow> (Inl e, w') | (Inr x, w') \<Rightarrow> f x w')"

definition from_res :: "sync_error + 'a \<Rightarrow> ('w, 'a) act" where
  "from_res r w = (r, w)"

lemma act_simps [simp]:
  "ret x w = (Inr x, w)" "fail e w = (Inl e, w)" "from_res r w = (r, w)"
  "m w = (Inl e, w') \<Longrightarrow> bindA m f w = (Inl e, w')"
  "m w = (Inr x, w') \<Longrightarrow> bindA m f w = f x w'"
  by (simp_all add: ret_def fail_def from_res_def bindA_def)

lemma bindA_Inr_iff [result_iff]:
  "bindA m f w = (Inr y, w') \<longleftrightarrow> (\<exists>x w1. m w = (Inr x, w1) \<and> f x w1 = (Inr y, w'))"
  by (cases "m w"; cases "fst (m w)") (auto simp: bindA_def)

lemma bindA_Inl_iff:
  "bindA m f w = (Inl e, w') \<longleftrightarrow>
   m w = (Inl e, w') \<or> (\<exists>x w1. m w = (Inr x, w1) \<and> f x w1 = (Inl e, w'))"
  by (cases "m w"; cases "fst (m w)") (auto simp: bindA_def)

text \<open>A \<open>for\<close> loop whose body may return early.\<close>

fun each :: "('x \<Rightarrow> ('w, unit) act) \<Rightarrow> 'x list \<Rightarrow> ('w, unit) act" where
  "each f [] = ret ()"
| "each f (x # xs) = bindA (f x) (\<lambda>_. each f xs)"

fun collect :: "('x \<Rightarrow> ('w, 'y) act) \<Rightarrow> 'x list \<Rightarrow> ('w, 'y list) act" where
  "collect f [] = ret []"
| "collect f (x # xs) = bindA (f x) (\<lambda>y. bindA (collect f xs) (\<lambda>ys. ret (y # ys)))"

section \<open>Invariants\<close>

named_theorems keeps
  \<open>actions that keep an invariant\<close>

definition keeps_inv :: "('w \<Rightarrow> bool) \<Rightarrow> ('w, 'a) act \<Rightarrow> bool" where
  "keeps_inv I m \<longleftrightarrow> (\<forall>w. I w \<longrightarrow> I (snd (m w)))"

lemma keepsD: "keeps_inv I m \<Longrightarrow> I w \<Longrightarrow> m w = (r, w') \<Longrightarrow> I w'"
  by (auto simp: keeps_inv_def)

lemma keeps_ret [keeps, simp]: "keeps_inv I (ret x)" "keeps_inv I (fail e)" "keeps_inv I (from_res r)"
  by (simp_all add: keeps_inv_def)

lemma keeps_bind [keeps]:
  assumes "keeps_inv I m" and "\<And>x. keeps_inv I (f x)"
  shows "keeps_inv I (bindA m f)"
  unfolding keeps_inv_def
proof (intro allI impI)
  fix w assume I: "I w"
  obtain r w1 where m: "m w = (r, w1)" by (cases "m w")
  with assms(1) I have "I w1" by (rule_tac keepsD)
  with assms(2) m show "I (snd (bindA m f w))"
    by (cases r) (auto simp: keeps_inv_def)
qed

lemma keeps_if [keeps]: "keeps_inv I m \<Longrightarrow> keeps_inv I n \<Longrightarrow> keeps_inv I (if b then m else n)"
  by simp

lemma keeps_each [keeps]: "(\<And>x. x \<in> set xs \<Longrightarrow> keeps_inv I (f x)) \<Longrightarrow> keeps_inv I (each f xs)"
  by (induction xs) (auto intro!: keeps_bind)

lemma keeps_collect [keeps]: "(\<And>x. x \<in> set xs \<Longrightarrow> keeps_inv I (f x)) \<Longrightarrow> keeps_inv I (collect f xs)"
  by (induction xs) (auto intro!: keeps_bind)

lemma collect_length: "collect f xs w = (Inr ys, w') \<Longrightarrow> length ys = length xs"
  by (induction xs arbitrary: w ys) (auto simp: result_iff)

end
