(* ===== verification/Relay_Log.thy ===== *)
theory Relay_Log
  imports Effects
begin

text \<open>
  The wire frames (\<^verbatim>\<open>crates/pergamon-sync/src/wire.rs\<close>) and the append log a device pushes
  to and pulls from. What a puller may rely on is the locale \<open>paged_log\<close>; the in-memory
  transport of \<^verbatim>\<open>crates/pergamon-sync/src/transport.rs\<close> provides it.
\<close>

section \<open>Frames\<close>

definition PROTOCOL_VERSION :: u32 where
  "PROTOCOL_VERSION = 1"

record event_input =
  ei_protocol_version :: u32
  ei_account_id :: string
  ei_device_id :: string
  ei_change_id :: string
  ei_entity_ref :: "string option"
  ei_key_epoch :: u32
  ei_blob_refs :: "string list"
  ei_ciphertext_b64 :: string
  ei_sig_b64 :: string

record push_request =
  pq_account_id :: string
  pq_events :: "event_input list"

record push_result =
  pr_change_id :: string
  pr_server_seq :: u64
  pr_deduplicated :: bool

record push_response =
  pp_results :: "push_result list"
  pp_high_water_seq :: u64

record stored_event =
  se_protocol_version :: u32
  se_account_id :: string
  se_device_id :: string
  se_change_id :: string
  se_entity_ref :: "string option"
  se_key_epoch :: u32
  se_blob_refs :: "string list"
  se_payload_bytes :: u64
  se_server_seq :: u64
  se_server_committed_at :: int
  se_ciphertext_b64 :: string
  se_sig_b64 :: string

record pull_response =
  pl_events :: "stored_event list"
  pl_high_water_seq :: u64
  pl_next_cursor :: u64

record blob_probe_request =
  bq_account_id :: string
  bq_ct_hashes :: "string list"

record blob_probe_response =
  bp_present :: "string list"
  bp_missing :: "string list"

section \<open>What a puller relies on\<close>



definition after_cursor :: "u64 \<Rightarrow> stored_event list \<Rightarrow> stored_event list" where
  "after_cursor c es = filter (\<lambda>e. c < se_server_seq e) es"

lemma after_cursor_later:
  "c < d \<Longrightarrow> filter (\<lambda>e. d < se_server_seq e) (after_cursor c es) = after_cursor d es"
  by (auto simp: after_cursor_def intro!: filter_cong)

locale paged_log =
  fixes log :: "'s \<Rightarrow> stored_event list"
    and pull :: "u64 \<Rightarrow> u32 \<Rightarrow> 's \<Rightarrow> pull_response"
    and ok :: "'s \<Rightarrow> bool"
    and size :: "u32 \<Rightarrow> nat"
  assumes log_sorted: "ok s \<Longrightarrow> sorted_wrt (<) (map se_server_seq (log s))"
    and pull_page: "ok s \<Longrightarrow> pl_events (pull c n s) = take (size n) (after_cursor c (log s))"
    and pull_cursor: "ok s \<Longrightarrow> pl_next_cursor (pull c n s) =
      (if pl_events (pull c n s) = [] then c else se_server_seq (last (pl_events (pull c n s))))"
begin

lemma after_cursor_sorted: "ok s \<Longrightarrow> sorted_wrt (<) (map se_server_seq (after_cursor c (log s)))"
  using log_sorted [of s] unfolding after_cursor_def
  by (simp add: sorted_wrt_map sorted_wrt_filter)

text \<open>After a page the cursor stands right behind it: the next page continues with what follows.\<close>

lemma next_page:
  assumes "ok s" and "pl_events (pull c n s) \<noteq> []"
  shows "after_cursor (pl_next_cursor (pull c n s)) (log s) = drop (size n) (after_cursor c (log s))"
proof -
  let ?A = "after_cursor c (log s)"
  let ?p = "take (size n) ?A"
  have ne: "?p \<noteq> []" and cur: "pl_next_cursor (pull c n s) = se_server_seq (last ?p)"
    using assms by (simp_all add: pull_page pull_cursor)
  have c_lt: "c < se_server_seq (last ?p)"
    using last_in_set [OF ne] set_take_subset [of "size n" ?A] by (auto simp: after_cursor_def)
  have "sorted_wrt (\<lambda>a b. se_server_seq a < se_server_seq b) (?p @ drop (size n) ?A)"
    using after_cursor_sorted [OF assms(1), of c] by (simp add: sorted_wrt_map)
  then have s: "sorted_wrt (\<lambda>a b. se_server_seq a < se_server_seq b) ?p"
    and cross: "\<And>a b. a \<in> set ?p \<Longrightarrow> b \<in> set (drop (size n) ?A) \<Longrightarrow> se_server_seq a < se_server_seq b"
    unfolding sorted_wrt_append by auto
  have "se_server_seq a \<le> se_server_seq (last ?p)" if "a \<in> set ?p" for a
  proof -
    obtain front where f: "?p = front @ [last ?p]" using ne by (metis append_butlast_last_id)
    with s that show ?thesis by (metis (no_types, lifting) Un_iff in_set_conv_decomp list.set_intros(1)
          order.order_iff_strict set_ConsD set_append sorted_wrt_append empty_iff list.set(1))
  qed
  then have "filter (\<lambda>e. se_server_seq (last ?p) < se_server_seq e) ?p = []"
    by (simp add: filter_empty_conv not_less)
  moreover have "filter (\<lambda>e. se_server_seq (last ?p) < se_server_seq e) (drop (size n) ?A) = drop (size n) ?A"
    using cross last_in_set [OF ne] by (simp add: filter_id_conv)
  ultimately have "filter (\<lambda>e. se_server_seq (last ?p) < se_server_seq e) (?p @ drop (size n) ?A) = drop (size n) ?A"
    by (simp only: filter_append append_Nil)
  then have "filter (\<lambda>e. se_server_seq (last ?p) < se_server_seq e) ?A = drop (size n) ?A" by simp
  with after_cursor_later [OF c_lt, of "log s"] show ?thesis by (simp add: cur)
qed

end

end
