(* ===== verification/Server_Store.thy ===== *)
theory Server_Store
  imports Relay_Log
begin

text \<open>
  The sync server's persistence, \<^verbatim>\<open>crates/pergamon-sync-server/src/store.rs\<close>, with the quota
  policy of \<^verbatim>\<open>quota.rs\<close>. A table is the list of its rows in insertion order; a statement
  that violates a key is refused. Every method runs under the writer lock or in one read
  transaction, so it is a function of the store; a transaction that returns an error leaves
  the store as it was. Lock poisoning and pool exhaustion are not modelled.
\<close>

section \<open>Quotas\<close>

datatype quota_limit = LimitBytes | LimitObjects

record quota =
  max_account_bytes :: u64
  max_account_objects :: u64

definition unlimited :: quota where
  "unlimited = \<lparr>max_account_bytes = 0, max_account_objects = 0\<rparr>"

definition is_unlimited :: "quota \<Rightarrow> bool" where
  "is_unlimited q \<longleftrightarrow> max_account_bytes q = 0 \<and> max_account_objects q = 0"

definition quota_check :: "quota \<Rightarrow> u64 \<Rightarrow> u64 \<Rightarrow> quota_limit + unit" where
  "quota_check q total_bytes total_objects =
     (if max_account_bytes q \<noteq> 0 \<and> total_bytes > max_account_bytes q then Inl LimitBytes
      else if max_account_objects q \<noteq> 0 \<and> total_objects > max_account_objects q then Inl LimitObjects
      else Inr ())"

section \<open>Integers of the columns\<close>

text \<open>\<open>i64::try_from(x).unwrap_or(i64::MAX)\<close>, \<open>u64::try_from(n).unwrap_or(0)\<close> and
  \<open>saturating_add\<close>.\<close>

definition i64_of :: "u64 \<Rightarrow> int" where
  "i64_of x = (if uint x < 2 ^ 63 then uint x else 2 ^ 63 - 1)"

definition u64_of :: "int \<Rightarrow> u64" where
  "u64_of n = (if 0 \<le> n then word_of_int n else 0)"

definition sat_add :: "u64 \<Rightarrow> u64 \<Rightarrow> u64" where
  "sat_add x y = (if unat x + unat y < 2 ^ 64 then x + y else - 1)"

text \<open>The length of a byte string as \<open>i64\<close> and as \<open>u64\<close>.\<close>

definition len_i64 :: "string \<Rightarrow> int" where
  "len_i64 b = (if length b < 2 ^ 63 then int (length b) else 2 ^ 63 - 1)"

definition len_u64 :: "string \<Rightarrow> u64" where
  "len_u64 b = (if length b < 2 ^ 64 then of_nat (length b) else - 1)"

text \<open>\<open>COALESCE(MAX(c), 0)\<close>.\<close>

definition sql_max :: "int list \<Rightarrow> int" where
  "sql_max ns = (if ns = [] then 0 else Max (set ns))"

section \<open>Rows\<close>

datatype store_error =
    AccountPairMismatch
  | StoreUnavailable string
  | QuotaExceeded quota_limit
  | BlobHashMismatch string string
  | StoreMissingBlob string
  | StoreDb
  | StoreJson

record event_record =
  er_protocol_version :: u32
  er_account_id :: string
  er_device_id :: string
  er_change_id :: string
  er_entity_ref :: "string option"
  er_key_epoch :: u32
  er_blob_refs :: "string list"
  er_ciphertext :: string
  er_signature :: string

record event_row =
  ev_account_id :: string
  ev_server_seq :: int
  ev_change_id :: string
  ev_device_id :: string
  ev_protocol_version :: u32
  ev_entity_ref :: "string option"
  ev_key_epoch :: u32
  ev_blob_refs :: string
  ev_payload_bytes :: int
  ev_ciphertext :: string
  ev_signature :: string
  ev_committed_at :: int

record stored_record =
  sr_event :: event_record
  sr_payload_bytes :: u64
  sr_server_seq :: u64
  sr_committed_at :: int

record push_outcome =
  po_results :: "push_result list"
  po_high_water_seq :: u64

record blob_row =
  bl_account_id :: string
  bl_ct_hash :: string
  bl_bytes :: string
  bl_byte_len :: int
  bl_created_at :: int

text \<open>A row of \<open>device_records\<close>, \<open>wrapped_bundles\<close>, \<open>attestations\<close> and \<open>recovery_blobs\<close>.\<close>

record device_row =
  dr_account_id :: string
  dr_device_id :: string
  dr_bytes :: string
  dr_updated_at :: int

record bundle_row =
  br_account_id :: string
  br_recipient :: string
  br_seq :: int
  br_hash :: string
  br_bytes :: string
  br_created_at :: int

record attestation_row =
  ar_account_id :: string
  ar_seq :: int
  ar_hash :: string
  ar_bytes :: string
  ar_created_at :: int

record recovery_row =
  rr_account_id :: string
  rr_bytes :: string
  rr_updated_at :: int

record server =
  sv_events :: "event_row list"
  sv_blobs :: "blob_row list"
  sv_devices :: "device_row list"
  sv_bundles :: "bundle_row list"
  sv_attestations :: "attestation_row list"
  sv_recovery :: "recovery_row list"
  sv_instance :: "string option"
  sv_history :: "string list"
  sv_quota :: quota

text \<open>Third-party code the store uses: SHA-256 in hexadecimal, and the JSON text of a list of
  strings.\<close>

record store_env =
  ct_hash :: "string \<Rightarrow> string"
  refs_text :: "string list \<Rightarrow> string"
  refs_parse :: "string \<Rightarrow> string list option"

type_synonym 'a store_op = "server \<Rightarrow> (store_error + 'a) \<times> server"

definition server_empty :: "quota \<Rightarrow> server" where
  "server_empty q = \<lparr>sv_events = [], sv_blobs = [], sv_devices = [], sv_bundles = [], sv_attestations = [],
     sv_recovery = [], sv_instance = None, sv_history = [], sv_quota = q\<rparr>"

text \<open>The insert triggers.\<close>

definition note_account :: "string \<Rightarrow> server \<Rightarrow> server" where
  "note_account a s = s\<lparr>sv_history := List.insert a (sv_history s)\<rparr>"

section \<open>Pairing\<close>

definition pair_auth_instance :: "string \<Rightarrow> unit store_op" where
  "pair_auth_instance inst s =
     (let actual = (case sv_instance s of Some i \<Rightarrow> i | None \<Rightarrow> inst)
      in if actual \<noteq> inst then (Inl AccountPairMismatch, s) else (Inr (), s\<lparr>sv_instance := Some actual\<rparr>))"

section \<open>Usage\<close>

record usage =
  blob_bytes :: u64
  blob_count :: u64
  event_bytes :: u64
  event_count :: u64

definition total_bytes :: "usage \<Rightarrow> u64" where
  "total_bytes u = sat_add (blob_bytes u) (event_bytes u)"

definition total_objects :: "usage \<Rightarrow> u64" where
  "total_objects u = sat_add (blob_count u) (event_count u)"

definition events_of :: "string \<Rightarrow> server \<Rightarrow> event_row list" where
  "events_of a s = filter (\<lambda>r. ev_account_id r = a) (sv_events s)"

definition blobs_of :: "string \<Rightarrow> server \<Rightarrow> blob_row list" where
  "blobs_of a s = filter (\<lambda>r. bl_account_id r = a) (sv_blobs s)"

definition account_usage :: "string \<Rightarrow> server \<Rightarrow> usage" where
  "account_usage a s =
     \<lparr>blob_bytes = u64_of (sum_list (map bl_byte_len (blobs_of a s))),
      blob_count = u64_of (int (length (blobs_of a s))),
      event_bytes = u64_of (sum_list (map ev_payload_bytes (events_of a s))),
      event_count = u64_of (int (length (events_of a s)))\<rparr>"

section \<open>Blobs\<close>

definition blob_present :: "string \<Rightarrow> string \<Rightarrow> server \<Rightarrow> bool" where
  "blob_present a h s \<longleftrightarrow> list_ex (\<lambda>r. bl_account_id r = a \<and> bl_ct_hash r = h) (sv_blobs s)"

definition blob_put :: "store_env \<Rightarrow> int \<Rightarrow> string \<Rightarrow> string \<Rightarrow> string \<Rightarrow> unit store_op" where
  "blob_put E now a h bytes s =
     (let actual = ct_hash E bytes in
      if actual \<noteq> h then (Inl (BlobHashMismatch h actual), s)
      else
        let u = account_usage a s;
            over = (if is_unlimited (sv_quota s) \<or> blob_present a h s then Inr ()
                    else quota_check (sv_quota s) (sat_add (total_bytes u) (len_u64 bytes))
                           (sat_add (total_objects u) 1))
        in case over of
             Inl l \<Rightarrow> (Inl (QuotaExceeded l), s)
           | Inr _ \<Rightarrow>
               (Inr (),
                if blob_present a h s then s
                else note_account a (s\<lparr>sv_blobs := sv_blobs s @ [\<lparr>bl_account_id = a, bl_ct_hash = h,
                       bl_bytes = bytes, bl_byte_len = len_i64 bytes, bl_created_at = now\<rparr>]\<rparr>)))"

definition blob_get :: "string \<Rightarrow> string \<Rightarrow> server \<Rightarrow> string option" where
  "blob_get a h s = map_option bl_bytes (find (\<lambda>r. bl_account_id r = a \<and> bl_ct_hash r = h) (sv_blobs s))"

definition blob_probe :: "string \<Rightarrow> string list \<Rightarrow> server \<Rightarrow> string list \<times> string list" where
  "blob_probe a hashes s =
     (filter (\<lambda>h. blob_present a h s) hashes, filter (\<lambda>h. \<not> blob_present a h s) hashes)"

section \<open>Appending events\<close>

definition insert_event :: "event_row \<Rightarrow> server \<Rightarrow> store_error + server" where
  "insert_event row s =
     (if list_ex (\<lambda>r. ev_account_id r = ev_account_id row
           \<and> (ev_server_seq r = ev_server_seq row \<or> ev_change_id r = ev_change_id row)) (sv_events s)
      then Inl StoreDb
      else Inr (note_account (ev_account_id row) (s\<lparr>sv_events := sv_events s @ [row]\<rparr>)))"

definition known_seq :: "string \<Rightarrow> string \<Rightarrow> server \<Rightarrow> int option" where
  "known_seq a change_id s =
     map_option ev_server_seq (find (\<lambda>r. ev_account_id r = a \<and> ev_change_id r = change_id) (sv_events s))"

definition max_event_seq :: "string \<Rightarrow> server \<Rightarrow> int" where
  "max_event_seq a s = sql_max (map ev_server_seq (events_of a s))"

text \<open>The state of the loop over a batch: the last number assigned, the projected usage, the
  results and the transaction's view of the store.\<close>

record batch =
  ba_next :: u64
  ba_bytes :: u64
  ba_objects :: u64
  ba_results :: "push_result list"
  ba_store :: server

definition row_of :: "store_env \<Rightarrow> int \<Rightarrow> string \<Rightarrow> u64 \<Rightarrow> event_record \<Rightarrow> event_row" where
  "row_of E now a seq ev =
     \<lparr>ev_account_id = a, ev_server_seq = i64_of seq, ev_change_id = er_change_id ev,
      ev_device_id = er_device_id ev, ev_protocol_version = er_protocol_version ev,
      ev_entity_ref = er_entity_ref ev, ev_key_epoch = er_key_epoch ev,
      ev_blob_refs = refs_text E (er_blob_refs ev), ev_payload_bytes = len_i64 (er_ciphertext ev),
      ev_ciphertext = er_ciphertext ev, ev_signature = er_signature ev, ev_committed_at = now\<rparr>"

text \<open>The quota test of one new event: the projected usage after it.\<close>

definition meter :: "quota \<Rightarrow> event_record \<Rightarrow> batch \<Rightarrow> store_error + (u64 \<times> u64)" where
  "meter q ev b =
     (if is_unlimited q then Inr (ba_bytes b, ba_objects b)
      else
        let bytes = sat_add (ba_bytes b) (len_u64 (er_ciphertext ev));
            objects = sat_add (ba_objects b) 1
        in case quota_check q bytes objects of
             Inl l \<Rightarrow> Inl (QuotaExceeded l) | Inr _ \<Rightarrow> Inr (bytes, objects))"

definition push_one ::
  "store_env \<Rightarrow> int \<Rightarrow> string \<Rightarrow> quota \<Rightarrow> event_record \<Rightarrow> batch \<Rightarrow> store_error + batch" where
  "push_one E now a q ev b =
     (case known_seq a (er_change_id ev) (ba_store b) of
        Some seq \<Rightarrow>
          Inr (b\<lparr>ba_results := ba_results b @ [\<lparr>pr_change_id = er_change_id ev, pr_server_seq = u64_of seq,
                  pr_deduplicated = True\<rparr>]\<rparr>)
      | None \<Rightarrow>
          (case find (\<lambda>h. \<not> blob_present a h (ba_store b)) (er_blob_refs ev) of
             Some h \<Rightarrow> Inl (StoreMissingBlob h)
           | None \<Rightarrow>
               bindR (meter q ev b) (\<lambda>(bytes, objects).
                 let seq = ba_next b + 1 in
                 bindR (insert_event (row_of E now a seq ev) (ba_store b)) (\<lambda>s'.
                   Inr \<lparr>ba_next = seq, ba_bytes = bytes, ba_objects = objects,
                        ba_results = ba_results b @ [\<lparr>pr_change_id = er_change_id ev, pr_server_seq = seq,
                          pr_deduplicated = False\<rparr>],
                        ba_store = s'\<rparr>))))"

definition start_batch :: "string \<Rightarrow> server \<Rightarrow> batch" where
  "start_batch a s =
     (let u = account_usage a s; metered = \<not> is_unlimited (sv_quota s)
      in \<lparr>ba_next = u64_of (max_event_seq a s),
          ba_bytes = (if metered then total_bytes u else 0),
          ba_objects = (if metered then total_objects u else 0), ba_results = [], ba_store = s\<rparr>)"

definition push_events :: "store_env \<Rightarrow> int \<Rightarrow> string \<Rightarrow> event_record list \<Rightarrow> push_outcome store_op" where
  "push_events E now a evs s =
     (case foldR (push_one E now a (sv_quota s)) evs (start_batch a s) of
        Inl e \<Rightarrow> (Inl e, s)
      | Inr b \<Rightarrow> (Inr \<lparr>po_results = ba_results b, po_high_water_seq = ba_next b\<rparr>, ba_store b))"

section \<open>Reading events\<close>

definition record_of_row :: "store_env \<Rightarrow> event_row \<Rightarrow> store_error + stored_record" where
  "record_of_row E r =
     (case refs_parse E (ev_blob_refs r) of
        None \<Rightarrow> Inl StoreJson
      | Some refs \<Rightarrow>
          Inr \<lparr>sr_event = \<lparr>er_protocol_version = ev_protocol_version r, er_account_id = ev_account_id r,
                er_device_id = ev_device_id r, er_change_id = ev_change_id r, er_entity_ref = ev_entity_ref r,
                er_key_epoch = ev_key_epoch r, er_blob_refs = refs, er_ciphertext = ev_ciphertext r,
                er_signature = ev_signature r\<rparr>,
               sr_payload_bytes = u64_of (ev_payload_bytes r), sr_server_seq = u64_of (ev_server_seq r),
               sr_committed_at = ev_committed_at r\<rparr>)"

definition rows_after :: "string \<Rightarrow> u64 \<Rightarrow> u32 \<Rightarrow> server \<Rightarrow> event_row list" where
  "rows_after a after limit s =
     take (unat limit) (sort_key ev_server_seq (filter (\<lambda>r. ev_server_seq r > i64_of after) (events_of a s)))"

definition pull_events :: "store_env \<Rightarrow> string \<Rightarrow> u64 \<Rightarrow> u32 \<Rightarrow> server \<Rightarrow> store_error + stored_record list" where
  "pull_events E a after limit s = map_res (record_of_row E) (rows_after a after limit s)"

definition high_water_of :: "string \<Rightarrow> server \<Rightarrow> u64" where
  "high_water_of a s = u64_of (max_event_seq a s)"

definition store_pull_page ::
  "store_env \<Rightarrow> string \<Rightarrow> u64 \<Rightarrow> u32 \<Rightarrow> server \<Rightarrow> store_error + (stored_record list \<times> u64)" where
  "store_pull_page E a after limit s =
     bindR (pull_events E a after limit s) (\<lambda>rs. Inr (rs, high_water_of a s))"

section \<open>The relayed artifacts\<close>

record append_result =
  apr_seq :: u64
  apr_deduplicated :: bool

definition device_record_put :: "int \<Rightarrow> string \<Rightarrow> string \<Rightarrow> string \<Rightarrow> server \<Rightarrow> server" where
  "device_record_put now a d bytes s =
     (if list_ex (\<lambda>r. dr_account_id r = a \<and> dr_device_id r = d) (sv_devices s)
      then s\<lparr>sv_devices := map (\<lambda>r. if dr_account_id r = a \<and> dr_device_id r = d
               then r\<lparr>dr_bytes := bytes, dr_updated_at := now\<rparr> else r) (sv_devices s)\<rparr>
      else note_account a (s\<lparr>sv_devices := sv_devices s
               @ [\<lparr>dr_account_id = a, dr_device_id = d, dr_bytes = bytes, dr_updated_at = now\<rparr>]\<rparr>))"

definition device_record_get :: "string \<Rightarrow> string \<Rightarrow> server \<Rightarrow> string option" where
  "device_record_get a d s = map_option dr_bytes (find (\<lambda>r. dr_account_id r = a \<and> dr_device_id r = d) (sv_devices s))"

definition device_records_list :: "string \<Rightarrow> server \<Rightarrow> (string \<times> string) list" where
  "device_records_list a s =
     map (\<lambda>r. (dr_device_id r, dr_bytes r)) (sort_key dr_device_id (filter (\<lambda>r. dr_account_id r = a) (sv_devices s)))"

definition wrapped_bundle_put :: "store_env \<Rightarrow> int \<Rightarrow> string \<Rightarrow> string \<Rightarrow> string \<Rightarrow> server \<Rightarrow> append_result \<times> server" where
  "wrapped_bundle_put E now a d bytes s =
     (let mine = filter (\<lambda>r. br_account_id r = a \<and> br_recipient r = d) (sv_bundles s)
      in case find (\<lambda>r. br_hash r = ct_hash E bytes) mine of
           Some r \<Rightarrow> (\<lparr>apr_seq = u64_of (br_seq r), apr_deduplicated = True\<rparr>, s)
         | None \<Rightarrow>
             let seq = sql_max (map br_seq mine) + 1
             in (\<lparr>apr_seq = u64_of seq, apr_deduplicated = False\<rparr>,
                 note_account a (s\<lparr>sv_bundles := sv_bundles s @ [\<lparr>br_account_id = a, br_recipient = d,
                   br_seq = seq, br_hash = ct_hash E bytes, br_bytes = bytes, br_created_at = now\<rparr>]\<rparr>)))"

definition wrapped_bundles_list :: "string \<Rightarrow> string \<Rightarrow> u64 \<Rightarrow> u32 \<Rightarrow> server \<Rightarrow> (u64 \<times> string) list" where
  "wrapped_bundles_list a d after limit s =
     map (\<lambda>r. (u64_of (br_seq r), br_bytes r)) (take (unat limit) (sort_key br_seq
       (filter (\<lambda>r. br_account_id r = a \<and> br_recipient r = d \<and> br_seq r > i64_of after) (sv_bundles s))))"

definition attestation_append :: "store_env \<Rightarrow> int \<Rightarrow> string \<Rightarrow> string \<Rightarrow> server \<Rightarrow> append_result \<times> server" where
  "attestation_append E now a bytes s =
     (let mine = filter (\<lambda>r. ar_account_id r = a) (sv_attestations s)
      in case find (\<lambda>r. ar_hash r = ct_hash E bytes) mine of
           Some r \<Rightarrow> (\<lparr>apr_seq = u64_of (ar_seq r), apr_deduplicated = True\<rparr>, s)
         | None \<Rightarrow>
             let seq = sql_max (map ar_seq mine) + 1
             in (\<lparr>apr_seq = u64_of seq, apr_deduplicated = False\<rparr>,
                 note_account a (s\<lparr>sv_attestations := sv_attestations s @ [\<lparr>ar_account_id = a,
                   ar_seq = seq, ar_hash = ct_hash E bytes, ar_bytes = bytes, ar_created_at = now\<rparr>]\<rparr>)))"

definition attestations_list :: "string \<Rightarrow> u64 \<Rightarrow> u32 \<Rightarrow> server \<Rightarrow> (u64 \<times> string) list" where
  "attestations_list a after limit s =
     map (\<lambda>r. (u64_of (ar_seq r), ar_bytes r)) (take (unat limit) (sort_key ar_seq
       (filter (\<lambda>r. ar_account_id r = a \<and> ar_seq r > i64_of after) (sv_attestations s))))"

definition recovery_blob_put :: "int \<Rightarrow> string \<Rightarrow> string \<Rightarrow> server \<Rightarrow> server" where
  "recovery_blob_put now a bytes s =
     (if list_ex (\<lambda>r. rr_account_id r = a) (sv_recovery s)
      then s\<lparr>sv_recovery := map (\<lambda>r. if rr_account_id r = a then r\<lparr>rr_bytes := bytes, rr_updated_at := now\<rparr> else r)
                              (sv_recovery s)\<rparr>
      else note_account a (s\<lparr>sv_recovery := sv_recovery s
               @ [\<lparr>rr_account_id = a, rr_bytes = bytes, rr_updated_at = now\<rparr>]\<rparr>))"

definition recovery_blob_get :: "string \<Rightarrow> server \<Rightarrow> string option" where
  "recovery_blob_get a s = map_option rr_bytes (find (\<lambda>r. rr_account_id r = a) (sv_recovery s))"

section \<open>An instance of the third-party code\<close>

text \<open>A readable text of a list of strings: every character is marked, every string ends in a dot.
  The hash of a byte string is the string itself.\<close>

definition demo_refs_text :: "string list \<Rightarrow> string" where
  "demo_refs_text rs = concat (map (\<lambda>r. concat (map (\<lambda>c. [CHR ''x'', c]) r) @ ''.'') rs)"

fun demo_refs_parse :: "string \<Rightarrow> string list option" where
  "demo_refs_parse [] = Some []"
| "demo_refs_parse (c # cs) =
     (if c = CHR ''.'' then map_option (Cons []) (demo_refs_parse cs)
      else case cs of
        [] \<Rightarrow> None
      | d # ds \<Rightarrow> (case demo_refs_parse ds of Some (r # rs) \<Rightarrow> Some ((d # r) # rs) | _ \<Rightarrow> None))"

definition demo_env :: store_env where
  "demo_env = \<lparr>ct_hash = (\<lambda>b. b), refs_text = demo_refs_text, refs_parse = demo_refs_parse\<rparr>"

lemma demo_refs_roundtrip: "demo_refs_parse (demo_refs_text rs) = Some rs"
proof (induction rs)
  case (Cons r rs)
  show ?case
  proof (induction r)
    case (Cons c r)
    then show ?case by (simp add: demo_refs_text_def)
  qed (use Cons in \<open>simp add: demo_refs_text_def\<close>)
qed (simp add: demo_refs_text_def)

lemma demo_env_simps [simp]:
  "ct_hash demo_env b = b" "refs_parse demo_env (refs_text demo_env rs) = Some rs"
  by (simp_all add: demo_env_def demo_refs_roundtrip)

end
