(* ===== verification/Server_Api.thy ===== *)
theory Server_Api
  imports Server_Store
begin

text \<open>
  The layer between the sync server's routes and its store: API errors and their statuses
  (\<^verbatim>\<open>crates/pergamon-sync-server/src/error.rs\<close>), the bearer and tenant checks
  (\<^verbatim>\<open>src/auth/authz.rs\<close>), and the admission of a store operation (\<^verbatim>\<open>src/state.rs\<close>). The
  human-readable message of an error and the tracing calls are left out. Token validation
  and the tenant limiter are parameters of the deployment; a poisoned lock is not modelled.
\<close>

section \<open>Errors\<close>

record api_error =
  ae_status :: nat
  ae_code :: string

definition bad_request :: api_error where
  "bad_request = \<lparr>ae_status = 400, ae_code = ''BAD_REQUEST''\<rparr>"

definition not_found :: api_error where
  "not_found = \<lparr>ae_status = 404, ae_code = ''NOT_FOUND''\<rparr>"

definition unauthorized :: api_error where
  "unauthorized = \<lparr>ae_status = 401, ae_code = ''UNAUTHORIZED''\<rparr>"

definition forbidden :: api_error where
  "forbidden = \<lparr>ae_status = 403, ae_code = ''FORBIDDEN''\<rparr>"

definition unavailable :: api_error where
  "unavailable = \<lparr>ae_status = 503, ae_code = ''UNAVAILABLE''\<rparr>"

definition conflict :: api_error where
  "conflict = \<lparr>ae_status = 409, ae_code = ''CONFLICT''\<rparr>"

definition insufficient_storage :: api_error where
  "insufficient_storage = \<lparr>ae_status = 507, ae_code = ''QUOTA_EXCEEDED''\<rparr>"

definition internal :: api_error where
  "internal = \<lparr>ae_status = 500, ae_code = ''INTERNAL_ERROR''\<rparr>"

text \<open>The store's one database error is a violated key, never a busy database.\<close>

fun api_of_store :: "store_error \<Rightarrow> api_error" where
  "api_of_store AccountPairMismatch = internal"
| "api_of_store (BlobHashMismatch _ _) = bad_request"
| "api_of_store (StoreMissingBlob _) = conflict"
| "api_of_store (QuotaExceeded _) = insufficient_storage"
| "api_of_store (StoreUnavailable _) = unavailable"
| "api_of_store StoreDb = internal"
| "api_of_store StoreJson = internal"

datatype fairness_error = Busy (busy_cap: nat) (waited_ms: u64) | Poisoned

fun api_of_fairness :: "fairness_error \<Rightarrow> api_error" where
  "api_of_fairness (Busy _ _) = unavailable"
| "api_of_fairness Poisoned = internal"

section \<open>Principals\<close>

record auth_account =
  aa_account_id :: string
  aa_device_id :: string
  aa_auth_tenant_id :: string
  aa_binding_version :: int
  aa_token_id :: string

text \<open>What the auth state answers: the principal of a bearer, and whether a principal's
  binding and token are still live.\<close>

record auth_state =
  validate_token :: "string \<Rightarrow> api_error + auth_account option"
  principal_is_current :: "auth_account \<Rightarrow> api_error + bool"

record app_state =
  ap_env :: store_env
  ap_auth :: "auth_state option"
  ap_acquire :: "string \<Rightarrow> fairness_error + unit"
  ap_encode :: "string \<Rightarrow> string"
  ap_decode :: "string \<Rightarrow> string option"

definition authorize_account :: "auth_account \<Rightarrow> string \<Rightarrow> api_error + unit" where
  "authorize_account auth target = (if aa_account_id auth = target then Inr () else Inl forbidden)"

section \<open>The bearer\<close>

text \<open>\<open>HeaderValue::to_str\<close> accepts visible ASCII and tab; \<open>trim\<close> then removes spaces and
  tabs.\<close>

definition header_to_str :: "string \<Rightarrow> string option" where
  "header_to_str v = (if list_all (\<lambda>c. ((32 :: nat) \<le> of_char c \<and> of_char c < (127 :: nat)) \<or> of_char c = (9 :: nat)) v
     then Some v else None)"

definition ascii_lower :: "char \<Rightarrow> char" where
  "ascii_lower c = (if 65 \<le> (of_char c :: nat) \<and> (of_char c :: nat) \<le> 90 then char_of (of_char c + (32 :: nat)) else c)"

definition eq_ignore_ascii_case :: "string \<Rightarrow> string \<Rightarrow> bool" where
  "eq_ignore_ascii_case a b \<longleftrightarrow> map ascii_lower a = map ascii_lower b"

definition trim_blank :: "string \<Rightarrow> string" where
  "trim_blank v = (let blank = (\<lambda>c. c = CHR '' '' \<or> of_char c = (9 :: nat))
     in rev (dropWhile blank (rev (dropWhile blank v))))"

definition bearer_from_header :: "string option \<Rightarrow> string option" where
  "bearer_from_header value =
     (case value of
        None \<Rightarrow> None
      | Some v \<Rightarrow>
          (case header_to_str v of
             None \<Rightarrow> None
           | Some raw \<Rightarrow>
               (case split_once (CHR '' '') raw of
                  None \<Rightarrow> None
                | Some (scheme, credential) \<Rightarrow>
                    if \<not> eq_ignore_ascii_case scheme ''Bearer'' then None
                    else if trim_blank credential = [] then None
                    else Some (trim_blank credential))))"

section \<open>Admission\<close>

definition admit :: "app_state \<Rightarrow> string \<Rightarrow> auth_account option \<Rightarrow> api_error + unit" where
  "admit A account_id holder =
     bindR (case ap_auth A of
              None \<Rightarrow> Inr ()
            | Some auth \<Rightarrow>
                (case holder of
                   None \<Rightarrow> Inl unauthorized
                 | Some who \<Rightarrow>
                     bindR (authorize_account who account_id) (\<lambda>_.
                     bindR (principal_is_current auth who) (\<lambda>current.
                       if current then Inr () else Inl unauthorized))))
       (\<lambda>_. let tenant = (case holder of None \<Rightarrow> account_id | Some p \<Rightarrow> aa_auth_tenant_id p)
            in map_sum api_of_fairness id (ap_acquire A tenant))"

definition with_account_store ::
  "app_state \<Rightarrow> string \<Rightarrow> auth_account option \<Rightarrow> 'a store_op \<Rightarrow> server \<Rightarrow> (api_error + 'a) \<times> server" where
  "with_account_store A account_id holder f s =
     (case admit A account_id holder of
        Inl e \<Rightarrow> (Inl e, s)
      | Inr _ \<Rightarrow> (case f s of (r, s') \<Rightarrow> (map_sum api_of_store id r, s')))"

text \<open>Operations that only read, and operations that cannot fail, as store operations.\<close>

definition reading :: "(server \<Rightarrow> store_error + 'a) \<Rightarrow> 'a store_op" where
  "reading f s = (f s, s)"

definition writing :: "(server \<Rightarrow> 'a \<times> server) \<Rightarrow> 'a store_op" where
  "writing f s = (case f s of (r, s') \<Rightarrow> (Inr r, s'))"

lemma with_account_store_cases:
  assumes "with_account_store A a who f s = (r, s')"
  shows "(\<exists>e. admit A a who = Inl e \<and> r = Inl e \<and> s' = s)
    \<or> (admit A a who = Inr () \<and> (\<exists>r0. f s = (r0, s') \<and> r = map_sum api_of_store id r0))"
  using assms by (auto simp: with_account_store_def split: sum.splits prod.splits)

lemma admit_multitenant:
  assumes "ap_auth A = Some auth" and "admit A a who = Inr ()"
  shows "\<exists>p. who = Some p \<and> aa_account_id p = a \<and> principal_is_current auth p = Inr True"
  using assms by (auto simp: admit_def authorize_account_def result_iff split: option.splits if_splits)

end
