(* ===== verification/Server_Routes.thy ===== *)
theory Server_Routes
  imports Server_Api
begin

text \<open>
  The routes of the sync server, \<^verbatim>\<open>crates/pergamon-sync-server/src/routes\<close>, and the two
  routers: the blind one (\<open>serve_call\<close> with no principal) and the multi-tenant one behind
  \<open>require_account_auth\<close>. A request is a \<open>call\<close>, one constructor per route; extracting it
  from the URL and the JSON body is the web framework's. The abuse controls (rate limits, body
  caps) are not modelled.
\<close>

section \<open>Requests and replies\<close>

datatype call =
    Health
  | EventsPush push_request
  | EventsPull string u64 "u32 option"
  | BlobsProbe blob_probe_request
  | BlobPut string string string
  | BlobGet string string
  | DevicesList string
  | DevicePut string string string
  | DeviceGet string string
  | WrapPut string string string
  | WrapsList string string u64 "u32 option"
  | AttestationAppend string string
  | AttestationsList string u64 "u32 option"
  | RecoveryPut string string
  | RecoveryGet string
  | UsageGet string

record usage_response =
  ur_usage :: usage
  ur_total_bytes :: u64
  ur_total_objects :: u64
  ur_max_account_bytes :: u64
  ur_max_account_objects :: u64
  ur_over_quota :: bool

datatype reply =
    Healthy
  | Created
  | Pushed push_response
  | Pulled pull_response
  | Probed blob_probe_response
  | Bytes string
  | DeviceEntry string string
  | DeviceEntries "(string \<times> string) list"
  | Ack u64 bool
  | Entries "(u64 \<times> string) list" u64
  | RecoveryBlob string
  | UsageReport usage_response

type_synonym route = "server \<Rightarrow> (api_error + reply) \<times> server"

definition reply_with :: "('a \<Rightarrow> api_error + reply) \<Rightarrow> (api_error + 'a) \<times> server \<Rightarrow> (api_error + reply) \<times> server" where
  "reply_with f rs = (bindR (fst rs) f, snd rs)"

text \<open>The tenant compare of the handlers whose account id is not in the path.\<close>

definition when_authorized :: "auth_account option \<Rightarrow> string \<Rightarrow> route \<Rightarrow> route" where
  "when_authorized maybe_auth target f s =
     (case maybe_auth of
        None \<Rightarrow> f s
      | Some auth \<Rightarrow> (case authorize_account auth target of Inl e \<Rightarrow> (Inl e, s) | Inr _ \<Rightarrow> f s))"

section \<open>Events\<close>

definition DEFAULT_LIMIT :: u32 where
  "DEFAULT_LIMIT = 500"

definition MAX_LIMIT :: u32 where
  "MAX_LIMIT = 1000"

definition page_limit :: "u32 option \<Rightarrow> u32" where
  "page_limit limit = min MAX_LIMIT (max 1 (case limit of None \<Rightarrow> DEFAULT_LIMIT | Some n \<Rightarrow> n))"

definition record_of_input :: "app_state \<Rightarrow> string \<Rightarrow> event_input \<Rightarrow> api_error + event_record" where
  "record_of_input A account_id ev =
     (if ei_account_id ev \<noteq> account_id then Inl bad_request
      else if ei_protocol_version ev \<noteq> PROTOCOL_VERSION then Inl bad_request
      else case ap_decode A (ei_ciphertext_b64 ev) of
        None \<Rightarrow> Inl bad_request
      | Some ciphertext \<Rightarrow>
          (case ap_decode A (ei_sig_b64 ev) of
             None \<Rightarrow> Inl bad_request
           | Some signature \<Rightarrow>
               Inr \<lparr>er_protocol_version = ei_protocol_version ev, er_account_id = ei_account_id ev,
                    er_device_id = ei_device_id ev, er_change_id = ei_change_id ev,
                    er_entity_ref = ei_entity_ref ev, er_key_epoch = ei_key_epoch ev,
                    er_blob_refs = ei_blob_refs ev, er_ciphertext = ciphertext, er_signature = signature\<rparr>))"

definition events_push :: "app_state \<Rightarrow> int \<Rightarrow> auth_account option \<Rightarrow> push_request \<Rightarrow> route" where
  "events_push A now maybe_auth req =
     when_authorized maybe_auth (pq_account_id req) (\<lambda>s.
       case map_res (record_of_input A (pq_account_id req)) (pq_events req) of
         Inl e \<Rightarrow> (Inl e, s)
       | Inr records \<Rightarrow>
           reply_with (\<lambda>out. Inr (Pushed \<lparr>pp_results = po_results out, pp_high_water_seq = po_high_water_seq out\<rparr>))
             (with_account_store A (pq_account_id req) maybe_auth
                (push_events (ap_env A) now (pq_account_id req) records) s))"

definition frame_of :: "app_state \<Rightarrow> stored_record \<Rightarrow> stored_event" where
  "frame_of A r =
     (let e = sr_event r in
      \<lparr>se_protocol_version = er_protocol_version e, se_account_id = er_account_id e,
       se_device_id = er_device_id e, se_change_id = er_change_id e, se_entity_ref = er_entity_ref e,
       se_key_epoch = er_key_epoch e, se_blob_refs = er_blob_refs e,
       se_payload_bytes = sr_payload_bytes r, se_server_seq = sr_server_seq r,
       se_server_committed_at = sr_committed_at r, se_ciphertext_b64 = ap_encode A (er_ciphertext e),
       se_sig_b64 = ap_encode A (er_signature e)\<rparr>)"

definition events_pull :: "app_state \<Rightarrow> auth_account option \<Rightarrow> string \<Rightarrow> u64 \<Rightarrow> u32 option \<Rightarrow> route" where
  "events_pull A maybe_auth account_id after limit =
     when_authorized maybe_auth account_id (\<lambda>s.
       reply_with (\<lambda>(records, high_water_seq).
           Inr (Pulled \<lparr>pl_events = map (frame_of A) records, pl_high_water_seq = high_water_seq,
             pl_next_cursor = foldl (\<lambda>c r. max c (sr_server_seq r)) after records\<rparr>))
         (with_account_store A account_id maybe_auth
            (reading (store_pull_page (ap_env A) account_id after (page_limit limit))) s))"

section \<open>Blobs\<close>

definition blobs_probe :: "app_state \<Rightarrow> auth_account option \<Rightarrow> blob_probe_request \<Rightarrow> route" where
  "blobs_probe A maybe_auth req =
     when_authorized maybe_auth (bq_account_id req) (\<lambda>s.
       reply_with (\<lambda>(present, missing). Inr (Probed \<lparr>bp_present = present, bp_missing = missing\<rparr>))
         (with_account_store A (bq_account_id req) maybe_auth
            (reading (\<lambda>s. Inr (blob_probe (bq_account_id req) (bq_ct_hashes req) s))) s))"

definition blobs_put :: "app_state \<Rightarrow> int \<Rightarrow> auth_account option \<Rightarrow> string \<Rightarrow> string \<Rightarrow> string \<Rightarrow> route" where
  "blobs_put A now maybe_auth account_id h body s =
     reply_with (\<lambda>_. Inr Created)
       (with_account_store A account_id maybe_auth (blob_put (ap_env A) now account_id h body) s)"

definition blobs_get :: "app_state \<Rightarrow> auth_account option \<Rightarrow> string \<Rightarrow> string \<Rightarrow> route" where
  "blobs_get A maybe_auth account_id h s =
     reply_with (\<lambda>bytes. case bytes of None \<Rightarrow> Inl not_found | Some b \<Rightarrow> Inr (Bytes b))
       (with_account_store A account_id maybe_auth (reading (\<lambda>s. Inr (blob_get account_id h s))) s)"

section \<open>Relayed artifacts\<close>

definition with_decoded :: "app_state \<Rightarrow> string \<Rightarrow> (string \<Rightarrow> route) \<Rightarrow> route" where
  "with_decoded A b64 f s = (case ap_decode A b64 of None \<Rightarrow> (Inl bad_request, s) | Some bytes \<Rightarrow> f bytes s)"

definition device_put :: "app_state \<Rightarrow> int \<Rightarrow> auth_account option \<Rightarrow> string \<Rightarrow> string \<Rightarrow> string \<Rightarrow> route" where
  "device_put A now maybe_auth account_id device_id record_b64 =
     with_decoded A record_b64 (\<lambda>bytes s.
       reply_with (\<lambda>_. Inr Created)
         (with_account_store A account_id maybe_auth
            (writing (\<lambda>s. ((), device_record_put now account_id device_id bytes s))) s))"

definition device_get :: "app_state \<Rightarrow> auth_account option \<Rightarrow> string \<Rightarrow> string \<Rightarrow> route" where
  "device_get A maybe_auth account_id device_id s =
     reply_with (\<lambda>bytes. case bytes of
           None \<Rightarrow> Inl not_found | Some b \<Rightarrow> Inr (DeviceEntry device_id (ap_encode A b)))
       (with_account_store A account_id maybe_auth (reading (\<lambda>s. Inr (device_record_get account_id device_id s))) s)"

definition devices_list :: "app_state \<Rightarrow> auth_account option \<Rightarrow> string \<Rightarrow> route" where
  "devices_list A maybe_auth account_id s =
     reply_with (\<lambda>rows. Inr (DeviceEntries (map (\<lambda>(d, b). (d, ap_encode A b)) rows)))
       (with_account_store A account_id maybe_auth (reading (\<lambda>s. Inr (device_records_list account_id s))) s)"

definition wrap_put :: "app_state \<Rightarrow> int \<Rightarrow> auth_account option \<Rightarrow> string \<Rightarrow> string \<Rightarrow> string \<Rightarrow> route" where
  "wrap_put A now maybe_auth account_id device_id bundle_b64 =
     with_decoded A bundle_b64 (\<lambda>bytes s.
       reply_with (\<lambda>r. Inr (Ack (apr_seq r) (apr_deduplicated r)))
         (with_account_store A account_id maybe_auth
            (writing (wrapped_bundle_put (ap_env A) now account_id device_id bytes)) s))"

definition entries_reply :: "app_state \<Rightarrow> u64 \<Rightarrow> (u64 \<times> string) list \<Rightarrow> api_error + reply" where
  "entries_reply A after rows =
     Inr (Entries (map (\<lambda>(n, b). (n, ap_encode A b)) rows) (foldl (\<lambda>c (n, b). max c n) after rows))"

definition wraps_list :: "app_state \<Rightarrow> auth_account option \<Rightarrow> string \<Rightarrow> string \<Rightarrow> u64 \<Rightarrow> u32 option \<Rightarrow> route" where
  "wraps_list A maybe_auth account_id device_id after limit s =
     reply_with (entries_reply A after)
       (with_account_store A account_id maybe_auth
          (reading (\<lambda>s. Inr (wrapped_bundles_list account_id device_id after (page_limit limit) s))) s)"

definition attestation_put :: "app_state \<Rightarrow> int \<Rightarrow> auth_account option \<Rightarrow> string \<Rightarrow> string \<Rightarrow> route" where
  "attestation_put A now maybe_auth account_id attestation_b64 =
     with_decoded A attestation_b64 (\<lambda>bytes s.
       reply_with (\<lambda>r. Inr (Ack (apr_seq r) (apr_deduplicated r)))
         (with_account_store A account_id maybe_auth
            (writing (attestation_append (ap_env A) now account_id bytes)) s))"

definition attestations_get :: "app_state \<Rightarrow> auth_account option \<Rightarrow> string \<Rightarrow> u64 \<Rightarrow> u32 option \<Rightarrow> route" where
  "attestations_get A maybe_auth account_id after limit s =
     reply_with (entries_reply A after)
       (with_account_store A account_id maybe_auth
          (reading (\<lambda>s. Inr (attestations_list account_id after (page_limit limit) s))) s)"

definition recovery_put :: "app_state \<Rightarrow> int \<Rightarrow> auth_account option \<Rightarrow> string \<Rightarrow> string \<Rightarrow> route" where
  "recovery_put A now maybe_auth account_id blob_b64 =
     with_decoded A blob_b64 (\<lambda>bytes s.
       reply_with (\<lambda>_. Inr Created)
         (with_account_store A account_id maybe_auth
            (writing (\<lambda>s. ((), recovery_blob_put now account_id bytes s))) s))"

definition recovery_get :: "app_state \<Rightarrow> auth_account option \<Rightarrow> string \<Rightarrow> route" where
  "recovery_get A maybe_auth account_id s =
     reply_with (\<lambda>bytes. case bytes of None \<Rightarrow> Inl not_found | Some b \<Rightarrow> Inr (RecoveryBlob (ap_encode A b)))
       (with_account_store A account_id maybe_auth (reading (\<lambda>s. Inr (recovery_blob_get account_id s))) s)"

section \<open>Usage\<close>

definition usage_get :: "app_state \<Rightarrow> auth_account option \<Rightarrow> string \<Rightarrow> route" where
  "usage_get A maybe_auth account_id s =
     reply_with (\<lambda>(u, q).
         Inr (UsageReport \<lparr>ur_usage = u, ur_total_bytes = total_bytes u, ur_total_objects = total_objects u,
           ur_max_account_bytes = max_account_bytes q, ur_max_account_objects = max_account_objects q,
           ur_over_quota = (quota_check q (total_bytes u) (total_objects u) \<noteq> Inr ())\<rparr>))
       (with_account_store A account_id maybe_auth
          (reading (\<lambda>s. Inr (account_usage account_id s, sv_quota s))) s)"

section \<open>The routers\<close>

fun serve_call :: "app_state \<Rightarrow> int \<Rightarrow> auth_account option \<Rightarrow> call \<Rightarrow> route" where
  "serve_call A now p Health s = (Inr Healthy, s)"
| "serve_call A now p (EventsPush req) s = events_push A now p req s"
| "serve_call A now p (EventsPull a after limit) s = events_pull A p a after limit s"
| "serve_call A now p (BlobsProbe req) s = blobs_probe A p req s"
| "serve_call A now p (BlobPut a h body) s = blobs_put A now p a h body s"
| "serve_call A now p (BlobGet a h) s = blobs_get A p a h s"
| "serve_call A now p (DevicesList a) s = devices_list A p a s"
| "serve_call A now p (DevicePut a d b) s = device_put A now p a d b s"
| "serve_call A now p (DeviceGet a d) s = device_get A p a d s"
| "serve_call A now p (WrapPut a d b) s = wrap_put A now p a d b s"
| "serve_call A now p (WrapsList a d after limit) s = wraps_list A p a d after limit s"
| "serve_call A now p (AttestationAppend a b) s = attestation_put A now p a b s"
| "serve_call A now p (AttestationsList a after limit) s = attestations_get A p a after limit s"
| "serve_call A now p (RecoveryPut a b) s = recovery_put A now p a b s"
| "serve_call A now p (RecoveryGet a) s = recovery_get A p a s"
| "serve_call A now p (UsageGet a) s = usage_get A p a s"

text \<open>The \<open>{account_id}\<close> of the path, where the route has one.\<close>

fun path_account :: "call \<Rightarrow> string option" where
  "path_account (BlobPut a _ _) = Some a"
| "path_account (BlobGet a _) = Some a"
| "path_account (DevicesList a) = Some a"
| "path_account (DevicePut a _ _) = Some a"
| "path_account (DeviceGet a _) = Some a"
| "path_account (WrapPut a _ _) = Some a"
| "path_account (WrapsList a _ _ _) = Some a"
| "path_account (AttestationAppend a _) = Some a"
| "path_account (AttestationsList a _ _) = Some a"
| "path_account (RecoveryPut a _) = Some a"
| "path_account (RecoveryGet a) = Some a"
| "path_account (UsageGet a) = Some a"
| "path_account _ = None"

definition require_account_auth ::
  "auth_state \<Rightarrow> string option \<Rightarrow> call \<Rightarrow> (auth_account option \<Rightarrow> route) \<Rightarrow> route" where
  "require_account_auth auth header c run s =
     (if c = Health then run None s
      else case bearer_from_header header of
        None \<Rightarrow> (Inl unauthorized, s)
      | Some bearer \<Rightarrow>
          (case validate_token auth bearer of
             Inl e \<Rightarrow> (Inl e, s)
           | Inr None \<Rightarrow> (Inl unauthorized, s)
           | Inr (Some account) \<Rightarrow>
               (case path_account c of
                  None \<Rightarrow> run (Some account) s
                | Some target \<Rightarrow>
                    (case authorize_account account target of
                       Inl e \<Rightarrow> (Inl e, s)
                     | Inr _ \<Rightarrow> run (Some account) s))))"

definition serve :: "app_state \<Rightarrow> int \<Rightarrow> string option \<Rightarrow> call \<Rightarrow> route" where
  "serve A now header c s =
     (case ap_auth A of
        None \<Rightarrow> serve_call A now None c s
      | Some auth \<Rightarrow> require_account_auth auth header c (\<lambda>p. serve_call A now p c) s)"

section \<open>A deployment\<close>

definition demo_principal :: auth_account where
  "demo_principal = \<lparr>aa_account_id = ''acct'', aa_device_id = ''dev'', aa_auth_tenant_id = ''tenant'',
     aa_binding_version = 1, aa_token_id = ''t''\<rparr>"

definition demo_auth :: auth_state where
  "demo_auth = \<lparr>validate_token = (\<lambda>t. Inr (if t = ''secret'' then Some demo_principal else None)),
     principal_is_current = (\<lambda>_. Inr True)\<rparr>"

definition demo_app :: "auth_state option \<Rightarrow> app_state" where
  "demo_app auth = \<lparr>ap_env = demo_env, ap_auth = auth, ap_acquire = (\<lambda>_. Inr ()), ap_encode = (\<lambda>s. s), ap_decode = Some\<rparr>"

end
