(* ===== verification/Envelope.thy ===== *)
theory Envelope
  imports Effects
begin

text \<open>
  The cryptographic envelope of events and blobs: \<^verbatim>\<open>crates/pergamon-crypto/src/{hierarchy,
  envelope,blob}.rs\<close> over the typed wrappers of \<^verbatim>\<open>primitives.rs\<close>. The primitives are
  third-party code and a parameter (\<open>prims\<close>); what is modelled and proved is what this
  program does with them: labels, framing, associated data, what is signed. Byte strings
  are \<open>char list\<close>s.
\<close>

record prims =
  hkdf_sha256 :: "nat \<Rightarrow> string \<Rightarrow> string \<Rightarrow> string"
  hmac_sha256 :: "string \<Rightarrow> string \<Rightarrow> string"
  blake3_hash :: "string \<Rightarrow> string"
  sha256 :: "string \<Rightarrow> string"
  aead_encrypt :: "string \<Rightarrow> string \<Rightarrow> string \<Rightarrow> string \<Rightarrow> string"
  aead_decrypt :: "string \<Rightarrow> string \<Rightarrow> string \<Rightarrow> string \<Rightarrow> string option"
  ed25519_sign :: "string \<Rightarrow> string \<Rightarrow> string"
  ed25519_verify :: "string \<Rightarrow> string \<Rightarrow> string \<Rightarrow> crypto_error + unit"
  b64_encode :: "string \<Rightarrow> string"
  b64_decode :: "string \<Rightarrow> string option"
  random_nonce :: "nat \<Rightarrow> string"

definition KEY_LEN :: nat where
  "KEY_LEN = 32"

definition NONCE_LEN :: nat where
  "NONCE_LEN = 24"

definition TAG_LEN :: nat where
  "TAG_LEN = 16"

definition SIG_LEN :: nat where
  "SIG_LEN = 64"

section \<open>Framing\<close>

definition byte :: "nat \<Rightarrow> u32 \<Rightarrow> char" where
  "byte k x = char_of (unat (drop_bit (8 * k) x))"

definition to_be_bytes :: "u32 \<Rightarrow> string" where
  "to_be_bytes x = [byte 3 x, byte 2 x, byte 1 x, byte 0 x]"

definition u32_len :: "nat \<Rightarrow> u32" where
  "u32_len n = (if n < 2 ^ 32 then of_nat n else - 1)"

definition lp :: "string \<Rightarrow> string" where
  "lp bytes = to_be_bytes (u32_len (length bytes)) @ bytes"

definition push_lp :: "string \<Rightarrow> string \<Rightarrow> string" where
  "push_lp buf bytes = buf @ lp bytes"

definition hex_digit :: "nat \<Rightarrow> char" where
  "hex_digit n = char_of (if n < 10 then 48 + n else 87 + n)"

definition to_hex :: "string \<Rightarrow> string" where
  "to_hex bytes = concat (map (\<lambda>b. [hex_digit (of_char b div 16), hex_digit (of_char b mod 16)]) bytes)"

section \<open>Headers\<close>

record event_header =
  eh_protocol_version :: u32
  eh_account_id :: string
  eh_device_id :: string
  eh_change_id :: string
  eh_key_epoch :: u32
  eh_entity_ref :: "string option"
  eh_blob_refs :: "string list"

definition EVENT_AAD_TAG :: string where
  "EVENT_AAD_TAG = ''pergamon/v1/event-aad''"

definition EVENT_SIG_TAG :: string where
  "EVENT_SIG_TAG = ''pergamon/v1/event-sig''"

definition ENTITY_REF_TAG :: string where
  "ENTITY_REF_TAG = ''pergamon/v1/entity-ref-input''"

definition aad_bytes :: "event_header \<Rightarrow> string" where
  "aad_bytes h =
     (let aad = EVENT_AAD_TAG @ to_be_bytes (eh_protocol_version h);
          aad = push_lp aad (eh_account_id h);
          aad = push_lp aad (eh_device_id h);
          aad = push_lp aad (eh_change_id h);
          aad = aad @ to_be_bytes (eh_key_epoch h);
          aad = (case eh_entity_ref h of
                   None \<Rightarrow> aad @ [char_of (0 :: nat)]
                 | Some r \<Rightarrow> push_lp (aad @ [char_of (1 :: nat)]) r);
          aad = aad @ to_be_bytes (u32_len (length (eh_blob_refs h)))
      in fold (\<lambda>r aad. push_lp aad r) (eh_blob_refs h) aad)"

definition event_signing_bytes :: "event_header \<Rightarrow> string \<Rightarrow> string" where
  "event_signing_bytes h ciphertext =
     EVENT_SIG_TAG @ aad_bytes h @ to_be_bytes (u32_len (length ciphertext)) @ ciphertext"

definition sign_event :: "prims \<Rightarrow> string \<Rightarrow> event_header \<Rightarrow> string \<Rightarrow> string" where
  "sign_event P seed h ciphertext = ed25519_sign P seed (event_signing_bytes h ciphertext)"

definition verify_event :: "prims \<Rightarrow> string \<Rightarrow> event_header \<Rightarrow> string \<Rightarrow> string \<Rightarrow> crypto_error + unit" where
  "verify_event P pub h ciphertext sig = ed25519_verify P pub (event_signing_bytes h ciphertext) sig"

definition entity_ref :: "prims \<Rightarrow> string \<Rightarrow> string \<Rightarrow> string \<Rightarrow> string" where
  "entity_ref P stream_key et i = to_hex (hmac_sha256 P stream_key (push_lp (push_lp ENTITY_REF_TAG et) i))"

section \<open>Keys\<close>

record content_key =
  ack_epoch :: u32
  ack_key :: string

definition LABEL_ENTITY_REF :: string where
  "LABEL_ENTITY_REF = ''pergamon/v1/entity-ref''"

definition LABEL_ACCOUNT_CONTENT :: string where
  "LABEL_ACCOUNT_CONTENT = ''pergamon/v1/account-content''"

definition LABEL_EVENT :: string where
  "LABEL_EVENT = ''pergamon/v1/event''"

definition LABEL_BLOB :: string where
  "LABEL_BLOB = ''pergamon/v1/blob''"

definition LABEL_BLOB_NONCE :: string where
  "LABEL_BLOB_NONCE = ''pergamon/v1/blob-nonce''"

definition BLOB_AAD_TAG :: string where
  "BLOB_AAD_TAG = ''pergamon/v1/blob-aad''"

definition account_stream_key :: "prims \<Rightarrow> string \<Rightarrow> string" where
  "account_stream_key P ark = hkdf_sha256 P KEY_LEN ark LABEL_ENTITY_REF"

definition content_key_at :: "prims \<Rightarrow> string \<Rightarrow> u32 \<Rightarrow> content_key" where
  "content_key_at P ark epoch =
     \<lparr>ack_epoch = epoch, ack_key = hkdf_sha256 P KEY_LEN ark (LABEL_ACCOUNT_CONTENT @ to_be_bytes epoch)\<rparr>"

definition event_key :: "prims \<Rightarrow> content_key \<Rightarrow> string \<Rightarrow> string" where
  "event_key P ack change_id = hkdf_sha256 P KEY_LEN (ack_key ack) (LABEL_EVENT @ change_id)"

definition blob_key :: "prims \<Rightarrow> content_key \<Rightarrow> string \<Rightarrow> string" where
  "blob_key P ack hash = hkdf_sha256 P KEY_LEN (ack_key ack) (LABEL_BLOB @ hash)"

section \<open>Sealing\<close>

definition aead_seal :: "prims \<Rightarrow> string \<Rightarrow> string \<Rightarrow> string \<Rightarrow> string \<Rightarrow> string" where
  "aead_seal P nonce key aad plaintext = nonce @ aead_encrypt P key nonce aad plaintext"

definition aead_open :: "prims \<Rightarrow> string \<Rightarrow> string \<Rightarrow> string \<Rightarrow> crypto_error + string" where
  "aead_open P key aad data =
     (if length data < NONCE_LEN + TAG_LEN then Inl (Malformed ''aead payload too short'')
      else case aead_decrypt P key (take NONCE_LEN data) aad (drop NONCE_LEN data) of
             Some p \<Rightarrow> Inr p | None \<Rightarrow> Inl Decryption)"

definition encrypt_event :: "prims \<Rightarrow> string \<Rightarrow> content_key \<Rightarrow> event_header \<Rightarrow> string \<Rightarrow> crypto_error + string" where
  "encrypt_event P nonce ack h plaintext =
     (if eh_key_epoch h \<noteq> ack_epoch ack
      then Inl (Malformed ''event header key_epoch does not match content key epoch'')
      else Inr (aead_seal P nonce (event_key P ack (eh_change_id h)) (aad_bytes h) plaintext))"

definition decrypt_event :: "prims \<Rightarrow> content_key \<Rightarrow> event_header \<Rightarrow> string \<Rightarrow> crypto_error + string" where
  "decrypt_event P ack h ciphertext =
     (if eh_key_epoch h \<noteq> ack_epoch ack
      then Inl (Malformed ''event header key_epoch does not match content key epoch'')
      else aead_open P (event_key P ack (eh_change_id h)) (aad_bytes h) ciphertext)"

section \<open>Blobs\<close>

record encrypted_blob =
  eb_ct_hash :: string
  eb_plaintext_hash :: string
  eb_ciphertext :: string

definition sha256_hex :: "prims \<Rightarrow> string \<Rightarrow> string" where
  "sha256_hex P bytes = to_hex (sha256 P bytes)"

definition blob_nonce :: "prims \<Rightarrow> content_key \<Rightarrow> string \<Rightarrow> string" where
  "blob_nonce P ack hash = hkdf_sha256 P NONCE_LEN (ack_key ack) (LABEL_BLOB_NONCE @ hash)"

definition blob_aad :: "u32 \<Rightarrow> string \<Rightarrow> string" where
  "blob_aad epoch hash = BLOB_AAD_TAG @ to_be_bytes epoch @ hash"

definition encrypt_blob :: "prims \<Rightarrow> content_key \<Rightarrow> string \<Rightarrow> encrypted_blob" where
  "encrypt_blob P ack plaintext =
     (let hash = blake3_hash P plaintext;
          ciphertext = aead_encrypt P (blob_key P ack hash) (blob_nonce P ack hash)
                         (blob_aad (ack_epoch ack) hash) plaintext
      in \<lparr>eb_ct_hash = sha256_hex P ciphertext, eb_plaintext_hash = hash, eb_ciphertext = ciphertext\<rparr>)"

definition decrypt_blob :: "prims \<Rightarrow> content_key \<Rightarrow> string \<Rightarrow> string \<Rightarrow> crypto_error + string" where
  "decrypt_blob P ack hash ciphertext =
     (case aead_decrypt P (blob_key P ack hash) (blob_nonce P ack hash) (blob_aad (ack_epoch ack) hash) ciphertext of
        None \<Rightarrow> Inl Decryption
      | Some plaintext \<Rightarrow> if blake3_hash P plaintext \<noteq> hash then Inl Decryption else Inr plaintext)"


section \<open>The framing is injective\<close>

lemma byte_eqD:
  assumes "byte k x = byte k y"
  shows "unat x div 2 ^ (8 * k) mod 256 = unat y div 2 ^ (8 * k) mod 256"
proof -
  have "(of_char (byte k x) :: nat) = of_char (byte k y)" using assms by simp
  then have "drop_bit (8 * k) (unat x) mod 256 = drop_bit (8 * k) (unat y) mod 256"
    by (simp add: byte_def unat_drop_bit_eq)
  then show ?thesis unfolding drop_bit_eq_div .
qed

lemma to_be_bytes_inj: "to_be_bytes x = to_be_bytes y \<longleftrightarrow> x = y"
proof
  assume "to_be_bytes x = to_be_bytes y"
  then have "byte 0 x = byte 0 y" "byte 1 x = byte 1 y" "byte 2 x = byte 2 y" "byte 3 x = byte 3 y"
    by (simp_all add: to_be_bytes_def)
  note e = this [THEN byte_eqD]
  have split: "n = n mod 256 + 256 * (n div 2 ^ 8 mod 256) + 65536 * (n div 2 ^ 16 mod 256)
      + 16777216 * (n div 2 ^ 24 mod 256)" if "n < 2 ^ 32" for n :: nat
  proof -
    define q1 q2 q3 where "q1 = n div 256" and "q2 = q1 div 256" and "q3 = q2 div 256"
    have "n div 2 ^ 8 = q1" "n div 2 ^ 16 = q2" "n div 2 ^ 24 = q3"
      by (simp_all add: q1_def q2_def q3_def div_mult2_eq [symmetric])
    moreover have "q3 < 256"
      using that by (simp add: q1_def q2_def q3_def div_mult2_eq [symmetric] less_mult_imp_div_less)
    moreover have "n = n mod 256 + 256 * q1" "q1 = q1 mod 256 + 256 * q2" "q2 = q2 mod 256 + 256 * q3"
      by (simp_all add: q1_def q2_def q3_def)
    ultimately show ?thesis by simp
  qed
  have "unat x < 2 ^ 32" "unat y < 2 ^ 32" by (rule order.strict_trans2 [OF unsigned_less], simp)+
  then have "unat x = unat y"
    using split [of "unat x"] split [of "unat y"] e by simp
  then show "x = y" by (simp add: word_unat_eq_iff)
qed simp

lemma length_be [simp]: "length (to_be_bytes x) = 4"
  by (simp add: to_be_bytes_def)

lemma be_append_inj [simp]: "to_be_bytes x @ s = to_be_bytes y @ t \<longleftrightarrow> x = y \<and> s = t"
  by (auto simp: append_eq_append_conv to_be_bytes_inj)

lemma unat_u32_len: "n < 2 ^ 32 \<Longrightarrow> unat (u32_len n) = n"
  by (simp add: u32_len_def unat_of_nat)

lemma u32_len_inj: "m < 2 ^ 32 \<Longrightarrow> n < 2 ^ 32 \<Longrightarrow> u32_len m = u32_len n \<longleftrightarrow> m = n"
  by (metis unat_u32_len)

lemma lp_append_inj:
  "length s < 2 ^ 32 \<Longrightarrow> length t < 2 ^ 32 \<Longrightarrow> lp s @ x = lp t @ y \<longleftrightarrow> s = t \<and> x = y"
  by (auto simp: lp_def u32_len_inj)

lemma lps_inj:
  "(\<forall>r \<in> set rs. length r < 2 ^ 32) \<Longrightarrow> (\<forall>r \<in> set ss. length r < 2 ^ 32) \<Longrightarrow> length rs = length ss \<Longrightarrow>
   concat (map lp rs) @ x = concat (map lp ss) @ y \<longleftrightarrow> rs = ss \<and> x = y"
proof (induction rs arbitrary: ss)
  case (Cons r rs)
  then show ?case by (cases ss) (auto simp: lp_append_inj)
qed simp

text \<open>The lengths the framing can express.\<close>

definition framed :: "event_header \<Rightarrow> bool" where
  "framed h \<longleftrightarrow> length (eh_account_id h) < 2 ^ 32 \<and> length (eh_device_id h) < 2 ^ 32
     \<and> length (eh_change_id h) < 2 ^ 32 \<and> (\<forall>r \<in> set_option (eh_entity_ref h). length r < 2 ^ 32)
     \<and> length (eh_blob_refs h) < 2 ^ 32 \<and> (\<forall>r \<in> set (eh_blob_refs h). length r < 2 ^ 32)"

definition ref_bytes :: "string option \<Rightarrow> string" where
  "ref_bytes r = (case r of None \<Rightarrow> [char_of (0 :: nat)] | Some r \<Rightarrow> char_of (1 :: nat) # lp r)"

lemma fold_push_lp: "fold (\<lambda>r aad. push_lp aad r) rs buf = buf @ concat (map lp rs)"
  by (induction rs arbitrary: buf) (auto simp: push_lp_def)

lemma aad_bytes_eq:
  "aad_bytes h = EVENT_AAD_TAG @ to_be_bytes (eh_protocol_version h) @ lp (eh_account_id h)
     @ lp (eh_device_id h) @ lp (eh_change_id h) @ to_be_bytes (eh_key_epoch h) @ ref_bytes (eh_entity_ref h)
     @ to_be_bytes (u32_len (length (eh_blob_refs h))) @ concat (map lp (eh_blob_refs h))"
  unfolding aad_bytes_def Let_def fold_push_lp
  by (simp add: push_lp_def ref_bytes_def split: option.splits)

lemma ref_bytes_inj:
  "(\<forall>r \<in> set_option a. length r < 2 ^ 32) \<Longrightarrow> (\<forall>r \<in> set_option b. length r < 2 ^ 32) \<Longrightarrow>
   ref_bytes a @ x = ref_bytes b @ y \<longleftrightarrow> a = b \<and> x = y"
  by (cases a; cases b) (auto simp: ref_bytes_def lp_append_inj)

lemma event_header_eqI:
  "eh_protocol_version h = eh_protocol_version g \<Longrightarrow> eh_account_id h = eh_account_id g \<Longrightarrow>
   eh_device_id h = eh_device_id g \<Longrightarrow> eh_change_id h = eh_change_id g \<Longrightarrow>
   eh_key_epoch h = eh_key_epoch g \<Longrightarrow> eh_entity_ref h = eh_entity_ref g \<Longrightarrow>
   eh_blob_refs h = eh_blob_refs g \<Longrightarrow> h = (g :: event_header)"
  by (cases h; cases g) simp

lemma aad_append_inj:
  assumes "framed h" and "framed g"
  shows "aad_bytes h @ x = aad_bytes g @ y \<longleftrightarrow> h = g \<and> x = y"
proof
  assume e: "aad_bytes h @ x = aad_bytes g @ y"
  have "eh_protocol_version h = eh_protocol_version g \<and> eh_account_id h = eh_account_id g
      \<and> eh_device_id h = eh_device_id g \<and> eh_change_id h = eh_change_id g \<and> eh_key_epoch h = eh_key_epoch g
      \<and> eh_entity_ref h = eh_entity_ref g \<and> length (eh_blob_refs h) = length (eh_blob_refs g)
      \<and> concat (map lp (eh_blob_refs h)) @ x = concat (map lp (eh_blob_refs g)) @ y"
    using e assms unfolding framed_def
    by (simp add: aad_bytes_eq lp_append_inj ref_bytes_inj u32_len_inj)
  moreover from this have "eh_blob_refs h = eh_blob_refs g \<and> x = y"
    using assms lps_inj [of "eh_blob_refs h" "eh_blob_refs g"] by (simp add: framed_def)
  ultimately show "h = g \<and> x = y" by (simp add: event_header_eqI)
qed simp

text \<open>
  The associated data and the signed bytes identify what they cover: two headers with the
  same associated data are the same header, and two messages with the same signed bytes
  have the same header and the same ciphertext (for fields below four gibibytes, the
  lengths a 32-bit frame can carry), and no signed message is an associated-data string.
\<close>
theorem framing_is_injective:
  assumes "framed h" and "framed g"
  shows "(aad_bytes h = aad_bytes g \<longleftrightarrow> h = g)
    \<and> (event_signing_bytes h c = event_signing_bytes g d \<longleftrightarrow> h = g \<and> c = d)
    \<and> event_signing_bytes h c \<noteq> aad_bytes g"
proof -
  have "aad_bytes h = aad_bytes g \<longleftrightarrow> h = g"
    using aad_append_inj [OF assms, of "[]" "[]"] by simp
  moreover have "event_signing_bytes h c = event_signing_bytes g d \<longleftrightarrow> h = g \<and> c = d"
    using aad_append_inj [OF assms] by (auto simp: event_signing_bytes_def)
  moreover have "event_signing_bytes h c \<noteq> aad_bytes g"
    by (simp add: event_signing_bytes_def aad_bytes_eq EVENT_SIG_TAG_def EVENT_AAD_TAG_def)
  ultimately show ?thesis by blast
qed

definition demo_header :: event_header where
  "demo_header = \<lparr>eh_protocol_version = 1, eh_account_id = ''acct'', eh_device_id = ''dev'',
     eh_change_id = ''c'', eh_key_epoch = 0, eh_entity_ref = Some [], eh_blob_refs = [''h'']\<rparr>"

lemma demo_framed: "framed demo_header" "framed (demo_header\<lparr>eh_entity_ref := None\<rparr>)"
  by (simp_all add: framed_def demo_header_def)

theorem framing_is_injective_witness:
  "aad_bytes demo_header \<noteq> aad_bytes (demo_header\<lparr>eh_entity_ref := None\<rparr>)"
  using framing_is_injective [OF demo_framed] by (simp add: demo_header_def)

section \<open>Binding\<close>

text \<open>
  What is assumed of the AEAD: opening what was sealed gives it back, and a ciphertext opens
  only under the key, nonce and associated data it was made with. (The latter is the
  idealised form of authenticity.)
\<close>

definition aead_ok :: "prims \<Rightarrow> bool" where
  "aead_ok P \<longleftrightarrow>
     (\<forall>k n a p. aead_decrypt P k n a (aead_encrypt P k n a p) = Some p)
     \<and> (\<forall>k n a p k' n' a' p'. aead_decrypt P k' n' a' (aead_encrypt P k n a p) = Some p' \<longrightarrow> k' = k \<and> n' = n \<and> a' = a)
     \<and> (\<forall>k n a p. TAG_LEN \<le> length (aead_encrypt P k n a p))
     \<and> (\<forall>i. length (random_nonce P i) = NONCE_LEN)"

lemma aead_open_seal:
  "aead_ok P \<Longrightarrow> length n = NONCE_LEN \<Longrightarrow>
   aead_open P k' a' (aead_seal P n k a p) = (case aead_decrypt P k' n a' (aead_encrypt P k n a p) of
     Some p' \<Rightarrow> Inr p' | None \<Rightarrow> Inl Decryption)"
proof -
  assume "aead_ok P" and "length n = NONCE_LEN"
  moreover from this have "\<not> length (aead_encrypt P k n a p) < TAG_LEN" by (simp add: aead_ok_def not_less)
  ultimately show ?thesis by (simp add: aead_open_def aead_seal_def)
qed

text \<open>
  C19. An event body opens with the header it was sealed under and with no other: the holder of
  the epoch's content key recovers the plaintext, and presenting the ciphertext under any
  different header (another device, account, change, epoch, entity reference or blob
  list) is refused.
\<close>
theorem event_is_bound_to_its_header:
  assumes "aead_ok P" and "framed h" and "framed g" and "eh_key_epoch h = ack_epoch ack"
    and "encrypt_event P (random_nonce P i) ack h plaintext = Inr c"
  shows "decrypt_event P ack h c = Inr plaintext \<and> (g \<noteq> h \<longrightarrow> (\<exists>e. decrypt_event P ack' g c = Inl e))"
proof -
  let ?n = "random_nonce P i"
  have c: "c = aead_seal P ?n (event_key P ack (eh_change_id h)) (aad_bytes h) plaintext"
    using assms(4,5) by (simp add: encrypt_event_def)
  have n: "length ?n = NONCE_LEN" using assms(1) by (simp add: aead_ok_def)
  have "decrypt_event P ack h c = Inr plaintext"
    using assms(1,4) by (simp add: c decrypt_event_def aead_open_seal [OF assms(1) n]) (simp add: aead_ok_def)
  moreover have "\<exists>e. decrypt_event P ack' g c = Inl e" if "g \<noteq> h"
  proof -
    have "aad_bytes g \<noteq> aad_bytes h"
      using that aad_append_inj [OF assms(3,2), of "[]" "[]"] by simp
    then have "aead_decrypt P (event_key P ack' (eh_change_id g)) ?n (aad_bytes g)
        (aead_encrypt P (event_key P ack (eh_change_id h)) ?n (aad_bytes h) plaintext) = None"
      using assms(1) unfolding aead_ok_def by (metis option.exhaust)
    then show ?thesis by (simp add: c decrypt_event_def aead_open_seal [OF assms(1) n])
  qed
  ultimately show ?thesis by blast
qed

text \<open>Primitives with these properties, for the witnesses: a transparent cipher over a
  self-delimiting encoding.\<close>

definition code :: "string \<Rightarrow> string" where
  "code s = concat (map (\<lambda>c. [CHR ''1'', c]) s) @ [CHR ''0'']"

lemma code_inj: "code s @ x = code t @ y \<longleftrightarrow> s = t \<and> x = y"
proof (induction s arbitrary: t)
  case Nil
  then show ?case by (cases t) (auto simp: code_def)
next
  case (Cons c s)
  then show ?case by (cases t) (auto simp: code_def)
qed

definition demo_prefix :: "string \<Rightarrow> string \<Rightarrow> string \<Rightarrow> string" where
  "demo_prefix k n a = replicate TAG_LEN (CHR ''t'') @ code k @ code n @ code a"

definition demo_prims :: prims where
  "demo_prims = \<lparr>hkdf_sha256 = (\<lambda>n ikm info. ikm @ info), hmac_sha256 = (\<lambda>k m. k @ m), blake3_hash = (\<lambda>s. s),
     sha256 = (\<lambda>s. s), aead_encrypt = (\<lambda>k n a p. demo_prefix k n a @ p),
     aead_decrypt = (\<lambda>k n a c. if take (length (demo_prefix k n a)) c = demo_prefix k n a
                               then Some (drop (length (demo_prefix k n a)) c) else None),
     ed25519_sign = (\<lambda>_ _. replicate SIG_LEN (CHR ''s'')),
     ed25519_verify = (\<lambda>_ _ sig. if sig = replicate SIG_LEN (CHR ''s'') then Inr () else Inl BadSignature),
     b64_encode = (\<lambda>s. s), b64_decode = Some, random_nonce = (\<lambda>_. replicate NONCE_LEN (CHR ''n''))\<rparr>"

lemma demo_prefix_inj:
  assumes "take (length (demo_prefix k' n' a')) (demo_prefix k n a @ p) = demo_prefix k' n' a'"
  shows "k' = k \<and> n' = n \<and> a' = a"
proof -
  have "demo_prefix k n a @ p = demo_prefix k' n' a' @ drop (length (demo_prefix k' n' a')) (demo_prefix k n a @ p)"
    using assms by (metis append_take_drop_id)
  then show ?thesis by (simp add: demo_prefix_def code_inj)
qed

lemma demo_aead_ok: "aead_ok demo_prims"
  unfolding aead_ok_def
proof (intro conjI allI impI)
  fix k n a p k' n' a' p'
  assume "aead_decrypt demo_prims k' n' a' (aead_encrypt demo_prims k n a p) = Some p'"
  then have "take (length (demo_prefix k' n' a')) (demo_prefix k n a @ p) = demo_prefix k' n' a'"
    by (simp add: demo_prims_def split: if_splits del: take_append)
  from demo_prefix_inj [OF this] show "k' = k" "n' = n" "a' = a" by simp_all
qed (simp_all add: demo_prims_def demo_prefix_def)

theorem event_is_bound_to_its_header_witness:
  "\<exists>c e. encrypt_event demo_prims (random_nonce demo_prims 0) (content_key_at demo_prims ''ark'' 0) demo_header ''body'' = Inr c
    \<and> decrypt_event demo_prims (content_key_at demo_prims ''ark'' 0) demo_header c = Inr ''body''
    \<and> decrypt_event demo_prims (content_key_at demo_prims ''ark'' 0) (demo_header\<lparr>eh_entity_ref := None\<rparr>) c = Inl e"
proof -
  have k: "eh_key_epoch demo_header = ack_epoch (content_key_at demo_prims ''ark'' 0)"
    by (simp add: demo_header_def content_key_at_def)
  then obtain c where c: "encrypt_event demo_prims (random_nonce demo_prims 0)
      (content_key_at demo_prims ''ark'' 0) demo_header ''body'' = Inr c"
    by (simp add: encrypt_event_def)
  have "demo_header\<lparr>eh_entity_ref := None\<rparr> \<noteq> demo_header" by (simp add: demo_header_def)
  with event_is_bound_to_its_header [OF demo_aead_ok demo_framed k c] c show ?thesis by blast
qed

text \<open>Keys of different purposes come from different derivation inputs.\<close>

lemma derivation_labels:
  "LABEL_EVENT @ cid \<noteq> LABEL_BLOB @ h" "LABEL_EVENT @ cid \<noteq> LABEL_BLOB_NONCE @ h"
  "length h = 32 \<Longrightarrow> length h' = 32 \<Longrightarrow> LABEL_BLOB @ h \<noteq> LABEL_BLOB_NONCE @ h'"
  "LABEL_ACCOUNT_CONTENT @ to_be_bytes e \<noteq> LABEL_ENTITY_REF"
  by (auto simp: LABEL_EVENT_def LABEL_BLOB_def LABEL_BLOB_NONCE_def LABEL_ACCOUNT_CONTENT_def
      LABEL_ENTITY_REF_def dest: arg_cong [of _ _ length])

end
