(* ===== verification/Append_Log.thy ===== *)
theory Append_Log
  imports Relay_Log
begin

text \<open>
  The abstract log a device pushes to: the change ids in order, and nothing else. A batch
  appends each id it does not hold and answers every id with its position. The locale
  \<open>append_log\<close> says that a store's push is this machine; the in-memory transport and the
  sync server both provide it.
\<close>

section \<open>The machine\<close>

definition seq_in :: "string list \<Rightarrow> string \<Rightarrow> u64" where
  "seq_in ids i = of_nat (Suc (length (takeWhile (\<lambda>x. x \<noteq> i) ids)))"

definition log_add :: "string list \<Rightarrow> string \<Rightarrow> string list" where
  "log_add ids i = (if i \<in> set ids then ids else ids @ [i])"

definition log_after :: "string list \<Rightarrow> string list \<Rightarrow> string list" where
  "log_after ids is = foldl log_add ids is"

fun log_answer :: "string list \<Rightarrow> string list \<Rightarrow> push_result list" where
  "log_answer ids [] = []"
| "log_answer ids (i # is) =
     \<lparr>pr_change_id = i, pr_server_seq = seq_in (log_add ids i) i, pr_deduplicated = (i \<in> set ids)\<rparr>
     # log_answer (log_add ids i) is"

lemma log_after_simps [simp]:
  "log_after ids [] = ids" "log_after ids (i # is) = log_after (log_add ids i) is"
  by (simp_all add: log_after_def)

lemma log_add_known [simp]: "i \<in> set ids \<Longrightarrow> log_add ids i = ids"
  by (simp add: log_add_def)

lemma set_log_add [simp]: "set (log_add ids i) = insert i (set ids)"
  by (auto simp: log_add_def)

lemma set_log_after: "set (log_after ids is) = set ids \<union> set is"
  by (induction "is" arbitrary: ids) auto

lemma distinct_log_add [simp]: "distinct (log_add ids i) = distinct ids"
  by (simp add: log_add_def)

lemma distinct_log_after [simp]: "distinct (log_after ids is) = distinct ids"
  by (induction "is" arbitrary: ids) auto

lemma log_after_grows: "\<exists>new. log_after ids is = ids @ new \<and> length new \<le> length is"
proof (induction "is" arbitrary: ids)
  case (Cons i js)
  from Cons [of "log_add ids i"] obtain new where
    "log_after (log_add ids i) js = log_add ids i @ new" "length new \<le> length js" by blast
  then show ?case by (auto simp: log_add_def)
qed simp

lemma log_after_known: "set is \<subseteq> set ids \<Longrightarrow> log_after ids is = ids"
  by (induction "is" arbitrary: ids) auto

lemma seq_in_append [simp]: "i \<in> set ids \<Longrightarrow> seq_in (ids @ new) i = seq_in ids i"
  by (simp add: seq_in_def takeWhile_append1 [where x = i])

lemma seq_in_log_add [simp]: "i \<in> set ids \<Longrightarrow> seq_in (log_add ids j) i = seq_in ids i"
  by (simp add: log_add_def)

lemma seq_in_new: "i \<notin> set ids \<Longrightarrow> seq_in (ids @ [i]) i = of_nat (Suc (length ids))"
proof -
  assume "i \<notin> set ids"
  then have "takeWhile (\<lambda>x. x \<noteq> i) ids = ids" by (auto simp: takeWhile_eq_all_conv)
  then show ?thesis by (simp add: seq_in_def takeWhile_append)
qed

lemma seq_in_log_after [simp]: "i \<in> set ids \<Longrightarrow> seq_in (log_after ids is) i = seq_in ids i"
  using log_after_grows [of ids "is"] by auto

lemma seq_in_nth:
  assumes "distinct ids" and "k < length ids"
  shows "seq_in ids (ids ! k) = of_nat (Suc k)"
proof -
  have "takeWhile (\<lambda>x. x \<noteq> ids ! k) ids = take k ids"
    using assms by (intro takeWhile_eq_take_P_nth) (auto simp: nth_eq_iff_index_eq)
  with assms(2) show ?thesis by (simp add: seq_in_def)
qed

lemma log_answer_ids [simp]: "map pr_change_id (log_answer ids is) = is"
  by (induction "is" arbitrary: ids) auto

lemma log_answer_length [simp]: "length (log_answer ids is) = length is"
  by (metis log_answer_ids length_map)

text \<open>Every answer is the position in the log after the batch.\<close>

lemma log_answer_seq:
  "r \<in> set (log_answer ids is) \<Longrightarrow> pr_server_seq r = seq_in (log_after ids is) (pr_change_id r)"
  by (induction "is" arbitrary: ids) auto

lemma log_answer_known:
  "set is \<subseteq> set ids \<Longrightarrow>
   log_answer ids is = map (\<lambda>i. \<lparr>pr_change_id = i, pr_server_seq = seq_in ids i, pr_deduplicated = True\<rparr>) is"
  by (induction "is" arbitrary: ids) auto

section \<open>The interface\<close>

locale append_log =
  fixes ids :: "'s \<Rightarrow> string list"
    and ident :: "'e \<Rightarrow> string"
    and push :: "'e list \<Rightarrow> 's \<Rightarrow> ('err + push_result list) \<times> 's"
    and ok :: "'s \<Rightarrow> 'e list \<Rightarrow> bool"
  assumes push_answers: "ok s evs \<Longrightarrow> fst (push evs s) = Inr (log_answer (ids s) (map ident evs))"
    and push_appends: "ok s evs \<Longrightarrow> ids (snd (push evs s)) = log_after (ids s) (map ident evs)"
begin

text \<open>A number once given stays with its change.\<close>

lemma numbers_stay:
  assumes "ok s evs" and "i \<in> set (ids s)"
  shows "i \<in> set (ids (snd (push evs s))) \<and> seq_in (ids (snd (push evs s))) i = seq_in (ids s) i"
  using assms by (simp add: push_appends set_log_after)

text \<open>The same batch once more: the same numbers, all of them known, and nothing appended.\<close>

lemma push_again:
  assumes "ok s evs" and "ok (snd (push evs s)) evs" and "push evs s = (Inr rs, s')"
  shows "\<exists>rs'. fst (push evs s') = Inr rs' \<and> ids (snd (push evs s')) = ids s'
    \<and> map (\<lambda>r. (pr_change_id r, pr_server_seq r)) rs' = map (\<lambda>r. (pr_change_id r, pr_server_seq r)) rs
    \<and> (\<forall>r \<in> set rs'. pr_deduplicated r)"
proof -
  let ?is = "map ident evs"
  have s': "s' = snd (push evs s)" and rs: "rs = log_answer (ids s) ?is"
    using push_answers [OF assms(1)] assms(3) by simp_all
  have sub: "set ?is \<subseteq> set (ids s')"
    using push_appends [OF assms(1)] unfolding s' by (auto simp: set_log_after)
  have ans: "fst (push evs s') = Inr (log_answer (ids s') ?is)" and same: "ids (snd (push evs s')) = ids s'"
    using push_answers [OF assms(2)] push_appends [OF assms(2)] log_after_known [OF sub] unfolding s' by simp_all
  have one: "map (\<lambda>r. (pr_change_id r, pr_server_seq r)) xs = map (\<lambda>i. (i, f i)) (map pr_change_id xs)"
    if "\<And>r. r \<in> set xs \<Longrightarrow> pr_server_seq r = f (pr_change_id r)" for xs f
    using that by simp
  have "map (\<lambda>r. (pr_change_id r, pr_server_seq r)) rs = map (\<lambda>i. (i, seq_in (ids s') i)) ?is"
    using one [of rs "seq_in (ids s')"] log_answer_seq push_appends [OF assms(1)]
    unfolding rs s' by (simp only: log_answer_ids)
  moreover have "map (\<lambda>r. (pr_change_id r, pr_server_seq r)) (log_answer (ids s') ?is) = map (\<lambda>i. (i, seq_in (ids s') i)) ?is"
    unfolding log_answer_known [OF sub] by simp
  moreover have "\<forall>r \<in> set (log_answer (ids s') ?is). pr_deduplicated r"
    unfolding log_answer_known [OF sub] by simp
  ultimately show ?thesis using ans same by simp
qed

end

end
