(* ===== verification/Memory_Transport.thy ===== *)
theory Memory_Transport
  imports Append_Log
begin

text \<open>
  The in-memory transport of \<^verbatim>\<open>crates/pergamon-sync/src/transport.rs\<close>: per account an append
  log with dense sequence numbers, an index from change ids, and the blobs. The poisoned
  lock is not modelled.
\<close>

section \<open>State and operations\<close>

record account_log =
  al_events :: "stored_event list"
  al_by_change :: "string \<Rightarrow> u64 option"
  al_blobs :: "string \<Rightarrow> string option"
  al_next_seq :: u64

type_synonym memory = "string \<Rightarrow> account_log option"

definition account_log_default :: account_log where
  "account_log_default = \<lparr>al_events = [], al_by_change = Map.empty, al_blobs = Map.empty, al_next_seq = 0\<rparr>"

definition account_of :: "memory \<Rightarrow> string \<Rightarrow> account_log" where
  "account_of m a = (case m a of Some log \<Rightarrow> log | None \<Rightarrow> account_log_default)"

definition stored_of :: "event_input \<Rightarrow> u64 \<Rightarrow> stored_event" where
  "stored_of ev seq =
     \<lparr>se_protocol_version = ei_protocol_version ev, se_account_id = ei_account_id ev,
      se_device_id = ei_device_id ev, se_change_id = ei_change_id ev, se_entity_ref = ei_entity_ref ev,
      se_key_epoch = ei_key_epoch ev, se_blob_refs = ei_blob_refs ev,
      se_payload_bytes = of_nat (length (ei_ciphertext_b64 ev)), se_server_seq = seq,
      se_server_committed_at = 0, se_ciphertext_b64 = ei_ciphertext_b64 ev, se_sig_b64 = ei_sig_b64 ev\<rparr>"

fun append_events ::
  "string \<Rightarrow> event_input list \<Rightarrow> push_result list \<Rightarrow> account_log \<Rightarrow> (sync_error + push_result list) \<times> account_log" where
  "append_events a [] results log = (Inr results, log)"
| "append_events a (ev # evs) results log =
     (if ei_account_id ev \<noteq> a then (Inl (Protocol ''event account_id does not match batch''), log)
      else case al_by_change log (ei_change_id ev) of
        Some seq \<Rightarrow>
          append_events a evs (results @ [\<lparr>pr_change_id = ei_change_id ev, pr_server_seq = seq,
             pr_deduplicated = True\<rparr>]) log
      | None \<Rightarrow>
          let seq = al_next_seq log;
              log' = log\<lparr>al_events := al_events log @ [stored_of ev seq],
                         al_by_change := (al_by_change log)(ei_change_id ev \<mapsto> seq),
                         al_next_seq := seq + 1\<rparr>
          in append_events a evs (results @ [\<lparr>pr_change_id = ei_change_id ev, pr_server_seq = seq,
               pr_deduplicated = False\<rparr>]) log')"

definition high_water :: "account_log \<Rightarrow> u64" where
  "high_water log = (if al_next_seq log = 0 then 0 else al_next_seq log - 1)"

definition memory_push :: "push_request \<Rightarrow> (memory, push_response) act" where
  "memory_push req m =
     (let a = pq_account_id req; log0 = account_of m a;
          log1 = (if al_next_seq log0 = 0 then log0\<lparr>al_next_seq := 1\<rparr> else log0);
          (r, log2) = append_events a (pq_events req) [] log1
      in (case r of Inl e \<Rightarrow> Inl e
          | Inr rs \<Rightarrow> Inr \<lparr>pp_results = rs, pp_high_water_seq = high_water log2\<rparr>, m(a \<mapsto> log2)))"

definition memory_page :: "string \<Rightarrow> u64 \<Rightarrow> u32 option \<Rightarrow> memory \<Rightarrow> pull_response" where
  "memory_page a c limit m =
     (case m a of
        None \<Rightarrow> \<lparr>pl_events = [], pl_high_water_seq = 0, pl_next_cursor = c\<rparr>
      | Some log \<Rightarrow>
          let past = filter (\<lambda>e. se_server_seq e > c) (al_events log);
              events = (case limit of None \<Rightarrow> past | Some l \<Rightarrow> take (unat l) past)
          in \<lparr>pl_events = events, pl_high_water_seq = high_water log,
              pl_next_cursor = (if events = [] then c else se_server_seq (last events))\<rparr>)"

definition memory_pull :: "string \<Rightarrow> u64 \<Rightarrow> u32 option \<Rightarrow> (memory, pull_response) act" where
  "memory_pull a c limit m = (Inr (memory_page a c limit m), m)"

definition memory_blob_probe :: "blob_probe_request \<Rightarrow> (memory, blob_probe_response) act" where
  "memory_blob_probe req m =
     (let has = (\<lambda>h. al_blobs (account_of m (bq_account_id req)) h \<noteq> None)
      in (Inr \<lparr>bp_present = filter has (bq_ct_hashes req),
               bp_missing = filter (\<lambda>h. \<not> has h) (bq_ct_hashes req)\<rparr>, m))"

definition memory_blob_put :: "string \<Rightarrow> string \<Rightarrow> string \<Rightarrow> (memory, unit) act" where
  "memory_blob_put a h ciphertext m =
     (let log = account_of m a
      in (Inr (), m(a \<mapsto> log\<lparr>al_blobs := (al_blobs log)(h \<mapsto> ciphertext)\<rparr>)))"

definition memory_blob_get :: "string \<Rightarrow> string \<Rightarrow> (memory, string) act" where
  "memory_blob_get a h m =
     (case al_blobs (account_of m a) h of Some b \<Rightarrow> (Inr b, m) | None \<Rightarrow> (Inl (MissingBlob h), m))"

section \<open>The log's invariant\<close>

definition log_inv :: "string \<Rightarrow> account_log \<Rightarrow> bool" where
  "log_inv a log \<longleftrightarrow>
     unat (al_next_seq log) = Suc (length (al_events log))
     \<and> map (\<lambda>e. unat (se_server_seq e)) (al_events log) = [1..<Suc (length (al_events log))]
     \<and> al_by_change log = map_of (map (\<lambda>e. (se_change_id e, se_server_seq e)) (al_events log))
     \<and> distinct (map se_change_id (al_events log))
     \<and> (\<forall>e \<in> set (al_events log). se_account_id e = a)"

definition unused_log :: "account_log \<Rightarrow> bool" where
  "unused_log log \<longleftrightarrow> al_next_seq log = 0 \<and> al_events log = [] \<and> al_by_change log = Map.empty"

definition memory_ok :: "memory \<Rightarrow> bool" where
  "memory_ok m \<longleftrightarrow> (\<forall>a log. m a = Some log \<longrightarrow> log_inv a log \<or> unused_log log)"

definition account_events :: "string \<Rightarrow> memory \<Rightarrow> stored_event list" where
  "account_events a m = al_events (account_of m a)"

lemma log_inv_dom: "log_inv a log \<Longrightarrow> dom (al_by_change log) = se_change_id ` set (al_events log)"
  by (auto simp: log_inv_def dom_map_of_conv_image_fst image_image)

lemma log_inv_sorted: "log_inv a log \<Longrightarrow> sorted_wrt (<) (map se_server_seq (al_events log))"
proof -
  assume "log_inv a log"
  then have "sorted_wrt (<) (map (\<lambda>e. unat (se_server_seq e)) (al_events log))"
    unfolding log_inv_def by (simp only:) (rule sorted_wrt_upt)
  then show ?thesis
    unfolding sorted_wrt_map by (rule sorted_wrt_mono_rel [rotated]) (simp add: word_less_nat_alt)
qed

lemma log_inv_append:
  assumes "log_inv a log" and "ei_account_id ev = a" and "al_by_change log (ei_change_id ev) = None"
    and "Suc (Suc (length (al_events log))) < 2 ^ 64"
  shows "log_inv a (log\<lparr>al_events := al_events log @ [stored_of ev (al_next_seq log)],
                        al_by_change := (al_by_change log)(ei_change_id ev \<mapsto> al_next_seq log),
                        al_next_seq := al_next_seq log + 1\<rparr>)"
proof -
  let ?es = "al_events log" and ?n = "al_next_seq log"
  have n: "unat ?n = Suc (length ?es)" and idx: "al_by_change log = map_of (map (\<lambda>e. (se_change_id e, se_server_seq e)) ?es)"
    using assms(1) by (simp_all add: log_inv_def)
  have fresh: "ei_change_id ev \<notin> se_change_id ` set ?es"
    using assms(3) log_inv_dom [OF assms(1)] by (metis domIff)
  have "unat (?n + 1) = Suc (unat ?n)"
    using assms(4) n by (simp add: unat_word_ariths)
  moreover have "(al_by_change log)(ei_change_id ev \<mapsto> ?n) =
      map_of (map (\<lambda>e. (se_change_id e, se_server_seq e)) (?es @ [stored_of ev ?n]))"
  proof
    fix k
    show "((al_by_change log)(ei_change_id ev \<mapsto> ?n)) k =
        map_of (map (\<lambda>e. (se_change_id e, se_server_seq e)) (?es @ [stored_of ev ?n])) k"
      using assms(3) by (cases "k = ei_change_id ev")
        (auto simp: idx map_add_def stored_of_def split: option.splits)
  qed
  ultimately show ?thesis
    using assms(1,2) n fresh by (simp add: log_inv_def stored_of_def)
qed


section \<open>Pushing\<close>

text \<open>The ids of a batch that are new to the log, each once, in batch order.\<close>

fun novel :: "string set \<Rightarrow> string list \<Rightarrow> string list" where
  "novel S [] = []"
| "novel S (x # xs) = (if x \<in> S then novel S xs else x # novel (insert x S) xs)"

lemma novel_known: "set xs \<subseteq> S \<Longrightarrow> novel S xs = []"
  by (induction xs) auto

definition batch_result :: "account_log \<Rightarrow> event_input list \<Rightarrow> push_result list \<Rightarrow> account_log \<Rightarrow> bool" where
  "batch_result log evs rs log' \<longleftrightarrow>
     map pr_change_id rs = map ei_change_id evs
     \<and> (\<forall>r \<in> set rs. al_by_change log' (pr_change_id r) = Some (pr_server_seq r))
     \<and> al_by_change log \<subseteq>\<^sub>m al_by_change log'
     \<and> al_blobs log' = al_blobs log
     \<and> (\<exists>new. al_events log' = al_events log @ new
          \<and> map se_change_id new = novel (dom (al_by_change log)) (map ei_change_id evs)
          \<and> length (filter (\<lambda>r. \<not> pr_deduplicated r) rs) = length new)"

lemma append_events_spec:
  assumes "log_inv a log" and "\<And>ev. ev \<in> set evs \<Longrightarrow> ei_account_id ev = a"
    and "Suc (length (al_events log) + length evs) < 2 ^ 64"
  shows "\<exists>rs log'. append_events a evs results log = (Inr (results @ rs), log') \<and> log_inv a log'
    \<and> batch_result log evs rs log'"
  using assms
proof (induction evs arbitrary: results log)
  case Nil
  then show ?case by (auto simp: batch_result_def)
next
  case (Cons ev evs)
  have ev: "ei_account_id ev = a" and evs: "\<And>e. e \<in> set evs \<Longrightarrow> ei_account_id e = a"
    using Cons.prems(2) by auto
  show ?case
  proof (cases "al_by_change log (ei_change_id ev)")
    case (Some seq)
    let ?r = "\<lparr>pr_change_id = ei_change_id ev, pr_server_seq = seq, pr_deduplicated = True\<rparr>"
    from Cons.IH [OF Cons.prems(1) evs, of "results @ [?r]"] Cons.prems(3) obtain rs log' where
      a: "append_events a evs (results @ [?r]) log = (Inr ((results @ [?r]) @ rs), log')"
      and i: "log_inv a log'" and b: "batch_result log evs rs log'" by auto
    have "ei_change_id ev \<in> dom (al_by_change log)" using Some by blast
    with b Some have "batch_result log (ev # evs) (?r # rs) log'"
      by (auto simp: batch_result_def map_le_def)
    with a i ev Some show ?thesis by (intro exI [of _ "?r # rs"] exI [of _ log']) simp
  next
    case None
    let ?n = "al_next_seq log"
    let ?r = "\<lparr>pr_change_id = ei_change_id ev, pr_server_seq = ?n, pr_deduplicated = False\<rparr>"
    let ?log = "log\<lparr>al_events := al_events log @ [stored_of ev ?n],
                        al_by_change := (al_by_change log)(ei_change_id ev \<mapsto> ?n), al_next_seq := ?n + 1\<rparr>"
    have i1: "log_inv a ?log"
      using log_inv_append [OF Cons.prems(1) ev None] Cons.prems(3) by simp
    from Cons.IH [OF i1 evs, of "results @ [?r]"] Cons.prems(3) obtain rs log' where
      a: "append_events a evs (results @ [?r]) ?log = (Inr ((results @ [?r]) @ rs), log')"
      and i: "log_inv a log'" and b: "batch_result ?log evs rs log'" by auto
    have d: "ei_change_id ev \<notin> dom (al_by_change log)" using None by blast
    have "al_by_change log \<subseteq>\<^sub>m (al_by_change log)(ei_change_id ev \<mapsto> ?n)"
      using None by (auto simp: map_le_def)
    with b have le: "al_by_change log \<subseteq>\<^sub>m al_by_change log'"
      by (auto simp: batch_result_def intro: map_le_trans)
    have "al_by_change log' (ei_change_id ev) = Some ?n"
      using b by (auto simp: batch_result_def map_le_def)
    with b d le have "batch_result log (ev # evs) (?r # rs) log'"
      by (auto simp: batch_result_def stored_of_def)
    with a i ev None show ?thesis
      by (intro exI [of _ "?r # rs"] exI [of _ log']) (simp add: Let_def)
  qed
qed

lemma account_of_ok: "memory_ok m \<Longrightarrow> log_inv a (account_of m a) \<or> unused_log (account_of m a)"
  by (cases "m a") (simp_all add: memory_ok_def account_of_def unused_log_def account_log_default_def)

lemma log_inv_used: "log_inv a log \<Longrightarrow> al_next_seq log \<noteq> 0"
  by (auto simp: log_inv_def)

lemma unused_log_start: "unused_log log \<Longrightarrow> log_inv a (log\<lparr>al_next_seq := 1\<rparr>)"
  by (simp add: unused_log_def log_inv_def)

lemma account_log_ok:
  assumes "memory_ok m" and "lg1 = (if al_next_seq (account_of m a) = 0
      then (account_of m a)\<lparr>al_next_seq := 1\<rparr> else account_of m a)"
  shows "log_inv a lg1" and "al_events lg1 = account_events a m" and "al_by_change lg1 = al_by_change (account_of m a)"
proof -
  from account_of_ok [OF assms(1), of a] show "log_inv a lg1"
    by (elim disjE) (simp_all add: assms(2) log_inv_used unused_log_start, simp add: unused_log_def)
qed (simp_all add: assms(2) account_events_def)

lemma memory_push_spec:
  assumes "memory_ok m" and "\<And>ev. ev \<in> set evs \<Longrightarrow> ei_account_id ev = a"
    and "Suc (length (account_events a m) + length evs) < 2 ^ 64"
  shows "\<exists>resp m'. memory_push \<lparr>pq_account_id = a, pq_events = evs\<rparr> m = (Inr resp, m') \<and> memory_ok m'
    \<and> batch_result (account_of m a) evs (pp_results resp) (account_of m' a)
    \<and> (\<forall>b. b \<noteq> a \<longrightarrow> m' b = m b)"
proof -
  define lg1 where "lg1 = (if al_next_seq (account_of m a) = 0
      then (account_of m a)\<lparr>al_next_seq := 1\<rparr> else account_of m a)"
  note l = account_log_ok [OF assms(1) lg1_def]
  obtain rs lg2 where ap: "append_events a evs [] lg1 = (Inr rs, lg2)" and i: "log_inv a lg2"
    and b: "batch_result lg1 evs rs lg2"
    using append_events_spec [of a lg1 evs "[]"] l assms(2,3) by auto
  have blobs: "al_blobs lg1 = al_blobs (account_of m a)" by (simp add: lg1_def)
  from b have "batch_result (account_of m a) evs rs lg2"
    using l(2,3) blobs by (simp add: batch_result_def account_events_def)
  moreover have "memory_ok (m(a \<mapsto> lg2))"
    using assms(1) i by (auto simp: memory_ok_def)
  moreover have "memory_push \<lparr>pq_account_id = a, pq_events = evs\<rparr> m =
      (Inr \<lparr>pp_results = rs, pp_high_water_seq = high_water lg2\<rparr>, m(a \<mapsto> lg2))"
    using ap by (simp add: memory_push_def Let_def lg1_def [symmetric])
  ultimately show ?thesis
    by (intro exI [of _ "\<lparr>pp_results = rs, pp_high_water_seq = high_water lg2\<rparr>"] exI [of _ "m(a \<mapsto> lg2)"])
       (simp add: account_of_def)
qed

section \<open>Pulling\<close>

interpretation memory_log: paged_log "account_events a" "\<lambda>c n. memory_page a c (Some n)" memory_ok unat
  for a :: string
proof unfold_locales
  fix m
  assume "memory_ok m"
  then show "sorted_wrt (<) (map se_server_seq (account_events a m))"
    using log_inv_sorted [of a "account_of m a"] account_of_ok [of m a]
    by (auto simp: account_events_def unused_log_def)
next
  fix m :: memory and c n
  show "pl_events (memory_page a c (Some n) m) = take (unat n) (after_cursor c (account_events a m))"
    by (simp add: memory_page_def account_events_def account_of_def account_log_default_def
        after_cursor_def Let_def split: option.splits)
next
  fix m :: memory and c n
  show "pl_next_cursor (memory_page a c (Some n) m) =
      (if pl_events (memory_page a c (Some n) m) = [] then c
       else se_server_seq (last (pl_events (memory_page a c (Some n) m))))"
    by (simp add: memory_page_def Let_def split: option.splits)
qed

lemma account_of_dom:
  "memory_ok m \<Longrightarrow> dom (al_by_change (account_of m a)) = se_change_id ` set (account_events a m)"
  using account_of_ok [of m a] log_inv_dom [of a "account_of m a"]
  by (auto simp: account_events_def unused_log_def)

lemma results_determined:
  assumes "map pr_change_id rs = map pr_change_id rs'"
    and "\<forall>r \<in> set rs. f (pr_change_id r) = Some (pr_server_seq r)"
    and "\<forall>r \<in> set rs'. f (pr_change_id r) = Some (pr_server_seq r)"
  shows "map (\<lambda>r. (pr_change_id r, pr_server_seq r)) rs = map (\<lambda>r. (pr_change_id r, pr_server_seq r)) rs'"
proof -
  have "map (\<lambda>r. (pr_change_id r, pr_server_seq r)) xs = map (\<lambda>i. (i, the (f i))) (map pr_change_id xs)"
    if "\<forall>r \<in> set xs. f (pr_change_id r) = Some (pr_server_seq r)" for xs
    using that by (induction xs) auto
  from this [OF assms(2)] this [OF assms(3)] show ?thesis by (simp only: assms(1))
qed

text \<open>
  The append log is idempotent and complete: pushing a batch answers one result per event in
  request order, appends exactly the events whose change id the log did not hold, each
  once and in batch order, and reports for every event the sequence number the log holds
  it under; pushing the same batch again appends nothing and reports the same numbers.
\<close>
theorem push_is_idempotent:
  assumes "memory_ok m" and "\<And>ev. ev \<in> set evs \<Longrightarrow> ei_account_id ev = a"
    and "Suc (length (account_events a m) + 2 * length evs) < 2 ^ 64"
  shows "\<exists>resp m1 resp' m2. memory_push \<lparr>pq_account_id = a, pq_events = evs\<rparr> m = (Inr resp, m1)
    \<and> memory_push \<lparr>pq_account_id = a, pq_events = evs\<rparr> m1 = (Inr resp', m2)
    \<and> memory_ok m1 \<and> map pr_change_id (pp_results resp) = map ei_change_id evs
    \<and> (\<exists>new. account_events a m1 = account_events a m @ new
        \<and> map se_change_id new = novel (se_change_id ` set (account_events a m)) (map ei_change_id evs))
    \<and> account_events a m2 = account_events a m1
    \<and> map (\<lambda>r. (pr_change_id r, pr_server_seq r)) (pp_results resp')
      = map (\<lambda>r. (pr_change_id r, pr_server_seq r)) (pp_results resp)
    \<and> (\<forall>r \<in> set (pp_results resp'). pr_deduplicated r)"
proof -
  let ?req = "\<lparr>pq_account_id = a, pq_events = evs\<rparr>"
  obtain resp m1 where p1: "memory_push ?req m = (Inr resp, m1)" and ok1: "memory_ok m1"
    and b1: "batch_result (account_of m a) evs (pp_results resp) (account_of m1 a)"
    using memory_push_spec [OF assms(1), of evs a] assms(2,3) by auto
  from b1 obtain new where new: "account_events a m1 = account_events a m @ new"
    "map se_change_id new = novel (dom (al_by_change (account_of m a))) (map ei_change_id evs)"
    and len: "length new = length (filter (\<lambda>r. \<not> pr_deduplicated r) (pp_results resp))"
    by (auto simp: batch_result_def account_events_def)
  have "length new \<le> length evs"
    using len b1 by (metis batch_result_def length_filter_le length_map)
  then obtain resp' m2 where p2: "memory_push ?req m1 = (Inr resp', m2)"
    and b2: "batch_result (account_of m1 a) evs (pp_results resp') (account_of m2 a)"
    using memory_push_spec [OF ok1, of evs a] assms(2,3) new(1) by auto
  note i = account_of_dom [OF assms(1), of a] account_of_dom [OF ok1, of a]
  have "set (map ei_change_id evs) \<subseteq> dom (al_by_change (account_of m1 a))"
  proof -
    have "set (map pr_change_id (pp_results resp)) \<subseteq> dom (al_by_change (account_of m1 a))"
    proof -
      have "\<forall>r \<in> set (pp_results resp). al_by_change (account_of m1 a) (pr_change_id r) = Some (pr_server_seq r)"
        using b1 by (simp add: batch_result_def)
      then show ?thesis by auto
    qed
    moreover have "set (map pr_change_id (pp_results resp)) = set (map ei_change_id evs)"
      using b1 unfolding batch_result_def by metis
    ultimately show ?thesis by simp
  qed
  then have "novel (dom (al_by_change (account_of m1 a))) (map ei_change_id evs) = []"
    by (rule novel_known)
  with b2 have same: "account_events a m2 = account_events a m1"
    and dd: "filter (\<lambda>r. \<not> pr_deduplicated r) (pp_results resp') = []"
    by (auto simp: batch_result_def account_events_def)
  have "map (\<lambda>r. (pr_change_id r, pr_server_seq r)) (pp_results resp')
      = map (\<lambda>r. (pr_change_id r, pr_server_seq r)) (pp_results resp)"
  proof (rule results_determined)
    show "map pr_change_id (pp_results resp') = map pr_change_id (pp_results resp)"
      using b1 b2 by (simp add: batch_result_def)
    show "\<forall>r \<in> set (pp_results resp'). al_by_change (account_of m2 a) (pr_change_id r) = Some (pr_server_seq r)"
      using b2 by (simp add: batch_result_def)
    show "\<forall>r \<in> set (pp_results resp). al_by_change (account_of m2 a) (pr_change_id r) = Some (pr_server_seq r)"
    proof
      fix r
      assume "r \<in> set (pp_results resp)"
      with b1 have s: "al_by_change (account_of m1 a) (pr_change_id r) = Some (pr_server_seq r)"
        by (simp add: batch_result_def)
      have le: "al_by_change (account_of m1 a) \<subseteq>\<^sub>m al_by_change (account_of m2 a)"
        using b2 by (simp add: batch_result_def)
      have d: "pr_change_id r \<in> dom (al_by_change (account_of m1 a))"
        by (simp add: dom_def s)
      from bspec [OF le [unfolded map_le_def] d]
      show "al_by_change (account_of m2 a) (pr_change_id r) = Some (pr_server_seq r)"
        by (simp add: s)
    qed
  qed
  moreover have "map pr_change_id (pp_results resp) = map ei_change_id evs"
    using b1 by (simp add: batch_result_def)
  moreover have "\<forall>r \<in> set (pp_results resp'). pr_deduplicated r"
    using dd by (simp add: filter_empty_conv)
  moreover have "map se_change_id new = novel (se_change_id ` set (account_events a m)) (map ei_change_id evs)"
    using new(2) i(1) by simp
  ultimately show ?thesis using p1 p2 ok1 same new(1) by (intro exI conjI) assumption+
qed

definition demo_event :: event_input where
  "demo_event = \<lparr>ei_protocol_version = 1, ei_account_id = ''acct'', ei_device_id = ''dev'',
     ei_change_id = ''c1'', ei_entity_ref = None, ei_key_epoch = 0, ei_blob_refs = [],
     ei_ciphertext_b64 = [], ei_sig_b64 = []\<rparr>"

lemma memory_ok_empty [simp]: "memory_ok Map.empty" "account_events a Map.empty = []"
  by (simp_all add: memory_ok_def account_events_def account_of_def account_log_default_def)

theorem push_is_idempotent_witness:
  "\<exists>resp m1. memory_push \<lparr>pq_account_id = ''acct'', pq_events = [demo_event, demo_event]\<rparr> Map.empty = (Inr resp, m1)
    \<and> length (account_events ''acct'' m1) = 1"
proof -
  have "ei_account_id ev = ''acct''" if "ev \<in> set [demo_event, demo_event]" for ev
    using that by (auto simp: demo_event_def)
  with push_is_idempotent [OF memory_ok_empty(1), of "[demo_event, demo_event]" "''acct''"]
  obtain resp m1 new where
    p: "memory_push \<lparr>pq_account_id = ''acct'', pq_events = [demo_event, demo_event]\<rparr> Map.empty = (Inr resp, m1)"
    and new: "account_events ''acct'' m1 = new" "map se_change_id new = novel {} (map ei_change_id [demo_event, demo_event])"
    by (auto simp del: map_eq_Cons_conv)
  from new(2) have "length (map se_change_id new) = 1" by simp
  with p new(1) show ?thesis by auto
qed

section \<open>The abstract log\<close>

definition log_ids :: "string \<Rightarrow> memory \<Rightarrow> string list" where
  "log_ids a m = map se_change_id (account_events a m)"

lemma index_seq_in:
  assumes "log_inv a log" and "i \<in> se_change_id ` set (al_events log)"
  shows "al_by_change log i = Some (seq_in (map se_change_id (al_events log)) i)"
proof -
  let ?es = "al_events log"
  from assms(2) obtain k where k: "k < length ?es" "se_change_id (?es ! k) = i"
    by (auto simp: in_set_conv_nth)
  have d: "distinct (map se_change_id ?es)" using assms(1) by (simp add: log_inv_def)
  have "map (\<lambda>e. unat (se_server_seq e)) ?es ! k = [1..<Suc (length ?es)] ! k"
    using assms(1) unfolding log_inv_def by (simp only:)
  then have "unat (se_server_seq (?es ! k)) = Suc k" using k(1) by (simp del: upt_Suc)
  then have "se_server_seq (?es ! k) = of_nat (Suc k)" by (metis of_nat_unat ucast_id)
  moreover have "seq_in (map se_change_id ?es) i = of_nat (Suc k)"
    using seq_in_nth [OF d, of k] k by simp
  moreover have "map_of (map (\<lambda>e. (se_change_id e, se_server_seq e)) ?es) i = Some (se_server_seq (?es ! k))"
  proof (rule map_of_is_SomeI)
    show "distinct (map fst (map (\<lambda>e. (se_change_id e, se_server_seq e)) ?es))" using d by (simp add: comp_def)
    show "(i, se_server_seq (?es ! k)) \<in> set (map (\<lambda>e. (se_change_id e, se_server_seq e)) ?es)"
      using k by (auto intro!: image_eqI [of _ _ "?es ! k"])
  qed
  ultimately show ?thesis using assms(1) by (simp add: log_inv_def)
qed

lemma append_events_answers:
  assumes "log_inv a log" and "\<And>ev. ev \<in> set evs \<Longrightarrow> ei_account_id ev = a"
    and "Suc (length (al_events log) + length evs) < 2 ^ 64"
  shows "\<exists>log'. append_events a evs results log
      = (Inr (results @ log_answer (map se_change_id (al_events log)) (map ei_change_id evs)), log')
    \<and> map se_change_id (al_events log') = log_after (map se_change_id (al_events log)) (map ei_change_id evs)"
  using assms
proof (induction evs arbitrary: results log)
  case (Cons ev evs)
  let ?i = "ei_change_id ev" and ?ids = "map se_change_id (al_events log)"
  have evs: "\<And>e. e \<in> set evs \<Longrightarrow> ei_account_id e = a" and acct: "ei_account_id ev = a"
    using Cons.prems(2) by auto
  show ?case
  proof (cases "?i \<in> set ?ids")
    case True
    then have "al_by_change log ?i = Some (seq_in ?ids ?i)" using index_seq_in [OF Cons.prems(1)] by simp
    moreover note Cons.IH [OF Cons.prems(1) evs, of "results @ [\<lparr>pr_change_id = ?i, pr_server_seq = seq_in ?ids ?i, pr_deduplicated = True\<rparr>]"]
    ultimately show ?thesis using Cons.prems(3) True acct by auto
  next
    case False
    then have none: "al_by_change log ?i = None"
      using log_inv_dom [OF Cons.prems(1)] by (metis domIff image_set list.set_map)
    let ?log = "log\<lparr>al_events := al_events log @ [stored_of ev (al_next_seq log)],
       al_by_change := (al_by_change log)(?i \<mapsto> al_next_seq log), al_next_seq := al_next_seq log + 1\<rparr>"
    have inv: "log_inv a ?log" using log_inv_append [OF Cons.prems(1) acct none] Cons.prems(3) by simp
    have "unat (al_next_seq log) = Suc (length ?ids)" using Cons.prems(1) by (simp add: log_inv_def)
    then have "al_next_seq log = of_nat (Suc (length ?ids))" by (metis of_nat_unat ucast_id)
    then have "al_next_seq log = seq_in (?ids @ [?i]) ?i" using False by (simp add: seq_in_new)
    moreover have "map se_change_id (al_events ?log) = ?ids @ [?i]" by (simp add: stored_of_def)
    moreover note Cons.IH [OF inv evs, of "results @ [\<lparr>pr_change_id = ?i, pr_server_seq = al_next_seq log, pr_deduplicated = False\<rparr>]"]
    ultimately show ?thesis using Cons.prems(3) False none acct by (auto simp: Let_def log_add_def)
  qed
qed simp

definition memory_batch :: "string \<Rightarrow> event_input list \<Rightarrow> memory \<Rightarrow> (sync_error + push_result list) \<times> memory" where
  "memory_batch a evs m = apfst (map_sum id pp_results) (memory_push \<lparr>pq_account_id = a, pq_events = evs\<rparr> m)"

definition memory_accepts :: "string \<Rightarrow> memory \<Rightarrow> event_input list \<Rightarrow> bool" where
  "memory_accepts a m evs \<longleftrightarrow> memory_ok m \<and> (\<forall>ev \<in> set evs. ei_account_id ev = a)
     \<and> Suc (length (account_events a m) + length evs) < 2 ^ 64"

lemma memory_batch_answers:
  assumes "memory_accepts a m evs"
  shows "fst (memory_batch a evs m) = Inr (log_answer (log_ids a m) (map ei_change_id evs))"
    and "log_ids a (snd (memory_batch a evs m)) = log_after (log_ids a m) (map ei_change_id evs)"
proof -
  define lg1 where "lg1 = (if al_next_seq (account_of m a) = 0
      then (account_of m a)\<lparr>al_next_seq := 1\<rparr> else account_of m a)"
  have ok: "memory_ok m" using assms by (simp add: memory_accepts_def)
  note l = account_log_ok [OF ok lg1_def]
  obtain lg2 where ap: "append_events a evs [] lg1 = (Inr (log_answer (log_ids a m) (map ei_change_id evs)), lg2)"
    and i: "map se_change_id (al_events lg2) = log_after (log_ids a m) (map ei_change_id evs)"
    using append_events_answers [OF l(1), of evs "[]"] l(2) assms by (auto simp: memory_accepts_def log_ids_def)
  have p: "memory_push \<lparr>pq_account_id = a, pq_events = evs\<rparr> m =
      (Inr \<lparr>pp_results = log_answer (log_ids a m) (map ei_change_id evs), pp_high_water_seq = high_water lg2\<rparr>, m(a \<mapsto> lg2))"
    using ap by (simp add: memory_push_def Let_def lg1_def [symmetric])
  show "fst (memory_batch a evs m) = Inr (log_answer (log_ids a m) (map ei_change_id evs))"
    by (simp add: memory_batch_def p)
  show "log_ids a (snd (memory_batch a evs m)) = log_after (log_ids a m) (map ei_change_id evs)"
    using i by (simp add: memory_batch_def p log_ids_def account_events_def account_of_def)
qed

interpretation memory_append: append_log "log_ids a" ei_change_id "memory_batch a" "memory_accepts a"
  for a :: string
  by unfold_locales (simp_all add: memory_batch_answers)

end
