(* ===== verification/Engine.thy ===== *)
theory Engine
  imports Envelope Memory_Transport Apply
begin

text \<open>
  The client engine, \<^verbatim>\<open>crates/pergamon-sync/src/engine.rs\<close>, over the session of
  \<^verbatim>\<open>crypto.rs\<close>: \<open>push\<close> drains the outbox, \<open>pull\<close> applies what the log holds past the
  cursor. The transport and the blob store are traits of the code, so the engine is a
  function of their operations; the wall clock and the random nonces are read from
  supplies.
\<close>

section \<open>The session\<close>

record session =
  cx_ark :: string
  cx_account :: string
  cx_device :: string
  cx_signing :: string
  cx_epoch :: u32
  cx_stream_key :: string

definition new_session :: "prims \<Rightarrow> string \<Rightarrow> string \<Rightarrow> string \<Rightarrow> string \<Rightarrow> u32 \<Rightarrow> session" where
  "new_session P ark account device signing epoch =
     \<lparr>cx_ark = ark, cx_account = account, cx_device = device, cx_signing = signing, cx_epoch = epoch,
      cx_stream_key = account_stream_key P ark\<rparr>"

definition encrypt_change ::
  "prims \<Rightarrow> codec \<Rightarrow> session \<Rightarrow> string \<Rightarrow> string \<Rightarrow> change_body \<Rightarrow> sync_error + event_input" where
  "encrypt_change P cod cx nonce change_id body =
     (let blinded = entity_ref P (cx_stream_key cx) (et_as_str (cb_entity_type body)) (cb_entity_id body);
          h = \<lparr>eh_protocol_version = PROTOCOL_VERSION, eh_account_id = cx_account cx,
               eh_device_id = cx_device cx, eh_change_id = change_id, eh_key_epoch = cx_epoch cx,
               eh_entity_ref = Some blinded, eh_blob_refs = blob_refs body\<rparr>
      in case encrypt_event P nonce (content_key_at P (cx_ark cx) (cx_epoch cx)) h (body_bytes cod body) of
           Inl e \<Rightarrow> Inl (Crypto e)
         | Inr ciphertext \<Rightarrow>
             Inr \<lparr>ei_protocol_version = PROTOCOL_VERSION, ei_account_id = cx_account cx,
                  ei_device_id = cx_device cx, ei_change_id = change_id, ei_entity_ref = Some blinded,
                  ei_key_epoch = cx_epoch cx, ei_blob_refs = blob_refs body,
                  ei_ciphertext_b64 = b64_encode P ciphertext,
                  ei_sig_b64 = b64_encode P (sign_event P (cx_signing cx) h ciphertext)\<rparr>)"

definition header_for :: "stored_event \<Rightarrow> event_header" where
  "header_for ev =
     \<lparr>eh_protocol_version = se_protocol_version ev, eh_account_id = se_account_id ev,
      eh_device_id = se_device_id ev, eh_change_id = se_change_id ev, eh_key_epoch = se_key_epoch ev,
      eh_entity_ref = se_entity_ref ev, eh_blob_refs = se_blob_refs ev\<rparr>"

definition verify_event_sig :: "prims \<Rightarrow> stored_event \<Rightarrow> string \<Rightarrow> sync_error + bool" where
  "verify_event_sig P ev pub =
     (case b64_decode P (se_ciphertext_b64 ev) of
        None \<Rightarrow> Inl Base64
      | Some ciphertext \<Rightarrow>
          (case b64_decode P (se_sig_b64 ev) of
             None \<Rightarrow> Inl Base64
           | Some sig \<Rightarrow>
               if length sig \<noteq> SIG_LEN then Inr False
               else case verify_event P pub (header_for ev) ciphertext sig of
                      Inr _ \<Rightarrow> Inr True
                    | Inl BadSignature \<Rightarrow> Inr False
                    | Inl e \<Rightarrow> Inl (Crypto e)))"

definition decrypt_change :: "prims \<Rightarrow> codec \<Rightarrow> session \<Rightarrow> stored_event \<Rightarrow> sync_error + change_body" where
  "decrypt_change P cod cx ev =
     (if se_account_id ev \<noteq> cx_account cx
      then Inl (Protocol ''event belongs to a different canonical content account'')
      else case b64_decode P (se_ciphertext_b64 ev) of
        None \<Rightarrow> Inl Base64
      | Some ciphertext \<Rightarrow>
          (case decrypt_event P (content_key_at P (cx_ark cx) (se_key_epoch ev)) (header_for ev) ciphertext of
             Inl e \<Rightarrow> Inl (Crypto e)
           | Inr plaintext \<Rightarrow>
               (case body_of_bytes cod plaintext of None \<Rightarrow> Inl SerializationE | Some body \<Rightarrow> Inr body)))"

definition hex_value :: "char \<Rightarrow> nat option" where
  "hex_value c =
     (let n = of_char c in
      if 48 \<le> n \<and> n \<le> 57 then Some (n - 48)
      else if 97 \<le> n \<and> n \<le> 102 then Some (n - 87)
      else if 65 \<le> n \<and> n \<le> 70 then Some (n - 55) else None)"

text \<open>\<open>u8::from_str_radix(\_, 16)\<close> on two characters, which takes a leading plus sign.\<close>

definition hex_byte :: "char \<Rightarrow> char \<Rightarrow> char option" where
  "hex_byte a b =
     (if a = CHR ''+'' then map_option char_of (hex_value b)
      else case (hex_value a, hex_value b) of
             (Some x, Some y) \<Rightarrow> Some (char_of (16 * x + y)) | _ \<Rightarrow> None)"

fun hex_pairs :: "string \<Rightarrow> string option" where
  "hex_pairs [] = Some []"
| "hex_pairs [_] = None"
| "hex_pairs (a # b # s) =
     (case (hex_byte a b, hex_pairs s) of (Some x, Some xs) \<Rightarrow> Some (x # xs) | _ \<Rightarrow> None)"

definition hex32 :: "string \<Rightarrow> string option" where
  "hex32 s = (if length s \<noteq> 64 then None else hex_pairs s)"

definition encrypt_blob_plaintext :: "prims \<Rightarrow> session \<Rightarrow> string \<Rightarrow> encrypted_blob" where
  "encrypt_blob_plaintext P cx plaintext = encrypt_blob P (content_key_at P (cx_ark cx) (cx_epoch cx)) plaintext"

definition decrypt_blob_ciphertext :: "prims \<Rightarrow> session \<Rightarrow> u32 \<Rightarrow> string \<Rightarrow> string \<Rightarrow> sync_error + string" where
  "decrypt_blob_ciphertext P cx epoch hash_hex ciphertext =
     (case hex32 hash_hex of
        None \<Rightarrow> Inl (Protocol ''bad plaintext hash'')
      | Some hash \<Rightarrow>
          (case decrypt_blob P (content_key_at P (cx_ark cx) epoch) hash ciphertext of
             Inl e \<Rightarrow> Inl (Crypto e) | Inr p \<Rightarrow> Inr p))"

section \<open>The engine and its world\<close>

record 's transport =
  tr_push :: "push_request \<Rightarrow> ('s, push_response) act"
  tr_pull :: "string \<Rightarrow> u64 \<Rightarrow> u32 option \<Rightarrow> ('s, pull_response) act"
  tr_blob_probe :: "blob_probe_request \<Rightarrow> ('s, blob_probe_response) act"
  tr_blob_put :: "string \<Rightarrow> string \<Rightarrow> string \<Rightarrow> ('s, unit) act"
  tr_blob_get :: "string \<Rightarrow> string \<Rightarrow> ('s, string) act"

record 'b blob_store =
  bs_load :: "string \<Rightarrow> 'b \<Rightarrow> string + string option"
  bs_store :: "string \<Rightarrow> string \<Rightarrow> 'b \<Rightarrow> (string + unit) \<times> 'b"

record ('s, 'b) engine =
  en_prims :: prims
  en_codec :: codec
  en_sqlite :: sqlite
  en_fsrs :: fsrs
  en_transport :: "'s transport"
  en_session :: session
  en_directory :: "string \<Rightarrow> string option"
  en_blobs :: "'b blob_store"
  en_now :: "nat \<Rightarrow> u64"

record ('s, 'b) world =
  w_db :: db
  w_srv :: 's
  w_blobs :: 'b
  w_nonces :: nat
  w_reads :: nat

definition on_srv :: "('s, 'a) act \<Rightarrow> (('s, 'b) world, 'a) act" where
  "on_srv m w = (case m (w_srv w) of (r, s') \<Rightarrow> (r, w\<lparr>w_srv := s'\<rparr>))"

definition get_db :: "(db \<Rightarrow> 'a) \<Rightarrow> (('s, 'b) world, 'a) act" where
  "get_db f w = (Inr (f (w_db w)), w)"

definition modify_db :: "(db \<Rightarrow> db) \<Rightarrow> (('s, 'b) world, unit) act" where
  "modify_db f w = (Inr (), w\<lparr>w_db := f (w_db w)\<rparr>)"

text \<open>\<open>in_transaction\<close>: an error leaves the database as it was.\<close>

definition in_transaction :: "(db \<Rightarrow> db sres) \<Rightarrow> (('s, 'b) world, unit) act" where
  "in_transaction f w =
     (case f (w_db w) of Inl e \<Rightarrow> (Inl (Storage e), w) | Inr db' \<Rightarrow> (Inr (), w\<lparr>w_db := db'\<rparr>))"

definition draw_nonce :: "('s, 'b) engine \<Rightarrow> (('s, 'b) world, string) act" where
  "draw_nonce en w = (Inr (random_nonce (en_prims en) (w_nonces w)), w\<lparr>w_nonces := Suc (w_nonces w)\<rparr>)"

definition now_millis :: "('s, 'b) engine \<Rightarrow> (('s, 'b) world, u64) act" where
  "now_millis en w = (Inr (en_now en (w_reads w)), w\<lparr>w_reads := Suc (w_reads w)\<rparr>)"

definition load_blob :: "('s, 'b) engine \<Rightarrow> string \<Rightarrow> (('s, 'b) world, string option) act" where
  "load_blob en h w =
     (case bs_load (en_blobs en) h (w_blobs w) of Inl m \<Rightarrow> (Inl (Transport m), w) | Inr x \<Rightarrow> (Inr x, w))"

definition store_blob :: "('s, 'b) engine \<Rightarrow> string \<Rightarrow> string \<Rightarrow> (('s, 'b) world, unit) act" where
  "store_blob en h p w =
     (case bs_store (en_blobs en) h p (w_blobs w) of
        (Inl m, b) \<Rightarrow> (Inl (Transport m), w\<lparr>w_blobs := b\<rparr>) | (Inr _, b) \<Rightarrow> (Inr (), w\<lparr>w_blobs := b\<rparr>))"

definition BATCH :: nat where
  "BATCH = 256"

section \<open>Push\<close>

definition upload_one ::
  "('s, 'b) engine \<Rightarrow> string list \<Rightarrow> blob_manifest_entry \<Rightarrow> (('s, 'b) world, unit) act" where
  "upload_one en missing entry =
     (if bm_ct_hash entry \<notin> set missing then ret ()
      else bindA (load_blob en (bm_plaintext_hash entry)) (\<lambda>found.
        case found of
          None \<Rightarrow> fail (MissingBlob (bm_ct_hash entry))
        | Some plaintext \<Rightarrow>
            let enc = encrypt_blob_plaintext (en_prims en) (en_session en) plaintext in
            on_srv (tr_blob_put (en_transport en) (cx_account (en_session en)) (eb_ct_hash enc) (eb_ciphertext enc))))"

definition upload_blobs :: "('s, 'b) engine \<Rightarrow> change_body \<Rightarrow> (('s, 'b) world, unit) act" where
  "upload_blobs en body =
     (if cb_blob_manifest body = [] then ret ()
      else bindA (on_srv (tr_blob_probe (en_transport en)
              \<lparr>bq_account_id = cx_account (en_session en), bq_ct_hashes = map bm_ct_hash (cb_blob_manifest body)\<rparr>))
        (\<lambda>probe. each (upload_one en (bp_missing probe)) (cb_blob_manifest body)))"

definition encrypt_row :: "('s, 'b) engine \<Rightarrow> outbox_row \<Rightarrow> (('s, 'b) world, event_input) act" where
  "encrypt_row en row =
     (case body_of_bytes (en_codec en) (ob_body row) of
        None \<Rightarrow> fail SerializationE
      | Some body \<Rightarrow>
          bindA (upload_blobs en body) (\<lambda>_. bindA (draw_nonce en) (\<lambda>nonce.
            from_res (encrypt_change (en_prims en) (en_codec en) (en_session en) nonce (ob_change_id row) body))))"

definition ack_results :: "push_result list \<Rightarrow> db \<Rightarrow> db" where
  "ack_results rs db = fold (\<lambda>r. mark_outbox_acked (pr_change_id r) (pr_server_seq r)) rs db"

text \<open>One round of the loop; \<open>None\<close> when nothing was pending.\<close>

definition push_batch :: "('s, 'b) engine \<Rightarrow> (('s, 'b) world, nat option) act" where
  "push_batch en =
     bindA (get_db (pending_outbox BATCH)) (\<lambda>pending.
       if pending = [] then ret None
       else bindA (collect (encrypt_row en) pending) (\<lambda>events.
       bindA (on_srv (tr_push (en_transport en)
                \<lparr>pq_account_id = cx_account (en_session en), pq_events = events\<rparr>)) (\<lambda>resp.
         let ids = map pr_change_id (pp_results resp) in
         if \<not> (set ids \<subseteq> set (map ob_change_id pending) \<and> distinct ids)
         then fail (Protocol ''push acknowledgement has unknown or repeated change IDs'')
         else bindA (modify_db (ack_results (pp_results resp))) (\<lambda>_.
           if length (pp_results resp) \<noteq> length pending
           then bindA (get_db pending_outbox_count) (\<lambda>n. fail (IncompleteUpload n []))
           else ret (Some (length (filter (\<lambda>r. \<not> pr_deduplicated r) (pp_results resp))))))))"

section \<open>Pull\<close>

definition verify_signature :: "('s, 'b) engine \<Rightarrow> stored_event \<Rightarrow> sync_error + unit" where
  "verify_signature en ev =
     (case en_directory en (se_device_id ev) of
        None \<Rightarrow> Inl (UnknownSigner (se_device_id ev))
      | Some pub \<Rightarrow>
          (case verify_event_sig (en_prims en) ev pub of
             Inl e \<Rightarrow> Inl e
           | Inr ok \<Rightarrow> if ok then Inr () else Inl (BadEventSignature (se_change_id ev) (se_device_id ev))))"

definition fetch_one :: "('s, 'b) engine \<Rightarrow> u32 \<Rightarrow> blob_manifest_entry \<Rightarrow> (('s, 'b) world, unit) act" where
  "fetch_one en epoch entry =
     bindA (load_blob en (bm_plaintext_hash entry)) (\<lambda>found.
       if found \<noteq> None then ret ()
       else bindA (on_srv (tr_blob_get (en_transport en) (cx_account (en_session en)) (bm_ct_hash entry)))
         (\<lambda>ciphertext. bindA (from_res (decrypt_blob_ciphertext (en_prims en) (en_session en) epoch
                                (bm_plaintext_hash entry) ciphertext))
           (store_blob en (bm_plaintext_hash entry))))"

definition fetch_blobs :: "('s, 'b) engine \<Rightarrow> change_body \<Rightarrow> u32 \<Rightarrow> (('s, 'b) world, unit) act" where
  "fetch_blobs en body epoch = each (fetch_one en epoch) (cb_blob_manifest body)"

text \<open>The transaction that applies one decrypted event.\<close>

definition apply_event :: "('s, 'b) engine \<Rightarrow> stored_event \<Rightarrow> change_body \<Rightarrow> u64 \<Rightarrow> db \<Rightarrow> db sres" where
  "apply_event en ev body now db =
     bindR (apply_change (en_sqlite en) (en_fsrs en) body (observe_remote_hlc (cb_clock body) now db))
       (\<lambda>db'. Inr (mark_change_applied (se_change_id ev) (se_server_seq ev) db'))"

text \<open>The loop body of \<open>pull\<close>: the result is how many changes it applied.\<close>

definition pull_event :: "('s, 'b) engine \<Rightarrow> stored_event \<Rightarrow> (('s, 'b) world, nat) act" where
  "pull_event en ev =
     (if se_account_id ev \<noteq> cx_account (en_session en)
      then fail (Protocol ''relay returned an event for a different content account'')
      else if se_device_id ev = cx_device (en_session en) then ret 0
      else bindA (get_db (\<lambda>db. is_change_applied db (se_change_id ev))) (\<lambda>known.
        if known then ret 0
        else bindA (from_res (verify_signature en ev)) (\<lambda>_.
             bindA (from_res (decrypt_change (en_prims en) (en_codec en) (en_session en) ev)) (\<lambda>body.
             bindA (fetch_blobs en body (se_key_epoch ev)) (\<lambda>_.
             bindA (now_millis en) (\<lambda>now.
             bindA (in_transaction (apply_event en ev body now)) (\<lambda>_. ret 1)))))))"

definition pull_page :: "('s, 'b) engine \<Rightarrow> (('s, 'b) world, (nat \<times> bool) option) act" where
  "pull_page en =
     bindA (get_db sync_cursor) (\<lambda>cursor.
     bindA (on_srv (tr_pull (en_transport en) (cx_account (en_session en)) cursor (Some (of_nat BATCH)))) (\<lambda>page.
       if pl_events page = [] then ret None
       else bindA (collect (pull_event en) (pl_events page)) (\<lambda>ns.
            bindA (modify_db (set_sync_cursor (pl_next_cursor page))) (\<lambda>_.
              ret (Some (sum_list ns, length (pl_events page) < BATCH))))))"

text \<open>\<open>None\<close> when the fuel runs out: the relay alone decides whether the loop ends.\<close>

fun pull_loop :: "('s, 'b) engine \<Rightarrow> nat \<Rightarrow> nat \<Rightarrow> ('s, 'b) world \<Rightarrow> ((sync_error + nat) \<times> ('s, 'b) world) option" where
  "pull_loop en 0 acc w = None"
| "pull_loop en (Suc fuel) acc w =
     (case pull_page en w of
        (Inl e, w') \<Rightarrow> Some (Inl e, w')
      | (Inr None, w') \<Rightarrow> Some (Inr acc, w')
      | (Inr (Some (n, last_page)), w') \<Rightarrow>
          if last_page then Some (Inr (acc + n), w') else pull_loop en fuel (acc + n) w')"

section \<open>Frames of the effects\<close>

definition same_db :: "db \<Rightarrow> ('s, 'b) world \<Rightarrow> bool" where
  "same_db d w \<longleftrightarrow> w_db w = d"

lemma keeps_same_db [keeps]:
  "keeps_inv (same_db d) (on_srv m)" "keeps_inv (same_db d) (load_blob en h)"
  "keeps_inv (same_db d) (store_blob en h p)" "keeps_inv (same_db d) (draw_nonce en)"
  "keeps_inv (same_db d) (now_millis en)" "keeps_inv (same_db d) (get_db f)"
  by (auto simp: keeps_inv_def same_db_def on_srv_def load_blob_def store_blob_def draw_nonce_def
      now_millis_def get_db_def split: prod.splits sum.splits)

lemma keeps_upload_one [keeps]: "keeps_inv (same_db d) (upload_one en ms entry)"
  by (auto simp: upload_one_def Let_def split: option.splits intro!: keeps)

lemma keeps_upload_blobs [keeps]: "keeps_inv (same_db d) (upload_blobs en body)"
  by (auto simp: upload_blobs_def intro!: keeps)

lemma keeps_encrypt_row [keeps]: "keeps_inv (same_db d) (encrypt_row en row)"
  by (auto simp: encrypt_row_def split: option.splits intro!: keeps)

lemma keeps_fetch_one [keeps]: "keeps_inv (same_db d) (fetch_one en epoch entry)"
  by (auto simp: fetch_one_def intro!: keeps)

lemma keeps_fetch_blobs [keeps]: "keeps_inv (same_db d) (fetch_blobs en body epoch)"
  by (auto simp: fetch_blobs_def intro!: keeps)

lemma same_dbD: "keeps_inv (same_db (w_db w)) m \<Longrightarrow> m w = (r, w') \<Longrightarrow> w_db w' = w_db w"
  using keepsD [of "same_db (w_db w)" m w r w'] by (simp add: same_db_def)


section \<open>The push loop ends\<close>

lemma ack_results_Cons:
  "ack_results (r # rs) db = ack_results rs (mark_outbox_acked (pr_change_id r) (pr_server_seq r) db)"
  by (simp add: ack_results_def)

definition open_rows :: "outbox_row list \<Rightarrow> outbox_row list" where
  "open_rows rs = filter (\<lambda>r. ob_acked_seq r = None) rs"

lemma open_rows_ack:
  "open_rows (outbox (mark_outbox_acked i n db)) = filter (\<lambda>r. ob_change_id r \<noteq> i) (open_rows (outbox db))"
  by (simp add: open_rows_def mark_outbox_acked_def filter_acked)

lemma open_rows_acks:
  "open_rows (outbox (ack_results rs db)) =
   filter (\<lambda>r. ob_change_id r \<notin> pr_change_id ` set rs) (open_rows (outbox db))"
  by (induction rs arbitrary: db)
     (auto simp: ack_results_Cons open_rows_ack ack_results_def [of "[]"] intro!: filter_cong)

lemma pending_count_open: "pending_outbox_count db = length (open_rows (outbox db))"
  by (simp add: pending_outbox_count_def open_rows_def)

lemma pending_subset: "set (pending_outbox n db) \<subseteq> set (open_rows (outbox db))"
  unfolding pending_outbox_def pending_rows_def open_rows_def
  using set_take_subset by fastforce

text \<open>What one round did, when it asks for another.\<close>

lemma push_batch_cases:
  assumes "push_batch en w = (res, w')"
  obtains "pending_outbox BATCH (w_db w) = []" and "res = Inr None" and "w_db w' = w_db w"
  | rs where "pending_outbox BATCH (w_db w) \<noteq> []"
      and "set (map pr_change_id rs) \<subseteq> set (map ob_change_id (pending_outbox BATCH (w_db w)))"
      and "distinct (map pr_change_id rs)" and "w_db w' = ack_results rs (w_db w)"
      and "length rs = length (pending_outbox BATCH (w_db w))" and "\<exists>k. res = Inr (Some k)"
  | rs e where "set (map pr_change_id rs) \<subseteq> set (map ob_change_id (pending_outbox BATCH (w_db w)))"
      and "w_db w' = ack_results rs (w_db w)" and "res = Inl e"
proof (cases "pending_outbox BATCH (w_db w) = []")
  case True
  show thesis
    by (rule that(1)) (use assms True in \<open>auto simp: push_batch_def bindA_def get_db_def\<close>)
next
  case False
  let ?p = "pending_outbox BATCH (w_db w)"
  let ?req = "\<lambda>evs. \<lparr>pq_account_id = cx_account (en_session en), pq_events = evs\<rparr>"
  obtain r1 w1 where c: "collect (encrypt_row en) ?p w = (r1, w1)" by (cases "collect (encrypt_row en) ?p w")
  have k: "keeps_inv (same_db (w_db w)) (collect (encrypt_row en) ?p)" by (auto intro!: keeps)
  have d1: "w_db w1 = w_db w" by (rule same_dbD [OF k c])
  have nil: "ack_results [] db = db" for db by (simp add: ack_results_def)
  note simps = push_batch_def bindA_def get_db_def False c Let_def modify_db_def
  show thesis
  proof (cases r1)
    case (Inl e)
    with assms d1 show thesis by (intro that(3) [of "[]"]) (auto simp: simps nil)
  next
    case (Inr evs)
    obtain r2 w2 where s: "on_srv (tr_push (en_transport en) (?req evs)) w1 = (r2, w2)"
      by (cases "on_srv (tr_push (en_transport en) (?req evs)) w1")
    have d2: "w_db w2 = w_db w"
      using same_dbD [OF keeps_same_db(1) s] d1 by simp
    show thesis
    proof (cases r2)
      case (Inl e)
      with assms d2 Inr s show thesis by (intro that(3) [of "[]"]) (auto simp: simps nil)
    next
      case resp: (Inr resp)
      let ?rs = "pp_results resp"
      show thesis
      proof (cases "set (map pr_change_id ?rs) \<subseteq> set (map ob_change_id ?p) \<and> distinct (map pr_change_id ?rs)")
        case ok: False
        with assms d2 Inr s resp show thesis
          by (intro that(3) [of "[]"]) (auto simp: simps nil)
      next
        case ok: True
        show thesis
        proof (cases "length ?rs = length ?p")
          case True
          with assms d2 Inr s resp ok False show thesis
            by (intro that(2) [of ?rs]) (auto simp: simps)
        next
          case part: False
          with assms d2 Inr s resp ok show thesis
            by (intro that(3) [of ?rs]) (auto simp: simps)
        qed
      qed
    qed
  qed
qed

lemma acks_shrink:
  assumes "pending_outbox n db \<noteq> []" and "length rs = length (pending_outbox n db)"
    and "set (map pr_change_id rs) \<subseteq> set (map ob_change_id (pending_outbox n db))"
  shows "pending_outbox_count (ack_results rs db) < pending_outbox_count db"
proof -
  from assms(1,2) obtain r where r: "r \<in> set rs" by (cases rs) auto
  with assms(3) obtain p where p: "p \<in> set (pending_outbox n db)" "ob_change_id p = pr_change_id r" by auto
  with pending_subset [of n db] have "p \<in> set (open_rows (outbox db))" by auto
  with p r show ?thesis
    unfolding pending_count_open open_rows_acks by (intro length_filter_less [of p]) auto
qed

function push_loop :: "('s, 'b) engine \<Rightarrow> nat \<Rightarrow> (('s, 'b) world, nat) act" where
  "push_loop en acc w =
     (case push_batch en w of
        (Inl e, w') \<Rightarrow> (Inl e, w')
      | (Inr None, w') \<Rightarrow> (Inr acc, w')
      | (Inr (Some k), w') \<Rightarrow> push_loop en (acc + k) w')"
  by pat_completeness auto

termination
proof (relation "measure (\<lambda>(en, acc, w). pending_outbox_count (w_db w))")
  fix en :: "('s, 'b) engine" and acc w x y b k
  assume "(x, y) = push_batch en w" and "x = Inr b" and "b = Some (k :: nat)"
  then have "push_batch en w = (Inr (Some k), y)" by simp
  then show "((en, acc + k, y), en, acc, w) \<in> measure (\<lambda>(en, acc, w). pending_outbox_count (w_db w))"
    by (rule push_batch_cases) (simp_all add: acks_shrink [of BATCH])
qed simp

declare push_loop.simps [simp del]

definition push :: "('s, 'b) engine \<Rightarrow> (('s, 'b) world, nat) act" where
  "push en = push_loop en 0"

section \<open>A full round\<close>

definition pull :: "('s, 'b) engine \<Rightarrow> nat \<Rightarrow> ('s, 'b) world \<Rightarrow> ((sync_error + nat) \<times> ('s, 'b) world) option" where
  "pull en fuel w = pull_loop en fuel 0 w"

record sync_stats =
  pushed :: nat
  applied_count :: nat

definition stats_merge :: "sync_stats \<Rightarrow> sync_stats \<Rightarrow> sync_stats" where
  "stats_merge a b = \<lparr>pushed = pushed a + pushed b, applied_count = applied_count a + applied_count b\<rparr>"

definition sync ::
  "('s, 'b) engine \<Rightarrow> nat \<Rightarrow> ('s, 'b) world \<Rightarrow> ((sync_error + sync_stats) \<times> ('s, 'b) world) option" where
  "sync en fuel w =
     (case push en w of
        (Inl e, w1) \<Rightarrow> Some (Inl e, w1)
      | (Inr n, w1) \<Rightarrow>
          map_option (\<lambda>(r, w2). (map_sum id (\<lambda>k. \<lparr>pushed = n, applied_count = k\<rparr>) r, w2)) (pull en fuel w1))"

definition verify_upload_complete :: "('s, 'b) engine \<Rightarrow> (('s, 'b) world, unit) act" where
  "verify_upload_complete en =
     bindA (get_db pending_outbox_count) (\<lambda>n.
     bindA (get_db outbox_blob_refs) (\<lambda>refs.
     bindA (if refs = [] then ret []
            else bindA (on_srv (tr_blob_probe (en_transport en)
                   \<lparr>bq_account_id = cx_account (en_session en), bq_ct_hashes = refs\<rparr>)) (\<lambda>p. ret (bp_missing p)))
       (\<lambda>missing. if n = 0 \<and> missing = [] then ret () else fail (IncompleteUpload n missing))))"

end
