(* ===== verification/Http_Transport.thy ===== *)
theory Http_Transport
  imports Server_Routes Engine
begin

text \<open>
  The client's HTTP transport, \<^verbatim>\<open>crates/pergamon-sync/src/http.rs\<close>, talking to the modelled
  server: the session credential, the one retry after a refused token, the mapping of
  statuses to client errors and the size limit of a response. The network may fail before
  a request reaches the server or lose its answer (\<open>fault\<close>). The HTTP library's texts,
  the JSON length of a reply and the rotating token provider are parameters.
\<close>

section \<open>The network\<close>

datatype fault = Delivered | Unreached | AnswerLost

record 'p net =
  nt_server :: server
  nt_faults :: "fault list"
  nt_provider :: 'p

text \<open>\<open>AccessTokenProvider\<close>: the current token, and the reaction to a refused one.\<close>

record 'p token_provider =
  tp_access_token :: "('p, string) act"
  tp_invalidate :: "string \<Rightarrow> ('p, unit) act"

record 'p http_client =
  hc_server :: app_state
  hc_clock :: "server \<Rightarrow> int"
  hc_credential :: "string option"
  hc_tokens :: "'p token_provider option"
  hc_header_ok :: "string \<Rightarrow> bool"
  hc_reply_len :: "reply \<Rightarrow> nat"
  hc_status_text :: "nat \<Rightarrow> string"
  hc_error_text :: string

type_synonym answer = "api_error + reply"

definition execute :: "'p http_client \<Rightarrow> string option \<Rightarrow> call \<Rightarrow> ('p net, answer) act" where
  "execute cl header c st =
     (let (r, s') = serve (hc_server cl) (hc_clock cl (nt_server st)) header c (nt_server st);
          lost = Inl (Transport (hc_error_text cl))
      in case nt_faults st of
           [] \<Rightarrow> (Inr r, st\<lparr>nt_server := s'\<rparr>)
         | Delivered # fs \<Rightarrow> (Inr r, st\<lparr>nt_server := s', nt_faults := fs\<rparr>)
         | Unreached # fs \<Rightarrow> (lost, st\<lparr>nt_faults := fs\<rparr>)
         | AnswerLost # fs \<Rightarrow> (lost, st\<lparr>nt_server := s', nt_faults := fs\<rparr>))"

definition on_tokens :: "('p, 'a) act \<Rightarrow> ('p net, 'a) act" where
  "on_tokens m st = (case m (nt_provider st) of (r, p') \<Rightarrow> (r, st\<lparr>nt_provider := p'\<rparr>))"

definition status_of :: "answer \<Rightarrow> nat" where
  "status_of r = (case r of Inl e \<Rightarrow> ae_status e | Inr Created \<Rightarrow> 201 | Inr _ \<Rightarrow> 200)"

definition bearer :: "'p http_client \<Rightarrow> string \<Rightarrow> ('p net, string) act" where
  "bearer cl token =
     (let v = ''Bearer '' @ token
      in if hc_header_ok cl v then ret v else fail (Protocol ''invalid session credential''))"

text \<open>\<open>authorized_request\<close> followed by \<open>send_authorized\<close> with its retry flag.\<close>

definition send :: "'p http_client \<Rightarrow> bool \<Rightarrow> call \<Rightarrow> ('p net, answer) act" where
  "send cl retry c =
     (case hc_tokens cl of
        None \<Rightarrow> execute cl (hc_credential cl) c
      | Some tp \<Rightarrow>
          bindA (on_tokens (tp_access_token tp)) (\<lambda>token.
          bindA (bearer cl token) (\<lambda>header.
          bindA (execute cl (Some header) c) (\<lambda>response.
            if status_of response \<noteq> 401 \<or> \<not> retry then ret response
            else
              bindA (on_tokens (tp_invalidate tp token)) (\<lambda>_.
              bindA (on_tokens (tp_access_token tp)) (\<lambda>token'.
              bindA (bearer cl token') (\<lambda>header'.
                execute cl (Some header') c)))))))"

section \<open>Answers\<close>

definition ensure_ok :: "'p http_client \<Rightarrow> nat \<Rightarrow> sync_error + unit" where
  "ensure_ok cl status =
     (if 200 \<le> status \<and> status < 300 then Inr ()
      else if 400 \<le> status \<and> status < 500 \<and> status \<noteq> 429
        then Inl (AuthRefused (of_nat status) ''CONTENT_REQUEST_REFUSED'')
      else Inl (Transport (''server returned '' @ hc_status_text cl status)))"

definition ensure_response :: "'p http_client \<Rightarrow> u64 option \<Rightarrow> nat \<Rightarrow> sync_error + unit" where
  "ensure_response cl retry_after status =
     (if status = 429 then Inl (RateLimited retry_after) else ensure_ok cl status)"

definition RESPONSE_LIMIT :: nat where
  "RESPONSE_LIMIT = 67108864"

text \<open>\<open>response_json\<close>: the bounded body, read as the reply the call expects.\<close>

definition response_json :: "'p http_client \<Rightarrow> (reply \<Rightarrow> 'a option) \<Rightarrow> answer \<Rightarrow> ('p net, 'a) act" where
  "response_json cl f r =
     bindA (from_res (ensure_response cl None (status_of r))) (\<lambda>_.
       case r of
         Inl _ \<Rightarrow> fail (Protocol ''malformed relay response'')
       | Inr body \<Rightarrow>
           if RESPONSE_LIMIT < hc_reply_len cl body
           then fail (Protocol ''relay response exceeds the allowed size'')
           else case f body of None \<Rightarrow> fail (Protocol ''malformed relay response'') | Some x \<Rightarrow> ret x)"

fun as_pushed :: "reply \<Rightarrow> push_response option" where
  "as_pushed (Pushed p) = Some p" | "as_pushed _ = None"

fun as_pulled :: "reply \<Rightarrow> pull_response option" where
  "as_pulled (Pulled p) = Some p" | "as_pulled _ = None"

fun as_probed :: "reply \<Rightarrow> blob_probe_response option" where
  "as_probed (Probed p) = Some p" | "as_probed _ = None"

fun as_bytes :: "reply \<Rightarrow> string option" where
  "as_bytes (Bytes b) = Some b" | "as_bytes _ = None"

section \<open>The transport\<close>

definition http_push :: "'p http_client \<Rightarrow> push_request \<Rightarrow> ('p net, push_response) act" where
  "http_push cl req = bindA (send cl True (EventsPush req)) (response_json cl as_pushed)"

definition http_pull :: "'p http_client \<Rightarrow> string \<Rightarrow> u64 \<Rightarrow> u32 option \<Rightarrow> ('p net, pull_response) act" where
  "http_pull cl a after limit = bindA (send cl True (EventsPull a after limit)) (response_json cl as_pulled)"

definition http_blob_probe :: "'p http_client \<Rightarrow> blob_probe_request \<Rightarrow> ('p net, blob_probe_response) act" where
  "http_blob_probe cl req = bindA (send cl True (BlobsProbe req)) (response_json cl as_probed)"

definition http_blob_put :: "'p http_client \<Rightarrow> string \<Rightarrow> string \<Rightarrow> string \<Rightarrow> ('p net, unit) act" where
  "http_blob_put cl a h ciphertext =
     bindA (send cl True (BlobPut a h ciphertext)) (\<lambda>r. from_res (ensure_response cl None (status_of r)))"

definition http_blob_get :: "'p http_client \<Rightarrow> string \<Rightarrow> string \<Rightarrow> ('p net, string) act" where
  "http_blob_get cl a h =
     bindA (send cl True (BlobGet a h)) (\<lambda>r.
       if status_of r = 404 then fail (MissingBlob h) else response_json cl as_bytes r)"

definition http_transport :: "'p http_client \<Rightarrow> 'p net transport" where
  "http_transport cl = \<lparr>tr_push = http_push cl, tr_pull = http_pull cl, tr_blob_probe = http_blob_probe cl,
     tr_blob_put = http_blob_put cl, tr_blob_get = http_blob_get cl\<rparr>"

lemma http_transport_simps [simp]:
  "tr_push (http_transport cl) = http_push cl" "tr_pull (http_transport cl) = http_pull cl"
  "tr_blob_probe (http_transport cl) = http_blob_probe cl" "tr_blob_put (http_transport cl) = http_blob_put cl"
  "tr_blob_get (http_transport cl) = http_blob_get cl"
  by (simp_all add: http_transport_def)

section \<open>Reading leaves the server alone\<close>

lemma reading_keeps [simp]: "snd (with_account_store A a p (reading f) s) = s"
  by (simp add: with_account_store_def reading_def split: sum.split)

lemma reply_with_snd [simp]: "snd (reply_with g rs) = snd rs"
  by (simp add: reply_with_def)

lemma blob_get_reads: "snd (serve A now header (BlobGet a h) s) = s"
  by (simp add: serve_def require_account_auth_def blobs_get_def split: option.split sum.split)

text \<open>A client with a fixed credential on a working network.\<close>

lemma execute_plain:
  assumes "nt_faults st = []"
  shows "execute cl header c st =
    (Inr (fst (serve (hc_server cl) (hc_clock cl (nt_server st)) header c (nt_server st))),
     st\<lparr>nt_server := snd (serve (hc_server cl) (hc_clock cl (nt_server st)) header c (nt_server st))\<rparr>)"
  by (simp add: execute_def assms split: prod.split)

end
