(* ===== verification/Server_Log.thy ===== *)
theory Server_Log
  imports Server_Store Append_Log
begin

text \<open>
  The invariant of the server's event and blob tables and what a push does under it: the
  batch is all or nothing, numbers are dense, no event references a missing blob, and the
  answers are those of the abstract log.
\<close>

section \<open>The invariant\<close>

definition env_ok :: "store_env \<Rightarrow> bool" where
  "env_ok E \<longleftrightarrow> (\<forall>rs. refs_parse E (refs_text E rs) = Some rs)"

definition server_ids :: "string \<Rightarrow> server \<Rightarrow> string list" where
  "server_ids a s = map ev_change_id (events_of a s)"

definition row_ok :: "store_env \<Rightarrow> server \<Rightarrow> event_row \<Rightarrow> bool" where
  "row_ok E s r \<longleftrightarrow> ev_payload_bytes r = len_i64 (ev_ciphertext r)
     \<and> (\<exists>refs. refs_parse E (ev_blob_refs r) = Some refs \<and> (\<forall>h \<in> set refs. blob_present (ev_account_id r) h s))"

definition blobs_ok :: "store_env \<Rightarrow> server \<Rightarrow> bool" where
  "blobs_ok E s \<longleftrightarrow> distinct (map (\<lambda>b. (bl_account_id b, bl_ct_hash b)) (sv_blobs s))
     \<and> (\<forall>b \<in> set (sv_blobs s). ct_hash E (bl_bytes b) = bl_ct_hash b \<and> bl_byte_len b = len_i64 (bl_bytes b))"

definition server_ok :: "store_env \<Rightarrow> server \<Rightarrow> bool" where
  "server_ok E s \<longleftrightarrow>
     (\<forall>a. map ev_server_seq (events_of a s) = map int [1..<Suc (length (events_of a s))]
        \<and> distinct (server_ids a s))
     \<and> (\<forall>r \<in> set (sv_events s). row_ok E s r) \<and> blobs_ok E s"

lemma server_ok_empty [simp]: "server_ok E (server_empty q)"
  by (simp add: server_ok_def server_empty_def events_of_def server_ids_def blobs_ok_def)

lemma max_dense: "sql_max (map int [1..<Suc n]) = int n"
proof (cases n)
  case (Suc m)
  have "Max (int ` {1..<Suc n}) = int n"
  proof (rule Max_eqI)
    show "int n \<in> int ` {1..<Suc n}" by (rule imageI) (simp add: Suc)
  qed auto
  with Suc show ?thesis by (simp add: sql_max_def del: upt_Suc)
qed (simp add: sql_max_def)

lemma ok_max_seq: "server_ok E s \<Longrightarrow> max_event_seq a s = int (length (events_of a s))"
proof -
  assume "server_ok E s"
  then have "map ev_server_seq (events_of a s) = map int [1..<Suc (length (events_of a s))]"
    unfolding server_ok_def by blast
  then show ?thesis unfolding max_event_seq_def by (simp only: max_dense)
qed

lemma events_of_append [simp]:
  "events_of a (s\<lparr>sv_events := sv_events s @ [r]\<rparr>) = events_of a s @ (if ev_account_id r = a then [r] else [])"
  by (simp add: events_of_def)

lemma note_account_simps [simp]:
  "sv_events (note_account a s) = sv_events s" "sv_blobs (note_account a s) = sv_blobs s"
  "sv_quota (note_account a s) = sv_quota s" "events_of b (note_account a s) = events_of b s"
  "blobs_of b (note_account a s) = blobs_of b s" "blob_present b h (note_account a s) = blob_present b h s"
  by (simp_all add: note_account_def events_of_def blobs_of_def blob_present_def)

lemma blob_present_events [simp]: "blob_present b h (s\<lparr>sv_events := x\<rparr>) = blob_present b h s"
  by (simp add: blob_present_def)

lemma known_seq_None_iff: "known_seq a i s = None \<longleftrightarrow> i \<notin> set (server_ids a s)"
  by (auto simp: known_seq_def find_None_iff server_ids_def events_of_def)

lemma known_seq_index:
  assumes "server_ok E s" and "i \<in> set (server_ids a s)"
  shows "\<exists>k < length (events_of a s). server_ids a s ! k = i \<and> known_seq a i s = Some (int (Suc k))"
proof -
  obtain n where n: "known_seq a i s = Some n" using assms(2) known_seq_None_iff by blast
  then obtain r where r: "find (\<lambda>r. ev_account_id r = a \<and> ev_change_id r = i) (sv_events s) = Some r" "n = ev_server_seq r"
    by (auto simp: known_seq_def)
  then have mem: "r \<in> set (events_of a s)" and id: "ev_change_id r = i"
    by (auto simp: find_Some_iff events_of_def)
  then obtain k where k: "k < length (events_of a s)" "events_of a s ! k = r" by (auto simp: in_set_conv_nth)
  have "map ev_server_seq (events_of a s) ! k = map int [1..<Suc (length (events_of a s))] ! k"
    using assms(1) unfolding server_ok_def by (simp only:)
  then have "ev_server_seq r = int (Suc k)" using k by (simp del: upt_Suc)
  with k n r id show ?thesis by (intro exI [of _ k]) (simp add: server_ids_def)
qed

lemma known_seq_in:
  assumes "server_ok E s" and "i \<in> set (server_ids a s)" and "length (events_of a s) < 2 ^ 63"
  shows "\<exists>n. known_seq a i s = Some n \<and> u64_of n = seq_in (server_ids a s) i"
proof -
  from known_seq_index [OF assms(1,2)] obtain k where k: "k < length (events_of a s)"
    "server_ids a s ! k = i" "known_seq a i s = Some (int (Suc k))" by blast
  have "distinct (server_ids a s)" using assms(1) by (simp add: server_ok_def)
  then have "seq_in (server_ids a s) i = of_nat (Suc k)"
    using seq_in_nth [of "server_ids a s" k] k by (simp add: server_ids_def)
  with k show ?thesis by (simp add: u64_of_def del: of_nat_Suc)
qed

section \<open>Stored sizes\<close>

definition stored_bytes :: "string \<Rightarrow> server \<Rightarrow> nat" where
  "stored_bytes a s = sum_list (map (\<lambda>b. length (bl_bytes b)) (blobs_of a s))
     + sum_list (map (\<lambda>r. length (ev_ciphertext r)) (events_of a s))"

definition stored_objects :: "string \<Rightarrow> server \<Rightarrow> nat" where
  "stored_objects a s = length (blobs_of a s) + length (events_of a s)"

lemma sum_len_i64:
  "(\<And>x. x \<in> set xs \<Longrightarrow> f x = len_i64 (g x)) \<Longrightarrow> sum_list (map (\<lambda>x. length (g x)) xs) < 2 ^ 63 \<Longrightarrow>
   sum_list (map f xs) = int (sum_list (map (\<lambda>x. length (g x)) xs))"
proof (induction xs)
  case (Cons x xs)
  have "f x = int (length (g x))" using Cons.prems by (simp add: len_i64_def)
  moreover have "sum_list (map f xs) = int (sum_list (map (\<lambda>x. length (g x)) xs))"
    using Cons by simp
  ultimately show ?case by simp
qed simp

lemma u64_of_nat: "u64_of (int n) = of_nat n"
  by (simp add: u64_of_def)

lemma sat_add_nat: "m + n < 2 ^ 64 \<Longrightarrow> sat_add (of_nat m) (of_nat n) = of_nat (m + n)"
  by (simp add: sat_add_def unat_of_nat take_bit_nat_eq_self)

lemma usage_exact:
  assumes "server_ok E s" and "stored_bytes a s < 2 ^ 63" and "stored_objects a s < 2 ^ 63"
  shows "total_bytes (account_usage a s) = of_nat (stored_bytes a s)"
    and "total_objects (account_usage a s) = of_nat (stored_objects a s)"
proof -
  have b: "bl_byte_len x = len_i64 (bl_bytes x)" if "x \<in> set (blobs_of a s)" for x
    using that assms(1) by (auto simp: server_ok_def blobs_ok_def blobs_of_def)
  have e: "ev_payload_bytes x = len_i64 (ev_ciphertext x)" if "x \<in> set (events_of a s)" for x
    using that assms(1) by (auto simp: server_ok_def row_ok_def events_of_def)
  have 1: "sum_list (map bl_byte_len (blobs_of a s)) = int (sum_list (map (\<lambda>x. length (bl_bytes x)) (blobs_of a s)))"
    by (rule sum_len_i64 [OF b]) (use assms(2) in \<open>auto simp: stored_bytes_def\<close>)
  have 2: "sum_list (map ev_payload_bytes (events_of a s)) = int (sum_list (map (\<lambda>x. length (ev_ciphertext x)) (events_of a s)))"
    by (rule sum_len_i64 [OF e]) (use assms(2) in \<open>auto simp: stored_bytes_def\<close>)
  show "total_bytes (account_usage a s) = of_nat (stored_bytes a s)"
    using sat_add_nat assms(2) by (simp add: total_bytes_def account_usage_def 1 2 u64_of_nat stored_bytes_def)
  show "total_objects (account_usage a s) = of_nat (stored_objects a s)"
    using sat_add_nat assms(3) by (simp add: total_objects_def account_usage_def u64_of_nat stored_objects_def)
qed

text \<open>An account within the caps of a quota.\<close>

definition within :: "quota \<Rightarrow> string \<Rightarrow> server \<Rightarrow> bool" where
  "within q a s \<longleftrightarrow>
     (max_account_bytes q \<noteq> 0 \<longrightarrow> stored_bytes a s \<le> unat (max_account_bytes q))
     \<and> (max_account_objects q \<noteq> 0 \<longrightarrow> stored_objects a s \<le> unat (max_account_objects q))"

lemma quota_check_within:
  "m < 2 ^ 64 \<Longrightarrow> n < 2 ^ 64 \<Longrightarrow> quota_check q (of_nat m) (of_nat n) = Inr () \<longleftrightarrow>
   (max_account_bytes q \<noteq> 0 \<longrightarrow> m \<le> unat (max_account_bytes q))
     \<and> (max_account_objects q \<noteq> 0 \<longrightarrow> n \<le> unat (max_account_objects q))"
  by (auto simp: quota_check_def word_less_nat_alt unat_of_nat take_bit_nat_eq_self)

section \<open>One event of a batch\<close>

definition other_rows :: "string \<Rightarrow> server \<Rightarrow> server \<Rightarrow> bool" where
  "other_rows a s s' \<longleftrightarrow> sv_blobs s' = sv_blobs s \<and> sv_quota s' = sv_quota s
     \<and> (\<forall>b. b \<noteq> a \<longrightarrow> events_of b s' = events_of b s)"

definition batch_ok :: "store_env \<Rightarrow> string \<Rightarrow> batch \<Rightarrow> bool" where
  "batch_ok E a b \<longleftrightarrow> server_ok E (ba_store b) \<and> ba_next b = of_nat (length (events_of a (ba_store b)))
     \<and> (\<not> is_unlimited (sv_quota (ba_store b)) \<longrightarrow>
          ba_bytes b = of_nat (stored_bytes a (ba_store b)) \<and> ba_objects b = of_nat (stored_objects a (ba_store b)))"

lemma server_ok_add:
  assumes ok: "server_ok E s" and E: "env_ok E" and new: "er_change_id ev \<notin> set (server_ids a s)"
    and refs: "\<forall>h \<in> set (er_blob_refs ev). blob_present a h s"
    and room: "length (events_of a s) < 2 ^ 63 - 1"
    and r: "r = row_of E now a (of_nat (Suc (length (events_of a s)))) ev"
  shows "insert_event r s = Inr (note_account a (s\<lparr>sv_events := sv_events s @ [r]\<rparr>))"
    and "server_ok E (note_account a (s\<lparr>sv_events := sv_events s @ [r]\<rparr>))"
proof -
  let ?n = "length (events_of a s)"
  have u: "unat (of_nat (Suc ?n) :: u64) = Suc ?n"
    using room by (simp add: unat_of_nat take_bit_nat_eq_self del: of_nat_Suc)
  then have "uint (of_nat (Suc ?n) :: u64) = int (Suc ?n)" by (metis int_nat_eq uint_nat of_nat_eq_iff unsigned_of_nat)
  then have seq: "ev_server_seq r = int (Suc ?n)"
    using room by (simp add: r row_of_def i64_of_def)
  have flds: "ev_account_id r = a" "ev_change_id r = er_change_id ev" "ev_payload_bytes r = len_i64 (ev_ciphertext r)"
    "ev_blob_refs r = refs_text E (er_blob_refs ev)"
    by (simp_all add: r row_of_def)
  have dense: "map ev_server_seq (events_of a s) = map int [1..<Suc ?n]"
    using ok unfolding server_ok_def by blast
  have fresh: "\<not> (ev_server_seq x = ev_server_seq r \<or> ev_change_id x = ev_change_id r)"
    if "x \<in> set (sv_events s)" "ev_account_id x = a" for x
  proof -
    from that have x: "x \<in> set (events_of a s)" by (simp add: events_of_def)
    then have "ev_server_seq x \<in> set (map int [1..<Suc ?n])" unfolding dense [symmetric] by simp
    moreover have "ev_change_id x \<noteq> er_change_id ev" using x new unfolding server_ids_def by (metis image_eqI list.set_map)
    ultimately show ?thesis using seq flds by auto
  qed
  then show "insert_event r s = Inr (note_account a (s\<lparr>sv_events := sv_events s @ [r]\<rparr>))"
    using flds(1) by (auto simp: insert_event_def list_ex_iff)
  let ?s' = "note_account a (s\<lparr>sv_events := sv_events s @ [r]\<rparr>)"
  have ev: "events_of b ?s' = events_of b s @ (if b = a then [r] else [])" for b
    using flds(1) by auto
  have "row_ok E ?s' x" if "x \<in> set (sv_events ?s')" for x
    using that ok refs E flds by (auto simp: server_ok_def row_ok_def env_ok_def)
  moreover have "blobs_ok E ?s'" using ok by (simp add: server_ok_def blobs_ok_def)
  moreover have "map ev_server_seq (events_of b ?s') = map int [1..<Suc (length (events_of b ?s'))]" for b
  proof (cases "b = a")
    case True
    then show ?thesis using dense seq by (simp add: ev del: upt_Suc) (simp add: upt_Suc_append)
  next
    case False
    have "map ev_server_seq (events_of b s) = map int [1..<Suc (length (events_of b s))]"
      using ok unfolding server_ok_def by blast
    with False flds(1) show ?thesis by (simp add: ev del: upt_Suc)
  qed
  moreover have "distinct (server_ids b ?s')" for b
  proof -
    have "distinct (server_ids b s)" using ok unfolding server_ok_def by blast
    then show ?thesis using new flds by (cases "b = a") (auto simp: server_ids_def ev)
  qed
  ultimately show "server_ok E ?s'" unfolding server_ok_def by blast
qed

lemma push_one_step:
  assumes b: "batch_ok E a b" and E: "env_ok E" and p: "push_one E now a (sv_quota (ba_store b)) ev b = Inr b'"
    and room: "length (events_of a (ba_store b)) < 2 ^ 63 - 1"
    and small: "stored_bytes a (ba_store b) + length (er_ciphertext ev) < 2 ^ 63"
      "stored_objects a (ba_store b) + 1 < 2 ^ 63"
  shows "batch_ok E a b'" and "other_rows a (ba_store b) (ba_store b')"
    and "server_ids a (ba_store b') = log_add (server_ids a (ba_store b)) (er_change_id ev)"
    and "ba_results b' = ba_results b @ log_answer (server_ids a (ba_store b)) [er_change_id ev]"
    and "stored_bytes a (ba_store b') \<le> stored_bytes a (ba_store b) + length (er_ciphertext ev)"
    and "stored_objects a (ba_store b') \<le> stored_objects a (ba_store b) + 1"
    and "er_change_id ev \<notin> set (server_ids a (ba_store b)) \<Longrightarrow> within (sv_quota (ba_store b')) a (ba_store b')"
proof -
  let ?s = "ba_store b" and ?i = "er_change_id ev"
  have ok: "server_ok E ?s" using b by (simp add: batch_ok_def)
  have goal: "batch_ok E a b' \<and> other_rows a ?s (ba_store b')
    \<and> server_ids a (ba_store b') = log_add (server_ids a ?s) ?i
    \<and> ba_results b' = ba_results b @ log_answer (server_ids a ?s) [?i]
    \<and> stored_bytes a (ba_store b') \<le> stored_bytes a ?s + length (er_ciphertext ev)
    \<and> stored_objects a (ba_store b') \<le> stored_objects a ?s + 1
    \<and> (?i \<notin> set (server_ids a ?s) \<longrightarrow> within (sv_quota (ba_store b')) a (ba_store b'))"
  proof (cases "?i \<in> set (server_ids a ?s)")
    case True
    have "length (events_of a ?s) < 2 ^ 63" using room by simp
    from known_seq_in [OF ok True this] obtain n where
      n: "known_seq a ?i ?s = Some n" "u64_of n = seq_in (server_ids a ?s) ?i" by blast
    with p have "b' = b\<lparr>ba_results := ba_results b @ [\<lparr>pr_change_id = ?i, pr_server_seq = seq_in (server_ids a ?s) ?i,
        pr_deduplicated = True\<rparr>]\<rparr>" by (simp add: push_one_def)
    with b True show ?thesis by (simp add: batch_ok_def other_rows_def)
  next
    case False
    let ?n = "length (events_of a ?s)" and ?q = "sv_quota ?s"
    define r where "r = row_of E now a (of_nat (Suc ?n)) ev"
    define s' where "s' = note_account a (?s\<lparr>sv_events := sv_events ?s @ [r]\<rparr>)"
    have none: "known_seq a ?i ?s = None" using False known_seq_None_iff by blast
    have nxt: "ba_next b + 1 = of_nat (Suc ?n)" using b by (simp add: batch_ok_def)
    have f: "find (\<lambda>h. \<not> blob_present a h ?s) (er_blob_refs ev) = None"
      using p none by (auto simp: push_one_def split: option.splits)
    then have refs: "\<forall>h \<in> set (er_blob_refs ev). blob_present a h ?s" by (auto simp: find_None_iff)
    note add = server_ok_add [OF ok E False refs room r_def]
    from p none f obtain bytes objects where m: "meter ?q ev b = Inr (bytes, objects)"
      and b': "b' = \<lparr>ba_next = of_nat (Suc ?n), ba_bytes = bytes, ba_objects = objects,
        ba_results = ba_results b @ [\<lparr>pr_change_id = ?i, pr_server_seq = of_nat (Suc ?n), pr_deduplicated = False\<rparr>],
        ba_store = s'\<rparr>"
      using add(1) nxt unfolding r_def [symmetric]
      by (auto simp: push_one_def result_iff Let_def s'_def r_def)
    have ra: "ev_account_id r = a" "ev_change_id r = ?i" "ev_ciphertext r = er_ciphertext ev" by (simp_all add: r_def row_of_def)
    have ev: "events_of c s' = events_of c ?s @ (if c = a then [r] else [])" for c
      using ra by (auto simp: s'_def)
    have bl: "blobs_of c s' = blobs_of c ?s" for c by (simp add: s'_def blobs_of_def)
    have bytes: "stored_bytes a s' = stored_bytes a ?s + length (er_ciphertext ev)"
      and objs: "stored_objects a s' = stored_objects a ?s + 1"
      by (simp_all add: stored_bytes_def stored_objects_def ev bl ra)
    have q: "sv_quota s' = ?q" by (simp add: s'_def)
    have mt: "(\<not> is_unlimited ?q \<longrightarrow> bytes = of_nat (stored_bytes a s') \<and> objects = of_nat (stored_objects a s'))
        \<and> within ?q a s'"
    proof (cases "is_unlimited ?q")
      case True
      then show ?thesis by (simp add: within_def is_unlimited_def)
    next
      case lim: False
      have 1: "sat_add (ba_bytes b) (len_u64 (er_ciphertext ev)) = of_nat (stored_bytes a s')"
        using b lim small(1) sat_add_nat [of "stored_bytes a ?s" "length (er_ciphertext ev)"]
        by (simp add: batch_ok_def len_u64_def bytes)
      have 2: "sat_add (ba_objects b) 1 = of_nat (stored_objects a s')"
        using b lim small(2) sat_add_nat [of "stored_objects a ?s" 1]
        by (simp add: batch_ok_def objs)
      from m lim have "quota_check ?q (of_nat (stored_bytes a s')) (of_nat (stored_objects a s')) = Inr ()"
        and "bytes = of_nat (stored_bytes a s')" "objects = of_nat (stored_objects a s')"
        by (auto simp: meter_def 1 2 Let_def split: sum.splits)
      moreover have "stored_bytes a s' < 2 ^ 64" "stored_objects a s' < 2 ^ 64"
        using small by (simp_all add: bytes objs)
      ultimately show ?thesis using quota_check_within [of "stored_bytes a s'" "stored_objects a s'" ?q]
        by (simp add: within_def)
    qed
    have "batch_ok E a b'"
      using add(2) mt by (simp add: batch_ok_def b' ev q) (simp add: s'_def)
    moreover have "other_rows a ?s s'" using ev by (simp add: other_rows_def q) (simp add: s'_def)
    moreover have "server_ids a s' = log_add (server_ids a ?s) ?i"
      using False by (simp add: server_ids_def ev ra log_add_def)
    moreover have "of_nat (Suc ?n) = seq_in (log_add (server_ids a ?s) ?i) ?i"
      using False seq_in_new [of ?i "server_ids a ?s"] by (simp add: log_add_def server_ids_def)
    ultimately show ?thesis using False bytes objs mt q by (simp add: b')
  qed
  from goal show "batch_ok E a b'" "other_rows a ?s (ba_store b')"
    "server_ids a (ba_store b') = log_add (server_ids a ?s) ?i"
    "ba_results b' = ba_results b @ log_answer (server_ids a ?s) [?i]"
    "stored_bytes a (ba_store b') \<le> stored_bytes a ?s + length (er_ciphertext ev)"
    "stored_objects a (ba_store b') \<le> stored_objects a ?s + 1"
    "?i \<notin> set (server_ids a ?s) \<Longrightarrow> within (sv_quota (ba_store b')) a (ba_store b')" by blast+
qed

section \<open>A batch\<close>

definition batch_size :: "event_record list \<Rightarrow> nat" where
  "batch_size evs = sum_list (map (\<lambda>ev. length (er_ciphertext ev)) evs)"

text \<open>The batch fits the signed 64-bit columns and sums of the database.\<close>

definition fits :: "string \<Rightarrow> server \<Rightarrow> event_record list \<Rightarrow> bool" where
  "fits a s evs \<longleftrightarrow> stored_bytes a s + batch_size evs < 2 ^ 63 \<and> stored_objects a s + length evs < 2 ^ 63 - 1"

lemma other_rows_trans: "other_rows a s s' \<Longrightarrow> other_rows a s' s'' \<Longrightarrow> other_rows a s s''"
  by (simp add: other_rows_def)

lemma push_all_steps:
  assumes "foldR (push_one E now a q) evs b = Inr b'" and "batch_ok E a b" and "env_ok E"
    and "q = sv_quota (ba_store b)" and "fits a (ba_store b) evs"
  shows "batch_ok E a b' \<and> other_rows a (ba_store b) (ba_store b')
    \<and> server_ids a (ba_store b') = log_after (server_ids a (ba_store b)) (map er_change_id evs)
    \<and> ba_results b' = ba_results b @ log_answer (server_ids a (ba_store b)) (map er_change_id evs)
    \<and> (within q a (ba_store b) \<or> \<not> set (map er_change_id evs) \<subseteq> set (server_ids a (ba_store b))
         \<longrightarrow> within q a (ba_store b'))
    \<and> stored_bytes a (ba_store b') \<le> stored_bytes a (ba_store b) + batch_size evs
    \<and> stored_objects a (ba_store b') \<le> stored_objects a (ba_store b) + length evs"
  using assms
proof (induction evs arbitrary: b)
  case Nil
  then show ?case by (simp add: other_rows_def batch_size_def)
next
  case (Cons ev evs)
  let ?s = "ba_store b"
  from Cons.prems(1) obtain b1 where 1: "push_one E now a q ev b = Inr b1"
    and 2: "foldR (push_one E now a q) evs b1 = Inr b'" by (auto simp: result_iff)
  have ob: "length (events_of a ?s) \<le> stored_objects a ?s" by (simp add: stored_objects_def)
  have small: "stored_bytes a ?s + length (er_ciphertext ev) < 2 ^ 63" "stored_objects a ?s + 1 < 2 ^ 63"
    "length (events_of a ?s) < 2 ^ 63 - 1"
    using Cons.prems(5) ob by (simp_all add: fits_def batch_size_def)
  note st = push_one_step [OF Cons.prems(2,3) 1 [unfolded Cons.prems(4)] small(3,1,2)]
  have q: "q = sv_quota (ba_store b1)" using st(2) Cons.prems(4) by (simp add: other_rows_def)
  have "fits a (ba_store b1) evs" using Cons.prems(5) st(5,6) by (simp add: fits_def batch_size_def)
  note ih = Cons.IH [OF 2 st(1) Cons.prems(3) q this]
  have "within q a (ba_store b1)"
    if "within q a ?s \<or> er_change_id ev \<notin> set (server_ids a ?s)"
  proof (cases "er_change_id ev \<in> set (server_ids a ?s)")
    case True
    from known_seq_index [OF _ True, of E] Cons.prems(2) obtain n where "known_seq a (er_change_id ev) ?s = Some n"
      by (auto simp: batch_ok_def)
    with 1 have "ba_store b1 = ?s" by (auto simp: push_one_def)
    with that True show ?thesis by simp
  next
    case False
    from st(7) [OF this] q show ?thesis by simp
  qed
  moreover have "server_ids a (ba_store b1) = log_add (server_ids a ?s) (er_change_id ev)" by (rule st(3))
  ultimately have "within q a (ba_store b')"
    if "within q a ?s \<or> \<not> set (map er_change_id (ev # evs)) \<subseteq> set (server_ids a ?s)"
    using that ih by auto
  moreover have "stored_bytes a (ba_store b') \<le> stored_bytes a ?s + batch_size (ev # evs)"
    "stored_objects a (ba_store b') \<le> stored_objects a ?s + length (ev # evs)"
    using ih st(5,6) by (simp_all add: batch_size_def)
  ultimately show ?case
    using ih st(2,3,4) other_rows_trans by auto
qed

lemma start_batch_ok:
  assumes "server_ok E s" and "fits a s evs"
  shows "batch_ok E a (start_batch a s)" "ba_store (start_batch a s) = s" "ba_results (start_batch a s) = []"
  using assms usage_exact [OF assms(1), of a] ok_max_seq [OF assms(1), of a]
  by (simp_all add: batch_ok_def start_batch_def Let_def fits_def u64_of_nat)

lemma push_one_error:
  "push_one E now a q ev b = Inl e \<Longrightarrow>
   (\<exists>h \<in> set (er_blob_refs ev). \<not> blob_present a h (ba_store b) \<and> e = StoreMissingBlob h)
   \<or> (\<exists>l. e = QuotaExceeded l \<and> \<not> is_unlimited q) \<or> e = StoreDb"
  by (auto simp: push_one_def meter_def Let_def insert_event_def bindR_Inl_iff find_Some_iff
      split: option.splits sum.splits if_splits)

lemma push_one_no_db:
  assumes "batch_ok E a b" and "env_ok E" and "length (events_of a (ba_store b)) < 2 ^ 63 - 1"
  shows "push_one E now a q ev b \<noteq> Inl StoreDb"
proof
  assume p: "push_one E now a q ev b = Inl StoreDb"
  let ?s = "ba_store b"
  have none: "known_seq a (er_change_id ev) ?s = None"
    and f: "find (\<lambda>h. \<not> blob_present a h ?s) (er_blob_refs ev) = None"
    using p by (auto simp: push_one_def split: option.splits)
  have nxt: "ba_next b + 1 = of_nat (Suc (length (events_of a ?s)))" using assms(1) by (simp add: batch_ok_def)
  have "insert_event (row_of E now a (ba_next b + 1) ev) ?s = Inl StoreDb"
    using p none f by (auto simp: push_one_def meter_def bindR_Inl_iff Let_def split: sum.splits if_splits)
  moreover have "\<forall>h \<in> set (er_blob_refs ev). blob_present a h ?s" using f by (auto simp: find_None_iff)
  moreover have "er_change_id ev \<notin> set (server_ids a ?s)" using none known_seq_None_iff by blast
  ultimately show False
    using server_ok_add(1) [OF _ assms(2) _ _ assms(3) refl, of ev now] assms(1) unfolding nxt
    by (simp add: batch_ok_def)
qed

lemma push_all_error:
  assumes "foldR (push_one E now a q) evs b = Inl e" and "batch_ok E a b" and "env_ok E"
    and "q = sv_quota (ba_store b)" and "fits a (ba_store b) evs"
  shows "(\<exists>ev \<in> set evs. \<exists>h \<in> set (er_blob_refs ev). \<not> blob_present a h (ba_store b) \<and> e = StoreMissingBlob h)
    \<or> (\<exists>l. e = QuotaExceeded l \<and> \<not> is_unlimited q)"
  using assms
proof (induction evs arbitrary: b)
  case (Cons ev evs)
  let ?s = "ba_store b"
  have ob: "length (events_of a ?s) \<le> stored_objects a ?s" by (simp add: stored_objects_def)
  have small: "stored_bytes a ?s + length (er_ciphertext ev) < 2 ^ 63" "stored_objects a ?s + 1 < 2 ^ 63"
    "length (events_of a ?s) < 2 ^ 63 - 1"
    using Cons.prems(5) ob by (simp_all add: fits_def batch_size_def)
  show ?case
  proof (cases "push_one E now a q ev b")
    case (Inl e')
    with Cons.prems(1) have "push_one E now a q ev b = Inl e" by simp
    with push_one_error [OF this] push_one_no_db [OF Cons.prems(2,3) small(3), of now q ev] show ?thesis by auto
  next
    case (Inr b1)
    note st = push_one_step [OF Cons.prems(2,3) Inr [unfolded Cons.prems(4)] small(3,1,2)]
    have q: "q = sv_quota (ba_store b1)" using st(2) Cons.prems(4) by (simp add: other_rows_def)
    have f: "fits a (ba_store b1) evs" using Cons.prems(5) st(5,6) by (simp add: fits_def batch_size_def)
    have "foldR (push_one E now a q) evs b1 = Inl e" using Cons.prems(1) Inr by simp
    from Cons.IH [OF this st(1) Cons.prems(3) q f] st(2) show ?thesis
      by (auto simp: other_rows_def blob_present_def)
  qed
qed simp

lemma push_events_cases:
  assumes "server_ok E s" and "env_ok E" and "fits a s evs" and "push_events E now a evs s = (r, s')"
  shows "case r of
      Inl e \<Rightarrow> s' = s \<and> ((\<exists>ev \<in> set evs. \<exists>h \<in> set (er_blob_refs ev). \<not> blob_present a h s \<and> e = StoreMissingBlob h)
                 \<or> (\<exists>l. e = QuotaExceeded l \<and> \<not> is_unlimited (sv_quota s)))
    | Inr out \<Rightarrow> server_ok E s' \<and> other_rows a s s'
        \<and> server_ids a s' = log_after (server_ids a s) (map er_change_id evs)
        \<and> po_results out = log_answer (server_ids a s) (map er_change_id evs)
        \<and> po_high_water_seq out = high_water_of a s'
        \<and> (within (sv_quota s) a s \<or> \<not> set (map er_change_id evs) \<subseteq> set (server_ids a s)
             \<longrightarrow> within (sv_quota s) a s')"
proof -
  note sb = start_batch_ok [OF assms(1,3)]
  show ?thesis
  proof (cases "foldR (push_one E now a (sv_quota s)) evs (start_batch a s)")
    case (Inl e)
    from push_all_error [OF this sb(1) assms(2)] sb assms(3) have
      "(\<exists>ev \<in> set evs. \<exists>h \<in> set (er_blob_refs ev). \<not> blob_present a h s \<and> e = StoreMissingBlob h)
       \<or> (\<exists>l. e = QuotaExceeded l \<and> \<not> is_unlimited (sv_quota s))" by simp
    moreover have "r = Inl e" "s' = s" using assms(4) Inl by (simp_all add: push_events_def)
    ultimately show ?thesis by simp
  next
    case (Inr b)
    from push_all_steps [OF this sb(1) assms(2)] sb assms(3) have st: "batch_ok E a b" "other_rows a s (ba_store b)"
      "server_ids a (ba_store b) = log_after (server_ids a s) (map er_change_id evs)"
      "ba_results b = log_answer (server_ids a s) (map er_change_id evs)"
      "within (sv_quota s) a s \<or> \<not> set (map er_change_id evs) \<subseteq> set (server_ids a s) \<longrightarrow> within (sv_quota s) a (ba_store b)"
      by simp_all
    moreover have "ba_next b = high_water_of a (ba_store b)"
      using st(1) ok_max_seq [of E "ba_store b" a] by (simp add: batch_ok_def high_water_of_def u64_of_nat)
    moreover have "r = Inr \<lparr>po_results = ba_results b, po_high_water_seq = ba_next b\<rparr>" "s' = ba_store b"
      using assms(4) Inr by (simp_all add: push_events_def)
    ultimately show ?thesis by (simp add: batch_ok_def)
  qed
qed

text \<open>
  C15. A push to the server is all or nothing. An error leaves the store as it was, and there is no
  error but a reference to a blob the account does not hold or a configured quota. Otherwise
  each event is answered in request order with its number and whether it was known, exactly
  the unknown change ids are appended in order with the next numbers, the tables stay
  consistent (dense numbers, one row per change id, no reference to a missing blob), and
  blobs and other accounts are untouched.
\<close>
theorem push_events_atomic:
  assumes "server_ok E s" and "env_ok E" and "fits a s evs" and "push_events E now a evs s = (r, s')"
  shows "case r of
      Inl e \<Rightarrow> s' = s \<and> ((\<exists>ev \<in> set evs. \<exists>h \<in> set (er_blob_refs ev). \<not> blob_present a h s \<and> e = StoreMissingBlob h)
                 \<or> (\<exists>l. e = QuotaExceeded l \<and> \<not> is_unlimited (sv_quota s)))
    | Inr out \<Rightarrow> server_ok E s' \<and> other_rows a s s'
        \<and> server_ids a s' = log_after (server_ids a s) (map er_change_id evs)
        \<and> po_results out = log_answer (server_ids a s) (map er_change_id evs)
        \<and> po_high_water_seq out = high_water_of a s'"
  using push_events_cases [OF assms] by (simp split: sum.splits)

section \<open>The server is an append log\<close>

definition server_batch ::
  "store_env \<Rightarrow> int \<Rightarrow> string \<Rightarrow> event_record list \<Rightarrow> server \<Rightarrow> (store_error + push_result list) \<times> server" where
  "server_batch E now a evs s = apfst (map_sum id po_results) (push_events E now a evs s)"

definition server_accepts :: "store_env \<Rightarrow> string \<Rightarrow> server \<Rightarrow> event_record list \<Rightarrow> bool" where
  "server_accepts E a s evs \<longleftrightarrow> server_ok E s \<and> env_ok E \<and> fits a s evs \<and> is_unlimited (sv_quota s)
     \<and> (\<forall>ev \<in> set evs. \<forall>h \<in> set (er_blob_refs ev). blob_present a h s)"

lemma server_batch_answers:
  assumes "server_accepts E a s evs"
  shows "fst (server_batch E now a evs s) = Inr (log_answer (server_ids a s) (map er_change_id evs))"
    and "server_ids a (snd (server_batch E now a evs s)) = log_after (server_ids a s) (map er_change_id evs)"
proof -
  obtain r s' where p: "push_events E now a evs s = (r, s')" by (meson surj_pair)
  note c = push_events_cases [OF _ _ _ p]
  obtain out where "r = Inr out"
    using c assms by (cases r) (auto simp: server_accepts_def)
  with c assms p show "fst (server_batch E now a evs s) = Inr (log_answer (server_ids a s) (map er_change_id evs))"
    "server_ids a (snd (server_batch E now a evs s)) = log_after (server_ids a s) (map er_change_id evs)"
    by (auto simp: server_batch_def server_accepts_def)
qed

interpretation server_append: append_log "server_ids a" er_change_id "server_batch E now a" "server_accepts E a"
  for E :: store_env and now :: int and a :: string
  by unfold_locales (simp_all add: server_batch_answers)

section \<open>A push\<close>

lemma env_ok_demo [simp]: "env_ok demo_env"
  by (simp add: env_ok_def)

definition demo_record :: "string \<Rightarrow> string list \<Rightarrow> event_record" where
  "demo_record i refs = \<lparr>er_protocol_version = 1, er_account_id = ''acct'', er_device_id = ''dev'', er_change_id = i,
     er_entity_ref = None, er_key_epoch = 0, er_blob_refs = refs, er_ciphertext = ''body'', er_signature = []\<rparr>"

lemma demo_record_simps [simp]:
  "er_change_id (demo_record i refs) = i" "er_blob_refs (demo_record i refs) = refs"
  "er_ciphertext (demo_record i refs) = ''body''"
  by (simp_all add: demo_record_def)

lemma is_unlimited_unlimited [simp]: "is_unlimited unlimited"
  by (simp add: is_unlimited_def unlimited_def)

text \<open>A server that holds one blob of the account.\<close>

definition demo_server :: "quota \<Rightarrow> server" where
  "demo_server q = (server_empty q)\<lparr>sv_blobs := [\<lparr>bl_account_id = ''acct'', bl_ct_hash = ''blob'',
     bl_bytes = ''blob'', bl_byte_len = 4, bl_created_at = 0\<rparr>]\<rparr>"

lemma demo_server_ok [simp]: "server_ok demo_env (demo_server q)"
  by (simp add: demo_server_def server_ok_def server_empty_def events_of_def server_ids_def blobs_ok_def len_i64_def)

lemma demo_server_simps [simp]:
  "server_ids a (demo_server q) = []" "blob_present ''acct'' ''blob'' (demo_server q)" "sv_quota (demo_server q) = q"
  "stored_bytes ''acct'' (demo_server q) = 4" "stored_objects ''acct'' (demo_server q) = 1"
  by (simp_all add: demo_server_def server_empty_def server_ids_def events_of_def blob_present_def stored_bytes_def
      stored_objects_def blobs_of_def)

lemma demo_fits [simp]: "length rs < 100 \<Longrightarrow> (\<forall>r \<in> set rs. length (er_ciphertext r) < 100) \<Longrightarrow> fits ''acct'' (demo_server q) rs"
proof -
  assume l: "length rs < 100" and c: "\<forall>r \<in> set rs. length (er_ciphertext r) < 100"
  have "batch_size rs \<le> 100 * length rs"
    using c by (induction rs) (auto simp: batch_size_def)
  with l show ?thesis by (simp add: fits_def)
qed

theorem push_events_atomic_witness:
  "\<exists>out s'. push_events demo_env 7 ''acct'' [demo_record ''c1'' [''blob''], demo_record ''c2'' [], demo_record ''c1'' []]
      (demo_server unlimited) = (Inr out, s')
    \<and> server_ids ''acct'' s' = [''c1'', ''c2''] \<and> map pr_deduplicated (po_results out) = [False, False, True]"
proof -
  let ?evs = "[demo_record ''c1'' [''blob''], demo_record ''c2'' [], demo_record ''c1'' []]" and ?s = "demo_server unlimited"
  obtain r s' where p: "push_events demo_env 7 ''acct'' ?evs ?s = (r, s')" by (meson surj_pair)
  have "fits ''acct'' ?s ?evs" by (rule demo_fits) simp_all
  note a = push_events_atomic [OF demo_server_ok env_ok_demo this p]
  obtain out where r: "r = Inr out" using a by (cases r) auto
  then have "server_ids ''acct'' s' = [''c1'', ''c2'']" "map pr_deduplicated (po_results out) = [False, False, True]"
    using a by (simp_all add: log_add_def)
  with p [unfolded r] show ?thesis by (intro exI conjI)
qed

end
