(* ===== verification/Server_Quota.thy ===== *)
theory Server_Quota
  imports Server_Log
begin

text \<open>
  Blobs and the per-account quota of the sync server: what \<open>blob_put\<close> keeps of the store's
  invariant, and that no operation takes an account over its caps.
\<close>

section \<open>Blobs under the quota\<close>

lemma blob_present_iff: "blob_present a h s \<longleftrightarrow> (a, h) \<in> (\<lambda>b. (bl_account_id b, bl_ct_hash b)) ` set (sv_blobs s)"
  by (auto simp: blob_present_def list_ex_iff)

lemma blob_put_cases:
  assumes "server_ok E s" and "stored_bytes a s + length bytes < 2 ^ 63" and "stored_objects a s + 1 < 2 ^ 63"
    and "blob_put E now a h bytes s = (r, s')"
  shows "(\<forall>e. r = Inl e \<longrightarrow> s' = s) \<and> server_ok E s' \<and> sv_quota s' = sv_quota s
    \<and> (\<forall>b. events_of b s' = events_of b s) \<and> (\<forall>b. b \<noteq> a \<longrightarrow> blobs_of b s' = blobs_of b s)
    \<and> (r = Inr () \<longrightarrow> blob_present a h s')
    \<and> (within (sv_quota s) a s \<longrightarrow> within (sv_quota s) a s')"
proof (cases "r = Inr () \<and> \<not> blob_present a h s")
  case False
  then have "s' = s" and "r = Inr () \<longrightarrow> blob_present a h s"
    using assms(4) by (auto simp: blob_put_def Let_def split: if_splits sum.splits)
  with assms(1) show ?thesis by simp
next
  case True
  let ?b = "\<lparr>bl_account_id = a, bl_ct_hash = h, bl_bytes = bytes, bl_byte_len = len_i64 bytes, bl_created_at = now\<rparr>"
  let ?u = "account_usage a s"
  from True assms(4) have hash: "ct_hash E bytes = h" and new: "\<not> blob_present a h s" and r: "r = Inr ()"
    and s': "s' = note_account a (s\<lparr>sv_blobs := sv_blobs s @ [?b]\<rparr>)"
    and q: "is_unlimited (sv_quota s) \<or> quota_check (sv_quota s) (sat_add (total_bytes ?u) (len_u64 bytes))
        (sat_add (total_objects ?u) 1) = Inr ()"
    by (auto simp: blob_put_def Let_def split: if_splits sum.splits)
  have ev: "events_of c s' = events_of c s" "sv_events s' = sv_events s" for c by (simp_all add: s' events_of_def)
  have bl: "blobs_of c s' = blobs_of c s @ (if c = a then [?b] else [])" for c by (simp add: s' blobs_of_def)
  have pres: "blob_present c i s \<Longrightarrow> blob_present c i s'" for c i by (simp add: s' blob_present_def)
  have bytes: "stored_bytes a s' = stored_bytes a s + length bytes" and objs: "stored_objects a s' = stored_objects a s + 1"
    by (simp_all add: stored_bytes_def stored_objects_def ev bl)
  have "within (sv_quota s) a s'"
  proof (cases "is_unlimited (sv_quota s)")
    case True
    then show ?thesis by (simp add: within_def is_unlimited_def)
  next
    case lim: False
    note u = usage_exact [OF assms(1), of a]
    have "sat_add (total_bytes ?u) (len_u64 bytes) = of_nat (stored_bytes a s')"
      using u assms(2,3) sat_add_nat [of "stored_bytes a s" "length bytes"] by (simp add: bytes len_u64_def)
    moreover have "sat_add (total_objects ?u) 1 = of_nat (stored_objects a s')"
      using u assms(2,3) sat_add_nat [of "stored_objects a s" 1] by (simp add: objs)
    ultimately have "quota_check (sv_quota s) (of_nat (stored_bytes a s')) (of_nat (stored_objects a s')) = Inr ()"
      using q lim by simp
    moreover have "stored_bytes a s' < 2 ^ 64" "stored_objects a s' < 2 ^ 64"
      using assms(2,3) by (simp_all add: bytes objs)
    ultimately show ?thesis using quota_check_within [of "stored_bytes a s'" "stored_objects a s'" "sv_quota s"]
      by (simp add: within_def)
  qed
  moreover have "server_ok E s'"
  proof -
    have "row_ok E s' x" if "x \<in> set (sv_events s)" for x
      using assms(1) that pres by (fastforce simp: server_ok_def row_ok_def)
    moreover have "blobs_ok E s'"
      using assms(1) new hash by (auto simp: server_ok_def blobs_ok_def s' blob_present_iff)
    ultimately show ?thesis using assms(1) unfolding server_ok_def server_ids_def ev by blast
  qed
  moreover have "blob_present a h s'" by (simp add: s' blob_present_def)
  moreover have "sv_quota s' = sv_quota s" by (simp add: s')
  ultimately show ?thesis using r ev(1) bl by simp
qed

lemma push_known:
  assumes "set (map er_change_id evs) \<subseteq> set (server_ids a (ba_store b))"
  shows "\<exists>b'. foldR (push_one E now a q) evs b = Inr b' \<and> ba_store b' = ba_store b"
  using assms
proof (induction evs arbitrary: b)
  case (Cons ev evs)
  then have "known_seq a (er_change_id ev) (ba_store b) \<noteq> None" by (simp add: known_seq_None_iff)
  then obtain n where "known_seq a (er_change_id ev) (ba_store b) = Some n" by blast
  then obtain rs where 1: "push_one E now a q ev b = Inr (b\<lparr>ba_results := rs\<rparr>)" by (auto simp: push_one_def)
  from Cons.IH [of "b\<lparr>ba_results := rs\<rparr>"] Cons.prems show ?case by (simp add: 1)
qed simp

lemma push_known_batch:
  assumes "set (map er_change_id evs) \<subseteq> set (server_ids a s)" and "push_events E now a evs s = (r, s')"
  shows "(\<exists>out. r = Inr out) \<and> s' = s"
  using push_known [of evs a "start_batch a s" E now "sv_quota s"] assms
  by (auto simp: push_events_def start_batch_def Let_def)

lemma stored_cong:
  assumes "events_of b s' = events_of b s" and "blobs_of b s' = blobs_of b s"
  shows "stored_bytes b s' = stored_bytes b s \<and> stored_objects b s' = stored_objects b s"
  using assms by (simp add: stored_bytes_def stored_objects_def)

text \<open>
  C34. The quota holds. An account within its caps is within them after any push and after any
  upload, whether accepted or refused; neither changes what another account stores; and
  what adds nothing, a known blob or a batch of known changes, is never refused for the
  quota.
\<close>
theorem quota_holds:
  assumes "server_ok E s" and "env_ok E" and "fits a s evs"
    and "stored_bytes a s + length bytes < 2 ^ 63" and "stored_objects a s + 1 < 2 ^ 63"
    and "push_events E now a evs s = (r1, s1)" and "blob_put E now a h bytes s = (r2, s2)"
  shows "(within (sv_quota s) a s \<longrightarrow> within (sv_quota s) a s1 \<and> within (sv_quota s) a s2)
    \<and> (\<forall>b. b \<noteq> a \<longrightarrow> stored_bytes b s1 = stored_bytes b s \<and> stored_objects b s1 = stored_objects b s
          \<and> stored_bytes b s2 = stored_bytes b s \<and> stored_objects b s2 = stored_objects b s)
    \<and> (set (map er_change_id evs) \<subseteq> set (server_ids a s) \<longrightarrow> (\<exists>out. r1 = Inr out) \<and> s1 = s)
    \<and> (ct_hash E bytes = h \<and> blob_present a h s \<longrightarrow> r2 = Inr () \<and> s2 = s)"
proof (intro conjI)
  note p = push_events_cases [OF assms(1,2,3,6)] and b = blob_put_cases [OF assms(1,4,5,7)]
  show "within (sv_quota s) a s \<longrightarrow> within (sv_quota s) a s1 \<and> within (sv_quota s) a s2"
    using p b by (cases r1) auto
  have "events_of c s1 = events_of c s \<and> blobs_of c s1 = blobs_of c s" if "c \<noteq> a" for c
    using p that by (cases r1) (auto simp: other_rows_def blobs_of_def)
  with b stored_cong show "\<forall>b. b \<noteq> a \<longrightarrow> stored_bytes b s1 = stored_bytes b s \<and> stored_objects b s1 = stored_objects b s
      \<and> stored_bytes b s2 = stored_bytes b s \<and> stored_objects b s2 = stored_objects b s" by metis
  show "set (map er_change_id evs) \<subseteq> set (server_ids a s) \<longrightarrow> (\<exists>out. r1 = Inr out) \<and> s1 = s"
    using push_known_batch assms(6) by blast
  show "ct_hash E bytes = h \<and> blob_present a h s \<longrightarrow> r2 = Inr () \<and> s2 = s"
    using assms(7) by (auto simp: blob_put_def Let_def)
qed

theorem quota_holds_witness:
  "\<exists>r1 s1 r2 s2. push_events demo_env 7 ''acct'' [demo_record ''c1'' []]
      (demo_server \<lparr>max_account_bytes = 6, max_account_objects = 0\<rparr>) = (r1, s1)
    \<and> blob_put demo_env 7 ''acct'' ''larger'' ''larger'' (demo_server \<lparr>max_account_bytes = 6, max_account_objects = 0\<rparr>) = (r2, s2)
    \<and> stored_bytes ''acct'' s1 \<le> 6 \<and> stored_bytes ''acct'' s2 \<le> 6"
proof -
  let ?q = "\<lparr>max_account_bytes = 6, max_account_objects = 0\<rparr> :: quota"
  obtain r1 s1 where 1: "push_events demo_env 7 ''acct'' [demo_record ''c1'' []] (demo_server ?q) = (r1, s1)"
    by (meson surj_pair)
  obtain r2 s2 where 2: "blob_put demo_env 7 ''acct'' ''larger'' ''larger'' (demo_server ?q) = (r2, s2)"
    by (meson surj_pair)
  have "fits ''acct'' (demo_server ?q) [demo_record ''c1'' []]" by (rule demo_fits) (simp_all add: demo_record_def)
  from quota_holds [OF demo_server_ok env_ok_demo this _ _ 1 2] 1 2 show ?thesis
    by (simp add: within_def)
qed

end
