(* ===== verification/Server_Refine.thy ===== *)
theory Server_Refine
  imports Server_Routes Server_Quota Memory_Transport
begin

text \<open>
  The sync server does for a client what the in-memory transport does: on the same log the
  same push gives the same response and again the same log, and the same pull the same
  page, except for the sizes and commit times of the stored frames. So what the engine
  theories prove over the in-memory log is what a device gets from the server.
\<close>

section \<open>The frames the server holds\<close>

definition row_frame :: "app_state \<Rightarrow> event_row \<Rightarrow> stored_event" where
  "row_frame A r = frame_of A (projr (record_of_row (ap_env A) r))"

definition server_log :: "app_state \<Rightarrow> string \<Rightarrow> server \<Rightarrow> stored_event list" where
  "server_log A a s = map (row_frame A) (events_of a s)"

text \<open>What the two transports agree on: all of a frame but its size and its commit time.\<close>

definition frame_core :: "stored_event \<Rightarrow> stored_event" where
  "frame_core e = e\<lparr>se_payload_bytes := 0, se_server_committed_at := 0\<rparr>"

lemma row_record:
  assumes "row_ok E s r"
  shows "record_of_row E r = Inr (projr (record_of_row E r))"
  using assms by (auto simp: row_ok_def record_of_row_def)

lemma row_frame_seq [simp]:
  "row_ok (ap_env A) s r \<Longrightarrow> se_server_seq (row_frame A r) = u64_of (ev_server_seq r)"
  "row_ok (ap_env A) s r \<Longrightarrow> se_change_id (row_frame A r) = ev_change_id r"
  by (auto simp: row_frame_def frame_of_def record_of_row_def row_ok_def Let_def)

lemma events_row_ok: "server_ok E s \<Longrightarrow> r \<in> set (events_of a s) \<Longrightarrow> row_ok E s r"
  by (auto simp: server_ok_def events_of_def)

lemma row_frame_of:
  assumes "server_ok (ap_env A) s" and "r \<in> set (events_of a s)"
  shows "se_server_seq (row_frame A r) = u64_of (ev_server_seq r) \<and> se_change_id (row_frame A r) = ev_change_id r"
  using row_frame_seq events_row_ok [OF assms] by blast

lemma server_log_ids: "server_ok (ap_env A) s \<Longrightarrow> map se_change_id (server_log A a s) = server_ids a s"
  by (auto simp: server_log_def server_ids_def row_frame_of)

lemma server_seq_bounds:
  assumes "server_ok E s" and "r \<in> set (events_of a s)"
  shows "0 < ev_server_seq r \<and> ev_server_seq r \<le> int (length (events_of a s))"
proof -
  have "map ev_server_seq (events_of a s) = map int [1..<Suc (length (events_of a s))]"
    using assms(1) unfolding server_ok_def by blast
  then have "ev_server_seq r \<in> set (map int [1..<Suc (length (events_of a s))])"
    using assms(2) by (metis image_eqI list.set_map)
  then show ?thesis by auto
qed

lemma rows_sorted: "server_ok E s \<Longrightarrow> sorted (map ev_server_seq (events_of a s))"
proof -
  assume "server_ok E s"
  then have "map ev_server_seq (events_of a s) = map int [1..<Suc (length (events_of a s))]"
    unfolding server_ok_def by blast
  moreover have "sorted (map int [1..<n])" for n by (simp add: sorted_map)
  ultimately show ?thesis by metis
qed

lemma i64_of_less_iff:
  assumes "0 < n" and "n < 2 ^ 63"
  shows "i64_of c < n \<longleftrightarrow> c < u64_of n"
proof -
  have "uint (u64_of n) = n" using assms by (simp add: u64_of_def uint_word_of_int_eq take_bit_int_eq_self)
  then show ?thesis using assms by (auto simp: i64_of_def word_less_def)
qed

lemma rows_after_log:
  assumes ok: "server_ok E s" and small: "length (events_of a s) < 2 ^ 63"
  shows "rows_after a c n s = take (unat n) (filter (\<lambda>r. c < u64_of (ev_server_seq r)) (events_of a s))"
proof -
  have "filter (\<lambda>r. ev_server_seq r > i64_of c) (events_of a s) = filter (\<lambda>r. c < u64_of (ev_server_seq r)) (events_of a s)"
    using server_seq_bounds [OF ok] small by (intro filter_cong refl i64_of_less_iff) force+
  moreover have "sorted (map ev_server_seq (filter P (events_of a s)))" for P
    by (rule sorted_filter) (rule rows_sorted [OF ok])
  ultimately show ?thesis by (simp add: rows_after_def sorted_sort_id sort_key_id_if_sorted)
qed

section \<open>Pulling from the server\<close>

text \<open>A deployment in blind mode that has a free slot for every account.\<close>

definition open_server :: "app_state \<Rightarrow> bool" where
  "open_server A \<longleftrightarrow> ap_auth A = None \<and> (\<forall>a. ap_acquire A a = Inr ())"

lemma admit_open [simp]: "open_server A \<Longrightarrow> admit A a None = Inr ()"
  by (simp add: open_server_def admit_def)

lemma serve_open [simp]: "open_server A \<Longrightarrow> serve A now h c s = serve_call A now None c s"
  by (simp add: open_server_def serve_def)

definition sound_for :: "app_state \<Rightarrow> string \<Rightarrow> server \<Rightarrow> bool" where
  "sound_for A a s \<longleftrightarrow> server_ok (ap_env A) s \<and> length (events_of a s) < 2 ^ 63"

lemma foldl_max_last:
  fixes f :: "'a \<Rightarrow> 'b::linorder"
  assumes "sorted_wrt (<) (map f xs)" and "\<forall>x \<in> set xs. c < f x"
  shows "foldl (\<lambda>c x. max c (f x)) c xs = (if xs = [] then c else f (last xs))"
  using assms
proof (induction xs arbitrary: c)
  case (Cons x xs)
  then have "max c (f x) = f x" by (auto simp: max_def)
  with Cons show ?case by simp
qed simp

lemma server_log_sorted:
  assumes "sound_for A a s"
  shows "sorted_wrt (<) (map se_server_seq (server_log A a s))"
proof -
  have ok: "server_ok (ap_env A) s" and small: "length (events_of a s) < 2 ^ 63"
    using assms by (simp_all add: sound_for_def)
  have dense: "map ev_server_seq (events_of a s) = map int [1..<Suc (length (events_of a s))]"
    using ok unfolding server_ok_def by blast
  have "map se_server_seq (server_log A a s) = map u64_of (map ev_server_seq (events_of a s))"
    using row_frame_of [OF ok] by (simp add: server_log_def)
  also have "\<dots> = map of_nat [1..<Suc (length (events_of a s))]"
    unfolding dense by (simp add: u64_of_nat del: upt_Suc)
  finally have e: "map se_server_seq (server_log A a s) = map of_nat [1..<Suc (length (events_of a s))]" .
  have "sorted_wrt (\<lambda>i j. (of_nat i :: u64) < of_nat j) [1..<Suc (length (events_of a s))]"
  proof (rule sorted_wrt_mono_rel)
    fix i j assume "i \<in> set [1..<Suc (length (events_of a s))]" "j \<in> set [1..<Suc (length (events_of a s))]" "i < j"
    then have "i < 2 ^ 64" "j < 2 ^ 64" using small by auto
    with \<open>i < j\<close> show "(of_nat i :: u64) < of_nat j"
      by (simp add: word_less_nat_alt unat_of_nat take_bit_nat_eq_self)
  qed (rule sorted_wrt_upt)
  then show ?thesis unfolding e by (simp only: sorted_wrt_map)
qed

lemma pulled_records:
  assumes "sound_for A a s"
  shows "\<exists>rs. store_pull_page (ap_env A) a c n s = Inr (rs, of_nat (length (events_of a s)))
    \<and> map (frame_of A) rs = take (unat n) (after_cursor c (server_log A a s))"
proof -
  let ?E = "ap_env A" and ?g = "\<lambda>r. projr (record_of_row (ap_env A) r)"
  have ok: "server_ok ?E s" and small: "length (events_of a s) < 2 ^ 63"
    using assms by (simp_all add: sound_for_def)
  note rows = rows_after_log [OF ok small, of c n]
  have sub: "set (rows_after a c n s) \<subseteq> set (events_of a s)"
    unfolding rows using set_take_subset by (meson filter_is_subset order_trans)
  have "pull_events ?E a c n s = Inr (map ?g (rows_after a c n s))"
    unfolding pull_events_def using sub events_row_ok [OF ok] row_record by (intro map_res_Inr) blast
  moreover have "high_water_of a s = of_nat (length (events_of a s))"
    by (simp add: high_water_of_def ok_max_seq [OF ok] u64_of_nat)
  moreover have "map (frame_of A) (map ?g (rows_after a c n s)) = take (unat n) (after_cursor c (server_log A a s))"
  proof -
    have "filter (\<lambda>r. c < u64_of (ev_server_seq r)) (events_of a s)
        = filter (\<lambda>r. c < se_server_seq (row_frame A r)) (events_of a s)"
      using row_frame_of [OF ok] by (intro filter_cong refl) simp
    then show ?thesis unfolding rows
      by (simp add: after_cursor_def server_log_def row_frame_def [abs_def] filter_map comp_def take_map)
  qed
  ultimately show ?thesis by (simp add: store_pull_page_def)
qed

lemma server_pull:
  assumes "open_server A" and "sound_for A a s"
  shows "serve A now h (EventsPull a c l) s =
    (let page = take (unat (page_limit l)) (after_cursor c (server_log A a s))
     in (Inr (Pulled \<lparr>pl_events = page, pl_high_water_seq = of_nat (length (events_of a s)),
           pl_next_cursor = (if page = [] then c else se_server_seq (last page))\<rparr>), s))"
proof -
  let ?page = "take (unat (page_limit l)) (after_cursor c (server_log A a s))"
  obtain rs where rs: "store_pull_page (ap_env A) a c (page_limit l) s = Inr (rs, of_nat (length (events_of a s)))"
    "map (frame_of A) rs = ?page" using pulled_records [OF assms(2)] by blast
  have seqs: "foldl (\<lambda>c r. max c (sr_server_seq r)) c rs = foldl (\<lambda>c e. max c (se_server_seq e)) c ?page"
    unfolding rs(2) [symmetric] foldl_map by (simp add: frame_of_def Let_def)
  have "sorted_wrt (<) (map se_server_seq ?page)"
    using server_log_sorted [OF assms(2)] unfolding after_cursor_def
    by (simp add: sorted_wrt_map sorted_wrt_filter sorted_wrt_take)
  moreover have "\<forall>e \<in> set ?page. c < se_server_seq e"
    using set_take_subset [of _ "after_cursor c (server_log A a s)"] by (auto simp: after_cursor_def)
  ultimately have "foldl (\<lambda>c e. max c (se_server_seq e)) c ?page = (if ?page = [] then c else se_server_seq (last ?page))"
    by (rule foldl_max_last)
  with assms(1) rs seqs show ?thesis
    by (simp add: events_pull_def when_authorized_def reply_with_def with_account_store_def reading_def Let_def)
qed

definition server_page :: "app_state \<Rightarrow> string \<Rightarrow> u64 \<Rightarrow> u32 \<Rightarrow> server \<Rightarrow> pull_response" where
  "server_page A a c n s =
     (case fst (serve A 0 None (EventsPull a c (Some n)) s) of
        Inr (Pulled page) \<Rightarrow> page
      | _ \<Rightarrow> \<lparr>pl_events = [], pl_high_water_seq = 0, pl_next_cursor = c\<rparr>)"

lemma server_page_simps:
  assumes "open_server A" and "sound_for A a s"
  shows "pl_events (server_page A a c n s) = take (unat (page_limit (Some n))) (after_cursor c (server_log A a s))"
    and "pl_next_cursor (server_page A a c n s) =
      (if pl_events (server_page A a c n s) = [] then c else se_server_seq (last (pl_events (server_page A a c n s))))"
  using assms by (simp_all only: server_page_def server_pull) (simp_all add: Let_def)

interpretation server_log: paged_log "server_log A a" "server_page A a"
    "\<lambda>s. open_server A \<and> sound_for A a s" "\<lambda>n. unat (page_limit (Some n))"
  for A :: app_state and a :: string
proof unfold_locales
  fix s
  assume "open_server A \<and> sound_for A a s"
  then show "sorted_wrt (<) (map se_server_seq (server_log A a s))" by (simp add: server_log_sorted)
qed (use server_page_simps in blast)+

section \<open>Pushing to either\<close>

text \<open>The frames after a batch: each unknown change is appended under the next number.\<close>

fun frames_after :: "stored_event list \<Rightarrow> event_input list \<Rightarrow> stored_event list" where
  "frames_after es [] = es"
| "frames_after es (ev # evs) =
     frames_after (if ei_change_id ev \<in> set (map se_change_id es) then es
                   else es @ [frame_core (stored_of ev (of_nat (Suc (length es))))]) evs"

lemma frame_core_id [simp]: "se_change_id (frame_core e) = se_change_id e" "se_server_seq (frame_core e) = se_server_seq e"
  by (simp_all add: frame_core_def)

lemma append_events_frames:
  assumes "log_inv a log" and "\<And>ev. ev \<in> set evs \<Longrightarrow> ei_account_id ev = a"
    and "Suc (length (al_events log) + length evs) < 2 ^ 64"
    and "append_events a evs results log = (r, log')"
  shows "map frame_core (al_events log') = frames_after (map frame_core (al_events log)) evs"
  using assms
proof (induction evs arbitrary: results log)
  case (Cons ev evs)
  let ?i = "ei_change_id ev" and ?ids = "map se_change_id (al_events log)"
  have evs: "\<And>e. e \<in> set evs \<Longrightarrow> ei_account_id e = a" and acct: "ei_account_id ev = a"
    using Cons.prems(2) by auto
  show ?case
  proof (cases "?i \<in> set ?ids")
    case True
    then have "al_by_change log ?i = Some (seq_in ?ids ?i)" using index_seq_in [OF Cons.prems(1)] by simp
    with Cons.IH [OF Cons.prems(1) evs] Cons.prems(3,4) True acct show ?thesis
      by (auto simp: image_comp comp_def)
  next
    case False
    then have none: "al_by_change log ?i = None"
      using log_inv_dom [OF Cons.prems(1)] by (metis domIff image_set list.set_map)
    let ?log = "log\<lparr>al_events := al_events log @ [stored_of ev (al_next_seq log)],
       al_by_change := (al_by_change log)(?i \<mapsto> al_next_seq log), al_next_seq := al_next_seq log + 1\<rparr>"
    have inv: "log_inv a ?log" using log_inv_append [OF Cons.prems(1) acct none] Cons.prems(3) by simp
    have "unat (al_next_seq log) = Suc (length (al_events log))" using Cons.prems(1) by (simp add: log_inv_def)
    then have "al_next_seq log = of_nat (Suc (length (al_events log)))" by (metis of_nat_unat ucast_id)
    then have nxt: "stored_of ev (al_next_seq log) = stored_of ev (of_nat (Suc (length (al_events log))))" by (rule arg_cong)
    from Cons.prems(4) none acct obtain results' where "append_events a evs results' ?log = (r, log')"
      by (auto simp: Let_def)
    from Cons.IH [OF inv evs _ this] Cons.prems(3)
    have "map frame_core (al_events log') = frames_after (map frame_core (al_events ?log)) evs" by simp
    also have "map frame_core (al_events ?log)
        = map frame_core (al_events log) @ [frame_core (stored_of ev (of_nat (Suc (length (al_events log)))))]"
      unfolding nxt by (simp del: of_nat_Suc)
    finally show ?thesis using False by (simp add: image_comp comp_def del: of_nat_Suc)
  qed
qed simp

lemma high_water_length:
  "log_inv a log \<Longrightarrow> high_water log = of_nat (length (al_events log))"
proof -
  assume i: "log_inv a log"
  then have "al_next_seq log \<noteq> 0" by (rule log_inv_used)
  moreover have "al_next_seq log = of_nat (Suc (length (al_events log)))"
    using i by (metis log_inv_def of_nat_unat ucast_id)
  ultimately show ?thesis by (simp add: high_water_def)
qed

lemma memory_push_frames:
  assumes "memory_accepts a m evs"
  shows "\<exists>m'. memory_push \<lparr>pq_account_id = a, pq_events = evs\<rparr> m =
      (Inr \<lparr>pp_results = log_answer (log_ids a m) (map ei_change_id evs),
            pp_high_water_seq = of_nat (length (account_events a m'))\<rparr>, m')
    \<and> memory_ok m'
    \<and> map frame_core (account_events a m') = frames_after (map frame_core (account_events a m)) evs"
proof -
  define lg1 where "lg1 = (if al_next_seq (account_of m a) = 0
      then (account_of m a)\<lparr>al_next_seq := 1\<rparr> else account_of m a)"
  have ok: "memory_ok m" and acc: "\<And>ev. ev \<in> set evs \<Longrightarrow> ei_account_id ev = a"
    and room: "Suc (length (account_events a m) + length evs) < 2 ^ 64"
    using assms by (auto simp: memory_accepts_def)
  note l = account_log_ok [OF ok lg1_def]
  obtain rs lg2 where ap: "append_events a evs [] lg1 = (Inr rs, lg2)" and i: "log_inv a lg2"
    using append_events_spec [of a lg1 evs "[]"] l acc room by auto
  have p: "memory_push \<lparr>pq_account_id = a, pq_events = evs\<rparr> m =
      (Inr \<lparr>pp_results = rs, pp_high_water_seq = high_water lg2\<rparr>, m(a \<mapsto> lg2))"
    using ap by (simp add: memory_push_def Let_def lg1_def [symmetric])
  have "rs = log_answer (log_ids a m) (map ei_change_id evs)"
    using append_events_answers [OF l(1) acc, of evs "[]"] room ap l(2) by (simp add: log_ids_def)
  moreover have "account_events a (m(a \<mapsto> lg2)) = al_events lg2" by (simp add: account_events_def account_of_def)
  moreover have "memory_ok (m(a \<mapsto> lg2))" using ok i by (simp add: memory_ok_def)
  moreover have "map frame_core (al_events lg2) = frames_after (map frame_core (account_events a m)) evs"
    using append_events_frames [OF l(1) acc _ ap] room l(2) by simp
  ultimately show ?thesis using p high_water_length [OF i] by auto
qed

text \<open>An event the server accepts: of the account, of this protocol version, in canonical base64,
  its blobs uploaded.\<close>

definition acceptable :: "app_state \<Rightarrow> string \<Rightarrow> server \<Rightarrow> event_input \<Rightarrow> bool" where
  "acceptable A a s ev \<longleftrightarrow> ei_account_id ev = a \<and> ei_protocol_version ev = PROTOCOL_VERSION
     \<and> (\<exists>c. ap_decode A (ei_ciphertext_b64 ev) = Some c \<and> ap_encode A c = ei_ciphertext_b64 ev)
     \<and> (\<exists>g. ap_decode A (ei_sig_b64 ev) = Some g \<and> ap_encode A g = ei_sig_b64 ev)
     \<and> (\<forall>h \<in> set (ei_blob_refs ev). blob_present a h s)"

definition input_of :: "app_state \<Rightarrow> event_record \<Rightarrow> event_input \<Rightarrow> bool" where
  "input_of A r ev \<longleftrightarrow> er_protocol_version r = ei_protocol_version ev \<and> er_account_id r = ei_account_id ev
     \<and> er_device_id r = ei_device_id ev \<and> er_change_id r = ei_change_id ev \<and> er_entity_ref r = ei_entity_ref ev
     \<and> er_key_epoch r = ei_key_epoch ev \<and> er_blob_refs r = ei_blob_refs ev
     \<and> ap_encode A (er_ciphertext r) = ei_ciphertext_b64 ev \<and> ap_encode A (er_signature r) = ei_sig_b64 ev"

lemma acceptable_record:
  "acceptable A a s ev \<Longrightarrow> \<exists>r. record_of_input A a ev = Inr r \<and> input_of A r ev"
  by (auto simp: acceptable_def record_of_input_def input_of_def)

lemma new_row_frame:
  assumes "env_ok (ap_env A)" and "input_of A r ev" and "ei_account_id ev = a" and "Suc n < 2 ^ 63"
  shows "frame_core (row_frame A (row_of (ap_env A) now a (of_nat (Suc n)) r)) = frame_core (stored_of ev (of_nat (Suc n)))"
proof -
  let ?w = "of_nat (Suc n) :: u64"
  have "unat ?w = Suc n" using assms(4) by (simp add: unat_of_nat take_bit_nat_eq_self del: of_nat_Suc)
  then have u: "uint ?w = int (Suc n)" by (metis int_nat_eq uint_nat of_nat_eq_iff unsigned_of_nat)
  then have "uint ?w < 2 ^ 63" using assms(4) by simp
  then have "u64_of (i64_of ?w) = ?w" by (simp add: i64_of_def u64_of_def del: of_nat_Suc)
  with assms(1-3) show ?thesis
    by (simp add: row_frame_def record_of_row_def row_of_def env_ok_def frame_of_def frame_core_def input_of_def
        stored_of_def Let_def del: of_nat_Suc)
qed

lemma push_one_rows:
  assumes "push_one E now a q r b = Inr b'"
  shows "events_of a (ba_store b') = events_of a (ba_store b) @
    (if er_change_id r \<in> set (server_ids a (ba_store b)) then [] else [row_of E now a (ba_next b + 1) r])"
proof -
  have acc: "ev_account_id (row_of E now a n r) = a" for n by (simp add: row_of_def)
  show ?thesis
    using assms known_seq_None_iff [of a "er_change_id r" "ba_store b"]
    by (auto simp: push_one_def result_iff Let_def insert_event_def acc split: option.splits if_splits)
qed

lemma push_all_frames:
  assumes "foldR (push_one (ap_env A) now a q) rs b = Inr b'" and "batch_ok (ap_env A) a b" and "env_ok (ap_env A)"
    and "q = sv_quota (ba_store b)" and "fits a (ba_store b) rs"
    and "list_all2 (input_of A) rs evs" and "\<And>ev. ev \<in> set evs \<Longrightarrow> ei_account_id ev = a"
  shows "map frame_core (server_log A a (ba_store b')) = frames_after (map frame_core (server_log A a (ba_store b))) evs"
  using assms
proof (induction rs arbitrary: b evs)
  case Nil
  then show ?case by simp
next
  case (Cons r rs)
  let ?s = "ba_store b" and ?E = "ap_env A"
  from Cons.prems(6) obtain ev evs' where e: "evs = ev # evs'" and i: "input_of A r ev"
    and rest: "list_all2 (input_of A) rs evs'" by (auto simp: list_all2_Cons1)
  from Cons.prems(1) obtain b1 where 1: "push_one ?E now a q r b = Inr b1"
    and 2: "foldR (push_one ?E now a q) rs b1 = Inr b'" by (auto simp: result_iff)
  have ob: "length (events_of a ?s) \<le> stored_objects a ?s" by (simp add: stored_objects_def)
  have small: "stored_bytes a ?s + length (er_ciphertext r) < 2 ^ 63" "stored_objects a ?s + 1 < 2 ^ 63"
    "length (events_of a ?s) < 2 ^ 63 - 1"
    using Cons.prems(5) ob by (simp_all add: fits_def batch_size_def)
  note st = push_one_step [OF Cons.prems(2,3) 1 [unfolded Cons.prems(4)] small(3,1,2)]
  have q: "q = sv_quota (ba_store b1)" using st(2) Cons.prems(4) by (simp add: other_rows_def)
  have f: "fits a (ba_store b1) rs" using Cons.prems(5) st(5,6) by (simp add: fits_def batch_size_def)
  have acc: "ei_account_id ev = a" using Cons.prems(7) e by simp
  have ok: "server_ok ?E ?s" and nxt: "ba_next b + 1 = of_nat (Suc (length (events_of a ?s)))"
    using Cons.prems(2) by (simp_all add: batch_ok_def)
  have "map frame_core (server_log A a (ba_store b1)) = map frame_core (server_log A a ?s) @
      (if er_change_id r \<in> set (server_ids a ?s) then []
       else [frame_core (stored_of ev (of_nat (Suc (length (events_of a ?s)))))])"
    using push_one_rows [OF 1] new_row_frame [OF Cons.prems(3) i acc, of "length (events_of a ?s)" now] small(3)
    unfolding nxt by (simp add: server_log_def del: of_nat_Suc)
  moreover have "er_change_id r = ei_change_id ev" using i by (simp add: input_of_def)
  moreover have "set (map se_change_id (map frame_core (server_log A a ?s))) = set (server_ids a ?s)"
    using server_log_ids [OF ok, of a] by (metis (no_types, lifting) frame_core_id(1) list.map_comp list.map_cong0 comp_apply)
  moreover have "length (map frame_core (server_log A a ?s)) = length (events_of a ?s)" by (simp add: server_log_def)
  moreover note Cons.IH [OF 2 st(1) Cons.prems(3) q f rest]
  ultimately show ?case using Cons.prems(7) unfolding e frames_after.simps by (simp del: of_nat_Suc split: if_splits)
qed

end
