(* ===== verification/Server_Simulation.thy ===== *)
theory Server_Simulation
  imports Server_Refine
begin

text \<open>
  The simulation between the in-memory transport and the sync server, step by step: a push and a
  pull answer the same on logs that mirror each other, and leave logs that do.
\<close>

definition mirrors :: "app_state \<Rightarrow> string \<Rightarrow> memory \<Rightarrow> server \<Rightarrow> bool" where
  "mirrors A a m s \<longleftrightarrow> memory_ok m \<and> server_ok (ap_env A) s
     \<and> map frame_core (account_events a m) = map frame_core (server_log A a s)"

lemma mirrors_ids: "mirrors A a m s \<Longrightarrow> log_ids a m = server_ids a s"
proof -
  assume m: "mirrors A a m s"
  then have "map se_change_id (map frame_core (account_events a m)) = map se_change_id (map frame_core (server_log A a s))"
    by (simp only: mirrors_def)
  then have "map se_change_id (account_events a m) = map se_change_id (server_log A a s)" by (simp add: comp_def)
  moreover have "server_ok (ap_env A) s" using m by (simp add: mirrors_def)
  ultimately show ?thesis by (simp add: log_ids_def server_log_ids)
qed

lemma mirrors_length: "mirrors A a m s \<Longrightarrow> length (account_events a m) = length (events_of a s)"
  by (metis length_map mirrors_def server_log_def)

lemma server_push_frames:
  assumes "open_server A" and "env_ok (ap_env A)" and "server_ok (ap_env A) s"
    and "\<forall>ev \<in> set evs. acceptable A a s ev" and "is_unlimited (sv_quota s)"
    and "map_res (record_of_input A a) evs = Inr rs" and "fits a s rs"
  shows "\<exists>s'. serve A now h (EventsPush \<lparr>pq_account_id = a, pq_events = evs\<rparr>) s =
      (Inr (Pushed \<lparr>pp_results = log_answer (server_ids a s) (map ei_change_id evs),
         pp_high_water_seq = of_nat (length (events_of a s'))\<rparr>), s')
    \<and> server_ok (ap_env A) s'
    \<and> map frame_core (server_log A a s') = frames_after (map frame_core (server_log A a s)) evs
    \<and> server_ids a s' = log_after (server_ids a s) (map ei_change_id evs) \<and> other_rows a s s'
    \<and> stored_bytes a s' \<le> stored_bytes a s + batch_size rs \<and> stored_objects a s' \<le> stored_objects a s + length rs"
proof -
  let ?E = "ap_env A" and ?q = "sv_quota s"
  have rel: "list_all2 (input_of A) rs evs"
  proof -
    have "list_all2 (\<lambda>ev r. record_of_input A a ev = Inr r) evs rs" using assms(6) by (simp add: map_res_Inr_iff)
    then have "list_all2 (\<lambda>ev r. input_of A r ev) evs rs"
      by (rule list.rel_mono_strong) (use assms(4) acceptable_record in fastforce)
    then show ?thesis by (subst (asm) list_all2_conv_all_nth) (simp add: list_all2_conv_all_nth)
  qed
  then have ids: "map er_change_id rs = map ei_change_id evs" and refs: "map er_blob_refs rs = map ei_blob_refs evs"
    by (induction rule: list_all2_induct) (simp_all add: input_of_def)
  have present: "\<forall>r \<in> set rs. \<forall>h \<in> set (er_blob_refs r). blob_present a h s"
  proof
    fix r assume "r \<in> set rs"
    then have "er_blob_refs r \<in> set (map ei_blob_refs evs)" unfolding refs [symmetric] by simp
    then show "\<forall>h \<in> set (er_blob_refs r). blob_present a h s" using assms(4) by (auto simp: acceptable_def)
  qed
  note sb = start_batch_ok [OF assms(3,7)]
  obtain b where f: "foldR (push_one ?E now a ?q) rs (start_batch a s) = Inr b"
  proof (cases "foldR (push_one ?E now a ?q) rs (start_batch a s)")
    case (Inl e)
    from push_all_error [OF Inl sb(1) assms(2)] sb assms(5,7) present show ?thesis by auto
  qed
  from push_all_steps [OF f sb(1) assms(2)] sb assms(7) ids have st: "batch_ok ?E a b"
    "ba_results b = log_answer (server_ids a s) (map ei_change_id evs)"
    "server_ids a (ba_store b) = log_after (server_ids a s) (map ei_change_id evs)" "other_rows a s (ba_store b)"
    "stored_bytes a (ba_store b) \<le> stored_bytes a s + batch_size rs"
    "stored_objects a (ba_store b) \<le> stored_objects a s + length rs" by simp_all
  have "map frame_core (server_log A a (ba_store b)) = frames_after (map frame_core (server_log A a s)) evs"
    using push_all_frames [OF f sb(1) assms(2) _ _ rel] sb assms(4,7) by (simp add: acceptable_def)
  moreover have "server_ok ?E (ba_store b)" and "ba_next b = of_nat (length (events_of a (ba_store b)))"
    using st(1) by (simp_all add: batch_ok_def)
  moreover have "serve A now h (EventsPush \<lparr>pq_account_id = a, pq_events = evs\<rparr>) s =
      (Inr (Pushed \<lparr>pp_results = ba_results b, pp_high_water_seq = ba_next b\<rparr>), ba_store b)"
    using assms(1,6) f by (simp add: events_push_def when_authorized_def reply_with_def with_account_store_def push_events_def)
  ultimately show ?thesis using st(2-) by auto
qed

lemma memory_high_water:
  assumes "memory_ok m"
  shows "pl_high_water_seq (memory_page a c l m) = of_nat (length (account_events a m))"
  using account_of_ok [OF assms, of a] high_water_length [of a "account_of m a"]
  by (auto simp: memory_page_def Let_def account_events_def account_of_def account_log_default_def unused_log_def
      high_water_def split: option.splits)

lemma core_after_cursor: "map frame_core (after_cursor c es) = after_cursor c (map frame_core es)"
  by (simp add: after_cursor_def filter_map comp_def)

lemma last_core: "es \<noteq> [] \<Longrightarrow> se_server_seq (last (map frame_core es)) = se_server_seq (last es)"
  by (simp add: last_map)

lemma mirrored_page:
  assumes m: "mirrors A a m s" and A: "open_server A" and small: "length (events_of a s) < 2 ^ 63"
    and n: "1 \<le> n" "n \<le> MAX_LIMIT"
  shows "\<exists>page. serve A now h (EventsPull a c (Some n)) s = (Inr (Pulled page), s)
    \<and> map frame_core (pl_events page) = map frame_core (pl_events (memory_page a c (Some n) m))
    \<and> pl_high_water_seq page = pl_high_water_seq (memory_page a c (Some n) m)
    \<and> pl_next_cursor page = pl_next_cursor (memory_page a c (Some n) m)"
proof -
  have ok: "memory_ok m" and sound: "sound_for A a s" and core: "map frame_core (account_events a m) = map frame_core (server_log A a s)"
    using m small by (simp_all add: mirrors_def sound_for_def)
  have lim: "page_limit (Some n) = n" using n by (simp add: page_limit_def max_def min_def)
  let ?p = "take (unat n) (after_cursor c (server_log A a s))" and ?q = "take (unat n) (after_cursor c (account_events a m))"
  have pq: "map frame_core ?p = map frame_core ?q" by (simp add: take_map [symmetric] core_after_cursor core)
  then have "?p = [] \<longleftrightarrow> ?q = []" by (metis map_is_Nil_conv)
  moreover have "se_server_seq (last ?p) = se_server_seq (last ?q)" if "?q \<noteq> []"
    using that pq last_core [of ?p] last_core [of ?q] \<open>?p = [] \<longleftrightarrow> ?q = []\<close> by metis
  moreover have "pl_events (memory_page a c (Some n) m) = ?q"
    by (rule memory_log.pull_page [OF ok])
  moreover have "pl_next_cursor (memory_page a c (Some n) m) = (if ?q = [] then c else se_server_seq (last ?q))"
    using memory_log.pull_cursor [OF ok, of a c n] memory_log.pull_page [OF ok, of a c n] by simp
  moreover have "pl_high_water_seq (memory_page a c (Some n) m) = of_nat (length (events_of a s))"
    using memory_high_water [OF ok] mirrors_length [OF m] by simp
  ultimately show ?thesis
    using server_pull [OF A sound, of now h c "Some n"] pq unfolding lim Let_def by auto
qed

text \<open>
  C12. An open server, one that asks for no token and holds no request back, simulates the in-memory
  log while it has no quota. On logs that mirror each other a batch of events the server accepts and has room for gets the same response
  from both, number for number, and leaves logs that mirror each other; and a pull with a limit of
  one to a thousand then gets the same page, high-water mark and cursor from both. The frames of a
  page are compared without the payload size, which the two count differently, and the commit time.
\<close>
theorem server_simulates_memory:
  assumes "open_server A" and "env_ok (ap_env A)" and "mirrors A a m s"
    and "\<forall>ev \<in> set evs. acceptable A a s ev" and "is_unlimited (sv_quota s)"
    and "map_res (record_of_input A a) evs = Inr rs" and "fits a s rs"
  shows "\<exists>resp m' s'. memory_push \<lparr>pq_account_id = a, pq_events = evs\<rparr> m = (Inr resp, m')
    \<and> serve A now h (EventsPush \<lparr>pq_account_id = a, pq_events = evs\<rparr>) s = (Inr (Pushed resp), s')
    \<and> mirrors A a m' s'
    \<and> (\<forall>c n. 1 \<le> n \<and> n \<le> MAX_LIMIT \<longrightarrow> (\<exists>page.
         serve A now h (EventsPull a c (Some n)) s' = (Inr (Pulled page), s')
         \<and> map frame_core (pl_events page) = map frame_core (pl_events (memory_page a c (Some n) m'))
         \<and> pl_high_water_seq page = pl_high_water_seq (memory_page a c (Some n) m')
         \<and> pl_next_cursor page = pl_next_cursor (memory_page a c (Some n) m')))"
proof -
  obtain s' where s': "serve A now h (EventsPush \<lparr>pq_account_id = a, pq_events = evs\<rparr>) s =
      (Inr (Pushed \<lparr>pp_results = log_answer (server_ids a s) (map ei_change_id evs),
         pp_high_water_seq = of_nat (length (events_of a s'))\<rparr>), s')" "server_ok (ap_env A) s'"
    "map frame_core (server_log A a s') = frames_after (map frame_core (server_log A a s)) evs"
    using server_push_frames [OF assms(1,2) _ assms(4-7), of now h] assms(3) by (auto simp: mirrors_def)
  have len: "length rs = length evs"
    using assms(6) by (auto simp: map_res_Inr_iff dest: list_all2_lengthD)
  have "length (events_of a s) + length evs < 2 ^ 63 - 1"
    using assms(7) len by (simp add: fits_def stored_objects_def)
  then have room: "Suc (length (account_events a m) + length evs) < 2 ^ 64"
    and small: "length (account_events a m) + length evs < 2 ^ 63"
    using mirrors_length [OF assms(3)] by simp_all
  then have "memory_accepts a m evs" using assms(3,4) by (auto simp: memory_accepts_def mirrors_def acceptable_def)
  from memory_push_frames [OF this] obtain m' where m': "memory_push \<lparr>pq_account_id = a, pq_events = evs\<rparr> m =
      (Inr \<lparr>pp_results = log_answer (log_ids a m) (map ei_change_id evs),
            pp_high_water_seq = of_nat (length (account_events a m'))\<rparr>, m')" "memory_ok m'"
    "map frame_core (account_events a m') = frames_after (map frame_core (account_events a m)) evs" by blast
  have mir: "mirrors A a m' s'" using s'(2,3) m'(2,3) assms(3) by (simp add: mirrors_def)
  have "length (frames_after es xs) \<le> length es + length xs" for es xs
    by (induction es xs rule: frames_after.induct) auto
  then have "length (account_events a m') \<le> length (account_events a m) + length evs"
    using m'(3) by (metis length_map)
  then have "length (events_of a s') < 2 ^ 63" using mirrors_length [OF mir] small by linarith
  note page = mirrored_page [OF mir assms(1) this]
  show ?thesis
    using m'(1) s'(1) mir page mirrors_ids [OF assms(3)] mirrors_length [OF mir] by (auto simp del: serve_open)
qed

section \<open>An instance\<close>

lemma open_demo_app [simp]: "open_server (demo_app None)" "ap_env (demo_app None) = demo_env"
  by (simp_all add: open_server_def demo_app_def)

lemma mirrors_demo: "mirrors (demo_app None) ''acct'' Map.empty (demo_server q)"
  by (simp add: mirrors_def) (simp add: server_log_def demo_server_def server_empty_def events_of_def)

lemma demo_input_record:
  "\<exists>r. record_of_input (demo_app None) ''acct'' demo_event = Inr r \<and> er_ciphertext r = []"
  by (simp add: record_of_input_def demo_app_def demo_event_def PROTOCOL_VERSION_def)

lemma demo_acceptable: "acceptable (demo_app None) ''acct'' s demo_event"
  by (simp add: acceptable_def demo_app_def demo_event_def PROTOCOL_VERSION_def)

theorem server_simulates_memory_witness:
  "\<exists>resp m' s'. memory_push \<lparr>pq_account_id = ''acct'', pq_events = [demo_event]\<rparr> Map.empty = (Inr resp, m')
    \<and> serve (demo_app None) 3 None (EventsPush \<lparr>pq_account_id = ''acct'', pq_events = [demo_event]\<rparr>) (demo_server unlimited)
        = (Inr (Pushed resp), s')
    \<and> mirrors (demo_app None) ''acct'' m' s'"
proof -
  obtain r where r: "record_of_input (demo_app None) ''acct'' demo_event = Inr r" "er_ciphertext r = []"
    using demo_input_record by blast
  then have m: "map_res (record_of_input (demo_app None) ''acct'') [demo_event] = Inr [r]" by simp
  have f: "fits ''acct'' (demo_server unlimited) [r]" using r by (intro demo_fits) simp_all
  have "env_ok (ap_env (demo_app None))" "\<forall>ev \<in> set [demo_event]. acceptable (demo_app None) ''acct'' (demo_server unlimited) ev"
    "is_unlimited (sv_quota (demo_server unlimited))" using demo_acceptable by simp_all
  from server_simulates_memory [OF open_demo_app(1) this(1) mirrors_demo this(2,3) m f, of 3 None]
  show ?thesis by blast
qed

end
