(* ===== verification/Engine_Push.thy ===== *)
theory Engine_Push
  imports Engine
begin

text \<open>
  What a push guarantees: with any server it only ever acknowledges pending rows of the outbox
  and ends with none pending when it returns normally; with the append log of
  \<open>Memory_Transport\<close> every acknowledged row is in the log under the number recorded for it.
\<close>

section \<open>With any server\<close>

lemma push_loop_invariant:
  assumes "push_loop en acc w = (r, w')" and "P w"
    and step: "\<And>w r w'. push_batch en w = (r, w') \<Longrightarrow> P w \<Longrightarrow> P w'"
  shows "P w'"
  using assms
proof (induction en acc w rule: push_loop.induct)
  case (1 en acc w)
  obtain b w1 where b: "push_batch en w = (b, w1)" by (cases "push_batch en w")
  have p: "P w1" by (rule 1(4) [OF b 1(3)])
  show ?case
  proof (cases b)
    case (Inl e)
    with 1(2) b p show ?thesis by (simp add: push_loop.simps [of en acc w])
  next
    case (Inr o1)
    show ?thesis
    proof (cases o1)
      case None
      with Inr 1(2) b p show ?thesis by (simp add: push_loop.simps [of en acc w])
    next
      case (Some k)
      with 1(2) b Inr have "push_loop en (acc + k) w1 = (r, w')"
        by (simp add: push_loop.simps [of en acc w])
      from 1(1) [OF b [symmetric] Inr Some this p 1(4)] show ?thesis by simp
    qed
  qed
qed

lemma push_loop_drained:
  assumes "push_loop en acc w = (Inr n, w')"
  shows "pending_outbox BATCH (w_db w') = []"
  using assms
proof (induction en acc w rule: push_loop.induct)
  case (1 en acc w)
  obtain b w1 where b: "push_batch en w = (b, w1)" by (cases "push_batch en w")
  obtain o1 where Inr: "b = Inr o1"
    using 1(2) b by (cases b) (simp_all add: push_loop.simps [of en acc w])
  show ?case
  proof (cases o1)
    case None
    with Inr 1(2) b have "w1 = w'" by (simp add: push_loop.simps [of en acc w])
    with b Inr None show ?thesis by (auto elim!: push_batch_cases)
  next
    case (Some k)
    with 1(2) b Inr have "push_loop en (acc + k) w1 = (Inr n, w')"
      by (simp add: push_loop.simps [of en acc w])
    from 1(1) [OF b [symmetric] Inr Some this] show ?thesis .
  qed
qed

lemma no_pending: "pending_outbox (Suc n) db = [] \<Longrightarrow> pending_outbox_count db = 0"
proof -
  assume "pending_outbox (Suc n) db = []"
  then have "length (sort_key ob_local_seq (filter (\<lambda>r. ob_acked_seq r = None) (outbox db))) = 0"
    by (simp add: pending_outbox_def pending_rows_def)
  then show ?thesis by (simp add: pending_outbox_count_def)
qed

text \<open>An outbox row may be acknowledged, once, and changes in no other way.\<close>

definition row_step :: "outbox_row \<Rightarrow> outbox_row \<Rightarrow> bool" where
  "row_step r r' \<longleftrightarrow> r' = r \<or> ob_acked_seq r = None \<and> (\<exists>n. r' = r\<lparr>ob_acked_seq := Some n\<rparr>)"

definition outbox_step :: "db \<Rightarrow> db \<Rightarrow> bool" where
  "outbox_step db db' \<longleftrightarrow>
     (\<exists>rows. db' = db\<lparr>outbox := rows\<rparr> \<and> list_all2 row_step (outbox db) rows)"

lemma outbox_step_refl [simp]: "outbox_step db db"
  unfolding outbox_step_def by (intro exI [of _ "outbox db"]) (simp add: row_step_def list_all2_same)

lemma outbox_step_trans: "outbox_step a b \<Longrightarrow> outbox_step b c \<Longrightarrow> outbox_step a c"
proof -
  assume ab: "outbox_step a b" and bc: "outbox_step b c"
  have t: "row_step r s \<Longrightarrow> row_step s t \<Longrightarrow> row_step r t" for r s t
    by (auto simp: row_step_def)
  from ab obtain x where x: "b = a\<lparr>outbox := x\<rparr>" "list_all2 row_step (outbox a) x"
    by (auto simp: outbox_step_def)
  with bc obtain y where y: "c = a\<lparr>outbox := y\<rparr>" "list_all2 row_step x y"
    by (auto simp: outbox_step_def)
  have "list_all2 row_step (outbox a) y" by (rule list_all2_trans [OF t x(2) y(2)])
  with y show ?thesis by (auto simp: outbox_step_def)
qed

lemma row_of_pending_id:
  assumes "distinct (map ob_change_id (outbox db))" and "r \<in> set (outbox db)"
    and "ob_change_id r \<in> set (map ob_change_id (pending_outbox n db))"
  shows "ob_acked_seq r = None"
proof -
  from assms(3) obtain p where p: "p \<in> set (pending_outbox n db)" "ob_change_id p = ob_change_id r" by auto
  with pending_subset [of n db] have q: "p \<in> set (outbox db)" "ob_acked_seq p = None"
    by (auto simp: open_rows_def)
  with p assms(1,2) have "p = r" by (auto simp: distinct_map inj_on_def)
  with q show ?thesis by simp
qed

lemma ack_results_outbox:
  "\<exists>f. outbox (ack_results rs db) = map f (outbox db)
     \<and> (\<forall>r. ob_change_id (f r) = ob_change_id r \<and> (f r = r
            \<or> (\<exists>p \<in> set rs. pr_change_id p = ob_change_id r \<and> f r = r\<lparr>ob_acked_seq := Some (clamp_i64 (pr_server_seq p))\<rparr>)))"
proof (induction rs arbitrary: db)
  case Nil
  show ?case by (intro exI [of _ "\<lambda>r. r"]) (simp add: ack_results_def)
next
  case (Cons p rs)
  let ?g = "\<lambda>r. if ob_change_id r = pr_change_id p then r\<lparr>ob_acked_seq := Some (clamp_i64 (pr_server_seq p))\<rparr> else r"
  from Cons [of "mark_outbox_acked (pr_change_id p) (pr_server_seq p) db"] obtain f where
    f: "outbox (ack_results (p # rs) db) = map f (map ?g (outbox db))"
    and id: "\<And>r. ob_change_id (f r) = ob_change_id r"
    and eff: "\<And>r. f r = r \<or> (\<exists>p \<in> set rs. pr_change_id p = ob_change_id r
        \<and> f r = r\<lparr>ob_acked_seq := Some (clamp_i64 (pr_server_seq p))\<rparr>)"
    by (auto simp: ack_results_Cons mark_outbox_acked_def)
  have "f (?g r) = r \<or> (\<exists>p' \<in> set (p # rs). pr_change_id p' = ob_change_id r
      \<and> f (?g r) = r\<lparr>ob_acked_seq := Some (clamp_i64 (pr_server_seq p'))\<rparr>)" for r
    using eff [of "?g r"] by (cases "ob_change_id r = pr_change_id p") auto
  with f id show ?case by (intro exI [of _ "f \<circ> ?g"]) simp
qed

lemma ack_results_other: "\<exists>rows. ack_results rs db = db\<lparr>outbox := rows\<rparr>"
proof (induction rs arbitrary: db)
  case Nil
  show ?case by (intro exI [of _ "outbox db"]) (simp add: ack_results_def)
next
  case (Cons p rs)
  from Cons [of "mark_outbox_acked (pr_change_id p) (pr_server_seq p) db"] show ?case
    by (auto simp: ack_results_Cons mark_outbox_acked_def)
qed

lemma ack_results_step:
  assumes "distinct (map ob_change_id (outbox db))"
    and "set (map pr_change_id rs) \<subseteq> set (map ob_change_id (pending_outbox n db))"
  shows "outbox_step db (ack_results rs db)"
proof -
  obtain f where f: "outbox (ack_results rs db) = map f (outbox db)"
    and eff: "\<And>r. f r = r \<or> (\<exists>p \<in> set rs. pr_change_id p = ob_change_id r
        \<and> f r = r\<lparr>ob_acked_seq := Some (clamp_i64 (pr_server_seq p))\<rparr>)"
    using ack_results_outbox [of rs db] by metis
  have "row_step r (f r)" if "r \<in> set (outbox db)" for r
  proof (cases "f r = r")
    case True
    then show ?thesis by (simp add: row_step_def)
  next
    case False
    with eff [of r] obtain p where p: "p \<in> set rs" "pr_change_id p = ob_change_id r"
      and fr: "f r = r\<lparr>ob_acked_seq := Some (clamp_i64 (pr_server_seq p))\<rparr>" by auto
    from p have "ob_change_id r \<in> set (map pr_change_id rs)" by (metis image_eqI list.set_map)
    with assms(2) row_of_pending_id [OF assms(1) that, of n] have "ob_acked_seq r = None" by blast
    with fr show ?thesis by (auto simp: row_step_def)
  qed
  then have "list_all2 row_step (outbox db) (map f (outbox db))"
    by (simp add: list_all2_conv_all_nth)
  with f ack_results_other [of rs db] show ?thesis by (auto simp: outbox_step_def)
qed

lemma outbox_step_ids: "outbox_step db db' \<Longrightarrow> map ob_change_id (outbox db') = map ob_change_id (outbox db)"
proof -
  have "map ob_change_id ys = map ob_change_id xs" if "list_all2 row_step xs ys" for xs ys
    using that by induction (auto simp: row_step_def)
  moreover assume "outbox_step db db'"
  ultimately show ?thesis by (auto simp: outbox_step_def)
qed

lemma push_batch_step:
  assumes "push_batch en w = (r, w')" and "distinct (map ob_change_id (outbox (w_db w)))"
  shows "outbox_step (w_db w) (w_db w')"
  using assms(1)
proof (cases rule: push_batch_cases)
  case 1
  then show ?thesis by simp
next
  case (2 rs)
  with ack_results_step [OF assms(2) 2(2)] show ?thesis by simp
next
  case (3 rs e)
  with ack_results_step [OF assms(2) 3(1)] show ?thesis by simp
qed

lemma push_step:
  assumes "push en w = (r, w')" and "distinct (map ob_change_id (outbox (w_db w)))"
  shows "outbox_step (w_db w) (w_db w')"
proof -
  have "outbox_step (w_db w) (w_db w') \<and> distinct (map ob_change_id (outbox (w_db w')))"
    using assms(1) [unfolded push_def]
  proof (rule push_loop_invariant)
    fix v :: "('a, 'b) world" and r v'
    assume p: "push_batch en v = (r, v')"
      and i: "outbox_step (w_db w) (w_db v) \<and> distinct (map ob_change_id (outbox (w_db v)))"
    from push_batch_step [OF p] i have s: "outbox_step (w_db v) (w_db v')" by simp
    with i show "outbox_step (w_db w) (w_db v') \<and> distinct (map ob_change_id (outbox (w_db v')))"
      by (metis outbox_step_ids outbox_step_trans)
  qed (simp add: assms(2))
  then show ?thesis ..
qed

text \<open>
  C17. Push always returns, whatever the server answers. It changes nothing of the database but the
  acknowledgement of rows that were pending, never a row already acknowledged, and it keeps
  every row of the outbox in its place; when it returns normally no row is pending.
\<close>
theorem push_drains_outbox:
  assumes "wf_outbox (w_db w)"
  shows "\<exists>r w'. push en w = (r, w') \<and> outbox_step (w_db w) (w_db w')
    \<and> (\<forall>n. r = Inr n \<longrightarrow> pending_outbox_count (w_db w') = 0)"
proof -
  obtain r w' where p: "push en w = (r, w')" by (cases "push en w")
  have "pending_outbox_count (w_db w') = 0" if "r = Inr n" for n
    using push_loop_drained [of en 0 w n w'] p that no_pending [of 255]
    by (simp add: push_def BATCH_def)
  moreover have "outbox_step (w_db w) (w_db w')"
    using push_step [OF p] assms by (simp add: wf_outbox_def)
  ultimately show ?thesis using p by blast
qed

section \<open>With the append log\<close>

definition memory_transport :: "memory transport" where
  "memory_transport = \<lparr>tr_push = memory_push, tr_pull = memory_pull, tr_blob_probe = memory_blob_probe,
     tr_blob_put = memory_blob_put, tr_blob_get = memory_blob_get\<rparr>"

lemma memory_transport_simps [simp]:
  "tr_push memory_transport = memory_push" "tr_pull memory_transport = memory_pull"
  "tr_blob_probe memory_transport = memory_blob_probe" "tr_blob_put memory_transport = memory_blob_put"
  "tr_blob_get memory_transport = memory_blob_get"
  by (simp_all add: memory_transport_def)

text \<open>Everything but the blobs of the log and the drawn nonces stays.\<close>

definition same_log :: "string \<Rightarrow> stored_event list \<Rightarrow> db \<Rightarrow> 'b \<Rightarrow> (memory, 'b) world \<Rightarrow> bool" where
  "same_log a es d bl w \<longleftrightarrow>
     memory_ok (w_srv w) \<and> account_events a (w_srv w) = es \<and> w_db w = d \<and> w_blobs w = bl"

lemma memory_ok_put:
  assumes "memory_ok m" "memory_blob_put b h c m = (r, m')"
  shows "r = Inr () \<and> memory_ok m' \<and> account_events a m' = account_events a m"
proof -
  let ?log = "account_of m b"
  have m': "m' = m(b \<mapsto> ?log\<lparr>al_blobs := (al_blobs ?log)(h \<mapsto> c)\<rparr>)" and r: "r = Inr ()"
    using assms(2) by (simp_all add: memory_blob_put_def Let_def)
  have "log_inv b (?log\<lparr>al_blobs := x\<rparr>) \<or> unused_log (?log\<lparr>al_blobs := x\<rparr>)" for x
    using account_of_ok [OF assms(1), of b] by (auto simp: log_inv_def unused_log_def)
  then have "memory_ok m'" using assms(1) by (auto simp: memory_ok_def m')
  moreover have "account_events a m' = account_events a m"
    by (simp add: account_events_def account_of_def m')
  ultimately show ?thesis using r by simp
qed

lemma keeps_same_log [keeps]:
  "keeps_inv (same_log a es d bl) (on_srv (memory_blob_put b h c))"
  "keeps_inv (same_log a es d bl) (on_srv (memory_blob_probe req))"
  "keeps_inv (same_log a es d bl) (load_blob en h)"
  "keeps_inv (same_log a es d bl) (draw_nonce en)"
  by (auto simp: keeps_inv_def same_log_def on_srv_def memory_blob_probe_def load_blob_def draw_nonce_def Let_def
      dest: memory_ok_put [where a = a] split: prod.splits sum.splits)

text \<open>An action that returns normally in every world with the given log and database.\<close>

definition succeeds :: "('w \<Rightarrow> bool) \<Rightarrow> ('w, 'a) act \<Rightarrow> bool" where
  "succeeds I m \<longleftrightarrow> (\<forall>w. I w \<longrightarrow> (\<exists>x. fst (m w) = Inr x \<and> I (snd (m w))))"

lemma succeedsD: "succeeds I m \<Longrightarrow> I w \<Longrightarrow> \<exists>x w'. m w = (Inr x, w') \<and> I w'"
  unfolding succeeds_def by (metis prod.collapse)

lemma succeeds_bind:
  assumes "succeeds I m" and "\<And>x. succeeds I (f x)"
  shows "succeeds I (bindA m f)"
  unfolding succeeds_def
proof (intro allI impI)
  fix w assume "I w"
  from succeedsD [OF assms(1) this] obtain x w1 where 1: "m w = (Inr x, w1)" "I w1" by blast
  from succeedsD [OF assms(2) 1(2), of x] obtain y w2 where "f x w1 = (Inr y, w2)" "I w2" by blast
  with 1 show "\<exists>y. fst (bindA m f w) = Inr y \<and> I (snd (bindA m f w))" by simp
qed

lemma succeeds_ret: "succeeds I (ret x)"
  by (simp add: succeeds_def)

lemma succeeds_each: "(\<And>x. x \<in> set xs \<Longrightarrow> succeeds I (f x)) \<Longrightarrow> succeeds I (each f xs)"
  by (induction xs) (auto intro!: succeeds_bind succeeds_ret)

lemma succeeds_collect: "(\<And>x. x \<in> set xs \<Longrightarrow> succeeds I (f x)) \<Longrightarrow> succeeds I (collect f xs)"
  by (induction xs) (auto intro!: succeeds_bind succeeds_ret)

section \<open>A batch on the append log\<close>

lemma encrypt_row_keeps_log:
  assumes "en_transport en = memory_transport"
  shows "keeps_inv (same_log a es d bl) (encrypt_row en row)"
  by (auto simp: encrypt_row_def upload_blobs_def upload_one_def Let_def assms split: option.splits intro!: keeps)

text \<open>Sealing under the session's own epoch cannot fail.\<close>

lemma encrypt_change_total:
  "\<exists>ev. encrypt_change P cod cx nonce change_id body = Inr ev
    \<and> ei_change_id ev = change_id \<and> ei_account_id ev = cx_account cx"
  by (simp add: encrypt_change_def encrypt_event_def content_key_at_def Let_def)

lemma encrypt_row_names:
  assumes "encrypt_row en row w = (Inr ev, w')"
  shows "ei_change_id ev = ob_change_id row \<and> ei_account_id ev = cx_account (en_session en)"
proof -
  from assms obtain body nonce where
    "encrypt_change (en_prims en) (en_codec en) (en_session en) nonce (ob_change_id row) body = Inr ev"
    by (auto simp: encrypt_row_def result_iff from_res_def split: option.splits)
  with encrypt_change_total [of "en_prims en" "en_codec en" "en_session en" nonce "ob_change_id row" body]
  show ?thesis by auto
qed

lemma encrypt_rows_names:
  assumes "collect (encrypt_row en) rows w = (Inr evs, w')"
  shows "map ei_change_id evs = map ob_change_id rows
    \<and> (\<forall>ev \<in> set evs. ei_account_id ev = cx_account (en_session en))"
  using assms
  by (induction rows arbitrary: w evs) (auto simp: result_iff dest: encrypt_row_names)

lemma log_of_index:
  assumes "memory_ok m" and "al_by_change (account_of m a) i = Some n"
  shows "\<exists>ev \<in> set (account_events a m). se_change_id ev = i \<and> se_server_seq ev = n"
proof -
  have "log_inv a (account_of m a)"
    using account_of_ok [OF assms(1), of a] assms(2) by (auto simp: unused_log_def)
  then have "map_of (map (\<lambda>e. (se_change_id e, se_server_seq e)) (al_events (account_of m a))) i = Some n"
    using assms(2) by (simp add: log_inv_def)
  from map_of_SomeD [OF this] show ?thesis unfolding account_events_def by fastforce
qed

lemma log_ids_distinct: "memory_ok m \<Longrightarrow> distinct (map se_change_id (account_events a m))"
  using account_of_ok [of m a] by (auto simp: log_inv_def unused_log_def account_events_def)

definition acked_in_log :: "string \<Rightarrow> db \<Rightarrow> memory \<Rightarrow> bool" where
  "acked_in_log a db m \<longleftrightarrow>
     (\<forall>r \<in> set (outbox db). \<forall>n. ob_acked_seq r = Some n \<longrightarrow>
        (\<exists>ev \<in> set (account_events a m). se_change_id ev = ob_change_id r \<and> n = clamp_i64 (se_server_seq ev)))"

text \<open>The ids the log holds or may come to hold, and room for them in 64-bit numbers.\<close>

definition id_pool :: "string \<Rightarrow> db \<Rightarrow> memory \<Rightarrow> string set" where
  "id_pool a db m = se_change_id ` set (account_events a m) \<union> ob_change_id ` set (outbox db)"

definition push_inv :: "string \<Rightarrow> (memory, 'b) world \<Rightarrow> bool" where
  "push_inv a w \<longleftrightarrow> memory_ok (w_srv w) \<and> distinct (map ob_change_id (outbox (w_db w)))
     \<and> acked_in_log a (w_db w) (w_srv w) \<and> card (id_pool a (w_db w) (w_srv w)) + Suc BATCH < 2 ^ 64"

lemma log_length_pool:
  assumes "push_inv a w"
  shows "length (account_events a (w_srv w)) + Suc BATCH < 2 ^ 64"
proof -
  have "length (account_events a (w_srv w)) = card (se_change_id ` set (account_events a (w_srv w)))"
    using log_ids_distinct [of "w_srv w" a] assms distinct_card [of "map se_change_id (account_events a (w_srv w))"]
    by (simp add: push_inv_def)
  also have "\<dots> \<le> card (id_pool a (w_db w) (w_srv w))"
    by (rule card_mono) (auto simp: id_pool_def)
  finally show ?thesis using assms by (simp add: push_inv_def)
qed

lemma pending_ids_distinct:
  assumes "distinct (map ob_change_id (outbox db))"
  shows "distinct (map ob_change_id (pending_outbox n db))"
proof -
  have "distinct (map ob_change_id (pending_rows db))"
    unfolding pending_rows_def using distinct_map_filter [OF assms] by (simp add: distinct_map)
  then have "distinct (take n (map ob_change_id (pending_rows db)))" by (rule distinct_take)
  then show ?thesis by (simp add: pending_outbox_def take_map)
qed

lemma push_batch_memory:
  assumes T: "en_transport en = memory_transport" and b: "push_batch en w = (r, w')"
    and inv: "push_inv (cx_account (en_session en)) w"
  obtains "pending_outbox BATCH (w_db w) = []" and "r = Inr None" and "w' = w"
  | e where "r = Inl e" and "fst (collect (encrypt_row en) (pending_outbox BATCH (w_db w)) w) = Inl e"
      and "same_log (cx_account (en_session en)) (account_events (cx_account (en_session en)) (w_srv w))
             (w_db w) (w_blobs w) w'"
  | rs new k where "r = Inr (Some k)" and "w_db w' = ack_results rs (w_db w)" and "w_blobs w' = w_blobs w"
      and "map pr_change_id rs = map ob_change_id (pending_outbox BATCH (w_db w))" and "memory_ok (w_srv w')"
      and "\<And>p. p \<in> set rs \<Longrightarrow> \<exists>ev \<in> set (account_events (cx_account (en_session en)) (w_srv w')).
             se_change_id ev = pr_change_id p \<and> se_server_seq ev = pr_server_seq p"
      and "account_events (cx_account (en_session en)) (w_srv w')
             = account_events (cx_account (en_session en)) (w_srv w) @ new"
      and "map se_change_id new = novel (se_change_id ` set (account_events (cx_account (en_session en)) (w_srv w)))
             (map ob_change_id (pending_outbox BATCH (w_db w)))"
proof -
  let ?a = "cx_account (en_session en)" and ?p = "pending_outbox BATCH (w_db w)"
  let ?es = "account_events ?a (w_srv w)"
  show thesis
  proof (cases "?p = []")
    case True
    show thesis
      by (rule that(1)) (use b True in \<open>simp_all add: push_batch_def bindA_def get_db_def\<close>)
  next
    case False
    have sl: "same_log ?a ?es (w_db w) (w_blobs w) w"
      using inv by (simp add: same_log_def push_inv_def)
    obtain r1 w1 where c: "collect (encrypt_row en) ?p w = (r1, w1)" by (cases "collect (encrypt_row en) ?p w")
    have "keeps_inv (same_log ?a ?es (w_db w) (w_blobs w)) (collect (encrypt_row en) ?p)"
      by (intro keeps_collect encrypt_row_keeps_log T)
    from keepsD [OF this sl c] have sl1: "same_log ?a ?es (w_db w) (w_blobs w) w1" .
    show thesis
    proof (cases r1)
      case (Inl e)
      with b c False have "r = Inl e" "w' = w1" by (simp_all add: push_batch_def bindA_def get_db_def)
      with sl1 c Inl show thesis by (intro that(2) [of e]) simp_all
    next
      case (Inr evs)
      note n = encrypt_rows_names [OF c [unfolded Inr]]
      have "length evs \<le> BATCH"
        using n length_map [of ei_change_id evs] by (simp add: pending_outbox_def)
      then have room: "Suc (length (account_events ?a (w_srv w1)) + length evs) < 2 ^ 64"
        using log_length_pool [OF inv] sl1 by (simp add: same_log_def)
      obtain resp m2 where p: "memory_push \<lparr>pq_account_id = ?a, pq_events = evs\<rparr> (w_srv w1) = (Inr resp, m2)"
        and ok: "memory_ok m2" and br: "batch_result (account_of (w_srv w1) ?a) evs (pp_results resp) (account_of m2 ?a)"
        using memory_push_spec [of "w_srv w1" evs ?a] sl1 n room by (auto simp: same_log_def)
      have ids: "map pr_change_id (pp_results resp) = map ob_change_id ?p"
        using br n by (simp add: batch_result_def)
      have d: "distinct (map ob_change_id ?p)"
        using inv by (intro pending_ids_distinct) (simp add: push_inv_def)
      have len: "length (pp_results resp) = length ?p"
        using ids by (metis length_map)
      let ?w2 = "w1\<lparr>w_srv := m2\<rparr>"
      have srv: "on_srv (tr_push (en_transport en) \<lparr>pq_account_id = ?a, pq_events = evs\<rparr>) w1 = (Inr resp, ?w2)"
        by (simp add: on_srv_def T p)
      have out: "r = Inr (Some (length (filter (\<lambda>r. \<not> pr_deduplicated r) (pp_results resp))))
          \<and> w' = ?w2\<lparr>w_db := ack_results (pp_results resp) (w_db w1)\<rparr>"
        using b c Inr False srv ids d len
        by (simp add: push_batch_def bindA_def get_db_def Let_def modify_db_def del: set_map)
      from br obtain new where new: "al_events (account_of m2 ?a) = al_events (account_of (w_srv w1) ?a) @ new"
        "map se_change_id new = novel (dom (al_by_change (account_of (w_srv w1) ?a))) (map ei_change_id evs)"
        by (auto simp: batch_result_def)
      have idx: "al_by_change (account_of m2 ?a) (pr_change_id p) = Some (pr_server_seq p)"
        if "p \<in> set (pp_results resp)" for p
        using br that by (simp add: batch_result_def)
      show thesis
      proof (rule that(3))
        show "w_db w' = ack_results (pp_results resp) (w_db w)" "w_blobs w' = w_blobs w" "memory_ok (w_srv w')"
          using out ok sl1 by (simp_all add: same_log_def)
        show "\<exists>ev \<in> set (account_events ?a (w_srv w')).
             se_change_id ev = pr_change_id p \<and> se_server_seq ev = pr_server_seq p"
          if "p \<in> set (pp_results resp)" for p
          using log_of_index [OF ok idx [OF that]] out by simp
        show "account_events ?a (w_srv w') = ?es @ new"
          using new(1) out sl1 by (simp add: account_events_def same_log_def)
        show "map se_change_id new = novel (se_change_id ` set ?es) (map ob_change_id ?p)"
          using new(2) n sl1 account_of_dom [of "w_srv w1" ?a] by (simp add: same_log_def)
      qed (use out ids in simp_all)
    qed
  qed
qed

lemma set_novel: "set (novel S xs) = set xs - S"
  by (induction S xs rule: novel.induct) auto

lemma acked_in_log_acks:
  assumes "acked_in_log a db m"
    and "account_events a m' = account_events a m @ new"
    and "\<And>p. p \<in> set rs \<Longrightarrow> \<exists>ev \<in> set (account_events a m'). se_change_id ev = pr_change_id p
           \<and> se_server_seq ev = pr_server_seq p"
  shows "acked_in_log a (ack_results rs db) m'"
  unfolding acked_in_log_def
proof (intro ballI allI impI)
  fix r' n
  assume r': "r' \<in> set (outbox (ack_results rs db))" "ob_acked_seq r' = Some n"
  obtain f where f: "outbox (ack_results rs db) = map f (outbox db)"
    and eff: "\<And>r. ob_change_id (f r) = ob_change_id r \<and> (f r = r \<or> (\<exists>p \<in> set rs. pr_change_id p = ob_change_id r
        \<and> f r = r\<lparr>ob_acked_seq := Some (clamp_i64 (pr_server_seq p))\<rparr>))"
    using ack_results_outbox [of rs db] by metis
  from r' f obtain r where r: "r \<in> set (outbox db)" "r' = f r" by auto
  from eff [of r] consider "f r = r"
    | p where "p \<in> set rs" "pr_change_id p = ob_change_id r"
        "f r = r\<lparr>ob_acked_seq := Some (clamp_i64 (pr_server_seq p))\<rparr>" by blast
  then show "\<exists>ev \<in> set (account_events a m'). se_change_id ev = ob_change_id r' \<and> n = clamp_i64 (se_server_seq ev)"
  proof cases
    case 1
    with r r' assms(1) obtain ev where "ev \<in> set (account_events a m)"
      "se_change_id ev = ob_change_id r'" "n = clamp_i64 (se_server_seq ev)"
      unfolding acked_in_log_def by fastforce
    then show ?thesis by (intro bexI [of _ ev]) (simp_all add: assms(2))
  next
    case (2 p)
    with assms(3) [of p] r r' show ?thesis by auto
  qed
qed

lemma push_batch_inv:
  assumes T: "en_transport en = memory_transport" and a: "cx_account (en_session en) = a"
    and b: "push_batch en w = (r, w')" and inv: "push_inv a w"
  shows "push_inv a w' \<and> w_blobs w' = w_blobs w
    \<and> (\<exists>new. account_events a (w_srv w') = account_events a (w_srv w) @ new
         \<and> se_change_id ` set new \<subseteq> ob_change_id ` set (outbox (w_db w)))"
  using push_batch_memory [OF T b inv [folded a]]
proof cases
  case 1
  with inv show ?thesis by simp
next
  case (2 e)
  with inv show ?thesis by (simp add: same_log_def push_inv_def acked_in_log_def id_pool_def a)
next
  case (3 rs new k)
  let ?p = "pending_outbox BATCH (w_db w)"
  have sub: "ob_change_id ` set ?p \<subseteq> ob_change_id ` set (outbox (w_db w))"
    using pending_subset [of BATCH "w_db w"] by (auto simp: open_rows_def)
  have "set (map se_change_id new) = set (novel (se_change_id ` set (account_events a (w_srv w))) (map ob_change_id ?p))"
    using 3(8) by (simp only: a)
  then have new: "se_change_id ` set new \<subseteq> ob_change_id ` set (outbox (w_db w))"
    using sub unfolding set_novel by auto
  have d: "distinct (map ob_change_id (outbox (w_db w)))" using inv by (simp add: push_inv_def)
  have ids: "map ob_change_id (outbox (w_db w')) = map ob_change_id (outbox (w_db w))"
    using push_batch_step [OF b d] by (rule outbox_step_ids)
  then have idset: "ob_change_id ` set (outbox (w_db w')) = ob_change_id ` set (outbox (w_db w))"
    by (metis list.set_map)
  have es: "account_events a (w_srv w') = account_events a (w_srv w) @ new" using 3(7) by (simp only: a)
  have "acked_in_log a (w_db w') (w_srv w')"
    unfolding 3(2)
  proof (rule acked_in_log_acks [OF _ es])
    show "acked_in_log a (w_db w) (w_srv w)" using inv by (simp add: push_inv_def)
    show "\<exists>ev \<in> set (account_events a (w_srv w')). se_change_id ev = pr_change_id p \<and> se_server_seq ev = pr_server_seq p"
      if "p \<in> set rs" for p
      using 3(6) [OF that] by (simp only: a)
  qed
  moreover have "id_pool a (w_db w') (w_srv w') = id_pool a (w_db w) (w_srv w)"
    using new by (auto simp: id_pool_def es idset)
  ultimately have "push_inv a w'"
    using inv 3(5) d ids by (simp add: push_inv_def)
  with 3(3) es new show ?thesis by blast
qed

text \<open>What a row needs for its upload to go through.\<close>

definition row_ready :: "('s, 'b) engine \<Rightarrow> 'b \<Rightarrow> outbox_row \<Rightarrow> bool" where
  "row_ready en bl row \<longleftrightarrow>
     (\<exists>body. body_of_bytes (en_codec en) (ob_body row) = Some body
        \<and> (\<forall>e \<in> set (cb_blob_manifest body). \<exists>p. bs_load (en_blobs en) (bm_plaintext_hash e) bl = Inr (Some p)))"

lemma same_log_succeeds:
  "succeeds (same_log a es d bl) (on_srv (memory_blob_put b h c))"
  "succeeds (same_log a es d bl) (on_srv (memory_blob_probe req))"
  "succeeds (same_log a es d bl) (draw_nonce en)"
  by (auto simp: succeeds_def same_log_def on_srv_def memory_blob_probe_def draw_nonce_def Let_def
      dest: memory_ok_put [where a = a] split: prod.splits)

lemma load_blob_found:
  "bs_load (en_blobs en) h bl = Inr (Some p) \<Longrightarrow> same_log a es d bl w \<Longrightarrow> load_blob en h w = (Inr (Some p), w)"
  by (simp add: load_blob_def same_log_def)

lemma upload_one_succeeds:
  assumes "en_transport en = memory_transport"
    and "bs_load (en_blobs en) (bm_plaintext_hash e) bl = Inr (Some p)"
  shows "succeeds (same_log a es d bl) (upload_one en missing e)"
  unfolding succeeds_def
proof (intro allI impI)
  fix w :: "(memory, 'a) world"
  assume I: "same_log a es d bl w"
  have put: "fst (on_srv (memory_blob_put b h c) w) = Inr () \<and> same_log a es d bl (snd (on_srv (memory_blob_put b h c) w))"
    for b h c
    using same_log_succeeds(1) [of a es d bl b h c] I by (auto simp: succeeds_def)
  show "\<exists>x. fst (upload_one en missing e w) = Inr x \<and> same_log a es d bl (snd (upload_one en missing e w))"
    using load_blob_found [OF assms(2) I] I put
    by (simp add: upload_one_def Let_def assms(1) bindA_def ret_def)
qed

lemma encrypt_row_succeeds:
  assumes T: "en_transport en = memory_transport" and "row_ready en bl row"
  shows "succeeds (same_log a es d bl) (encrypt_row en row)"
proof -
  from assms(2) obtain body where body: "body_of_bytes (en_codec en) (ob_body row) = Some body"
    and blobs: "\<And>e. e \<in> set (cb_blob_manifest body) \<Longrightarrow>
      \<exists>p. bs_load (en_blobs en) (bm_plaintext_hash e) bl = Inr (Some p)"
    by (auto simp: row_ready_def)
  have one: "succeeds (same_log a es d bl) (upload_one en missing e)" if "e \<in> set (cb_blob_manifest body)" for e missing
    using blobs [OF that] upload_one_succeeds [OF T] by blast
  have "succeeds (same_log a es d bl) (upload_blobs en body)"
    using one by (auto simp: upload_blobs_def T intro!: succeeds_bind succeeds_each succeeds_ret same_log_succeeds)
  moreover have "succeeds (same_log a es d bl)
      (from_res (encrypt_change (en_prims en) (en_codec en) (en_session en) nonce (ob_change_id row) body))" for nonce
    using encrypt_change_total [of "en_prims en" "en_codec en" "en_session en" nonce "ob_change_id row" body]
    by (auto simp: succeeds_def)
  ultimately show ?thesis
    by (simp add: encrypt_row_def body succeeds_bind same_log_succeeds)
qed

section \<open>Push on the append log\<close>

lemma push_log_inv:
  assumes T: "en_transport en = memory_transport" and a: "cx_account (en_session en) = a"
    and "push en w = (r, w')" and inv: "push_inv a w"
  shows "push_inv a w' \<and> (\<exists>new. account_events a (w_srv w') = account_events a (w_srv w) @ new
         \<and> se_change_id ` set new \<subseteq> ob_change_id ` set (outbox (w_db w)))"
proof -
  let ?P = "\<lambda>v. push_inv a v \<and> map ob_change_id (outbox (w_db v)) = map ob_change_id (outbox (w_db w))
    \<and> (\<exists>new. account_events a (w_srv v) = account_events a (w_srv w) @ new
         \<and> se_change_id ` set new \<subseteq> ob_change_id ` set (outbox (w_db w)))"
  have "?P w'"
    using assms(3) [unfolded push_def]
  proof (rule push_loop_invariant)
    show "?P w" using inv by simp
  next
    fix v :: "(memory, 'a) world" and r v'
    assume b: "push_batch en v = (r, v')" and P: "?P v"
    then obtain new where new: "account_events a (w_srv v) = account_events a (w_srv w) @ new"
      "se_change_id ` set new \<subseteq> ob_change_id ` set (outbox (w_db w))" by blast
    from push_batch_inv [OF T a b] P obtain more where i: "push_inv a v'"
      and more: "account_events a (w_srv v') = account_events a (w_srv v) @ more"
      "se_change_id ` set more \<subseteq> ob_change_id ` set (outbox (w_db v))" by blast
    have d: "distinct (map ob_change_id (outbox (w_db v)))"
      using P unfolding push_inv_def by blast
    have ids: "map ob_change_id (outbox (w_db v')) = map ob_change_id (outbox (w_db w))"
      using outbox_step_ids [OF push_batch_step [OF b d]] conjunct1 [OF conjunct2 [OF P]] by (rule trans)
    have "ob_change_id ` set (outbox (w_db v)) = ob_change_id ` set (outbox (w_db w))"
      using P by (metis list.set_map)
    with more new have "account_events a (w_srv v') = account_events a (w_srv w) @ (new @ more)"
      "se_change_id ` set (new @ more) \<subseteq> ob_change_id ` set (outbox (w_db w))" by auto
    with i ids show "?P v'" by blast
  qed
  then show ?thesis by blast
qed

lemma push_loop_ready:
  assumes T: "en_transport en = memory_transport" and a: "cx_account (en_session en) = a"
    and "push_inv a w" and "\<And>row. row \<in> set (open_rows (outbox (w_db w))) \<Longrightarrow> row_ready en (w_blobs w) row"
  shows "\<exists>n w'. push_loop en acc w = (Inr n, w')"
  using assms
proof (induction en acc w rule: push_loop.induct)
  case (1 en acc w)
  obtain b w1 where b: "push_batch en w = (b, w1)" by (cases "push_batch en w")
  note i = push_batch_inv [OF 1(2,3) b 1(4)]
  from push_batch_memory [OF 1(2) b 1(4) [folded 1(3)]] show ?case
  proof cases
    case 1
    with b show ?thesis by (simp add: push_loop.simps [of en acc w])
  next
    case (2 e)
    let ?p = "pending_outbox BATCH (w_db w)"
    have "succeeds (same_log a (account_events a (w_srv w)) (w_db w) (w_blobs w)) (collect (encrypt_row en) ?p)"
      using pending_subset [of BATCH "w_db w"]
      by (intro succeeds_collect encrypt_row_succeeds [OF "1.prems"(1)] "1.prems"(4)) blast
    then have "\<exists>x. fst (collect (encrypt_row en) ?p w) = Inr x"
      using "1.prems"(3) by (auto simp: succeeds_def same_log_def push_inv_def)
    with 2 show ?thesis by simp
  next
    case (3 rs new k)
    have "set (open_rows (outbox (w_db w1))) \<subseteq> set (open_rows (outbox (w_db w)))"
      using open_rows_acks [of rs "w_db w"] by (simp only: 3(2)) auto
    then have "row_ready en (w_blobs w1) row" if "row \<in> set (open_rows (outbox (w_db w1)))" for row
      using "1.prems"(4) [of row] that i by auto
    from "1.IH" [OF b [symmetric] 3(1) refl "1.prems"(1,2) conjunct1 [OF i] this]
    show ?thesis using b 3(1) by (simp add: push_loop.simps [of en acc w])
  qed
qed

lemma id_pool_card:
  "memory_ok m \<Longrightarrow> card (id_pool a db m) \<le> length (account_events a m) + length (outbox db)"
proof -
  have "card (id_pool a db m) \<le> card (se_change_id ` set (account_events a m)) + card (ob_change_id ` set (outbox db))"
    unfolding id_pool_def by (rule card_Un_le)
  also have "\<dots> \<le> length (account_events a m) + length (outbox db)"
    by (metis add_mono card_length length_map list.set_map)
  finally show ?thesis .
qed

text \<open>
  C13. Over the append log, an acknowledgement in the outbox means the change is stored: if every
  acknowledged row is in the log under the number recorded for it, this is still so after a
  push, which only appends to the log and only changes of this outbox. When push returns
  normally every row of the outbox is in the log; and it does return normally when every
  pending body decodes and its blobs are at hand.
\<close>
theorem pushed_changes_are_logged:
  assumes "en_transport en = memory_transport" and "cx_account (en_session en) = a"
    and "wf_outbox (w_db w)" and "memory_ok (w_srv w)" and "acked_in_log a (w_db w) (w_srv w)"
    and "length (account_events a (w_srv w)) + length (outbox (w_db w)) + 257 < 2 ^ 64"
  shows "\<exists>r w' new. push en w = (r, w') \<and> acked_in_log a (w_db w') (w_srv w')
    \<and> account_events a (w_srv w') = account_events a (w_srv w) @ new
    \<and> se_change_id ` set new \<subseteq> ob_change_id ` set (outbox (w_db w))
    \<and> (\<forall>n. r = Inr n \<longrightarrow>
         ob_change_id ` set (outbox (w_db w)) \<subseteq> se_change_id ` set (account_events a (w_srv w')))
    \<and> ((\<forall>row \<in> set (outbox (w_db w)). ob_acked_seq row = None \<longrightarrow> row_ready en (w_blobs w) row) \<longrightarrow>
         (\<exists>n. r = Inr n))"
proof -
  obtain r w' where p: "push en w = (r, w')" by (cases "push en w")
  have "card (id_pool a (w_db w) (w_srv w)) + Suc BATCH < 2 ^ 64"
    using id_pool_card [OF assms(4), of a "w_db w"] assms(6) by (simp add: BATCH_def)
  then have inv: "push_inv a w"
    using assms(3-5) by (simp add: push_inv_def wf_outbox_def)
  from push_log_inv [OF assms(1,2) p inv] obtain new where i: "push_inv a w'"
    and new: "account_events a (w_srv w') = account_events a (w_srv w) @ new"
      "se_change_id ` set new \<subseteq> ob_change_id ` set (outbox (w_db w))" by blast
  have al: "acked_in_log a (w_db w') (w_srv w')" using i by (simp add: push_inv_def)
  have "map ob_change_id (outbox (w_db w')) = map ob_change_id (outbox (w_db w))"
    using outbox_step_ids [OF push_step [OF p]] assms(3) by (simp add: wf_outbox_def)
  then have ids: "ob_change_id ` set (outbox (w_db w')) = ob_change_id ` set (outbox (w_db w))"
    by (metis list.set_map)
  have "ob_change_id ` set (outbox (w_db w)) \<subseteq> se_change_id ` set (account_events a (w_srv w'))" if "r = Inr n" for n
  proof -
    have "pending_outbox_count (w_db w') = 0"
      using push_loop_drained [of en 0 w n w'] p that no_pending [of 255] by (simp add: push_def BATCH_def)
    then have "\<exists>n. ob_acked_seq row = Some n" if "row \<in> set (outbox (w_db w'))" for row
      using that by (auto simp: pending_outbox_count_def filter_empty_conv)
    with al show ?thesis unfolding ids [symmetric] acked_in_log_def by (metis image_subsetI rev_image_eqI)
  qed
  moreover have "\<exists>n. r = Inr n"
    if "\<forall>row \<in> set (outbox (w_db w)). ob_acked_seq row = None \<longrightarrow> row_ready en (w_blobs w) row"
    using push_loop_ready [OF assms(1,2) inv, of 0] that p by (auto simp: push_def open_rows_def)
  ultimately show ?thesis using p al new by blast
qed

section \<open>A concrete device\<close>

definition demo_change :: change_body where
  "demo_change = \<lparr>cb_entity_type = Tag, cb_entity_id = ''t'', cb_op = Upsert, cb_clock = Hlc 5 0 ''dev'',
     cb_base_version = None, cb_fields = [(''name'', JStr ''n'')],
     cb_blob_manifest = [\<lparr>bm_ct_hash = ''ct'', bm_role = ''raw'', bm_plaintext_hash = ''pt'', bm_plaintext_len = 4\<rparr>]\<rparr>"

definition map_blobs :: "(string \<Rightarrow> string option) blob_store" where
  "map_blobs = \<lparr>bs_load = (\<lambda>h m. Inr (m h)), bs_store = (\<lambda>h p m. (Inr (), m(h \<mapsto> p)))\<rparr>"

definition demo_device :: "string \<Rightarrow> (memory, string \<Rightarrow> string option) engine" where
  "demo_device dev = \<lparr>en_prims = demo_prims,
     en_codec = \<lparr>body_bytes = (\<lambda>_. ''body''), body_of_bytes = (\<lambda>_. Some demo_change)\<rparr>,
     en_sqlite = demo_sqlite, en_fsrs = demo_fs, en_transport = memory_transport,
     en_session = new_session demo_prims ''ark'' ''acct'' dev ''seed'' 0,
     en_directory = (\<lambda>d. if d = ''dev'' then Some ''pub'' else None), en_blobs = map_blobs, en_now = (\<lambda>_. 1)\<rparr>"

definition demo_world :: "db \<Rightarrow> memory \<Rightarrow> (memory, string \<Rightarrow> string option) world" where
  "demo_world db m = \<lparr>w_db = db, w_srv = m, w_blobs = [''pt'' \<mapsto> ''text''], w_nonces = 0, w_reads = 0\<rparr>"

definition queued_db :: db where
  "queued_db = snd (enqueue_outbox (en_codec (demo_device ''dev'')) demo_change demo_db)"

lemma demo_device_simps [simp]:
  "en_transport (demo_device d) = memory_transport" "cx_account (en_session (demo_device d)) = ''acct''"
  "w_db (demo_world db m) = db" "w_srv (demo_world db m) = m" "w_blobs (demo_world db m) = [''pt'' \<mapsto> ''text'']"
  by (simp_all add: demo_device_def new_session_def demo_world_def)

lemma demo_fresh: "fresh demo_db = (\<lambda>n. replicate n (CHR ''u''))"
  by (simp add: demo_db_def)

lemma queued_db_facts:
  "wf_outbox queued_db" "map ob_change_id (outbox queued_db) = [[]]"
  "\<forall>r \<in> set (outbox queued_db). ob_acked_seq r = None"
proof -
  have inj: "inj (\<lambda>n. replicate n (CHR ''u''))"
    by (auto intro!: injI dest: arg_cong [of _ _ length])
  show "wf_outbox queued_db"
    using inj by (simp add: queued_db_def demo_fresh enqueue_outbox_def new_uuid_def next_local_seq_def Let_def wf_outbox_def lessThan_Suc)
qed (simp_all add: queued_db_def enqueue_outbox_def new_uuid_def next_local_seq_def Let_def)

lemma demo_ready: "row_ready (demo_device d) [''pt'' \<mapsto> ''text''] row"
  by (simp add: row_ready_def demo_device_def demo_change_def map_blobs_def)

theorem push_drains_outbox_witness:
  "\<exists>r w'. push (demo_device ''dev'') (demo_world queued_db Map.empty) = (r, w') \<and> outbox_step queued_db (w_db w')"
  using push_drains_outbox [of "demo_world queued_db Map.empty" "demo_device ''dev''"] queued_db_facts(1) by auto

theorem pushed_changes_are_logged_witness:
  "\<exists>n w' ev. push (demo_device ''dev'') (demo_world queued_db Map.empty) = (Inr n, w')
    \<and> ev \<in> set (account_events ''acct'' (w_srv w')) \<and> se_change_id ev = []"
proof -
  let ?w = "demo_world queued_db Map.empty"
  have len: "length (outbox queued_db) = 1" using queued_db_facts(2) by (metis length_map length_Cons list.size(3) One_nat_def)
  have ids: "ob_change_id ` set (outbox queued_db) = {[]}" using queued_db_facts(2) by (metis list.set_map list.simps(15) empty_set)
  have "acked_in_log ''acct'' queued_db Map.empty"
    using queued_db_facts(3) by (simp add: acked_in_log_def)
  with pushed_changes_are_logged [of "demo_device ''dev''" "''acct''" ?w] queued_db_facts(1) len
  obtain r w' where "push (demo_device ''dev'') ?w = (r, w')"
    "\<forall>n. r = Inr n \<longrightarrow> ob_change_id ` set (outbox queued_db) \<subseteq> se_change_id ` set (account_events ''acct'' (w_srv w'))"
    "\<exists>n. r = Inr n"
    using demo_ready by auto
  with ids show ?thesis by auto
qed

end
