(* ===== verification/Engine_Pull.thy ===== *)
theory Engine_Pull
  imports Engine_Push
begin

text \<open>
  What a pull guarantees: it writes an event only when that event is of this account, of another
  device, new, signed by a known device and decrypts; it does so at most once; an error
  stops it before the cursor moves. Over the append log it returns, and then everything
  the log held has been seen.
\<close>

section \<open>What applying a change leaves alone\<close>

definition same_books :: "db \<Rightarrow> db \<Rightarrow> bool" where
  "same_books db db' \<longleftrightarrow> applied db' = applied db \<and> st_cursor_seq db' = st_cursor_seq db
     \<and> outbox db' = outbox db \<and> local_next db' = local_next db \<and> st_device_id db' = st_device_id db
     \<and> st_hlc_wall db' = st_hlc_wall db \<and> st_hlc_counter db' = st_hlc_counter db"

named_theorems books
  \<open>steps of the pull side that leave the bookkeeping tables alone\<close>

lemma books_refl [simp, books]: "same_books db db"
  by (simp add: same_books_def)

lemma books_trans: "same_books a b \<Longrightarrow> same_books b c \<Longrightarrow> same_books a c"
  by (simp add: same_books_def)

lemma books_updates [books]:
  "same_books a db \<Longrightarrow> same_books a (db\<lparr>store := c\<rparr>)"
  "same_books a db \<Longrightarrow> same_books a (set_entity_clock et i k ck db)"
  "same_books a db \<Longrightarrow> same_books a (save_set_edge et i m db)"
  "same_books a db \<Longrightarrow> same_books a (set_tombstone et i ck db)"
  "same_books a db \<Longrightarrow> same_books a (insert_conflict q et i k v ck db)"
  by (simp_all add: same_books_def set_entity_clock_def save_set_edge_def set_tombstone_def
      insert_conflict_def new_uuid_def)

lemma books_write_entity: "write_entity q et i fm oper db = Inr db' \<Longrightarrow> same_books db db'"
  by (auto simp: write_entity_iff intro!: books)

lemma books_preserve: "same_books db (preserve_unobserved_prose q body db)"
proof -
  have one: "same_books d (preserve_field q body p d)" for p d
    by (simp add: preserve_field_def Let_def books_updates split: option.split)
  have "same_books d (fold (preserve_field q body) ps d)" for ps d
  proof (induction ps arbitrary: d)
    case (Cons p ps)
    then show ?case using one [of d p] by (auto intro: books_trans)
  qed simp
  then show ?thesis by (simp add: preserve_unobserved_prose_def split: option.split)
qed

lemma books_recompute: "recompute_review_card q fs i db = Inr db' \<Longrightarrow> same_books db db'"
  by (auto simp: recompute_review_card_def write_derived_card_state_def Let_def result_iff
      intro!: books split: if_splits option.splits)

lemma books_apply_fields: "apply_fields q body db = Inr db' \<Longrightarrow> same_books db db'"
proof -
  assume a: "apply_fields q body db = Inr db'"
  let ?et = "cb_entity_type body" and ?i = "cb_entity_id body"
  have carry: "carry_out q body k v d x = Inr y \<Longrightarrow> same_books x y" for k v d x y
    by (cases d) (auto simp: carry_out_def Let_def write_one_field_def result_iff
        intro!: books)
  have one: "apply_one_field q body dead snap p x = Inr y \<Longrightarrow> same_books x y" for dead snap p x y
    by (auto simp: apply_one_field_def Let_def intro: carry intro!: books split: option.splits if_splits)
  from a obtain db1 where s: "(if read_entity q db ?et ?i = None \<and> tombstone db ?et ?i = None
      then write_entity q ?et ?i (cb_fields body) Upsert db else Inr db) = Inr db1"
    and f: "foldR (apply_one_field q body (tombstone db ?et ?i) (read_entity q db ?et ?i)) (cb_fields body) db1 = Inr db'"
    by (auto simp: apply_fields_def Let_def result_iff)
  have "same_books db db1" using s by (auto split: if_splits intro: books_write_entity)
  moreover have "same_books db1 db'"
    by (rule foldR_invariant [OF f]) (auto intro: one books_trans)
  ultimately show ?thesis by (rule books_trans)
qed

lemma books_apply_change:
  assumes "apply_change q fs body db = Inr db'"
  shows "same_books db db'"
proof (cases "is_edge (cb_entity_type body)")
  case True
  with assms show ?thesis
    by (auto simp: apply_change_def apply_edge_def Let_def edge_membership_def result_iff intro!: books)
next
  case edge: False
  show ?thesis
  proof (cases "cb_op body = Delete")
    case True
    have tomb: "same_books db (preserve_unobserved_prose q b (set_tombstone et i ck db))" for b et i ck
      by (rule books_trans [OF books_updates(4) books_preserve]) simp
    from True assms edge show ?thesis
      by (auto simp: apply_change_def apply_delete_def Let_def
          intro: tomb books_trans [OF tomb books_write_entity]
          split: if_splits)
  next
    case False
    have "same_books db (db\<lparr>store := c\<rparr>)" for c by (intro books)
    note re = books_trans [OF this books_recompute]
    from False assms edge show ?thesis
      by (auto simp: apply_change_def apply_review_log_def apply_review_card_def result_iff
          split: entity_type.splits option.splits if_splits intro: books_apply_fields re books)
  qed
qed

section \<open>One event\<close>

text \<open>The tests an event passes before anything of it is written.\<close>

definition authentic :: "('s, 'b) engine \<Rightarrow> stored_event \<Rightarrow> change_body \<Rightarrow> bool" where
  "authentic en ev body \<longleftrightarrow>
     (\<exists>pub ciphertext sig plaintext. en_directory en (se_device_id ev) = Some pub
        \<and> b64_decode (en_prims en) (se_ciphertext_b64 ev) = Some ciphertext
        \<and> b64_decode (en_prims en) (se_sig_b64 ev) = Some sig
        \<and> verify_event (en_prims en) pub (header_for ev) ciphertext sig = Inr ()
        \<and> decrypt_event (en_prims en) (content_key_at (en_prims en) (cx_ark (en_session en)) (se_key_epoch ev))
            (header_for ev) ciphertext = Inr plaintext
        \<and> body_of_bytes (en_codec en) plaintext = Some body)"

lemma verify_signature_ok:
  assumes "verify_signature en ev = Inr ()"
  shows "\<exists>pub ciphertext sig. en_directory en (se_device_id ev) = Some pub
        \<and> b64_decode (en_prims en) (se_ciphertext_b64 ev) = Some ciphertext
        \<and> b64_decode (en_prims en) (se_sig_b64 ev) = Some sig
        \<and> verify_event (en_prims en) pub (header_for ev) ciphertext sig = Inr ()"
  using assms
  by (auto simp: verify_signature_def verify_event_sig_def
      split: option.splits sum.splits crypto_error.splits if_splits)

lemma decrypt_change_ok:
  assumes "decrypt_change P cod cx ev = Inr body"
  shows "\<exists>ciphertext plaintext. b64_decode P (se_ciphertext_b64 ev) = Some ciphertext
        \<and> decrypt_event P (content_key_at P (cx_ark cx) (se_key_epoch ev)) (header_for ev) ciphertext = Inr plaintext
        \<and> body_of_bytes cod plaintext = Some body"
  using assms by (auto simp: decrypt_change_def split: option.splits sum.splits if_splits)

lemma authenticI:
  assumes "verify_signature en ev = Inr ()"
    and "decrypt_change (en_prims en) (en_codec en) (en_session en) ev = Inr body"
  shows "authentic en ev body"
  using verify_signature_ok [OF assms(1)] decrypt_change_ok [OF assms(2)]
  unfolding authentic_def by fastforce

lemma pull_event_Inr:
  assumes "pull_event en ev w = (Inr n, w')"
  shows "n = 0 \<and> w' = w \<and> (se_device_id ev = cx_device (en_session en) \<or> is_change_applied (w_db w) (se_change_id ev))
    \<or> n = 1 \<and> se_account_id ev = cx_account (en_session en) \<and> se_device_id ev \<noteq> cx_device (en_session en)
      \<and> \<not> is_change_applied (w_db w) (se_change_id ev)
      \<and> (\<exists>body now. authentic en ev body \<and> apply_event en ev body now (w_db w) = Inr (w_db w'))"
proof (cases "se_device_id ev = cx_device (en_session en) \<or> is_change_applied (w_db w) (se_change_id ev)")
  case True
  with assms show ?thesis by (auto simp: pull_event_def get_db_def bindA_def split: if_splits)
next
  case False
  with assms obtain body w1 now w2 where acct: "se_account_id ev = cx_account (en_session en)"
    and v: "verify_signature en ev = Inr ()"
    and d: "decrypt_change (en_prims en) (en_codec en) (en_session en) ev = Inr body"
    and f: "fetch_blobs en body (se_key_epoch ev) w = (Inr (), w1)" and t: "now_millis en w1 = (Inr now, w2)"
    and a: "in_transaction (apply_event en ev body now) w2 = (Inr (), w')" and n: "n = 1"
    by (auto simp: pull_event_def result_iff get_db_def from_res_def split: if_splits)
  have "w_db w2 = w_db w"
    using same_dbD [OF keeps_fetch_blobs f] same_dbD [OF keeps_same_db(5) t] by simp
  with a have "apply_event en ev body now (w_db w) = Inr (w_db w')"
    by (auto simp: in_transaction_def split: sum.splits)
  with False acct n authenticI [OF v d] show ?thesis by blast
qed

lemma pull_event_Inl:
  assumes "pull_event en ev w = (Inl e, w')"
  shows "w_db w' = w_db w"
proof -
  have tx: "in_transaction f v = (Inl e', v') \<Longrightarrow> w_db v' = w_db v" for f e' and v v' :: "('a, 'b) world"
    by (auto simp: in_transaction_def split: sum.splits)
  show ?thesis
    using assms
    by (auto simp: pull_event_def bindA_Inl_iff get_db_def from_res_def
        dest!: tx same_dbD [OF keeps_fetch_blobs] same_dbD [OF keeps_same_db(5)] split: if_splits)
qed

lemma apply_event_books:
  assumes "apply_event en ev body now db = Inr db'"
  shows "st_cursor_seq db' = st_cursor_seq db" "outbox db' = outbox db" "st_device_id db' = st_device_id db"
    "is_change_applied db' i \<longleftrightarrow> is_change_applied db i \<or> i = se_change_id ev"
proof -
  let ?db0 = "observe_remote_hlc (cb_clock body) now db"
  from assms obtain db1 where a: "apply_change (en_sqlite en) (en_fsrs en) body ?db0 = Inr db1"
    and db': "db' = mark_change_applied (se_change_id ev) (se_server_seq ev) db1"
    by (auto simp: apply_event_def result_iff)
  have o: "st_cursor_seq ?db0 = st_cursor_seq db" "outbox ?db0 = outbox db" "st_device_id ?db0 = st_device_id db"
    "applied ?db0 = applied db"
    by (simp_all add: observe_remote_hlc_def set_sync_hlc_def)
  from books_apply_change [OF a] o show "st_cursor_seq db' = st_cursor_seq db" "outbox db' = outbox db"
    "st_device_id db' = st_device_id db"
    "is_change_applied db' i \<longleftrightarrow> is_change_applied db i \<or> i = se_change_id ev"
    by (auto simp: same_books_def db' mark_change_applied_def is_change_applied_def)
qed

text \<open>
  C3. Nothing unverified is written: when handling a pulled event changes the database, the event
  names this account and another device, its change was not applied before, its signature
  over header and ciphertext verifies under the key the roster holds for that device, its
  ciphertext opens under the account's content key with that header, and the change is the
  one transaction that observes the clock, applies the body and records the change id.
\<close>
theorem pull_writes_only_authentic:
  assumes "pull_event en ev w = (r, w')" and "w_db w' \<noteq> w_db w"
  shows "r = Inr 1 \<and> se_account_id ev = cx_account (en_session en)
    \<and> se_device_id ev \<noteq> cx_device (en_session en) \<and> \<not> is_change_applied (w_db w) (se_change_id ev)
    \<and> is_change_applied (w_db w') (se_change_id ev)
    \<and> (\<exists>body now. authentic en ev body \<and> apply_event en ev body now (w_db w) = Inr (w_db w'))"
proof (cases r)
  case (Inl e)
  with assms pull_event_Inl show ?thesis by blast
next
  case (Inr n)
  from pull_event_Inr [OF assms(1) [unfolded this]] assms(2) obtain body now where
    c: "n = 1" "se_account_id ev = cx_account (en_session en)" "se_device_id ev \<noteq> cx_device (en_session en)"
      "\<not> is_change_applied (w_db w) (se_change_id ev)" "authentic en ev body"
    and a: "apply_event en ev body now (w_db w) = Inr (w_db w')" by blast
  with apply_event_books(4) [OF a, of "se_change_id ev"] Inr show ?thesis by blast
qed

section \<open>A page\<close>

definition seen :: "('s, 'b) engine \<Rightarrow> db \<Rightarrow> stored_event \<Rightarrow> bool" where
  "seen en db ev \<longleftrightarrow> se_device_id ev = cx_device (en_session en) \<or> is_change_applied db (se_change_id ev)"

definition pull_step :: "stored_event list \<Rightarrow> db \<Rightarrow> db \<Rightarrow> bool" where
  "pull_step evs db db' \<longleftrightarrow> st_cursor_seq db' = st_cursor_seq db \<and> outbox db' = outbox db
     \<and> (\<forall>i. is_change_applied db' i \<longrightarrow> is_change_applied db i \<or> i \<in> se_change_id ` set evs)
     \<and> (\<forall>i. is_change_applied db i \<longrightarrow> is_change_applied db' i)"

lemma pull_event_step:
  assumes "pull_event en ev w = (r, w')"
  shows "pull_step [ev] (w_db w) (w_db w')" and "r = Inr n \<Longrightarrow> seen en (w_db w') ev"
proof -
  show "pull_step [ev] (w_db w) (w_db w')"
  proof (cases r)
    case (Inl e)
    with pull_event_Inl assms have "w_db w' = w_db w" by blast
    then show ?thesis by (simp add: pull_step_def)
  next
    case (Inr n)
    from pull_event_Inr [OF assms [unfolded this]] show ?thesis
    proof (elim disjE conjE exE)
      fix body now
      assume "apply_event en ev body now (w_db w) = Inr (w_db w')"
      from apply_event_books [OF this] show ?thesis by (simp add: pull_step_def)
    qed (simp_all add: pull_step_def)
  qed
  show "seen en (w_db w') ev" if "r = Inr n"
    using pull_event_Inr [OF assms [unfolded that]]
  proof (elim disjE conjE exE)
    fix body now
    assume "apply_event en ev body now (w_db w) = Inr (w_db w')"
    from apply_event_books(4) [OF this] show ?thesis by (simp add: seen_def)
  qed (simp_all add: seen_def)
qed

lemma pull_events_step:
  assumes "collect (pull_event en) evs w = (r, w')"
  shows "pull_step evs (w_db w) (w_db w') \<and> (\<forall>ns. r = Inr ns \<longrightarrow> (\<forall>ev \<in> set evs. seen en (w_db w') ev))"
  using assms
proof (induction evs arbitrary: w r w')
  case Nil
  then show ?case by (auto simp: pull_step_def)
next
  case (Cons ev evs)
  obtain r1 w1 where 1: "pull_event en ev w = (r1, w1)" by (cases "pull_event en ev w")
  note s1 = pull_event_step [OF 1]
  show ?case
  proof (cases r1)
    case (Inl e)
    with Cons.prems 1 have "r = Inl e" "w' = w1" by simp_all
    with s1 show ?thesis by (auto simp: pull_step_def)
  next
    case (Inr n)
    obtain r2 w2 where 2: "collect (pull_event en) evs w1 = (r2, w2)" by (cases "collect (pull_event en) evs w1")
    with Cons.prems 1 Inr have w': "w' = w2" and r: "r = Inr ns \<Longrightarrow> \<exists>ms. r2 = Inr ms" for ns
      by (cases r2; simp)+
    note s2 = Cons.IH [OF 2]
    have "pull_step (ev # evs) (w_db w) (w_db w')"
      using s1(1) s2 by (auto simp: pull_step_def w')
    moreover have "seen en (w_db w') ev"
      using s1(2) [OF Inr] s2 by (auto simp: seen_def pull_step_def w')
    ultimately show ?thesis using s2 r w' by auto
  qed
qed

lemma pull_page_cases:
  assumes "pull_page en w = (r, w')"
  shows "outbox (w_db w') = outbox (w_db w)
    \<and> (\<forall>i. is_change_applied (w_db w) i \<longrightarrow> is_change_applied (w_db w') i)
    \<and> (case r of
         Inl _ \<Rightarrow> st_cursor_seq (w_db w') = st_cursor_seq (w_db w)
       | Inr None \<Rightarrow> w_db w' = w_db w
       | Inr (Some _) \<Rightarrow>
           (\<exists>page srv. tr_pull (en_transport en) (cx_account (en_session en)) (sync_cursor (w_db w))
                         (Some (of_nat BATCH)) (w_srv w) = (Inr page, srv)
              \<and> st_cursor_seq (w_db w') = clamp_i64 (pl_next_cursor page)
              \<and> (\<forall>ev \<in> set (pl_events page). seen en (w_db w') ev)))"
proof -
  obtain r1 s1 where p: "tr_pull (en_transport en) (cx_account (en_session en)) (sync_cursor (w_db w))
      (Some (of_nat BATCH)) (w_srv w) = (r1, s1)" by (meson surj_pair)
  let ?w1 = "w\<lparr>w_srv := s1\<rparr>"
  note u = pull_page_def bindA_def get_db_def on_srv_def p
  show ?thesis
  proof (cases r1)
    case (Inl e)
    with assms have "r = Inl e" "w' = ?w1" by (simp_all add: u)
    then show ?thesis by simp
  next
    case (Inr page)
    show ?thesis
    proof (cases "pl_events page = []")
      case True
      with assms Inr have "r = Inr None" "w' = ?w1" by (simp_all add: u)
      then show ?thesis by simp
    next
      case False
      obtain r2 w2 where c: "collect (pull_event en) (pl_events page) ?w1 = (r2, w2)"
        by (cases "collect (pull_event en) (pl_events page) ?w1")
      note st = pull_events_step [OF c]
      show ?thesis
      proof (cases r2)
        case (Inl e)
        with assms Inr False c have "r = Inl e" "w' = w2" by (simp_all add: u)
        with st show ?thesis by (simp add: pull_step_def)
      next
        case ns: (Inr ns)
        with assms Inr False c have "r = Inr (Some (sum_list ns, length (pl_events page) < BATCH))"
          "w' = w2\<lparr>w_db := set_sync_cursor (pl_next_cursor page) (w_db w2)\<rparr>"
          by (simp_all add: u modify_db_def)
        with st ns p Inr show ?thesis
          by (auto simp: pull_step_def set_sync_cursor_def seen_def is_change_applied_def)
      qed
    qed
  qed
qed

section \<open>The whole loop over the append log\<close>

definition same_srv :: "'s \<Rightarrow> ('s, 'b) world \<Rightarrow> bool" where
  "same_srv m w \<longleftrightarrow> w_srv w = m"

lemma keeps_same_srv [keeps]:
  "keeps_inv (same_srv m) (load_blob en h)"
  "keeps_inv (same_srv m) (store_blob en h p)" "keeps_inv (same_srv m) (now_millis en)"
  "keeps_inv (same_srv m) (get_db f)" "keeps_inv (same_srv m) (in_transaction g)"
  by (auto simp: keeps_inv_def same_srv_def on_srv_def load_blob_def store_blob_def
      now_millis_def get_db_def in_transaction_def split: prod.splits sum.splits option.splits)

lemma unat_BATCH: "unat (of_nat BATCH :: u32) = BATCH"
  by (simp add: BATCH_def)

lemma pull_page_steps:
  assumes "pull_page en w = (r, w')"
  shows "(\<forall>ev. seen en (w_db w) ev \<longrightarrow> seen en (w_db w') ev) \<and> outbox (w_db w') = outbox (w_db w)"
  using pull_page_cases [OF assms] by (simp add: seen_def)

text \<open>What the pull loop relies on: a transport that pages through the log of the account and
  whose reads leave the server alone.\<close>

locale log_transport = paged_log entries page ok size
  for entries :: "'s \<Rightarrow> stored_event list" and page :: "u64 \<Rightarrow> u32 \<Rightarrow> 's \<Rightarrow> pull_response"
    and ok :: "'s \<Rightarrow> bool" and size :: "u32 \<Rightarrow> nat" +
  fixes transp :: "'s transport" and acct :: string
  assumes pull_answer: "ok s \<Longrightarrow> tr_pull transp acct c (Some (of_nat BATCH)) s = (Inr (page c (of_nat BATCH) s), s)"
    and size_batch: "size (of_nat BATCH) = BATCH"
    and blob_get_reads: "ok s \<Longrightarrow> snd (tr_blob_get transp acct h s) = s"
begin

lemma pull_event_keeps_srv:
  assumes "en_transport en = transp" and "cx_account (en_session en) = acct" and "ok m"
  shows "keeps_inv (same_srv m) (pull_event en ev)"
proof -
  have get: "b = acct \<Longrightarrow> keeps_inv (same_srv m) (on_srv (tr_blob_get transp b h))" for b h
    using blob_get_reads [OF assms(3)] by (auto simp: keeps_inv_def same_srv_def on_srv_def split: prod.split) (metis snd_conv)
  show ?thesis
    by (auto simp: pull_event_def fetch_blobs_def fetch_one_def assms intro!: keeps get)
qed

lemma pull_page_log:
  assumes T: "en_transport en = transp" "cx_account (en_session en) = acct" and ok: "ok (w_srv w)"
    and p: "pull_page en w = (r, w')" and pg: "pg = page (sync_cursor (w_db w)) (of_nat BATCH) (w_srv w)"
  shows "w_srv w' = w_srv w
    \<and> (pl_events pg = [] \<longrightarrow> r = Inr None \<and> w_db w' = w_db w)
    \<and> (\<forall>n. r = Inr n \<and> pl_events pg \<noteq> [] \<longrightarrow> (\<exists>k. n = Some (k, length (pl_events pg) < BATCH))
         \<and> st_cursor_seq (w_db w') = clamp_i64 (pl_next_cursor pg)
         \<and> (\<forall>ev \<in> set (pl_events pg). seen en (w_db w') ev))"
proof -
  have pull: "on_srv (tr_pull (en_transport en) (cx_account (en_session en)) (sync_cursor (w_db w))
      (Some (of_nat BATCH))) w = (Inr pg, w)"
    by (simp add: on_srv_def T pull_answer [OF ok] pg)
  note u = pull_page_def bindA_def get_db_def pull
  show ?thesis
  proof (cases "pl_events pg = []")
    case True
    with p have "r = Inr None" "w' = w" by (simp_all add: u)
    with True show ?thesis by simp
  next
    case False
    obtain r2 w2 where c: "collect (pull_event en) (pl_events pg) w = (r2, w2)"
      by (cases "collect (pull_event en) (pl_events pg) w")
    have "keeps_inv (same_srv (w_srv w)) (collect (pull_event en) (pl_events pg))"
      by (intro keeps pull_event_keeps_srv T ok)
    from keepsD [OF this _ c] have srv: "w_srv w2 = w_srv w" by (simp add: same_srv_def)
    show ?thesis
    proof (cases r2)
      case (Inl e)
      with p False c srv show ?thesis by (auto simp: u)
    next
      case (Inr ns)
      with p False c have "r = Inr (Some (sum_list ns, length (pl_events pg) < BATCH))"
        "w' = w2\<lparr>w_db := set_sync_cursor (pl_next_cursor pg) (w_db w2)\<rparr>"
        by (simp_all add: u modify_db_def)
      with pull_events_step [OF c] Inr srv False show ?thesis
        by (auto simp: set_sync_cursor_def seen_def is_change_applied_def)
    qed
  qed
qed

text \<open>One page moves the cursor to the last event it brought, never past one it did not handle.\<close>

lemma page_cursor:
  assumes T: "en_transport en = transp" "cx_account (en_session en) = acct" and ok: "ok (w_srv w)"
    and es: "es = entries (w_srv w)" and small: "\<forall>ev \<in> set es. se_server_seq ev \<le> i64_max"
    and p: "pull_page en w = (r, w')"
  shows "w_srv w' = w_srv w
    \<and> (case r of
         Inl _ \<Rightarrow> st_cursor_seq (w_db w') = st_cursor_seq (w_db w)
       | Inr None \<Rightarrow> w_db w' = w_db w \<and> after_cursor (st_cursor_seq (w_db w)) es = []
       | Inr (Some _) \<Rightarrow> st_cursor_seq (w_db w) < st_cursor_seq (w_db w'))
    \<and> (\<forall>ev \<in> set es. st_cursor_seq (w_db w) < se_server_seq ev \<and> se_server_seq ev \<le> st_cursor_seq (w_db w')
         \<longrightarrow> seen en (w_db w') ev)"
proof -
  let ?c = "st_cursor_seq (w_db w)" and ?c' = "st_cursor_seq (w_db w')"
  define pg where "pg = page (sync_cursor (w_db w)) (of_nat BATCH) (w_srv w)"
  note pm = pull_page_log [OF T ok p pg_def] and pc = pull_page_cases [OF p]
  have evs: "pl_events pg = take BATCH (after_cursor ?c es)"
    using pull_page [OF ok, of ?c "of_nat BATCH"] by (simp add: pg_def sync_cursor_def size_batch es)
  show ?thesis
  proof (cases "pl_events pg = []")
    case True
    then have "after_cursor ?c es = []" using evs by (simp add: BATCH_def)
    with True pm show ?thesis by auto
  next
    case ne: False
    show ?thesis
    proof (cases r)
      case (Inl e)
      with pm pc show ?thesis by auto
    next
      case (Inr o1)
      with pm ne obtain k where o1: "o1 = Some k" and cur: "?c' = clamp_i64 (pl_next_cursor pg)"
        and here: "\<forall>ev \<in> set (pl_events pg). seen en (w_db w') ev" and srv: "w_srv w' = w_srv w" by blast
      have last: "last (pl_events pg) \<in> set (after_cursor ?c es)"
        using last_in_set [OF ne] set_take_subset [of BATCH "after_cursor ?c es"] unfolding evs by auto
      then have in_es: "last (pl_events pg) \<in> set es" and less: "?c < se_server_seq (last (pl_events pg))"
        by (simp_all add: after_cursor_def)
      have n: "pl_next_cursor pg = se_server_seq (last (pl_events pg))"
        using ne pull_cursor [OF ok, of ?c "of_nat BATCH"] by (simp add: pg_def sync_cursor_def)
      then have c': "?c' = se_server_seq (last (pl_events pg))" and cn: "?c' = pl_next_cursor pg"
        using small in_es cur by simp_all
      have rest: "after_cursor ?c' es = drop BATCH (after_cursor ?c es)"
        using next_page [OF ok, of ?c "of_nat BATCH"] ne
        by (simp add: pg_def sync_cursor_def size_batch cn es)
      have "seen en (w_db w') ev" if ev: "ev \<in> set es" "?c < se_server_seq ev" "se_server_seq ev \<le> ?c'" for ev
      proof -
        have "ev \<in> set (after_cursor ?c es)" "ev \<notin> set (after_cursor ?c' es)"
          using ev by (simp_all add: after_cursor_def)
        then have "ev \<in> set (pl_events pg)"
          unfolding rest evs by (metis Un_iff append_take_drop_id set_append)
        with here show ?thesis by blast
      qed
      with srv less Inr o1 c' show ?thesis by simp
    qed
  qed
qed

lemma pull_loop_log:
  assumes T: "en_transport en = transp" "cx_account (en_session en) = acct" and ok: "ok (w_srv w)"
    and es: "es = entries (w_srv w)"
    and small: "\<forall>ev \<in> set es. se_server_seq ev \<le> i64_max"
    and "length (after_cursor (st_cursor_seq (w_db w)) es) < fuel"
  shows "\<exists>r w'. pull_loop en fuel acc w = Some (r, w') \<and> w_srv w' = w_srv w
    \<and> outbox (w_db w') = outbox (w_db w)
    \<and> (\<forall>ev. seen en (w_db w) ev \<longrightarrow> seen en (w_db w') ev)
    \<and> (\<forall>n. r = Inr n \<longrightarrow> after_cursor (st_cursor_seq (w_db w')) es = []
         \<and> (\<forall>ev \<in> set (after_cursor (st_cursor_seq (w_db w)) es). seen en (w_db w') ev))"
  using assms(3,4,6)
proof (induction fuel arbitrary: acc w)
  case 0
  then show ?case by simp
next
  case (Suc fuel)
  let ?c = "st_cursor_seq (w_db w)"
  define pg where "pg = page (sync_cursor (w_db w)) (of_nat BATCH) (w_srv w)"
  obtain r w1 where p: "pull_page en w = (r, w1)" by (cases "pull_page en w")
  note pm = pull_page_log [OF T Suc.prems(1) p pg_def] and st = pull_page_steps [OF p]
  have evs: "pl_events pg = take BATCH (after_cursor ?c es)"
    using pull_page [OF Suc.prems(1), of ?c "of_nat BATCH"] Suc.prems(2)
    by (simp add: pg_def sync_cursor_def size_batch)
  show ?case
  proof (cases "pl_events pg = []")
    case True
    then have "after_cursor ?c es = []" using evs by (simp add: BATCH_def)
    with True pm p show ?thesis by auto
  next
    case ne: False
    show ?thesis
    proof (cases r)
      case (Inl e)
      with p pm st show ?thesis by auto
    next
      case (Inr o1)
      with pm ne obtain k where o1: "o1 = Some (k, length (pl_events pg) < BATCH)"
        and cur: "st_cursor_seq (w_db w1) = clamp_i64 (pl_next_cursor pg)"
        and page_seen: "\<forall>ev \<in> set (pl_events pg). seen en (w_db w1) ev" and srv: "w_srv w1 = w_srv w" by blast
      have "pl_next_cursor pg = se_server_seq (last (pl_events pg))"
        using ne pull_cursor [OF Suc.prems(1), of ?c "of_nat BATCH"]
        by (simp add: pg_def sync_cursor_def)
      moreover have "last (pl_events pg) \<in> set es"
        using last_in_set [OF ne] set_take_subset [of BATCH "after_cursor ?c es"] unfolding evs
        by (auto simp: after_cursor_def)
      ultimately have cur': "st_cursor_seq (w_db w1) = pl_next_cursor pg"
        using small cur by simp
      have rest: "after_cursor (st_cursor_seq (w_db w1)) es = drop BATCH (after_cursor ?c es)"
        using next_page [OF Suc.prems(1), of ?c "of_nat BATCH"] ne Suc.prems(2)
        by (simp add: pg_def sync_cursor_def size_batch cur')
      have split: "ev \<in> set (pl_events pg) \<or> ev \<in> set (after_cursor (st_cursor_seq (w_db w1)) es)"
        if "ev \<in> set (after_cursor ?c es)" for ev
        using that unfolding rest evs by (metis Un_iff append_take_drop_id set_append)
      show ?thesis
      proof (cases "length (pl_events pg) < BATCH")
        case True
        then have "length (after_cursor ?c es) \<le> BATCH" using evs by simp
        then have "after_cursor (st_cursor_seq (w_db w1)) es = []" using rest by simp
        with True p Inr o1 srv st split page_seen show ?thesis by auto
      next
        case False
        have "length (after_cursor (st_cursor_seq (w_db w1)) es) < fuel"
        proof -
          have "after_cursor ?c es \<noteq> []" using ne evs by auto
          then have "0 < length (after_cursor ?c es)" by simp
          with Suc.prems(3) have "length (after_cursor ?c es) - 256 < fuel" by linarith
          then show ?thesis unfolding rest by (simp add: BATCH_def)
        qed
        from Suc.IH [of w1 "acc + k", OF _ _ this] Suc.prems(1,2) srv obtain r2 w2 where
          l: "pull_loop en fuel (acc + k) w1 = Some (r2, w2)" and srv2: "w_srv w2 = w_srv w"
          and ob: "outbox (w_db w2) = outbox (w_db w1)" and m: "\<forall>ev. seen en (w_db w1) ev \<longrightarrow> seen en (w_db w2) ev"
          and fin: "\<forall>n. r2 = Inr n \<longrightarrow> after_cursor (st_cursor_seq (w_db w2)) es = []
             \<and> (\<forall>ev \<in> set (after_cursor (st_cursor_seq (w_db w1)) es). seen en (w_db w2) ev)" by auto
        have "pull_loop en (Suc fuel) acc w = Some (r2, w2)"
          using p Inr o1 False l by simp
        moreover have "\<forall>ev \<in> set (after_cursor ?c es). seen en (w_db w2) ev" if "r2 = Inr n" for n
          using split page_seen m fin that by blast
        ultimately show ?thesis using srv2 ob m fin st by auto
      qed
    qed
  qed
qed

lemma loop_end:
  assumes "en_transport en = transp" and "cx_account (en_session en) = acct" and "ok (w_srv w)"
    and "es = entries (w_srv w)"
    and "\<forall>ev \<in> set es. se_server_seq ev \<le> i64_max"
    and "length (after_cursor (st_cursor_seq (w_db w)) es) < fuel"
  shows "\<exists>r w'. pull en fuel w = Some (r, w') \<and> w_srv w' = w_srv w \<and> outbox (w_db w') = outbox (w_db w)
    \<and> (\<forall>ev. seen en (w_db w) ev \<longrightarrow> seen en (w_db w') ev)
    \<and> (\<forall>n. r = Inr n \<longrightarrow>
         (\<forall>ev \<in> set (after_cursor (st_cursor_seq (w_db w)) es). seen en (w_db w') ev)
         \<and> after_cursor (st_cursor_seq (w_db w')) es = []
         \<and> (\<exists>w''. pull en 1 w' = Some (Inr 0, w'') \<and> w_db w'' = w_db w'))"
proof -
  from pull_loop_log [OF assms, of 0] obtain r w' where p: "pull en fuel w = Some (r, w')"
    and srv: "w_srv w' = w_srv w" and ob: "outbox (w_db w') = outbox (w_db w)"
    and m: "\<forall>ev. seen en (w_db w) ev \<longrightarrow> seen en (w_db w') ev"
    and fin: "\<forall>n. r = Inr n \<longrightarrow> after_cursor (st_cursor_seq (w_db w')) es = []
         \<and> (\<forall>ev \<in> set (after_cursor (st_cursor_seq (w_db w)) es). seen en (w_db w') ev)"
    unfolding pull_def by blast
  have "\<exists>w''. pull en 1 w' = Some (Inr 0, w'') \<and> w_db w'' = w_db w'" if "r = Inr n" for n
  proof -
    have ok': "ok (w_srv w')" using assms(3) srv by simp
    have e: "pl_events (page (sync_cursor (w_db w')) (of_nat BATCH) (w_srv w')) = []"
      using pull_page [OF ok', of "sync_cursor (w_db w')" "of_nat BATCH"]
        fin that assms(4) srv by (simp add: sync_cursor_def)
    obtain r1 w1 where p1: "pull_page en w' = (r1, w1)" by (cases "pull_page en w'")
    from pull_page_log [OF assms(1,2) ok' p1 refl] e have "r1 = Inr None" "w_db w1 = w_db w'" by auto
    with p1 show ?thesis by (simp add: pull_def)
  qed
  with p srv ob m fin show ?thesis by blast
qed

end

interpretation memory_end: log_transport "account_events a" "\<lambda>c n. memory_page a c (Some n)" memory_ok unat
    memory_transport a
  for a :: string
proof unfold_locales
  fix m :: memory and c
  show "tr_pull memory_transport a c (Some (of_nat BATCH)) m = (Inr (memory_page a c (Some (of_nat BATCH)) m), m)"
    by (simp add: memory_pull_def)
next
  fix m :: memory and h
  show "snd (tr_blob_get memory_transport a h m) = m"
    by (simp add: memory_blob_get_def split: option.split)
qed (rule unat_BATCH)

text \<open>
  C18. Over the append log, as long as its numbers fit the 63 bits of the cursor column, the
  cursor never passes an event that was not handled. A page that ends in an
  error leaves the cursor where it was, one that finds the log exhausted changes nothing, any other
  moves the cursor forward; every event of the log between the old cursor and the new one is
  then this device's own or recorded as applied, so if all events up to the cursor were handled
  before the page, all events up to the new cursor are handled after it. A page leaves the log and
  the outbox as they were and forgets no applied change.
\<close>
theorem pull_page_keeps_cursor:
  assumes "en_transport en = memory_transport" and "memory_ok (w_srv w)"
    and "es = account_events (cx_account (en_session en)) (w_srv w)"
    and "\<forall>ev \<in> set es. se_server_seq ev \<le> i64_max" and "pull_page en w = (r, w')"
  shows "w_srv w' = w_srv w \<and> outbox (w_db w') = outbox (w_db w)
    \<and> (\<forall>i. is_change_applied (w_db w) i \<longrightarrow> is_change_applied (w_db w') i)
    \<and> (case r of
         Inl _ \<Rightarrow> st_cursor_seq (w_db w') = st_cursor_seq (w_db w)
       | Inr None \<Rightarrow> w_db w' = w_db w \<and> after_cursor (st_cursor_seq (w_db w)) es = []
       | Inr (Some _) \<Rightarrow> st_cursor_seq (w_db w) < st_cursor_seq (w_db w'))
    \<and> (\<forall>ev \<in> set es. st_cursor_seq (w_db w) < se_server_seq ev \<and> se_server_seq ev \<le> st_cursor_seq (w_db w')
         \<longrightarrow> seen en (w_db w') ev)
    \<and> ((\<forall>ev \<in> set es. se_server_seq ev \<le> st_cursor_seq (w_db w) \<longrightarrow> seen en (w_db w) ev) \<longrightarrow>
         (\<forall>ev \<in> set es. se_server_seq ev \<le> st_cursor_seq (w_db w') \<longrightarrow> seen en (w_db w') ev))"
proof -
  note pc = pull_page_cases [OF assms(5)] and m = pull_page_steps [OF assms(5)]
    and c = memory_end.page_cursor [OF assms(1) refl assms(2-5)]
  have "seen en (w_db w') ev"
    if "\<forall>ev \<in> set es. se_server_seq ev \<le> st_cursor_seq (w_db w) \<longrightarrow> seen en (w_db w) ev" "ev \<in> set es"
      "se_server_seq ev \<le> st_cursor_seq (w_db w')" for ev
    using that m c by (cases "se_server_seq ev \<le> st_cursor_seq (w_db w)") auto
  with pc c show ?thesis by blast
qed

text \<open>
  C14. Over the append log a pull returns: more fuel than there are events past the cursor is
  enough. It changes neither the log nor the outbox and forgets nothing it has seen; when it
  returns normally, every event the log held past the old cursor is this device's own or
  recorded as applied, none is left past the new cursor, and a further pull changes nothing.
\<close>
theorem pull_reaches_the_end:
  assumes "en_transport en = memory_transport" and "memory_ok (w_srv w)"
    and "es = account_events (cx_account (en_session en)) (w_srv w)"
    and "\<forall>ev \<in> set es. se_server_seq ev \<le> i64_max"
    and "length (after_cursor (st_cursor_seq (w_db w)) es) < fuel"
  shows "\<exists>r w'. pull en fuel w = Some (r, w') \<and> w_srv w' = w_srv w \<and> outbox (w_db w') = outbox (w_db w)
    \<and> (\<forall>ev. seen en (w_db w) ev \<longrightarrow> seen en (w_db w') ev)
    \<and> (\<forall>n. r = Inr n \<longrightarrow>
         (\<forall>ev \<in> set (after_cursor (st_cursor_seq (w_db w)) es). seen en (w_db w') ev)
         \<and> after_cursor (st_cursor_seq (w_db w')) es = []
         \<and> (\<exists>w''. pull en 1 w' = Some (Inr 0, w'') \<and> w_db w'' = w_db w'))"
  by (rule memory_end.loop_end [OF assms(1) refl assms(2-5)])

section \<open>From one device to another\<close>

lemma header_for_stored:
  "encrypt_change P cod cx nonce change_id body = Inr ev \<Longrightarrow>
   header_for (stored_of ev seq) =
     \<lparr>eh_protocol_version = PROTOCOL_VERSION, eh_account_id = cx_account cx, eh_device_id = cx_device cx,
      eh_change_id = change_id, eh_key_epoch = cx_epoch cx,
      eh_entity_ref = Some (entity_ref P (cx_stream_key cx) (et_as_str (cb_entity_type body)) (cb_entity_id body)),
      eh_blob_refs = blob_refs body\<rparr>"
  by (auto simp: encrypt_change_def header_for_def stored_of_def Let_def split: sum.splits)

text \<open>The primitives' contract for signatures and base64.\<close>

definition signing_ok :: "prims \<Rightarrow> string \<Rightarrow> string \<Rightarrow> bool" where
  "signing_ok P seed pub \<longleftrightarrow> (\<forall>m. ed25519_verify P pub m (ed25519_sign P seed m) = Inr ()
     \<and> length (ed25519_sign P seed m) = SIG_LEN) \<and> (\<forall>s. b64_decode P (b64_encode P s) = Some s)"

lemma peer_reads_change:
  assumes "aead_ok P" and "signing_ok P (cx_signing cx) pub"
    and "body_of_bytes cod (body_bytes cod body) = Some body"
    and "en_prims en = P" and "en_codec en = cod" and "en_directory en (cx_device cx) = Some pub"
    and "cx_ark (en_session en) = cx_ark cx" and "cx_account (en_session en) = cx_account cx"
  shows "\<exists>ev. encrypt_change P cod cx (random_nonce P i) change_id body = Inr ev
    \<and> verify_signature en (stored_of ev seq) = Inr ()
    \<and> decrypt_change P cod (en_session en) (stored_of ev seq) = Inr body"
proof -
  let ?n = "random_nonce P i"
  let ?ack = "content_key_at P (cx_ark cx) (cx_epoch cx)"
  obtain ev where e: "encrypt_change P cod cx ?n change_id body = Inr ev"
    using encrypt_change_total [of P cod cx ?n change_id body] by blast
  define h where "h = header_for (stored_of ev seq)"
  note hd = header_for_stored [OF e, of seq]
  have ep: "eh_key_epoch h = ack_epoch ?ack" by (simp add: h_def hd content_key_at_def)
  define c where "c = aead_seal P ?n (event_key P ?ack (eh_change_id h)) (aad_bytes h) (body_bytes cod body)"
  have c: "encrypt_event P ?n ?ack h (body_bytes cod body) = Inr c"
    using ep by (simp add: encrypt_event_def c_def)
  have ct: "se_ciphertext_b64 (stored_of ev seq) = b64_encode P c"
    and sg: "se_sig_b64 (stored_of ev seq) = b64_encode P (sign_event P (cx_signing cx) h c)"
    and id: "se_device_id (stored_of ev seq) = cx_device cx" "se_account_id (stored_of ev seq) = cx_account cx"
      "se_key_epoch (stored_of ev seq) = cx_epoch cx"
    using e c [unfolded h_def hd] unfolding h_def hd
    by (auto simp: encrypt_change_def stored_of_def Let_def split: sum.splits)
  have n: "length ?n = NONCE_LEN" using assms(1) by (simp add: aead_ok_def)
  have "decrypt_event P ?ack h c = Inr (body_bytes cod body)"
    using assms(1) ep by (simp add: c_def decrypt_event_def aead_open_seal [OF assms(1) n]) (simp add: aead_ok_def)
  then have "decrypt_change P cod (en_session en) (stored_of ev seq) = Inr body"
    using assms(2,3,7,8) id ct by (simp add: decrypt_change_def signing_ok_def h_def)
  moreover have "verify_signature en (stored_of ev seq) = Inr ()"
    using assms(2,4,6) id ct sg
    by (simp add: verify_signature_def verify_event_sig_def signing_ok_def h_def [symmetric]
        sign_event_def verify_event_def)
  ultimately show ?thesis using e by blast
qed

text \<open>
  What one device pushes, every other device of the account can read: the event a session
  builds from a change, stored by the server under any sequence number, passes the
  signature check of a peer whose roster holds the device's public key and opens to the
  same change body, whatever epoch each side is at.
\<close>
theorem pushed_change_is_readable:
  assumes "aead_ok P" and "signing_ok P (cx_signing cx) pub"
    and "body_of_bytes cod (body_bytes cod body) = Some body"
    and "en_prims en = P" and "en_codec en = cod" and "en_directory en (cx_device cx) = Some pub"
    and "cx_ark (en_session en) = cx_ark cx" and "cx_account (en_session en) = cx_account cx"
  shows "\<exists>ev. encrypt_change P cod cx (random_nonce P i) change_id body = Inr ev
    \<and> verify_signature en (stored_of ev seq) = Inr ()
    \<and> decrypt_change P cod (en_session en) (stored_of ev seq) = Inr body"
  using assms by (rule peer_reads_change)

section \<open>A concrete peer\<close>

text \<open>The event the first device uploads for its change, as the server stores it.\<close>

definition demo_stored :: stored_event where
  "demo_stored = stored_of (projr (encrypt_change demo_prims (en_codec (demo_device ''dev''))
     (en_session (demo_device ''dev'')) (random_nonce demo_prims 0) ''c1'' demo_change)) 1"

lemma demo_contract:
  "signing_ok demo_prims seed pub" "en_prims (demo_device d) = demo_prims"
  "body_of_bytes (en_codec (demo_device d)) bs = Some demo_change"
  "en_directory (demo_device d) (cx_device (en_session (demo_device ''dev''))) = Some ''pub''"
  "cx_ark (en_session (demo_device d)) = ''ark''" "cx_device (en_session (demo_device d)) = d"
  "en_codec (demo_device d) = en_codec (demo_device ''dev'')"
  "en_blobs (demo_device d) = map_blobs" "en_sqlite (demo_device d) = demo_sqlite" "en_fsrs (demo_device d) = demo_fs"
  by (simp_all add: signing_ok_def demo_prims_def demo_device_def new_session_def)

theorem pushed_change_is_readable_witness:
  "\<exists>ev. encrypt_change demo_prims (en_codec (demo_device ''dev'')) (en_session (demo_device ''dev''))
      (random_nonce demo_prims 0) ''c1'' demo_change = Inr ev
    \<and> decrypt_change demo_prims (en_codec (demo_device ''dev'')) (en_session (demo_device ''peer'')) (stored_of ev 1)
      = Inr demo_change"
  using pushed_change_is_readable [of demo_prims "en_session (demo_device ''dev'')" "''pub''" "en_codec (demo_device ''dev'')"
      demo_change "demo_device ''peer''" 0 "''c1''" 1] demo_aead_ok demo_contract(1-6) demo_contract(7) [of "''peer''"]
    by auto

lemma demo_stored_reads:
  "verify_signature (demo_device ''peer'') demo_stored = Inr ()"
  "decrypt_change demo_prims (en_codec (demo_device ''peer'')) (en_session (demo_device ''peer'')) demo_stored = Inr demo_change"
  "se_account_id demo_stored = ''acct''" "se_device_id demo_stored = ''dev''"
proof -
  obtain ev where ev: "encrypt_change demo_prims (en_codec (demo_device ''dev'')) (en_session (demo_device ''dev''))
      (random_nonce demo_prims 0) ''c1'' demo_change = Inr ev"
    and r: "verify_signature (demo_device ''peer'') (stored_of ev 1) = Inr ()"
      "decrypt_change demo_prims (en_codec (demo_device ''dev'')) (en_session (demo_device ''peer'')) (stored_of ev 1)
        = Inr demo_change"
    using peer_reads_change [of demo_prims "en_session (demo_device ''dev'')" "''pub''" "en_codec (demo_device ''dev'')"
      demo_change "demo_device ''peer''" 0 "''c1''" 1] demo_aead_ok demo_contract(1-6) demo_contract(7) [of "''peer''"]
    by auto
  have st: "demo_stored = stored_of ev 1" by (simp add: demo_stored_def ev)
  show "verify_signature (demo_device ''peer'') demo_stored = Inr ()"
    "decrypt_change demo_prims (en_codec (demo_device ''peer'')) (en_session (demo_device ''peer'')) demo_stored = Inr demo_change"
    using r by (simp_all add: st demo_contract(7) [of "''peer''"])
  show "se_account_id demo_stored = ''acct''" "se_device_id demo_stored = ''dev''"
    using ev by (auto simp: st stored_of_def encrypt_change_def Let_def demo_contract(5,6) split: sum.splits)
qed

lemma demo_event_applies:
  "store db = empty_canon \<Longrightarrow> tombs db = (\<lambda>_. None) \<Longrightarrow> clocks db = (\<lambda>_. None) \<Longrightarrow>
   \<exists>db'. apply_event (demo_device d) demo_stored demo_change now db = Inr db'"
  by (simp add: apply_event_def apply_change_def demo_change_def is_edge_def apply_fields_def Let_def
      observe_remote_hlc_def set_sync_hlc_def tombstone_def read_entity_def read_entity_fields_def read_columns_def
      tbl_get_def empty_canon_def demo_contract write_entity_def write_single single_table_def
      reject_unknown_columns_def upsert_single_def exec_sql_def apply_one_field_def carry_out_def merge_at_def
      entity_clock_def merge_field_def merge_lww_def write_one_field_def tbl_put_def)

definition demo_log :: memory where
  "demo_log = [''acct'' \<mapsto> \<lparr>al_events = [demo_stored], al_by_change = [''c1'' \<mapsto> 1],
     al_blobs = Map.empty, al_next_seq = 2\<rparr>]"

lemma demo_stored_ids [simp]: "se_change_id demo_stored = ''c1''" "se_server_seq demo_stored = 1"
proof -
  obtain ev where ev: "encrypt_change demo_prims (en_codec (demo_device ''dev'')) (en_session (demo_device ''dev''))
      (random_nonce demo_prims 0) ''c1'' demo_change = Inr ev" "ei_change_id ev = ''c1''"
    using encrypt_change_total by blast
  then show "se_change_id demo_stored = ''c1''" "se_server_seq demo_stored = 1"
    by (simp_all add: demo_stored_def stored_of_def)
qed

lemma demo_log_facts:
  "memory_ok demo_log" "account_events ''acct'' demo_log = [demo_stored]"
  "memory_page ''acct'' 0 (Some 256) demo_log =
     \<lparr>pl_events = [demo_stored], pl_high_water_seq = 1, pl_next_cursor = 1\<rparr>"
  using demo_stored_reads(3)
  by (simp_all add: memory_ok_def demo_log_def log_inv_def account_events_def account_of_def memory_page_def
      high_water_def Let_def fun_eq_iff)

lemma demo_pull_event:
  "\<exists>w'. pull_event (demo_device ''peer'') demo_stored (demo_world demo_db m) = (Inr 1, w')
    \<and> w_srv w' = m \<and> is_change_applied (w_db w') ''c1''"
proof -
  let ?en = "demo_device ''peer''" and ?w = "demo_world demo_db m"
  have f: "fetch_blobs ?en demo_change k ?w = (Inr (), ?w)" for k
    by (simp add: fetch_blobs_def demo_change_def fetch_one_def bindA_def load_blob_def demo_contract(8) map_blobs_def)
  obtain now w1 where t: "now_millis ?en ?w = (Inr now, w1)" "w_db w1 = demo_db" "w_srv w1 = m"
    by (simp add: now_millis_def)
  obtain db' where a: "apply_event ?en demo_stored demo_change now demo_db = Inr db'"
    using demo_event_applies [of demo_db "''peer''" now] by auto
  have "\<not> is_change_applied demo_db ''c1''" by (simp add: is_change_applied_def)
  then have "pull_event ?en demo_stored ?w = (Inr 1, w1\<lparr>w_db := db'\<rparr>)"
    using demo_stored_reads f t a
    by (simp add: pull_event_def bindA_def get_db_def from_res_def in_transaction_def demo_contract(2,6))
  with t apply_event_books(4) [OF a, of "''c1''"] show ?thesis by simp
qed

theorem pull_writes_only_authentic_witness:
  "\<exists>w'. pull_event (demo_device ''peer'') demo_stored (demo_world demo_db Map.empty) = (Inr 1, w')
    \<and> authentic (demo_device ''peer'') demo_stored demo_change"
proof -
  obtain w' where p: "pull_event (demo_device ''peer'') demo_stored (demo_world demo_db Map.empty) = (Inr 1, w')"
    and i: "is_change_applied (w_db w') ''c1''" using demo_pull_event by blast
  have "w_db w' \<noteq> demo_db" using i by (auto simp: is_change_applied_def)
  with pull_writes_only_authentic [OF p] obtain body where
    "authentic (demo_device ''peer'') demo_stored body" by auto
  moreover have "body = demo_change" if "authentic (demo_device ''peer'') demo_stored body" for body
    using that demo_contract(3) by (auto simp: authentic_def)
  ultimately show ?thesis using p by blast
qed

lemma demo_pull_page:
  "\<exists>w'. pull_page (demo_device ''peer'') (demo_world demo_db demo_log) = (Inr (Some (1, True)), w')"
proof -
  let ?w = "demo_world demo_db demo_log"
  obtain w' where e: "pull_event (demo_device ''peer'') demo_stored ?w = (Inr 1, w')"
    using demo_pull_event by blast
  have "?w\<lparr>w_srv := demo_log\<rparr> = ?w" by (simp add: demo_world_def)
  with e demo_log_facts(3) show ?thesis
    by (simp add: pull_page_def bindA_def get_db_def on_srv_def memory_pull_def sync_cursor_def BATCH_def
        ret_def modify_db_def)
qed

theorem pull_page_keeps_cursor_witness:
  "\<exists>w'. pull_page (demo_device ''peer'') (demo_world demo_db demo_log) = (Inr (Some (1, True)), w')
    \<and> st_cursor_seq demo_db < st_cursor_seq (w_db w') \<and> seen (demo_device ''peer'') (w_db w') demo_stored"
proof -
  let ?en = "demo_device ''peer''" and ?w = "demo_world demo_db demo_log"
  obtain w' where p: "pull_page ?en ?w = (Inr (Some (1, True)), w')"
    using demo_pull_page by blast
  have t: "en_transport ?en = memory_transport" "cx_account (en_session ?en) = ''acct''"
    "w_srv ?w = demo_log" "w_db ?w = demo_db" "st_cursor_seq demo_db = 0"
    by (simp_all add: demo_device_def new_session_def demo_world_def demo_db_def)
  from pull_page_keeps_cursor [OF t(1) _ refl _ p] demo_log_facts t
  have c: "st_cursor_seq demo_db < st_cursor_seq (w_db w')"
    and s: "se_server_seq demo_stored \<le> st_cursor_seq (w_db w') \<longrightarrow> seen ?en (w_db w') demo_stored"
    by (auto simp: i64_max_def)
  then have "se_server_seq demo_stored \<le> st_cursor_seq (w_db w')"
    using t(5) by (simp add: word_le_nat_alt word_less_nat_alt)
  with p c s show ?thesis by blast
qed

theorem pull_reaches_the_end_witness:
  "\<exists>w'. pull (demo_device ''peer'') 2 (demo_world demo_db demo_log) = Some (Inr 1, w')
    \<and> seen (demo_device ''peer'') (w_db w') demo_stored"
proof -
  obtain w' where "pull_page (demo_device ''peer'') (demo_world demo_db demo_log) = (Inr (Some (1, True)), w')"
    using demo_pull_page by blast
  then have p: "pull (demo_device ''peer'') 2 (demo_world demo_db demo_log) = Some (Inr 1, w')"
    by (simp add: pull_def numeral_2_eq_2)
  with pull_reaches_the_end [of "demo_device ''peer''" "demo_world demo_db demo_log" "[demo_stored]" 2]
    demo_log_facts show ?thesis
    by (auto simp: after_cursor_def i64_max_def)
qed

end
