(* ===== verification/Engine_Server.thy ===== *)
theory Engine_Server
  imports Http_Transport Server_Simulation Engine_Pull
begin

text \<open>
  The engine over HTTP against the modelled server: the server is a log the pull loop reaches the
  end of, and a push whose answer the network lost is repeated without harm.
\<close>

section \<open>A plain client\<close>

text \<open>No token provider, a blind server with a free slot, a working network, and pages of the
  log within the client's response limit.\<close>

definition plain :: "'p http_client \<Rightarrow> string \<Rightarrow> 'p net \<Rightarrow> bool" where
  "plain cl a st \<longleftrightarrow> hc_tokens cl = None \<and> nt_faults st = [] \<and> open_server (hc_server cl)
     \<and> sound_for (hc_server cl) a (nt_server st)
     \<and> (\<forall>c. hc_reply_len cl (Pulled (server_page (hc_server cl) a c (of_nat BATCH) (nt_server st))) \<le> RESPONSE_LIMIT)"

lemma BATCH_limit: "page_limit (Some (of_nat BATCH)) = of_nat BATCH"
  by (simp add: page_limit_def BATCH_def MAX_LIMIT_def max_def min_def)

lemma http_pull_plain:
  assumes "plain cl a st"
  shows "http_pull cl a c (Some (of_nat BATCH)) st =
    (Inr (server_page (hc_server cl) a c (of_nat BATCH) (nt_server st)), st)"
proof -
  let ?A = "hc_server cl" and ?s = "nt_server st"
  have A: "open_server ?A" and sound: "sound_for ?A a ?s" using assms by (simp_all add: plain_def)
  obtain p where p: "serve ?A now h (EventsPull a c (Some (of_nat BATCH))) ?s = (Inr (Pulled p), ?s)" for now h
    using server_pull [OF A sound, of _ _ c "Some (of_nat BATCH)"] unfolding Let_def by blast
  have page: "server_page ?A a c (of_nat BATCH) ?s = p" unfolding server_page_def p by simp
  with assms have "hc_reply_len cl (Pulled p) \<le> RESPONSE_LIMIT" unfolding plain_def by metis
  moreover have "send cl True (EventsPull a c (Some (of_nat BATCH))) st = (Inr (Inr (Pulled p)), st)"
    using assms execute_plain [of st cl] by (simp add: send_def plain_def p del: serve_open)
  ultimately show ?thesis unfolding page
    by (simp add: http_pull_def response_json_def status_of_def ensure_response_def ensure_ok_def)
qed

lemma http_blob_get_plain:
  assumes "plain cl a st"
  shows "snd (http_blob_get cl a h st) = st"
proof -
  let ?A = "hc_server cl" and ?s = "nt_server st"
  have "snd (serve ?A (hc_clock cl ?s) (hc_credential cl) (BlobGet a h) ?s) = ?s" by (rule blob_get_reads)
  then have "send cl True (BlobGet a h) st = (Inr (fst (serve ?A (hc_clock cl ?s) (hc_credential cl) (BlobGet a h) ?s)), st)"
    using assms execute_plain [of st cl] by (simp add: send_def plain_def del: serve_open)
  then show ?thesis
    by (simp add: http_blob_get_def response_json_def bindA_def from_res_def fail_def ret_def
        split: sum.split option.split)
qed

interpretation server_end: log_transport "\<lambda>st. server_log (hc_server cl) a (nt_server st)"
    "\<lambda>c n st. server_page (hc_server cl) a c n (nt_server st)" "plain cl a"
    "\<lambda>n. unat (page_limit (Some n))" "http_transport cl" a
  for cl :: "'p http_client" and a :: string
proof unfold_locales
  fix st :: "'p net" and c n
  assume st: "plain cl a st"
  then have s: "open_server (hc_server cl) \<and> sound_for (hc_server cl) a (nt_server st)" by (simp add: plain_def)
  show "sorted_wrt (<) (map se_server_seq (server_log (hc_server cl) a (nt_server st)))"
    by (rule server_log.log_sorted [OF s])
  show "pl_events (server_page (hc_server cl) a c n (nt_server st)) =
      take (unat (page_limit (Some n))) (after_cursor c (server_log (hc_server cl) a (nt_server st)))"
    by (rule server_log.pull_page [OF s])
  show "pl_next_cursor (server_page (hc_server cl) a c n (nt_server st)) =
      (if pl_events (server_page (hc_server cl) a c n (nt_server st)) = [] then c
       else se_server_seq (last (pl_events (server_page (hc_server cl) a c n (nt_server st)))))"
    by (rule server_log.pull_cursor [OF s])
next
  fix st :: "'p net" and c
  assume st: "plain cl a st"
  show "tr_pull (http_transport cl) a c (Some (of_nat BATCH)) st =
      (Inr (server_page (hc_server cl) a c (of_nat BATCH) (nt_server st)), st)"
    using http_pull_plain [OF st] by simp
next
  fix st :: "'p net" and h
  assume st: "plain cl a st"
  show "snd (tr_blob_get (http_transport cl) a h st) = st"
    using http_blob_get_plain [OF st] by simp
next
  show "unat (page_limit (Some (of_nat BATCH))) = BATCH"
    by (simp only: BATCH_limit unat_BATCH)
qed

lemma server_seqs_small:
  assumes "sound_for A a s" and "ev \<in> set (server_log A a s)"
  shows "se_server_seq ev \<le> i64_max"
proof -
  from assms obtain r where r: "r \<in> set (events_of a s)" "ev = row_frame A r"
    and ok: "server_ok (ap_env A) s" and small: "length (events_of a s) < 2 ^ 63"
    by (auto simp: server_log_def sound_for_def)
  note b = server_seq_bounds [OF ok r(1)]
  have "unat (u64_of (ev_server_seq r)) = nat (ev_server_seq r)"
    using b small by (simp add: u64_of_def unat_eq_nat_uint uint_word_of_int_eq take_bit_int_eq_self)
  then have "unat (u64_of (ev_server_seq r)) \<le> unat i64_max"
    using b small by (simp add: i64_max_def nat_le_iff)
  then show ?thesis using row_frame_of [OF ok r(1)] r(2) by (simp add: word_le_nat_alt)
qed

text \<open>
  Over HTTP a pull from the sync server returns: more fuel than there are events past the cursor
  is enough. It leaves the server and the outbox as they were and forgets nothing it has
  seen; when it returns normally, every event the server held for the account past the old
  cursor is this device's own or recorded as applied, and none is left past the new cursor.
\<close>
theorem pull_from_server_reaches_the_end:
  assumes "en_transport en = http_transport cl" and "plain cl (cx_account (en_session en)) (w_srv w)"
    and "es = server_log (hc_server cl) (cx_account (en_session en)) (nt_server (w_srv w))"
    and "length (after_cursor (st_cursor_seq (w_db w)) es) < fuel"
  shows "\<exists>r w'. pull en fuel w = Some (r, w') \<and> w_srv w' = w_srv w \<and> outbox (w_db w') = outbox (w_db w)
    \<and> (\<forall>ev. seen en (w_db w) ev \<longrightarrow> seen en (w_db w') ev)
    \<and> (\<forall>n. r = Inr n \<longrightarrow>
         (\<forall>ev \<in> set (after_cursor (st_cursor_seq (w_db w)) es). seen en (w_db w') ev)
         \<and> after_cursor (st_cursor_seq (w_db w')) es = []
         \<and> (\<exists>w''. pull en 1 w' = Some (Inr 0, w'') \<and> w_db w'' = w_db w'))"
proof (rule server_end.loop_end [OF assms(1) refl assms(2,3) _ assms(4)])
  show "\<forall>ev \<in> set es. se_server_seq ev \<le> i64_max"
    using server_seqs_small assms(2) unfolding assms(3) plain_def by blast
qed

text \<open>Nor does the cursor pass an event of the server that was not handled.\<close>

theorem server_page_keeps_cursor:
  assumes "en_transport en = http_transport cl" and "plain cl (cx_account (en_session en)) (w_srv w)"
    and "es = server_log (hc_server cl) (cx_account (en_session en)) (nt_server (w_srv w))"
    and "pull_page en w = (r, w')" and "ev \<in> set es"
    and "st_cursor_seq (w_db w) < se_server_seq ev" and "se_server_seq ev \<le> st_cursor_seq (w_db w')"
  shows "seen en (w_db w') ev"
proof -
  have "\<forall>ev \<in> set es. se_server_seq ev \<le> i64_max"
    using server_seqs_small assms(2) unfolding assms(3) plain_def by blast
  from server_end.page_cursor [OF assms(1) refl assms(2,3) this assms(4)] assms(5-7) show ?thesis by blast
qed

section \<open>A lost answer\<close>

lemma acceptable_later:
  assumes "acceptable A a s ev" and "other_rows a s s'"
  shows "acceptable A a s' ev"
  using assms by (simp add: acceptable_def other_rows_def blob_present_def)

lemma http_push_answer:
  assumes "hc_tokens cl = None" and "nt_faults st = []"
    and "serve (hc_server cl) (hc_clock cl (nt_server st)) (hc_credential cl) (EventsPush req) (nt_server st)
      = (Inr (Pushed p), s')" and "hc_reply_len cl (Pushed p) \<le> RESPONSE_LIMIT"
  shows "http_push cl req st = (Inr p, st\<lparr>nt_server := s'\<rparr>)"
  using assms execute_plain [of st cl]
  by (simp add: http_push_def send_def response_json_def status_of_def ensure_response_def ensure_ok_def)

text \<open>
  C16. Losing an answer loses nothing and doubles nothing. When the server stores a batch and the
  network drops the response, the client gets a retryable error; sending the same batch again
  succeeds, appends nothing, and answers each change with the number it was stored under.
  Each change id is in the log once.
\<close>
theorem lost_answer_is_harmless:
  assumes "hc_tokens cl = None" and "open_server (hc_server cl)" and "env_ok (ap_env (hc_server cl))"
    and "nt_faults st = [AnswerLost]" and "server_ok (ap_env (hc_server cl)) (nt_server st)"
    and "\<forall>ev \<in> set evs. acceptable (hc_server cl) a (nt_server st) ev" and "is_unlimited (sv_quota (nt_server st))"
    and "map_res (record_of_input (hc_server cl) a) evs = Inr rs" and "fits a (nt_server st) (rs @ rs)"
    and "\<And>p. map pr_change_id (pp_results p) = map ei_change_id evs \<Longrightarrow> hc_reply_len cl (Pushed p) \<le> RESPONSE_LIMIT"
    and "http_push cl \<lparr>pq_account_id = a, pq_events = evs\<rparr> st = (r1, st1)"
    and "http_push cl \<lparr>pq_account_id = a, pq_events = evs\<rparr> st1 = (r2, st2)"
  shows "(\<exists>e. r1 = Inl e \<and> is_retryable e) \<and> (\<exists>resp. r2 = Inr resp
      \<and> pp_results resp = map (\<lambda>i. \<lparr>pr_change_id = i, pr_server_seq = seq_in (server_ids a (nt_server st1)) i,
            pr_deduplicated = True\<rparr>) (map ei_change_id evs))
    \<and> server_ids a (nt_server st1) = log_after (server_ids a (nt_server st)) (map ei_change_id evs)
    \<and> server_ids a (nt_server st2) = server_ids a (nt_server st1) \<and> distinct (server_ids a (nt_server st2))"
proof -
  let ?A = "hc_server cl" and ?s = "nt_server st" and ?req = "\<lparr>pq_account_id = a, pq_events = evs\<rparr>"
  have f1: "fits a ?s rs" using assms(9) by (simp add: fits_def batch_size_def)
  from server_push_frames [OF assms(2,3,5-8) f1, of "hc_clock cl ?s" "hc_credential cl"] obtain s1 p1 where
    p1: "serve ?A (hc_clock cl ?s) (hc_credential cl) (EventsPush ?req) ?s = (Inr (Pushed p1), s1)"
    and ok1: "server_ok (ap_env ?A) s1" and ids1: "server_ids a s1 = log_after (server_ids a ?s) (map ei_change_id evs)"
    and other: "other_rows a ?s s1" and sz: "stored_bytes a s1 \<le> stored_bytes a ?s + batch_size rs"
      "stored_objects a s1 \<le> stored_objects a ?s + length rs" by blast
  have 1: "http_push cl ?req st = (Inl (Transport (hc_error_text cl)), st\<lparr>nt_server := s1, nt_faults := []\<rparr>)"
    by (simp add: http_push_def send_def execute_def assms(1,4) p1 del: serve_open)
  then have r1: "r1 = Inl (Transport (hc_error_text cl))" and st1: "st1 = st\<lparr>nt_server := s1, nt_faults := []\<rparr>"
    using assms(11) by simp_all
  have acc: "\<forall>ev \<in> set evs. acceptable ?A a s1 ev" using assms(6) acceptable_later other by blast
  have unl: "is_unlimited (sv_quota s1)" using assms(7) other by (simp add: other_rows_def)
  have f2: "fits a s1 rs" using assms(9) sz by (simp add: fits_def batch_size_def)
  have known: "set (map ei_change_id evs) \<subseteq> set (server_ids a s1)" unfolding ids1 set_log_after by blast
  from server_push_frames [OF assms(2,3) ok1 acc unl assms(8) f2, of "hc_clock cl s1" "hc_credential cl"] obtain s2 n where
    p2: "serve ?A (hc_clock cl s1) (hc_credential cl) (EventsPush ?req) s1 =
      (Inr (Pushed \<lparr>pp_results = log_answer (server_ids a s1) (map ei_change_id evs), pp_high_water_seq = n\<rparr>), s2)"
    and ids2: "server_ids a s2 = log_after (server_ids a s1) (map ei_change_id evs)" and ok2: "server_ok (ap_env ?A) s2" by blast
  have "hc_reply_len cl (Pushed \<lparr>pp_results = log_answer (server_ids a s1) (map ei_change_id evs), pp_high_water_seq = n\<rparr>)
      \<le> RESPONSE_LIMIT" by (rule assms(10)) simp
  from http_push_answer [OF assms(1) _ _ this, of st1 ?req s2] p2 assms(12)
  have "r2 = Inr \<lparr>pp_results = log_answer (server_ids a s1) (map ei_change_id evs), pp_high_water_seq = n\<rparr>"
    "nt_server st2 = s2" by (auto simp: st1 simp del: serve_open)
  moreover have "server_ids a s2 = server_ids a s1" unfolding ids2 by (rule log_after_known [OF known])
  moreover have "distinct (server_ids a s2)" using ok2 by (simp add: server_ok_def)
  ultimately show ?thesis using r1 ids1 log_answer_known [OF known] by (simp add: st1)
qed

section \<open>Instances\<close>

definition demo_client :: "unit http_client" where
  "demo_client = \<lparr>hc_server = demo_app None, hc_clock = (\<lambda>_. 9), hc_credential = None, hc_tokens = None,
     hc_header_ok = (\<lambda>_. True), hc_reply_len = (\<lambda>_. 0), hc_status_text = (\<lambda>_. []), hc_error_text = ''timed out''\<rparr>"

definition demo_net :: "fault list \<Rightarrow> server \<Rightarrow> unit net" where
  "demo_net fs s = \<lparr>nt_server = s, nt_faults = fs, nt_provider = ()\<rparr>"

definition http_device :: "(unit net, string \<Rightarrow> string option) engine" where
  "http_device = \<lparr>en_prims = demo_prims, en_codec = en_codec (demo_device ''dev''),
     en_sqlite = demo_sqlite, en_fsrs = demo_fs, en_transport = http_transport demo_client,
     en_session = en_session (demo_device ''dev''), en_directory = en_directory (demo_device ''dev''),
     en_blobs = map_blobs, en_now = (\<lambda>_. 1)\<rparr>"

definition http_world :: "server \<Rightarrow> (unit net, string \<Rightarrow> string option) world" where
  "http_world s = \<lparr>w_db = demo_db, w_srv = demo_net [] s, w_blobs = Map.empty, w_nonces = 0, w_reads = 0\<rparr>"

lemma demo_http_simps [simp]:
  "hc_server demo_client = demo_app None" "hc_tokens demo_client = None" "hc_reply_len demo_client r = 0"
  "nt_server (demo_net fs s) = s" "nt_faults (demo_net fs s) = fs" "en_transport http_device = http_transport demo_client"
  "cx_account (en_session http_device) = ''acct''" "w_db (http_world s) = demo_db" "w_srv (http_world s) = demo_net [] s"
  by (simp_all add: demo_client_def demo_net_def http_device_def http_world_def)

theorem pull_from_server_reaches_the_end_witness:
  "\<exists>s r w'. server_ids ''acct'' s = [''c1''] \<and> pull http_device 2 (http_world s) = Some (r, w') \<and> w_srv w' = demo_net [] s"
proof -
  obtain r0 s where p: "push_events demo_env 7 ''acct'' [demo_record ''c1'' []] (demo_server unlimited) = (r0, s)"
    by (meson surj_pair)
  have "fits ''acct'' (demo_server unlimited) [demo_record ''c1'' []]" by (rule demo_fits) simp_all
  note c = push_events_cases [OF demo_server_ok env_ok_demo this p]
  obtain out where "r0 = Inr out" using c by (cases r0) auto
  with c have ok: "server_ok demo_env s" and ids: "server_ids ''acct'' s = [''c1'']" by (simp_all add: log_add_def)
  then have len: "length (events_of ''acct'' s) = 1" by (metis length_map server_ids_def length_Cons list.size(3) One_nat_def)
  have "plain demo_client ''acct'' (demo_net [] s)"
    using ok len by (simp add: plain_def sound_for_def RESPONSE_LIMIT_def)
  moreover have "length (after_cursor c (server_log (demo_app None) ''acct'' s)) < 2" for c
    using len length_filter_le [of "\<lambda>e. c < se_server_seq e" "server_log (demo_app None) ''acct'' s"]
    unfolding after_cursor_def server_log_def length_map by linarith
  ultimately show ?thesis
    using pull_from_server_reaches_the_end [of http_device demo_client "http_world s" _ 2] ids by fastforce
qed

theorem lost_answer_is_harmless_witness:
  "\<exists>r1 st1 resp st2. http_push demo_client \<lparr>pq_account_id = ''acct'', pq_events = [demo_event]\<rparr>
      (demo_net [AnswerLost] (demo_server unlimited)) = (Inl r1, st1)
    \<and> http_push demo_client \<lparr>pq_account_id = ''acct'', pq_events = [demo_event]\<rparr> st1 = (Inr resp, st2)
    \<and> server_ids ''acct'' (nt_server st2) = [''c1'']"
proof -
  let ?req = "\<lparr>pq_account_id = ''acct'', pq_events = [demo_event]\<rparr>"
  let ?st = "demo_net [AnswerLost] (demo_server unlimited)"
  obtain r where r: "record_of_input (demo_app None) ''acct'' demo_event = Inr r" "er_ciphertext r = []"
    using demo_input_record by blast
  then have m: "map_res (record_of_input (demo_app None) ''acct'') [demo_event] = Inr [r]" by simp
  have f: "fits ''acct'' (demo_server unlimited) ([r] @ [r])" using r by (intro demo_fits) simp_all
  obtain r1 st1 where 1: "http_push demo_client ?req ?st = (r1, st1)" by (meson surj_pair)
  obtain r2 st2 where 2: "http_push demo_client ?req st1 = (r2, st2)" by (meson surj_pair)
  have id: "ei_change_id demo_event = ''c1''" by (simp add: demo_event_def)
  have "(\<exists>e. r1 = Inl e) \<and> (\<exists>resp. r2 = Inr resp) \<and> server_ids ''acct'' (nt_server st2) = [''c1'']"
    using lost_answer_is_harmless [of demo_client ?st "[demo_event]" "''acct''" "[r]", OF _ _ _ _ _ _ _ _ _ _ 1 2] m f
      demo_acceptable id by (auto simp: log_add_def)
  with 1 2 show ?thesis by auto
qed

end
