(* ===== verification/Unicode_Text.thy ===== *)
theory Unicode_Text
  imports Prelude
begin

text \<open>
  Text where its characters matter: a \<open>str\<close> is the list of its code points. The order is the one
  of the UTF-8 bytes, which is that of the code points; \<open>char::is_whitespace\<close> is the
  Unicode property \<open>White_Space\<close>; the case mappings of Unicode are a parameter of what uses
  them.
\<close>

section \<open>Code points\<close>

type_synonym utext = "nat list"

definition chars :: "string \<Rightarrow> utext" where
  "chars s = map of_char s"

definition is_whitespace :: "nat \<Rightarrow> bool" where
  "is_whitespace c \<longleftrightarrow> (9 \<le> c \<and> c \<le> 13) \<or> c = 32 \<or> c = 133 \<or> c = 160 \<or> c = 5760
     \<or> (8192 \<le> c \<and> c \<le> 8202) \<or> c = 8232 \<or> c = 8233 \<or> c = 8239 \<or> c = 8287 \<or> c = 12288"

text \<open>The UTF-8 length of a code point, so that \<open>str::len\<close> counts bytes.\<close>

definition utf8_len :: "nat \<Rightarrow> nat" where
  "utf8_len c = (if c < 128 then 1 else if c < 2048 then 2 else if c < 65536 then 3 else 4)"

definition byte_len :: "utext \<Rightarrow> nat" where
  "byte_len s = sum_list (map utf8_len s)"

definition trim :: "utext \<Rightarrow> utext" where
  "trim s = rev (dropWhile is_whitespace (rev (dropWhile is_whitespace s)))"

definition ascii_lowercase :: "nat \<Rightarrow> nat" where
  "ascii_lowercase c = (if 65 \<le> c \<and> c \<le> 90 then c + 32 else c)"

definition eq_ignoring_ascii_case :: "utext \<Rightarrow> utext \<Rightarrow> bool" where
  "eq_ignoring_ascii_case s t \<longleftrightarrow> map ascii_lowercase s = map ascii_lowercase t"

fun strip_prefix :: "nat \<Rightarrow> utext \<Rightarrow> utext option" where
  "strip_prefix c [] = None"
| "strip_prefix c (x # s) = (if x = c then Some s else None)"

definition strip_suffix :: "nat \<Rightarrow> utext \<Rightarrow> utext option" where
  "strip_suffix c s = (if s \<noteq> [] \<and> last s = c then Some (butlast s) else None)"

text \<open>\<open>str::split(c)\<close>: at least one part.\<close>

fun split_on :: "nat \<Rightarrow> utext \<Rightarrow> utext list" where
  "split_on c [] = [[]]"
| "split_on c (x # s) =
     (if x = c then [] # split_on c s
      else case split_on c s of [] \<Rightarrow> [[x]] | p # ps \<Rightarrow> (x # p) # ps)"

fun join_with :: "nat \<Rightarrow> utext list \<Rightarrow> utext" where
  "join_with c [] = []"
| "join_with c [p] = p"
| "join_with c (p # q # ps) = p @ c # join_with c (q # ps)"

fun is_prefix :: "utext \<Rightarrow> utext \<Rightarrow> bool" where
  "is_prefix [] t = True"
| "is_prefix (x # s) [] = False"
| "is_prefix (x # s) (y # t) = (x = y \<and> is_prefix s t)"

fun contains :: "utext \<Rightarrow> utext \<Rightarrow> bool" where
  "contains s [] = (s = [])"
| "contains s (y # t) = (is_prefix s (y # t) \<or> contains s t)"

text \<open>\<open>u32::from_str\<close>: decimal digits after at most one plus sign, within 32 bits.\<close>

definition is_digit :: "nat \<Rightarrow> bool" where
  "is_digit c \<longleftrightarrow> 48 \<le> c \<and> c \<le> 57"

definition parse_u32 :: "utext \<Rightarrow> nat option" where
  "parse_u32 s =
     (let d = (case s of x # t \<Rightarrow> if x = 43 then t else s | [] \<Rightarrow> s);
          n = foldl (\<lambda>n c. 10 * n + (c - 48)) 0 d
      in if d \<noteq> [] \<and> list_all is_digit d \<and> n < 2 ^ 32 then Some n else None)"

section \<open>Splitting and joining\<close>

lemma split_on_Nil_iff [simp]: "split_on c s \<noteq> []"
  by (induction s) (auto split: list.split)

lemma split_on_none [simp]: "c \<notin> set p \<Longrightarrow> split_on c p = [p]"
  by (induction p) auto

lemma split_on_append: "c \<notin> set p \<Longrightarrow> split_on c (p @ c # s) = p # split_on c s"
  by (induction p) auto

lemma split_join: "ps \<noteq> [] \<Longrightarrow> (\<forall>p \<in> set ps. c \<notin> set p) \<Longrightarrow> split_on c (join_with c ps) = ps"
  by (induction c ps rule: join_with.induct) (auto simp: split_on_append)

lemma set_join_subset: "set (join_with c ps) \<subseteq> insert c (\<Union>p \<in> set ps. set p)"
  by (induction c ps rule: join_with.induct) auto

lemma join_Nil_iff: "join_with c ps = [] \<longleftrightarrow> ps = [] \<or> ps = [[]]"
  by (induction c ps rule: join_with.induct) auto

lemma trim_id: "(\<forall>c \<in> set s. \<not> is_whitespace c) \<Longrightarrow> trim s = s"
proof -
  have *: "(\<forall>c \<in> set s. \<not> is_whitespace c) \<Longrightarrow> dropWhile is_whitespace s = s" for s
    by (cases s) auto
  assume "\<forall>c \<in> set s. \<not> is_whitespace c"
  then show ?thesis using * [of s] * [of "rev s"] by (simp add: trim_def)
qed

lemma trim_ends: "s \<noteq> [] \<Longrightarrow> \<not> is_whitespace (hd s) \<Longrightarrow> \<not> is_whitespace (last s) \<Longrightarrow> trim s = s"
proof -
  assume s: "s \<noteq> []" "\<not> is_whitespace (hd s)" "\<not> is_whitespace (last s)"
  then have 1: "dropWhile is_whitespace s = s" by (cases s) auto
  have "rev s \<noteq> []" "\<not> is_whitespace (hd (rev s))" using s by (simp_all add: hd_rev)
  then have "dropWhile is_whitespace (rev s) = rev s" by (cases "rev s") auto
  with 1 show ?thesis by (simp add: trim_def)
qed

end
