(* ===== verification/Smart_Filter.thy ===== *)
theory Smart_Filter
  imports Unicode_Text
begin

text \<open>
  The filter language of collections, saved searches and rules,
  \<^verbatim>\<open>crates/pergamon-core/src/smart_filter.rs\<close>: its tokens, its parser with every error, and
  its printer. The content types and statuses are those of \<open>content_type.rs\<close> and
  \<open>status.rs\<close>.
\<close>

section \<open>Content types and statuses\<close>

datatype content_type = FeedItem | Article | Bookmark | HighlightItem | Pdf | PodcastEpisode

fun content_type_str :: "content_type \<Rightarrow> utext" where
  "content_type_str FeedItem = chars ''feed_item''"
| "content_type_str Article = chars ''article''"
| "content_type_str Bookmark = chars ''bookmark''"
| "content_type_str HighlightItem = chars ''highlight''"
| "content_type_str Pdf = chars ''pdf''"
| "content_type_str PodcastEpisode = chars ''podcast_episode''"

datatype document_status = Inbox | Later | Reference | Reading | Archived | Discarded

fun status_str :: "document_status \<Rightarrow> utext" where
  "status_str Inbox = chars ''inbox''"
| "status_str Later = chars ''later''"
| "status_str Reference = chars ''reference''"
| "status_str Reading = chars ''reading''"
| "status_str Archived = chars ''archived''"
| "status_str Discarded = chars ''discarded''"

text \<open>The errors are the messages \<open>CoreError\<close> prints.\<close>

definition content_type_from_str :: "utext \<Rightarrow> utext + content_type" where
  "content_type_from_str s =
     (if s = chars ''feed_item'' then Inr FeedItem
      else if s = chars ''article'' then Inr Article
      else if s = chars ''bookmark'' then Inr Bookmark
      else if s = chars ''highlight'' then Inr HighlightItem
      else if s = chars ''pdf'' then Inr Pdf
      else if s = chars ''podcast_episode'' then Inr PodcastEpisode
      else Inl (chars ''unknown content type: '' @ s))"

definition status_from_str :: "utext \<Rightarrow> utext + document_status" where
  "status_from_str s =
     (if s = chars ''inbox'' then Inr Inbox
      else if s = chars ''later'' then Inr Later
      else if s = chars ''reference'' then Inr Reference
      else if s = chars ''reading'' then Inr Reading
      else if s = chars ''archived'' then Inr Archived
      else if s = chars ''discarded'' then Inr Discarded
      else Inl (chars ''unknown document status: '' @ s))"

section \<open>Filters\<close>

datatype filter_predicate =
    ContentType "content_type list"
  | Tag "utext list"
  | Status "document_status list"
  | ExcludeStatus "document_status list"
  | Source utext
  | CreatedSince utext
  | CreatedBefore utext
  | TextQuery utext

type_synonym smart_filter = "filter_predicate list"

datatype filter_error =
    UnknownKey utext
  | MissingSeparator utext
  | InvalidValue utext utext utext
  | EmptyFilter

definition has_text_query :: "smart_filter \<Rightarrow> bool" where
  "has_text_query f \<longleftrightarrow> list_ex (\<lambda>p. case p of TextQuery _ \<Rightarrow> True | _ \<Rightarrow> False) f"

fun text_query :: "smart_filter \<Rightarrow> utext option" where
  "text_query [] = None"
| "text_query (p # ps) = (case p of TextQuery q \<Rightarrow> Some q | _ \<Rightarrow> text_query ps)"

section \<open>Printing\<close>

fun print_predicate :: "filter_predicate \<Rightarrow> utext" where
  "print_predicate (ContentType ts) = chars ''type:'' @ join_with 44 (map content_type_str ts)"
| "print_predicate (Tag tags) = chars ''tag:'' @ join_with 44 tags"
| "print_predicate (Status ss) = chars ''status:'' @ join_with 44 (map status_str ss)"
| "print_predicate (ExcludeStatus ss) = chars ''-status:'' @ join_with 44 (map status_str ss)"
| "print_predicate (Source s) = chars ''source:'' @ s"
| "print_predicate (CreatedSince d) = chars ''since:'' @ d"
| "print_predicate (CreatedBefore d) = chars ''before:'' @ d"
| "print_predicate (TextQuery q) = chars ''text:'' @ q"

definition print_filter :: "smart_filter \<Rightarrow> utext" where
  "print_filter f = join_with 32 (map print_predicate f)"

section \<open>Tokens\<close>

text \<open>A quoted part: up to and including the closing quote, or all that is left.\<close>

definition quoted_part :: "nat \<Rightarrow> utext \<Rightarrow> utext" where
  "quoted_part q s = takeWhile (\<lambda>c. c \<noteq> q) s @ (if q \<in> set s then [q] else [])"

definition after_quoted :: "nat \<Rightarrow> utext \<Rightarrow> utext" where
  "after_quoted q s = drop (length (quoted_part q s)) s"

text \<open>The scan of \<open>tokenize\<close>, with the token being read (\<open>[]\<close> between tokens).\<close>

function scan :: "utext \<Rightarrow> utext \<Rightarrow> utext list" where
  "scan cur [] = (if cur = [] then [] else [cur])"
| "scan cur (c # s) =
     (if is_whitespace c then (if cur = [] then scan [] s else cur # scan [] s)
      else if c = 58 \<and> s \<noteq> [] \<and> (hd s = 34 \<or> hd s = 39)
        then scan (cur @ [c, hd s] @ quoted_part (hd s) (tl s)) (after_quoted (hd s) (tl s))
      else scan (cur @ [c]) s)"
  by pat_completeness auto
termination
  by (relation "measure (\<lambda>(cur, s). length s)") (auto simp: after_quoted_def neq_Nil_conv)

definition tokenize :: "utext \<Rightarrow> utext list" where
  "tokenize query = scan [] query"

section \<open>Parsing\<close>

definition invalid :: "utext \<Rightarrow> utext \<Rightarrow> utext \<Rightarrow> filter_error + 'a" where
  "invalid key value reason = Inl (InvalidValue key value reason)"

definition reject_negation :: "utext \<Rightarrow> utext \<Rightarrow> bool \<Rightarrow> filter_error + unit" where
  "reject_negation key value negated =
     (if negated then invalid key value (chars ''negation is not supported for '' @ key @ chars '' filters'')
      else Inr ())"

definition parse_comma_list :: "utext \<Rightarrow> (utext \<Rightarrow> utext + 'a) \<Rightarrow> utext + 'a list" where
  "parse_comma_list value parser = map_res (\<lambda>v. parser (trim v)) (split_on 44 value)"

definition with_key :: "utext \<Rightarrow> utext \<Rightarrow> utext + 'a \<Rightarrow> filter_error + 'a" where
  "with_key key value r = (case r of Inl reason \<Rightarrow> invalid key value reason | Inr x \<Rightarrow> Inr x)"

definition parse_type_predicate :: "utext \<Rightarrow> bool \<Rightarrow> filter_error + filter_predicate" where
  "parse_type_predicate value negated =
     bindR (with_key (chars ''type'') value (parse_comma_list value content_type_from_str)) (\<lambda>types.
     bindR (reject_negation (chars ''type'') value negated) (\<lambda>_. Inr (ContentType types)))"

definition parse_tag_predicate :: "utext \<Rightarrow> bool \<Rightarrow> filter_error + filter_predicate" where
  "parse_tag_predicate value negated =
     bindR (reject_negation (chars ''tag'') value negated) (\<lambda>_. Inr (Tag (map trim (split_on 44 value))))"

definition parse_status_predicate :: "utext \<Rightarrow> bool \<Rightarrow> filter_error + filter_predicate" where
  "parse_status_predicate value negated =
     bindR (with_key (chars ''status'') value (parse_comma_list value status_from_str)) (\<lambda>statuses.
       Inr (if negated then ExcludeStatus statuses else Status statuses))"

definition parse_simple_predicate ::
  "utext \<Rightarrow> utext \<Rightarrow> bool \<Rightarrow> (utext \<Rightarrow> filter_predicate) \<Rightarrow> filter_error + filter_predicate" where
  "parse_simple_predicate key value negated make =
     bindR (reject_negation key value negated) (\<lambda>_. Inr (make value))"

definition validate_date :: "utext \<Rightarrow> filter_error + unit" where
  "validate_date date =
     (let parts = split_on 45 date in
      if byte_len date \<noteq> 10 then invalid (chars ''date'') date (chars ''expected YYYY-MM-DD format'')
      else if length parts \<noteq> 3 \<or> byte_len (parts ! 0) \<noteq> 4 \<or> byte_len (parts ! 1) \<noteq> 2 \<or> byte_len (parts ! 2) \<noteq> 2
        then invalid (chars ''date'') date (chars ''expected YYYY-MM-DD format'')
      else if list_ex (\<lambda>p. parse_u32 p = None) parts
        then invalid (chars ''date'') date (chars ''expected numeric components in YYYY-MM-DD'')
      else Inr ())"

definition parse_date_predicate ::
  "utext \<Rightarrow> utext \<Rightarrow> bool \<Rightarrow> (utext \<Rightarrow> filter_predicate) \<Rightarrow> filter_error + filter_predicate" where
  "parse_date_predicate key value negated make =
     bindR (reject_negation key value negated) (\<lambda>_.
     bindR (validate_date value) (\<lambda>_. Inr (make value)))"

text \<open>The value without one pair of surrounding quotes of the same kind.\<close>

definition strip_quotes :: "utext \<Rightarrow> utext" where
  "strip_quotes raw =
     (let strip = (\<lambda>q. Option.bind (strip_prefix q raw) (strip_suffix q))
      in case strip 34 of Some v \<Rightarrow> v
         | None \<Rightarrow> (case strip 39 of Some v \<Rightarrow> v | None \<Rightarrow> raw))"

definition parse_keyed :: "utext \<Rightarrow> utext \<Rightarrow> bool \<Rightarrow> filter_error + filter_predicate" where
  "parse_keyed key value negated =
     (if key = chars ''type'' then parse_type_predicate value negated
      else if key = chars ''tag'' then parse_tag_predicate value negated
      else if key = chars ''status'' then parse_status_predicate value negated
      else if key = chars ''source'' then parse_simple_predicate key value negated Source
      else if key = chars ''since'' then parse_date_predicate key value negated CreatedSince
      else if key = chars ''before'' then parse_date_predicate key value negated CreatedBefore
      else if key = chars ''text'' then parse_simple_predicate key value negated TextQuery
      else Inl (UnknownKey key))"

definition parse_token :: "utext \<Rightarrow> filter_error + filter_predicate" where
  "parse_token token0 =
     (let (negated, token) = (case strip_prefix 45 token0 of Some rest \<Rightarrow> (True, rest) | None \<Rightarrow> (False, token0))
      in case split_once 58 token of
           None \<Rightarrow> Inl (MissingSeparator token)
         | Some (key, raw_value) \<Rightarrow>
             let value = strip_quotes raw_value
             in if value = [] then invalid key value (chars ''value cannot be empty'')
                else parse_keyed key value negated)"

definition parse_filter :: "utext \<Rightarrow> filter_error + smart_filter" where
  "parse_filter query0 =
     (let query = trim query0 in
      if query = [] then Inl EmptyFilter
      else bindR (map_res parse_token (tokenize query)) (\<lambda>predicates.
        if predicates = [] then Inl EmptyFilter else Inr predicates))"

end
