(* ===== verification/Filter_Roundtrip.thy ===== *)
theory Filter_Roundtrip
  imports Smart_Filter
begin

text \<open>
  Printing and parsing of filters. What prints back is characterised (\<open>printable\<close>): every
  filter that comes from a query without quotes does, and parses to itself; a quoted value
  with a space does not.
\<close>

section \<open>Printable predicates\<close>

definition plain_char :: "nat \<Rightarrow> bool" where
  "plain_char c \<longleftrightarrow> \<not> is_whitespace c \<and> c \<noteq> 34 \<and> c \<noteq> 39"

definition plain_text :: "utext \<Rightarrow> bool" where
  "plain_text v \<longleftrightarrow> v \<noteq> [] \<and> list_all plain_char v"

fun printable :: "filter_predicate \<Rightarrow> bool" where
  "printable (ContentType ts) = (ts \<noteq> [])"
| "printable (Tag tags) = (plain_text (join_with 44 tags) \<and> list_all (\<lambda>t. 44 \<notin> set t) tags)"
| "printable (Status ss) = (ss \<noteq> [])"
| "printable (ExcludeStatus ss) = (ss \<noteq> [])"
| "printable (Source s) = plain_text s"
| "printable (CreatedSince d) = (validate_date d = Inr ())"
| "printable (CreatedBefore d) = (validate_date d = Inr ())"
| "printable (TextQuery q) = plain_text q"

lemma plain_no_space: "list_all plain_char v \<Longrightarrow> \<forall>c \<in> set v. \<not> is_whitespace c"
  by (auto simp: list_all_iff plain_char_def)

section \<open>Dates are plain\<close>

lemma set_split: "set s \<subseteq> insert c (\<Union>p \<in> set (split_on c s). set p)"
proof (induction s)
  case (Cons x s)
  show ?case
  proof (cases "split_on c s")
    case (Cons p ps)
    then show ?thesis using Cons.IH by (cases "x = c") (auto simp: \<open>split_on c s = p # ps\<close>)
  qed simp
qed simp

lemma parse_u32_chars: "parse_u32 s = Some n \<Longrightarrow> \<forall>c \<in> set s. is_digit c \<or> c = 43"
  by (auto simp: parse_u32_def list_all_iff Let_def split: list.splits if_splits)

lemma valid_date_plain:
  assumes "validate_date d = Inr ()"
  shows "plain_text d"
proof -
  have parts: "\<forall>p \<in> set (split_on 45 d). parse_u32 p \<noteq> None" and len: "byte_len d = 10"
    using assms by (auto simp: validate_date_def invalid_def Let_def list_ex_iff split: if_splits)
  have "is_digit c \<or> c = 43 \<or> c = 45" if "c \<in> set d" for c
  proof -
    from that set_split [of d 45] have "c = 45 \<or> (\<exists>p \<in> set (split_on 45 d). c \<in> set p)" by auto
    with parts parse_u32_chars show ?thesis by blast
  qed
  moreover have "plain_char c" if "is_digit c \<or> c = 43 \<or> c = 45" for c
    using that by (auto simp: plain_char_def is_whitespace_def is_digit_def)
  moreover have "d \<noteq> []" using len by (auto simp: byte_len_def)
  ultimately show ?thesis unfolding plain_text_def list_all_iff by blast
qed

section \<open>Tokens of a printed filter\<close>

lemma scan_plain:
  "list_all plain_char t \<Longrightarrow> rest = [] \<or> hd rest = 32 \<Longrightarrow> scan cur (t @ rest) = scan (cur @ t) rest"
proof (induction t arbitrary: cur)
  case (Cons c t)
  have "\<not> (t @ rest \<noteq> [] \<and> (hd (t @ rest) = 34 \<or> hd (t @ rest) = 39))"
    using Cons.prems by (cases t) (auto simp: plain_char_def)
  moreover have "\<not> is_whitespace c" using Cons.prems by (simp add: plain_char_def)
  ultimately have "scan cur ((c # t) @ rest) = scan (cur @ [c]) (t @ rest)" by auto
  with Cons show ?case by simp
qed simp

lemma scan_join:
  "toks \<noteq> [] \<Longrightarrow> list_all (\<lambda>t. t \<noteq> [] \<and> list_all plain_char t) toks \<Longrightarrow> scan [] (join_with 32 toks) = toks"
proof (induction "32 :: nat" toks rule: join_with.induct)
  case (2 p)
  then show ?case using scan_plain [of p "[]" "[]"] by simp
next
  case (3 p q ps)
  have "scan [] (join_with 32 (p # q # ps)) = scan p (32 # join_with 32 (q # ps))"
    using scan_plain [of p "32 # join_with 32 (q # ps)" "[]"] 3 by simp
  also have "\<dots> = p # scan [] (join_with 32 (q # ps))"
    using 3 by (simp add: is_whitespace_def)
  finally show ?case using 3 by simp
qed simp

lemma trim_join:
  assumes "toks \<noteq> []" and "list_all (\<lambda>t. t \<noteq> [] \<and> list_all plain_char t) toks"
  shows "trim (join_with 32 toks) = join_with 32 toks \<and> join_with 32 toks \<noteq> []"
proof -
  have "join_with 32 toks \<noteq> [] \<and> hd (join_with 32 toks) = hd (hd toks) \<and> last (join_with 32 toks) = last (last toks)"
    using assms by (induction "32 :: nat" toks rule: join_with.induct) auto
  moreover have "t \<noteq> [] \<and> list_all plain_char t" if "t \<in> set toks" for t
    using assms(2) that by (simp add: list_all_iff)
  then have "hd toks \<noteq> [] \<and> list_all plain_char (hd toks)" "last toks \<noteq> [] \<and> list_all plain_char (last toks)"
    using hd_in_set [OF assms(1)] last_in_set [OF assms(1)] by blast+
  then have "\<not> is_whitespace (hd (hd toks))" "\<not> is_whitespace (last (last toks))"
    using plain_no_space hd_in_set last_in_set by blast+
  ultimately show ?thesis by (auto intro: trim_ends)
qed

section \<open>Parsing a printed predicate\<close>

lemma from_str_inverse [simp]:
  "content_type_from_str (content_type_str t) = Inr t" "status_from_str (status_str s) = Inr s"
  by (cases t; simp add: content_type_from_str_def chars_def) (cases s; simp add: status_from_str_def chars_def)

lemma names_plain:
  "list_all (\<lambda>c. plain_char c \<and> c \<noteq> 44) (content_type_str t)" "list_all (\<lambda>c. plain_char c \<and> c \<noteq> 44) (status_str s)"
  by (cases t; simp add: chars_def plain_char_def is_whitespace_def)
    (cases s; simp add: chars_def plain_char_def is_whitespace_def)

lemma names_nonempty [simp]: "content_type_str t \<noteq> []" "status_str s \<noteq> []"
  by (cases t; simp add: chars_def) (cases s; simp add: chars_def)

lemma comma_list_inverse:
  assumes "xs \<noteq> []" and "\<And>x. list_all (\<lambda>c. plain_char c \<and> c \<noteq> 44) (g x)" and "\<And>x. f (g x) = Inr x"
  shows "parse_comma_list (join_with 44 (map g xs)) f = Inr xs"
proof -
  have split: "split_on 44 (join_with 44 (map g xs)) = map g xs"
    using assms(1,2) by (intro split_join) (auto simp: list_all_iff)
  have "trim (g x) = g x" for x
    using assms(2) by (intro trim_id) (auto simp: list_all_iff plain_char_def)
  then have "map_res (\<lambda>v. f (trim v)) (map g ys) = Inr ys" for ys by (induction ys) (simp_all add: assms(3))
  then show ?thesis by (simp add: parse_comma_list_def split)
qed

lemma join_plain:
  assumes "xs \<noteq> []" and "\<And>x. list_all (\<lambda>c. plain_char c \<and> c \<noteq> 44) (g x)" and "\<And>x. g x \<noteq> []"
  shows "plain_text (join_with 44 (map g xs))"
proof -
  have "plain_char c" if "c \<in> set (join_with 44 (map g xs))" for c
  proof -
    have "c = 44 \<or> (\<exists>x. c \<in> set (g x))" using that set_join_subset [of 44 "map g xs"] by auto
    moreover have "plain_char 44" by (simp add: plain_char_def is_whitespace_def)
    ultimately show ?thesis using assms(2) by (auto simp: list_all_iff)
  qed
  moreover have "join_with 44 (map g xs) \<noteq> []" using assms(1,3) by (auto simp: join_Nil_iff)
  ultimately show ?thesis by (simp add: plain_text_def list_all_iff)
qed

lemma strip_quotes_plain: "plain_text v \<Longrightarrow> strip_quotes v = v"
  by (cases v) (auto simp: strip_quotes_def plain_text_def plain_char_def)

lemma parse_key:
  assumes "plain_text v" and "58 \<notin> set key" and "key \<noteq> []" and "hd key \<noteq> 45"
  shows "parse_token (key @ 58 # v) = parse_keyed key v False"
    and "parse_token (45 # key @ 58 # v) = parse_keyed key v True"
proof -
  have "split_once 58 (key @ 58 # v) = Some (key, v)" using assms(2) by (simp add: split_once_Some)
  moreover have "strip_prefix 45 (key @ 58 # v) = None" using assms(3,4) by (cases key) auto
  moreover have "v \<noteq> []" using assms(1) by (simp add: plain_text_def)
  ultimately show "parse_token (key @ 58 # v) = parse_keyed key v False"
    "parse_token (45 # key @ 58 # v) = parse_keyed key v True"
    using strip_quotes_plain [OF assms(1)] by (simp_all add: parse_token_def)
qed

lemma keys: "chars ''type:'' = chars ''type'' @ [58]" "chars ''tag:'' = chars ''tag'' @ [58]"
  "chars ''status:'' = chars ''status'' @ [58]" "chars ''-status:'' = 45 # chars ''status'' @ [58]"
  "chars ''source:'' = chars ''source'' @ [58]" "chars ''since:'' = chars ''since'' @ [58]"
  "chars ''before:'' = chars ''before'' @ [58]" "chars ''text:'' = chars ''text'' @ [58]"
  by (simp_all add: chars_def)

lemma key_shape: "key \<in> {''type'', ''tag'', ''status'', ''source'', ''since'', ''before'', ''text''} \<Longrightarrow>
  58 \<notin> set (chars key) \<and> chars key \<noteq> [] \<and> hd (chars key) \<noteq> 45 \<and> list_all plain_char (chars key)"
  by (auto simp: chars_def plain_char_def is_whitespace_def)

lemma parse_keyed_simps:
  "parse_keyed (chars ''type'') v n = parse_type_predicate v n" "parse_keyed (chars ''tag'') v n = parse_tag_predicate v n"
  "parse_keyed (chars ''status'') v n = parse_status_predicate v n"
  "parse_keyed (chars ''source'') v n = parse_simple_predicate (chars ''source'') v n Source"
  "parse_keyed (chars ''since'') v n = parse_date_predicate (chars ''since'') v n CreatedSince"
  "parse_keyed (chars ''before'') v n = parse_date_predicate (chars ''before'') v n CreatedBefore"
  "parse_keyed (chars ''text'') v n = parse_simple_predicate (chars ''text'') v n TextQuery"
  by (simp_all add: parse_keyed_def chars_def)

lemma parse_print:
  assumes "printable p"
  shows "parse_token (print_predicate p) = Inr p"
proof -
  note ks = key_shape [of "''type''"] key_shape [of "''tag''"] key_shape [of "''status''"] key_shape [of "''source''"]
    key_shape [of "''since''"] key_shape [of "''before''"] key_shape [of "''text''"]
  have k: "parse_token (chars key @ 58 # v) = parse_keyed (chars key) v False"
    "parse_token (45 # chars key @ 58 # v) = parse_keyed (chars key) v True"
    if "plain_text v" "key \<in> {''type'', ''tag'', ''status'', ''source'', ''since'', ''before'', ''text''}" for key v
    using parse_key [OF that(1)] key_shape [OF that(2)] by blast+
  have names: "plain_text (join_with 44 (map content_type_str ts))" "plain_text (join_with 44 (map status_str ss))"
    if "ts \<noteq> []" "ss \<noteq> []" for ts ss
    using that names_plain by (auto intro!: join_plain)
  have neg: "reject_negation key v False = Inr ()" for key v by (simp add: reject_negation_def)
  show ?thesis
  proof (cases p)
    case (ContentType ts)
    then show ?thesis using assms names(1) [of ts "[Inbox]"] comma_list_inverse [of ts content_type_str content_type_from_str] names_plain
      by (simp add: keys k parse_keyed_simps parse_type_predicate_def with_key_def neg)
  next
    case (Tag tags)
    have ne: "tags \<noteq> []" and plain: "list_all plain_char (join_with 44 tags)" using assms Tag by (auto simp: plain_text_def)
    have split: "split_on 44 (join_with 44 tags) = tags" using assms Tag ne by (intro split_join) (auto simp: list_all_iff)
    have "trim t = t" if "t \<in> set tags" for t
    proof (rule trim_id)
      have "set t \<subseteq> set (join_with 44 tags)" using that by (induction "44 :: nat" tags rule: join_with.induct) auto
      with plain_no_space [OF plain] show "\<forall>c \<in> set t. \<not> is_whitespace c" by blast
    qed
    then have "map trim tags = tags" by (simp add: map_idI)
    with Tag assms split show ?thesis
      by (simp add: keys k parse_keyed_simps parse_tag_predicate_def neg)
  next
    case (Status ss)
    then show ?thesis using assms names(2) [of "[Pdf]" ss] comma_list_inverse [of ss status_str status_from_str] names_plain
      by (simp add: keys k parse_keyed_simps parse_status_predicate_def with_key_def)
  next
    case (ExcludeStatus ss)
    then show ?thesis using assms names(2) [of "[Pdf]" ss] comma_list_inverse [of ss status_str status_from_str] names_plain
      by (simp add: keys k parse_keyed_simps parse_status_predicate_def with_key_def)
  next
    case (Source s)
    with assms show ?thesis by (simp add: keys k parse_keyed_simps parse_simple_predicate_def neg)
  next
    case (CreatedSince d)
    with assms valid_date_plain show ?thesis by (simp add: keys k parse_keyed_simps parse_date_predicate_def neg)
  next
    case (CreatedBefore d)
    with assms valid_date_plain show ?thesis by (simp add: keys k parse_keyed_simps parse_date_predicate_def neg)
  next
    case (TextQuery q)
    with assms show ?thesis by (simp add: keys k parse_keyed_simps parse_simple_predicate_def neg)
  qed
qed

lemma print_plain:
  assumes "printable p"
  shows "print_predicate p \<noteq> [] \<and> list_all plain_char (print_predicate p)"
proof -
  have keys_plain: "list_all plain_char (chars k)"
    if "k \<in> {''type:'', ''tag:'', ''status:'', ''-status:'', ''source:'', ''since:'', ''before:'', ''text:''}" for k
    using that by (auto simp: chars_def plain_char_def is_whitespace_def)
  have names: "plain_text (join_with 44 (map content_type_str ts))" "plain_text (join_with 44 (map status_str ss))"
    if "ts \<noteq> []" "ss \<noteq> []" for ts ss
    using that names_plain by (auto intro!: join_plain)
  show ?thesis
    using assms keys_plain names(1) [of _ "[Inbox]"] names(2) [of "[Pdf]"] valid_date_plain
    by (cases p) (auto simp: plain_text_def)
qed

lemma print_then_parse:
  assumes "f \<noteq> []" and "list_all printable f"
  shows "parse_filter (print_filter f) = Inr f"
proof -
  let ?toks = "map print_predicate f"
  have toks: "?toks \<noteq> []" "list_all (\<lambda>t. t \<noteq> [] \<and> list_all plain_char t) ?toks"
    using assms print_plain by (auto simp: list_all_iff)
  have "map_res parse_token (map print_predicate g) = Inr g" if "list_all printable g" for g
    using that by (induction g) (simp_all add: parse_print)
  with assms scan_join [OF toks] trim_join [OF toks] show ?thesis
    by (simp add: parse_filter_def print_filter_def tokenize_def)
qed

section \<open>What a query without quotes parses to\<close>

lemma scan_plain_tokens:
  "34 \<notin> set s \<Longrightarrow> 39 \<notin> set s \<Longrightarrow> list_all plain_char cur \<Longrightarrow> t \<in> set (scan cur s) \<Longrightarrow> list_all plain_char t"
proof (induction cur s rule: scan.induct)
  case (2 cur c s)
  have "\<not> (s \<noteq> [] \<and> (hd s = 34 \<or> hd s = 39))" using "2.prems"(1,2) by (cases s) auto
  then show ?case
    using "2.prems" "2.IH" by (auto simp: plain_char_def split: if_splits)
qed (auto split: if_splits)

lemma join_split: "join_with c (split_on c s) = s"
proof (induction s)
  case (Cons x s)
  show ?case
  proof (cases "split_on c s")
    case Nil
    then show ?thesis by simp
  next
    case p: (Cons p ps)
    show ?thesis using Cons.IH by (cases ps) (auto simp: p)
  qed
qed simp

lemma set_join_superset: "p \<in> set ps \<Longrightarrow> set p \<subseteq> set (join_with c ps)"
  by (induction c ps rule: join_with.induct) auto

lemma split_no_sep: "p \<in> set (split_on c s) \<Longrightarrow> c \<notin> set p"
proof (induction s arbitrary: p)
  case (Cons x s)
  then show ?case by (cases "split_on c s") (auto split: if_splits)
qed simp

lemma parse_comma_list_nonempty [simp]: "parse_comma_list v f \<noteq> Inr []"
  by (cases "split_on 44 v") (auto simp: parse_comma_list_def result_iff)

lemma parse_keyed_printable:
  assumes "parse_keyed key v n = Inr p" and "plain_text v"
  shows "printable p"
proof -
  have plain: "list_all plain_char v" using assms(2) by (simp add: plain_text_def)
  have "map trim (split_on 44 v) = split_on 44 v"
  proof (rule map_idI)
    fix t assume "t \<in> set (split_on 44 v)"
    then have "set t \<subseteq> set v" by (metis join_split set_join_superset)
    then show "trim t = t" using plain_no_space [OF plain] by (intro trim_id) blast
  qed
  then have tag: "printable (Tag (map trim (split_on 44 v)))"
    using assms(2) split_no_sep by (auto simp: join_split list_all_iff)
  show ?thesis
    using assms tag
    by (auto simp: parse_keyed_def parse_type_predicate_def parse_tag_predicate_def parse_status_predicate_def
        parse_simple_predicate_def parse_date_predicate_def with_key_def invalid_def result_iff
        split: if_splits sum.splits)
qed

lemma parse_token_printable:
  assumes "parse_token t = Inr p" and "list_all plain_char t"
  shows "printable p"
proof -
  obtain n u where nu: "(case strip_prefix 45 t of Some rest \<Rightarrow> (True, rest) | None \<Rightarrow> (False, t)) = (n, u)"
    by (meson surj_pair)
  then have u: "list_all plain_char u"
    using assms(2) by (cases t) (auto split: if_splits)
  obtain key raw where kr: "split_once 58 u = Some (key, raw)"
    using assms(1) nu by (auto simp: parse_token_def split: option.splits)
  then have raw: "list_all plain_char raw" using u by (simp add: split_once_Some)
  have "strip_quotes raw = raw"
    using raw strip_quotes_plain [of raw] by (cases "raw = []") (auto simp: plain_text_def strip_quotes_def)
  with assms(1) nu kr have "raw \<noteq> []" "parse_keyed key raw n = Inr p"
    by (auto simp: parse_token_def invalid_def split: if_splits)
  with raw show ?thesis by (intro parse_keyed_printable) (simp_all add: plain_text_def)
qed

lemma set_trim: "set (trim s) \<subseteq> set s"
proof -
  have "set (dropWhile is_whitespace u) \<subseteq> set u" for u using set_dropWhileD by fast
  from this [of "rev (dropWhile is_whitespace s)"] this [of s] show ?thesis by (auto simp: trim_def)
qed

lemma map_res_all:
  "map_res f xs = Inr ys \<Longrightarrow> (\<And>x y. x \<in> set xs \<Longrightarrow> f x = Inr y \<Longrightarrow> Q y) \<Longrightarrow> list_all Q ys"
  by (induction xs arbitrary: ys) (simp, fastforce simp: result_iff)

lemma parse_then_printable:
  assumes "parse_filter q = Inr f" and "34 \<notin> set q" and "39 \<notin> set q"
  shows "f \<noteq> [] \<and> list_all printable f"
proof -
  have toks: "map_res parse_token (tokenize (trim q)) = Inr f" and ne: "f \<noteq> []"
    using assms(1) by (auto simp: parse_filter_def Let_def result_iff split: if_splits)
  have noq: "34 \<notin> set (trim q)" "39 \<notin> set (trim q)" using assms(2,3) set_trim [of q] by blast+
  have plain: "list_all plain_char t" if "t \<in> set (tokenize (trim q))" for t
    by (rule scan_plain_tokens [OF noq _ that [unfolded tokenize_def]]) simp
  have "list_all printable f"
    by (rule map_res_all [OF toks]) (rule parse_token_printable [OF _ plain])
  with ne show ?thesis by simp
qed

text \<open>
  C38. Printing a filter and parsing it again gives the same filter whenever its values hold neither
  whitespace nor quotes; and every filter parsed from a query without quotes is of that
  kind, so it survives any number of saves.
\<close>
theorem filter_round_trip:
  assumes "f \<noteq> []" and "list_all printable f"
    and "parse_filter q = Inr g" and "34 \<notin> set q" and "39 \<notin> set q"
  shows "parse_filter (print_filter f) = Inr f \<and> parse_filter (print_filter g) = Inr g"
  using print_then_parse [OF assms(1,2)] print_then_parse parse_then_printable [OF assms(3-5)] by blast

lemmas date_eval = validate_date_def chars_def byte_len_def utf8_len_def parse_u32_def is_digit_def Let_def

theorem filter_round_trip_witness:
  "parse_filter (chars ''tag:rust,c -status:inbox since:2025-01-01'')
     = Inr [Tag [chars ''rust'', chars ''c''], ExcludeStatus [Inbox], CreatedSince (chars ''2025-01-01'')]"
proof -
  let ?f = "[Tag [chars ''rust'', chars ''c''], ExcludeStatus [Inbox], CreatedSince (chars ''2025-01-01'')]"
  let ?q = "chars ''tag:rust,c -status:inbox since:2025-01-01''"
  have q: "print_filter ?f = ?q" by (simp add: print_filter_def chars_def)
  have "validate_date (chars ''2025-01-01'') = Inr ()" by (simp add: date_eval)
  then have p: "list_all printable ?f"
    by (simp add: plain_text_def) (simp add: chars_def plain_char_def is_whitespace_def)
  have "34 \<notin> set ?q" "39 \<notin> set ?q" by (simp_all add: chars_def)
  from filter_round_trip [OF _ p print_then_parse [OF _ p, unfolded q] this] q show ?thesis by simp
qed

text \<open>What a quoted value loses: the printer does not quote it again.\<close>

lemma quoted_value_does_not_print_back:
  "parse_filter (chars ''text:\"hello world\"'') = Inr [TextQuery (chars ''hello world'')]"
  "parse_filter (print_filter [TextQuery (chars ''hello world'')]) = Inl (MissingSeparator (chars ''world''))"
  by (simp_all add: parse_filter_def tokenize_def print_filter_def trim_def chars_def is_whitespace_def quoted_part_def
      after_quoted_def parse_token_def strip_quotes_def strip_suffix_def parse_keyed_def parse_simple_predicate_def
      reject_negation_def Let_def)

text \<open>The date check takes a plus sign for a digit and any month.\<close>

lemma odd_dates_pass: "validate_date (chars ''+202-99-+1'') = Inr ()"
  by (simp add: date_eval)

end
