(* ===== verification/Content_Rule.thy ===== *)
theory Content_Rule
  imports Filter_Roundtrip
begin

text \<open>
  The rule engine, \<^verbatim>\<open>crates/pergamon-core/src/rule.rs\<close>: rules match an item in memory and plan
  actions; a tag planned by one rule is seen by the rules after it. Unicode lowercasing and
  the RFC 3339 text of a time are library code and parameters.
\<close>

section \<open>Rules and actions\<close>

record 't content_item =
  ci_id :: string
  ci_url :: "utext option"
  ci_title :: utext
  ci_author :: "utext option"
  ci_content_type :: content_type
  ci_status :: document_status
  ci_content_text :: "utext option"
  ci_excerpt :: "utext option"
  ci_published_at :: "'t option"
  ci_created_at :: 't
  ci_updated_at :: 't
  ci_read_at :: "'t option"

datatype rule_action = AddTag utext | SetStatus document_status | AddToCollection utext | Mute

record 't content_rule =
  cr_id :: string
  cr_name :: utext
  cr_enabled :: bool
  cr_priority :: int
  cr_filter_query :: utext
  cr_actions :: "rule_action list"
  cr_created_at :: 't
  cr_updated_at :: 't

record 't match_context =
  mc_item :: "'t content_item"
  mc_tags :: "utext list"
  mc_feed_title :: "utext option"

record planned_action =
  pa_rule_id :: string
  pa_rule_name :: utext
  pa_action :: rule_action

record 't rule_env =
  re_lowercase :: "utext \<Rightarrow> utext"
  re_rfc3339 :: "'t \<Rightarrow> utext option"

fun print_action :: "rule_action \<Rightarrow> utext" where
  "print_action (AddTag tag) = chars ''tag:'' @ tag"
| "print_action (SetStatus status) = chars ''status:'' @ status_str status"
| "print_action (AddToCollection name) = chars ''collection:'' @ name"
| "print_action Mute = chars ''mute''"

definition parse_action :: "utext \<Rightarrow> utext + rule_action" where
  "parse_action s =
     (if s = chars ''mute'' then Inr Mute
      else case split_once 58 s of
        None \<Rightarrow> Inl (chars ''action must be key:value or 'mute', got: '' @ s)
      | Some (key, value) \<Rightarrow>
          if key = chars ''tag'' then Inr (AddTag value)
          else if key = chars ''status'' then
            (case status_from_str value of
               Inl _ \<Rightarrow> Inl (chars ''unknown status: '' @ value)
             | Inr status \<Rightarrow> Inr (SetStatus status))
          else if key = chars ''collection'' then Inr (AddToCollection value)
          else Inl (chars ''unknown action type: '' @ key))"

section \<open>Matching\<close>

definition format_time :: "'t rule_env \<Rightarrow> 't \<Rightarrow> utext" where
  "format_time E t = (case re_rfc3339 E t of Some s \<Rightarrow> s | None \<Rightarrow> [])"

definition has_tag :: "utext list \<Rightarrow> utext \<Rightarrow> bool" where
  "has_tag tags t \<longleftrightarrow> list_ex (\<lambda>ct. eq_ignoring_ascii_case ct t) tags"

fun matches_predicate :: "'t rule_env \<Rightarrow> 't match_context \<Rightarrow> filter_predicate \<Rightarrow> bool" where
  "matches_predicate E ctx (ContentType types) = (ci_content_type (mc_item ctx) \<in> set types)"
| "matches_predicate E ctx (Tag tags) = list_ex (has_tag (mc_tags ctx)) tags"
| "matches_predicate E ctx (Status statuses) = (ci_status (mc_item ctx) \<in> set statuses)"
| "matches_predicate E ctx (ExcludeStatus statuses) = (ci_status (mc_item ctx) \<notin> set statuses)"
| "matches_predicate E ctx (Source src) =
     (case mc_feed_title ctx of
        None \<Rightarrow> False
      | Some ft \<Rightarrow> contains (re_lowercase E src) (re_lowercase E ft))"
| "matches_predicate E ctx (CreatedSince date) =
     (date @ chars ''T00:00:00Z'' \<le> format_time E (ci_created_at (mc_item ctx)))"
| "matches_predicate E ctx (CreatedBefore date) =
     (format_time E (ci_created_at (mc_item ctx)) < date @ chars ''T00:00:00Z'')"
| "matches_predicate E ctx (TextQuery q0) =
     (let q = re_lowercase E q0 in
      contains q (re_lowercase E (ci_title (mc_item ctx)))
      \<or> (case ci_content_text (mc_item ctx) of None \<Rightarrow> False | Some t \<Rightarrow> contains q (re_lowercase E t)))"

definition matches_filter :: "'t rule_env \<Rightarrow> 't match_context \<Rightarrow> smart_filter \<Rightarrow> bool" where
  "matches_filter E ctx f \<longleftrightarrow> list_all (matches_predicate E ctx) f"

section \<open>Evaluation\<close>

definition plan_action :: "'t content_rule \<Rightarrow> rule_action \<Rightarrow> 't match_context \<times> planned_action list
    \<Rightarrow> 't match_context \<times> planned_action list" where
  "plan_action rule action st =
     (case st of (ctx, planned) \<Rightarrow>
       (case action of
          AddTag tag \<Rightarrow> if has_tag (mc_tags ctx) tag then ctx else ctx\<lparr>mc_tags := mc_tags ctx @ [tag]\<rparr>
        | _ \<Rightarrow> ctx,
        planned @ [\<lparr>pa_rule_id = cr_id rule, pa_rule_name = cr_name rule, pa_action = action\<rparr>]))"

definition run_rule :: "'t rule_env \<Rightarrow> 't content_rule \<Rightarrow> 't match_context \<times> planned_action list
    \<Rightarrow> 't match_context \<times> planned_action list" where
  "run_rule E rule st =
     (case parse_filter (cr_filter_query rule) of
        Inl _ \<Rightarrow> st
      | Inr f \<Rightarrow> if matches_filter E (fst st) f then fold (plan_action rule) (cr_actions rule) st else st)"

definition rule_order :: "'t content_rule list \<Rightarrow> 't content_rule list" where
  "rule_order rules = sort_key cr_priority (filter cr_enabled rules)"

definition evaluate_rules ::
  "'t rule_env \<Rightarrow> 't match_context \<Rightarrow> 't content_rule list \<Rightarrow> 't match_context \<times> planned_action list" where
  "evaluate_rules E ctx rules = fold (run_rule E) (rule_order rules) (ctx, [])"

definition PROTECTED_STATUSES :: "document_status list" where
  "PROTECTED_STATUSES = [Later, Reference, Reading]"

definition is_protected :: "'t content_item \<Rightarrow> bool" where
  "is_protected item \<longleftrightarrow> ci_status item \<in> set PROTECTED_STATUSES"

section \<open>Actions print back\<close>

lemma action_round_trip: "parse_action (print_action a) = Inr a"
proof -
  have s: "status_from_str (status_str x) = Inr x" for x by (cases x; simp add: status_from_str_def chars_def)
  show ?thesis by (cases a) (simp_all add: parse_action_def chars_def s)
qed

section \<open>Tags planned by a rule\<close>

text \<open>Two contexts no predicate can tell apart.\<close>

definition looks_like :: "'t match_context \<Rightarrow> 't match_context \<Rightarrow> bool" where
  "looks_like a b \<longleftrightarrow> mc_item a = mc_item b \<and> mc_feed_title a = mc_feed_title b
     \<and> (\<forall>t. has_tag (mc_tags a) t = has_tag (mc_tags b) t)"

definition with_tags :: "'t match_context \<Rightarrow> utext list \<Rightarrow> 't match_context" where
  "with_tags ctx ts = ctx\<lparr>mc_tags := mc_tags ctx @ ts\<rparr>"

fun added_tag :: "rule_action \<Rightarrow> utext list" where
  "added_tag (AddTag tag) = [tag]"
| "added_tag _ = []"

definition tags_of :: "'t content_rule \<Rightarrow> utext list" where
  "tags_of r = concat (map added_tag (cr_actions r))"

lemma has_tag_append [simp]: "has_tag (ts @ us) t \<longleftrightarrow> has_tag ts t \<or> has_tag us t"
  by (simp add: has_tag_def)

lemma has_tag_again: "has_tag ts t \<Longrightarrow> has_tag [t] u \<Longrightarrow> has_tag ts u"
  by (auto simp: has_tag_def list_ex_iff eq_ignoring_ascii_case_def)

lemma looks_like_refl [simp]: "looks_like a a"
  by (simp add: looks_like_def)

lemma looks_like_trans: "looks_like a b \<Longrightarrow> looks_like b c \<Longrightarrow> looks_like a c"
  by (simp add: looks_like_def)

lemma looks_like_with_tags: "looks_like a b \<Longrightarrow> looks_like (with_tags a ts) (with_tags b ts)"
  by (simp add: looks_like_def with_tags_def)

lemma with_tags_append [simp]:
  "with_tags (with_tags ctx ts) us = with_tags ctx (ts @ us)" "with_tags ctx [] = ctx"
  by (simp_all add: with_tags_def)

lemma matches_like: "looks_like a b \<Longrightarrow> matches_predicate E a p = matches_predicate E b p"
  by (cases p) (simp_all add: looks_like_def list_ex_iff)

lemma filter_like: "looks_like a b \<Longrightarrow> matches_filter E a f = matches_filter E b f"
  by (auto simp: matches_filter_def list_all_iff matches_like)

lemma plan_action_tags: "looks_like (fst (plan_action r a st)) (with_tags (fst st) (added_tag a))"
  by (cases st; cases a) (auto simp: plan_action_def looks_like_def with_tags_def dest: has_tag_again)

lemma plan_actions_tags: "looks_like (fst (fold (plan_action r) as st)) (with_tags (fst st) (concat (map added_tag as)))"
proof (induction as arbitrary: st)
  case (Cons a as)
  show ?case
    using looks_like_trans [OF Cons.IH looks_like_with_tags [OF plan_action_tags]] by simp
qed simp

lemma plan_actions:
  "snd (fold (plan_action r) as st) =
     snd st @ map (\<lambda>a. \<lparr>pa_rule_id = cr_id r, pa_rule_name = cr_name r, pa_action = a\<rparr>) as"
proof (induction as arbitrary: st)
  case (Cons a as)
  show ?case using Cons.IH [of "plan_action r a st"] by (cases st) (simp add: plan_action_def)
qed simp

section \<open>Which rules fire\<close>

text \<open>A rule's filter parses and matches.\<close>

definition fires :: "'t rule_env \<Rightarrow> 't match_context \<Rightarrow> 't content_rule \<Rightarrow> bool" where
  "fires E ctx r \<longleftrightarrow> (case parse_filter (cr_filter_query r) of Inl _ \<Rightarrow> False | Inr f \<Rightarrow> matches_filter E ctx f)"

definition plans_of :: "'t content_rule \<Rightarrow> planned_action list" where
  "plans_of r = map (\<lambda>a. \<lparr>pa_rule_id = cr_id r, pa_rule_name = cr_name r, pa_action = a\<rparr>) (cr_actions r)"

lemma fires_like: "looks_like a b \<Longrightarrow> fires E a r = fires E b r"
  by (simp add: fires_def filter_like split: sum.splits)

lemma run_rule_cases:
  "run_rule E r st = (if fires E (fst st) r then fold (plan_action r) (cr_actions r) st else st)"
  by (simp add: run_rule_def fires_def split: sum.split)

lemma run_rule_step:
  "looks_like (fst (run_rule E r st)) (with_tags (fst st) (if fires E (fst st) r then tags_of r else []))"
  "snd (run_rule E r st) = snd st @ (if fires E (fst st) r then plans_of r else [])"
  using plan_actions_tags [of r "cr_actions r" st] by (simp_all add: run_rule_cases plan_actions plans_of_def tags_of_def)

text \<open>\<open>F\<close> holds the positions of the rules that fire: each rule is asked about the item with the
  tags of the rules that fired before it.\<close>

definition fired_at :: "'t rule_env \<Rightarrow> 't match_context \<Rightarrow> 't content_rule list \<Rightarrow> nat set \<Rightarrow> bool" where
  "fired_at E ctx rs F \<longleftrightarrow> F \<subseteq> {..<length rs} \<and> (\<forall>i < length rs. i \<in> F \<longleftrightarrow>
     fires E (with_tags ctx (concat (map tags_of (nths (take i rs) F)))) (rs ! i))"

lemma nths_beyond: "length xs \<le> n \<Longrightarrow> nths xs (insert n F) = nths xs F"
  by (auto simp: nths_def intro!: arg_cong [where f = "map fst"] filter_cong dest!: set_zip_rightD)

lemma fired_at_snoc:
  fixes r :: "'t content_rule"
  assumes "fired_at E ctx rs F"
  defines "now \<equiv> fires E (with_tags ctx (concat (map tags_of (nths rs F)))) r"
  defines "F' \<equiv> (if now then insert (length rs) F else F)"
  shows "fired_at E ctx (rs @ [r]) F'" and "nths (rs @ [r]) F' = nths rs F @ (if now then [r] else [])"
proof -
  have sub: "F \<subseteq> {..<length rs}" using assms(1) by (simp add: fired_at_def)
  have same: "nths (take i rs) F' = nths (take i rs) F" for i
    by (simp add: F'_def nths_beyond)
  show "nths (rs @ [r]) F' = nths rs F @ (if now then [r] else [])"
    using same [of "length rs"] sub by (auto simp: nths_append F'_def)
  show "fired_at E ctx (rs @ [r]) F'"
    unfolding fired_at_def
  proof (intro conjI allI impI)
    show "F' \<subseteq> {..<length (rs @ [r])}" using sub by (auto simp: F'_def)
    fix i assume "i < length (rs @ [r])"
    then consider "i < length rs" | "i = length rs" by fastforce
    then show "i \<in> F' \<longleftrightarrow> fires E (with_tags ctx (concat (map tags_of (nths (take i (rs @ [r])) F')))) ((rs @ [r]) ! i)"
    proof cases
      case 1
      then show ?thesis using assms(1) same by (auto simp: F'_def fired_at_def nth_append)
    next
      case 2
      then show ?thesis using same [of "length rs"] sub by (auto simp: F'_def now_def)
    qed
  qed
qed

lemma run_rules:
  "\<exists>F. fired_at E ctx rs F
     \<and> looks_like (fst (fold (run_rule E) rs (ctx, []))) (with_tags ctx (concat (map tags_of (nths rs F))))
     \<and> snd (fold (run_rule E) rs (ctx, [])) = concat (map plans_of (nths rs F))"
proof (induction rs rule: rev_induct)
  case Nil
  then show ?case by (intro exI [of _ "{}"]) (simp add: fired_at_def)
next
  case (snoc r rs)
  let ?st = "fold (run_rule E) rs (ctx, [])"
  obtain F where F: "fired_at E ctx rs F" and l: "looks_like (fst ?st) (with_tags ctx (concat (map tags_of (nths rs F))))"
    and p: "snd ?st = concat (map plans_of (nths rs F))" using snoc by blast
  note s = run_rule_step [of E r ?st, unfolded fires_like [OF l, of E r]] and n = fired_at_snoc [OF F, of r]
  let ?F = "if fires E (with_tags ctx (concat (map tags_of (nths rs F)))) r then insert (length rs) F else F"
  have "looks_like (fst (run_rule E r ?st)) (with_tags ctx (concat (map tags_of (nths (rs @ [r]) ?F))))"
    using looks_like_trans [OF s(1) looks_like_with_tags [OF l]] unfolding n(2) by (simp split: if_splits)
  moreover have "snd (run_rule E r ?st) = concat (map plans_of (nths (rs @ [r]) ?F))"
    unfolding n(2) s(2) p by simp
  ultimately show ?case using n(1) by (intro exI [of _ ?F]) simp
qed

text \<open>The order rules are tried in: the enabled ones by priority, in listed order within one priority.\<close>

lemma rule_order_stable:
  "filter (\<lambda>r. cr_priority r = p) (rule_order rules) = filter (\<lambda>r. cr_enabled r \<and> cr_priority r = p) rules"
  by (simp add: rule_order_def sort_key_stable conj_commute)

text \<open>
  C37. Rules are tried one after another, the enabled ones by rising priority and in listed order
  where priorities are equal. A rule fires exactly when its filter parses and matches the item
  carrying its own tags and those added by the rules that fired before it, and by no other; what
  is planned is the actions of the rules that fire, in that order, and the item ends up with
  the tags of all of them, compared as the filters compare tags, without regard to ASCII case.
\<close>
theorem rules_fire_in_order:
  assumes "evaluate_rules E ctx rules = (ctx', planned)" and "order = rule_order rules"
  shows "sorted (map cr_priority order)
    \<and> (\<forall>p. filter (\<lambda>r. cr_priority r = p) order = filter (\<lambda>r. cr_enabled r \<and> cr_priority r = p) rules)
    \<and> (\<exists>F. F \<subseteq> {..<length order}
        \<and> (\<forall>i < length order. i \<in> F \<longleftrightarrow>
             fires E (with_tags ctx (concat (map tags_of (nths (take i order) F)))) (order ! i))
        \<and> planned = concat (map plans_of (nths order F))
        \<and> looks_like ctx' (with_tags ctx (concat (map tags_of (nths order F)))))"
proof (intro conjI)
  show "sorted (map cr_priority order)" by (simp add: assms(2) rule_order_def)
  show "\<forall>p. filter (\<lambda>r. cr_priority r = p) order = filter (\<lambda>r. cr_enabled r \<and> cr_priority r = p) rules"
    by (simp add: assms(2) rule_order_stable)
  show "\<exists>F. F \<subseteq> {..<length order}
        \<and> (\<forall>i < length order. i \<in> F \<longleftrightarrow>
             fires E (with_tags ctx (concat (map tags_of (nths (take i order) F)))) (order ! i))
        \<and> planned = concat (map plans_of (nths order F))
        \<and> looks_like ctx' (with_tags ctx (concat (map tags_of (nths order F))))"
    using run_rules [of E ctx order] assms by (auto simp: evaluate_rules_def fired_at_def)
qed

text \<open>A chain: the first rule tags the item, the second fires on the tag.\<close>

definition demo_item :: "nat content_item" where
  "demo_item = \<lparr>ci_id = ''i'', ci_url = None, ci_title = chars ''A'', ci_author = None, ci_content_type = Article,
     ci_status = Inbox, ci_content_text = None, ci_excerpt = None, ci_published_at = None, ci_created_at = 0,
     ci_updated_at = 0, ci_read_at = None\<rparr>"

definition demo_rule :: "string \<Rightarrow> int \<Rightarrow> utext \<Rightarrow> rule_action list \<Rightarrow> nat content_rule" where
  "demo_rule i p q acts = \<lparr>cr_id = i, cr_name = chars i, cr_enabled = True, cr_priority = p, cr_filter_query = q,
     cr_actions = acts, cr_created_at = 0, cr_updated_at = 0\<rparr>"

definition lib_env :: "nat rule_env" where
  "lib_env = \<lparr>re_lowercase = (\<lambda>s. s), re_rfc3339 = (\<lambda>_. None)\<rparr>"

lemma demo_queries:
  "parse_filter (chars ''tag:rust'') = Inr [Tag [chars ''rust'']]"
  "parse_filter (chars ''type:article'') = Inr [ContentType [Article]]"
proof -
  have q: "print_filter [Tag [chars ''rust'']] = chars ''tag:rust''" "print_filter [ContentType [Article]] = chars ''type:article''"
    by (simp_all add: print_filter_def chars_def)
  have p: "list_all printable [Tag [chars ''rust'']]"
    by (simp add: plain_text_def) (simp add: chars_def plain_char_def is_whitespace_def)
  show "parse_filter (chars ''tag:rust'') = Inr [Tag [chars ''rust'']]"
    "parse_filter (chars ''type:article'') = Inr [ContentType [Article]]"
    using print_then_parse [OF _ p] print_then_parse [of "[ContentType [Article]]"] by (simp_all add: q)
qed

theorem rules_fire_in_order_witness:
  "let r1 = demo_rule ''1'' 0 (chars ''type:article'') [AddTag (chars ''rust'')];
       r2 = demo_rule ''2'' 5 (chars ''tag:rust'') [Mute];
       ctx = \<lparr>mc_item = demo_item, mc_tags = [], mc_feed_title = None\<rparr>
   in map pa_action (snd (evaluate_rules lib_env ctx [r2, r1])) = [AddTag (chars ''rust''), Mute]
      \<and> \<not> fires lib_env ctx r2 \<and> sorted (map cr_priority (rule_order [r2, r1]))
      \<and> (\<exists>F. F \<subseteq> {..<2} \<and> snd (evaluate_rules lib_env ctx [r2, r1]) = concat (map plans_of (nths [r1, r2] F)))"
proof -
  let ?r1 = "demo_rule ''1'' 0 (chars ''type:article'') [AddTag (chars ''rust'')]"
  let ?r2 = "demo_rule ''2'' 5 (chars ''tag:rust'') [Mute]"
  let ?ctx = "\<lparr>mc_item = demo_item, mc_tags = [], mc_feed_title = None\<rparr>"
  have e: "map pa_action (snd (evaluate_rules lib_env ?ctx [?r2, ?r1])) = [AddTag (chars ''rust''), Mute]"
    by (simp add: evaluate_rules_def rule_order_def demo_rule_def run_rule_def demo_queries matches_filter_def
        demo_item_def plan_action_def has_tag_def eq_ignoring_ascii_case_def)
  have n: "\<not> fires lib_env ?ctx ?r2"
    by (simp add: fires_def demo_rule_def demo_queries matches_filter_def has_tag_def)
  have o: "rule_order [?r2, ?r1] = [?r1, ?r2]" by (simp add: rule_order_def demo_rule_def)
  obtain c p where cp: "evaluate_rules lib_env ?ctx [?r2, ?r1] = (c, p)" by (meson surj_pair)
  from rules_fire_in_order [OF cp refl] have "sorted (map cr_priority (rule_order [?r2, ?r1]))"
    and "\<exists>F. F \<subseteq> {..<2} \<and> p = concat (map plans_of (nths [?r1, ?r2] F))" unfolding o by (auto simp: numeral_2_eq_2)
  with e n cp show ?thesis by (simp add: Let_def)
qed

text \<open>An item created in the first second of a day, but not on its first instant, is not found by
  \<open>since:\<close> that day: its time has a fraction, and a dot sorts before the letter Z.\<close>

lemma since_misses_first_second:
  assumes "re_rfc3339 E (ci_created_at (mc_item ctx)) = Some (chars ''2025-01-15T00:00:00.5Z'')"
  shows "\<not> matches_predicate E ctx (CreatedSince (chars ''2025-01-15''))"
    and "matches_predicate E ctx (CreatedBefore (chars ''2025-01-15''))"
  using assms by (simp_all add: format_time_def chars_def)

end
