(* ===== verification/Fairness.thy ===== *)
theory Fairness
  imports Server_Api
begin

text \<open>
  The per-tenant concurrency cap, \<^verbatim>\<open>crates/pergamon-sync-server/src/fairness.rs\<close>, as a state
  machine: any number of threads, each idle, waiting on the condition variable or holding a
  slot, over the one map of in-flight counts. A cap of zero switches the limiter off: its callers
  proceed without a slot and without touching the map. A step is what a thread does while it holds
  the mutex; a wake-up may be a notification, a timeout or spurious. How long a wait lasts
  is left open.
\<close>

section \<open>The limiter\<close>

record fairness_config =
  fc_max_tenant_concurrency :: nat
  fc_wait_timeout_ms :: u64

definition for_pool :: "nat \<Rightarrow> u64 \<Rightarrow> fairness_config" where
  "for_pool pool_size wait_timeout =
     \<lparr>fc_max_tenant_concurrency = (if pool_size > 1 then pool_size - 1 else 1), fc_wait_timeout_ms = wait_timeout\<rparr>"

definition disabled :: fairness_config where
  "disabled = \<lparr>fc_max_tenant_concurrency = 0, fc_wait_timeout_ms = 0\<rparr>"

definition is_disabled :: "fairness_config \<Rightarrow> bool" where
  "is_disabled c \<longleftrightarrow> fc_max_tenant_concurrency c = 0"

type_synonym inflight = "string \<Rightarrow> nat option"

definition current :: "inflight \<Rightarrow> string \<Rightarrow> nat" where
  "current m a = (case m a of Some n \<Rightarrow> n | None \<Rightarrow> 0)"

text \<open>One pass of the loop of \<open>acquire\<close>: the slot, if the tenant is below its cap.\<close>

definition try_acquire :: "nat \<Rightarrow> string \<Rightarrow> inflight \<Rightarrow> inflight option" where
  "try_acquire cap a m = (if current m a < cap then Some (m(a \<mapsto> current m a + 1)) else None)"

definition release :: "string \<Rightarrow> inflight \<Rightarrow> inflight" where
  "release a m =
     (case m a of
        None \<Rightarrow> m
      | Some count \<Rightarrow> if count - 1 = 0 then m(a := None) else m(a \<mapsto> count - 1))"

section \<open>Threads\<close>

datatype thread = Idle | Waiting string | Holding string

record limiter =
  lm_inflight :: inflight
  lm_threads :: "nat \<Rightarrow> thread"

definition limiter_start :: limiter where
  "limiter_start = \<lparr>lm_inflight = Map.empty, lm_threads = (\<lambda>_. Idle)\<rparr>"

inductive limiter_step :: "nat \<Rightarrow> limiter \<Rightarrow> limiter \<Rightarrow> bool" for cap :: nat where
  off: "cap = 0 \<Longrightarrow> lm_threads s t = Idle \<Longrightarrow> limiter_step cap s s"
| grant: "0 < cap \<Longrightarrow> lm_threads s t = Idle \<or> lm_threads s t = Waiting a \<Longrightarrow>
    try_acquire cap a (lm_inflight s) = Some m \<Longrightarrow>
    limiter_step cap s (s\<lparr>lm_inflight := m, lm_threads := (lm_threads s)(t := Holding a)\<rparr>)"
| wait: "0 < cap \<Longrightarrow> lm_threads s t = Idle \<Longrightarrow> try_acquire cap a (lm_inflight s) = None \<Longrightarrow>
    limiter_step cap s (s\<lparr>lm_threads := (lm_threads s)(t := Waiting a)\<rparr>)"
| busy: "0 < cap \<Longrightarrow> lm_threads s t = Idle \<or> lm_threads s t = Waiting a \<Longrightarrow>
    try_acquire cap a (lm_inflight s) = None \<Longrightarrow>
    limiter_step cap s (s\<lparr>lm_threads := (lm_threads s)(t := Idle)\<rparr>)"
| leave: "lm_threads s t = Holding a \<Longrightarrow>
    limiter_step cap s (s\<lparr>lm_inflight := release a (lm_inflight s), lm_threads := (lm_threads s)(t := Idle)\<rparr>)"

inductive_cases limiter_stepE: "limiter_step cap s s'"

inductive limiter_reaches :: "nat \<Rightarrow> limiter \<Rightarrow> bool" for cap :: nat where
  start: "limiter_reaches cap limiter_start"
| step: "limiter_reaches cap s \<Longrightarrow> limiter_step cap s s' \<Longrightarrow> limiter_reaches cap s'"

section \<open>The invariant\<close>

definition holders :: "limiter \<Rightarrow> string \<Rightarrow> nat set" where
  "holders s a = {t. lm_threads s t = Holding a}"

definition limiter_ok :: "nat \<Rightarrow> limiter \<Rightarrow> bool" where
  "limiter_ok cap s \<longleftrightarrow>
     (\<forall>a. finite (holders s a) \<and> card (holders s a) \<le> cap
        \<and> lm_inflight s a = (if holders s a = {} then None else Some (card (holders s a))))"

lemma ok_current: "limiter_ok cap s \<Longrightarrow> current (lm_inflight s) a = card (holders s a)"
  by (auto simp: limiter_ok_def current_def)

lemma holders_upd:
  "holders (s\<lparr>lm_threads := (lm_threads s)(t := x)\<rparr>) a =
     (if x = Holding a then insert t (holders s a) else holders s a - {t})"
  "holders (s\<lparr>lm_inflight := m, lm_threads := (lm_threads s)(t := x)\<rparr>) a =
     (if x = Holding a then insert t (holders s a) else holders s a - {t})"
  by (auto simp: holders_def)

lemma step_ok:
  assumes "limiter_step cap s s'" and ok: "limiter_ok cap s"
  shows "limiter_ok cap s'"
  using assms(1)
proof cases
  case (off t)
  with ok show ?thesis by simp
next
  case (grant t a m)
  have t: "t \<notin> holders s b" for b using grant(3) by (auto simp: holders_def)
  have lt: "card (holders s a) < cap" and m: "m = (lm_inflight s)(a \<mapsto> card (holders s a) + 1)"
    using grant(4) ok_current [OF ok, of a] by (auto simp: try_acquire_def split: if_splits)
  show ?thesis
    unfolding limiter_ok_def grant(1) holders_upd
    using ok lt t m by (auto simp: limiter_ok_def)
next
  case (wait t a)
  have "t \<notin> holders s b" for b using wait(3) by (auto simp: holders_def)
  with ok show ?thesis unfolding limiter_ok_def wait(1) holders_upd by simp
next
  case (busy t a)
  have "t \<notin> holders s b" for b using busy(3) by (auto simp: holders_def)
  with ok show ?thesis unfolding limiter_ok_def busy(1) holders_upd by simp
next
  case (leave t a)
  have t: "t \<in> holders s a" and others: "\<And>b. b \<noteq> a \<Longrightarrow> t \<notin> holders s b" using leave(2) by (auto simp: holders_def)
  have fin: "finite (holders s a)" and some: "lm_inflight s a = Some (card (holders s a))"
    using ok t by (auto simp: limiter_ok_def)
  have c: "card (holders s a - {t}) = card (holders s a) - 1" using t fin by simp
  have e: "holders s a - {t} = {} \<longleftrightarrow> card (holders s a) - 1 = 0" using c fin by (metis card_eq_0_iff finite_Diff)
  have r: "release a (lm_inflight s) = (lm_inflight s)(a := if holders s a - {t} = {} then None else Some (card (holders s a) - 1))"
    using some e by (simp add: release_def)
  have le: "card (holders s a) - 1 \<le> cap" using ok by (meson diff_le_self le_trans limiter_ok_def)
  show ?thesis
    unfolding limiter_ok_def leave(1) holders_upd
    using ok others c r le fin by (auto simp: limiter_ok_def)
qed

lemma reaches_ok: "limiter_reaches cap s \<Longrightarrow> limiter_ok cap s"
  by (induction rule: limiter_reaches.induct)
    (simp add: limiter_ok_def limiter_start_def holders_def, rule step_ok)



end
