(* ===== verification/Auth_Token.thy ===== *)
theory Auth_Token
  imports Server_Api Envelope
begin

unbundle bit_operations_syntax

text \<open>
  The pure half of the sync server's device credentials, \<^verbatim>\<open>crates/pergamon-sync-server/src/auth/
  {token,throttle}.rs\<close>: bearer strings, the bytes a device signs to prove it holds its key, and
  the lockout after failed logins. BLAKE3, Base64 and Ed25519 are third-party code and a
  parameter (\<open>auth_env\<close>); what a request reads from the clock and the random source is an
  argument (\<open>ambient\<close>), so a lemma about an operation holds for every reading.
\<close>

record 'c auth_env =
  ae_blake3 :: "string \<Rightarrow> string"
  ae_b64url_encode :: "string \<Rightarrow> string"
  ae_b64url_decode :: "string \<Rightarrow> string option"
  ae_b64_encode :: "string \<Rightarrow> string"
  ae_b64_decode :: "string \<Rightarrow> string option"
  ae_verify_strict :: "string \<Rightarrow> string \<Rightarrow> string \<Rightarrow> bool"
  ae_challenge_text :: "'c \<Rightarrow> string option"
  ae_challenge_parse :: "string \<Rightarrow> 'c option"

text \<open>The \<open>k\<close>-th reading of the clock, identifier and run of random bytes of a request.\<close>

record ambient =
  am_now :: "nat \<Rightarrow> int"
  am_uuid :: "nat \<Rightarrow> string"
  am_bytes :: "nat \<Rightarrow> string"

section \<open>Signed 64-bit arithmetic\<close>

definition I64_MAX :: int where
  "I64_MAX = 2 ^ 63 - 1"

definition sat_add_i64 :: "int \<Rightarrow> int \<Rightarrow> int" where
  "sat_add_i64 x y = max (- (2 ^ 63)) (min I64_MAX (x + y))"

text \<open>The plain \<open>+\<close> of a release build.\<close>

definition wrap_add_i64 :: "int \<Rightarrow> int \<Rightarrow> int" where
  "wrap_add_i64 x y = signed_take_bit 63 (x + y)"

definition checked_add_i64 :: "int \<Rightarrow> int \<Rightarrow> int option" where
  "checked_add_i64 x y = (if - (2 ^ 63) \<le> x + y \<and> x + y \<le> I64_MAX then Some (x + y) else None)"

section \<open>Tokens\<close>

definition TOKEN_SECRET_LEN :: nat where
  "TOKEN_SECRET_LEN = 32"

definition DEVICE_ID_LEN :: nat where
  "DEVICE_ID_LEN = 16"

definition ED25519_PUB_LEN :: nat where
  "ED25519_PUB_LEN = 32"

definition ED25519_SIG_LEN :: nat where
  "ED25519_SIG_LEN = 64"

definition MINT_POP_TAG :: string where
  "MINT_POP_TAG = ''pergamon/v1/auth/token-mint-pop''"

definition REFRESH_POP_TAG :: string where
  "REFRESH_POP_TAG = ''pergamon/v1/auth/token-refresh-pop''"

record token_config =
  tc_access_ttl_ms :: int
  tc_refresh_ttl_ms :: int

definition token_config_default :: token_config where
  "token_config_default = \<lparr>tc_access_ttl_ms = 60 * 60 * 1000, tc_refresh_ttl_ms = 30 * 24 * 60 * 60 * 1000\<rparr>"

datatype token_kind = Access | Refresh

fun kind_as_str :: "token_kind \<Rightarrow> string" where
  "kind_as_str Access = ''access''"
| "kind_as_str Refresh = ''refresh''"

definition kind_from_wire :: "string \<Rightarrow> token_kind option" where
  "kind_from_wire s = (if s = ''access'' then Some Access else if s = ''refresh'' then Some Refresh else None)"

interpretation kind_wire: wire_enum kind_as_str kind_from_wire
proof unfold_locales
  fix k show "kind_from_wire (kind_as_str k) = Some k" by (cases k) (simp_all add: kind_from_wire_def)
next
  fix s k assume "kind_from_wire s = Some k"
  then show "s = kind_as_str k" by (simp add: kind_from_wire_def split: if_splits)
qed

datatype token_scope = Control | Content

record new_token =
  nt_token_id :: string
  nt_token_hash :: string
  nt_bearer :: string

definition hash_secret :: "'c auth_env \<Rightarrow> string \<Rightarrow> string" where
  "hash_secret E secret = ae_blake3 E secret"

text \<open>The \<open>k\<close>-th token a request generates.\<close>

definition generate :: "'c auth_env \<Rightarrow> ambient \<Rightarrow> nat \<Rightarrow> new_token" where
  "generate E am k =
     (let token_id = am_uuid am k; secret = am_bytes am k
      in \<lparr>nt_token_id = token_id, nt_token_hash = hash_secret E secret,
          nt_bearer = token_id @ ''.'' @ ae_b64url_encode E secret\<rparr>)"

definition parse_bearer :: "'c auth_env \<Rightarrow> string \<Rightarrow> (string \<times> string) option" where
  "parse_bearer E bearer =
     (case split_once (CHR ''.'') bearer of
        None \<Rightarrow> None
      | Some (token_id, secret_b64) \<Rightarrow>
          if token_id = [] then None
          else case ae_b64url_decode E secret_b64 of
                 None \<Rightarrow> None
               | Some secret \<Rightarrow> if length secret \<noteq> TOKEN_SECRET_LEN then None else Some (token_id, secret))"

text \<open>The loop accumulates the differences of all bytes and looks at the end.\<close>

definition constant_time_eq :: "string \<Rightarrow> string \<Rightarrow> bool" where
  "constant_time_eq a b =
     (if length a \<noteq> length b then False
      else fold (\<lambda>(x, y) diff. diff OR (of_char x XOR of_char y)) (zip a b) (0 :: 8 word) = 0)"

definition device_id_from_ed25519 :: "'c auth_env \<Rightarrow> string \<Rightarrow> string" where
  "device_id_from_ed25519 E pub = to_hex (take DEVICE_ID_LEN (ae_blake3 E pub))"

section \<open>Proofs of possession\<close>

text \<open>The framing is the one of the envelope: \<open>push_len_prefixed\<close> saturates like \<open>push_lp\<close>.\<close>

definition mint_pop_message :: "'c auth_env \<Rightarrow> string \<Rightarrow> string \<Rightarrow> string \<Rightarrow> string \<Rightarrow> string" where
  "mint_pop_message E login_id credential_finalization device_id pub =
     (let ke3_hash = ae_blake3 E credential_finalization;
          msg = push_lp MINT_POP_TAG login_id;
          msg = msg @ ke3_hash;
          msg = push_lp msg device_id
      in msg @ pub)"

definition refresh_pop_message :: "string \<Rightarrow> string \<Rightarrow> string \<Rightarrow> string \<Rightarrow> string" where
  "refresh_pop_message refresh_token_id nonce device_id pub =
     (let msg = push_lp REFRESH_POP_TAG refresh_token_id;
          msg = push_lp msg nonce;
          msg = push_lp msg device_id
      in msg @ pub)"

definition verify_ed25519 :: "'c auth_env \<Rightarrow> string \<Rightarrow> string \<Rightarrow> string \<Rightarrow> bool" where
  "verify_ed25519 E pub msg sig = ae_verify_strict E pub msg sig"

section \<open>The lockout\<close>

text \<open>A \<open>Duration\<close> is its number of nanoseconds.\<close>

type_synonym duration = nat

definition as_millis_u64 :: "duration \<Rightarrow> nat" where
  "as_millis_u64 d = min (d div 1000000) (2 ^ 64 - 1)"

definition from_millis :: "nat \<Rightarrow> duration" where
  "from_millis ms = ms * 1000000"

record throttle_config =
  th_threshold :: u32
  th_base_delay :: duration
  th_max_delay :: duration

definition throttle_default :: throttle_config where
  "throttle_default = \<lparr>th_threshold = 5, th_base_delay = from_millis 1000, th_max_delay = from_millis (15 * 60 * 1000)\<rparr>"

definition lockout_for :: "throttle_config \<Rightarrow> u32 \<Rightarrow> duration" where
  "lockout_for c failures =
     (if failures \<le> th_threshold c then 0
      else
        let steps = failures - th_threshold c - 1;
            factor = (2 :: nat) ^ unat (min steps 40);
            base_ms = as_millis_u64 (th_base_delay c);
            delay_ms = min (base_ms * factor) (2 ^ 64 - 1);
            max_ms = as_millis_u64 (th_max_delay c)
        in from_millis (min delay_ms max_ms))"

section \<open>Comparing hashes\<close>

lemma xor_zero_iff: "x XOR y = 0 \<longleftrightarrow> x = (y :: 8 word)"
  by (auto simp: bit_eq_iff bit_xor_iff)

lemma fold_diff: "fold (\<lambda>(x, y) diff. diff OR f x y) ps d = 0 \<longleftrightarrow> d = 0 \<and> (\<forall>(x, y) \<in> set ps. f x y = (0 :: 8 word))"
  by (induction ps arbitrary: d) (auto simp: or_eq_0_iff)

lemma char_word_inj: "(of_char x :: 8 word) = of_char y \<longleftrightarrow> x = y"
proof
  assume "(of_char x :: 8 word) = of_char y"
  then have "unat (of_nat (of_char x) :: 8 word) = unat (of_nat (of_char y) :: 8 word)"
    by (simp add: of_nat_of_char)
  then have "(of_char x :: nat) = of_char y"
    using nat_of_char_less_256 [of x] nat_of_char_less_256 [of y] by (simp add: unat_of_nat)
  then show "x = y" by simp
qed simp

lemma constant_time_eq_iff [simp]: "constant_time_eq a b \<longleftrightarrow> a = b"
proof (cases "length a = length b")
  case True
  then have "constant_time_eq a b \<longleftrightarrow> (\<forall>(x, y) \<in> set (zip a b). x = y)"
    by (auto simp: constant_time_eq_def fold_diff xor_zero_iff char_word_inj)
  also have "\<dots> \<longleftrightarrow> a = b"
    using True by (induction a b rule: list_induct2) auto
  finally show ?thesis .
next
  case False
  then show ?thesis by (auto simp: constant_time_eq_def)
qed

end
