(* ===== verification/Auth_Store.thy ===== *)
theory Auth_Store
  imports Auth_Token
begin

text \<open>
  The auth database of the sync server, \<^verbatim>\<open>crates/pergamon-sync-server/src/auth/store.rs\<close>, with
  the schema and the live-binding query of \<^verbatim>\<open>binding.rs\<close>. A table is the list of its rows; a
  statement that violates a key, a foreign key or a unique index is the error \<open>AuthDb\<close>. A
  method either fails and leaves the database alone or returns its result with the new
  database; the caller holds the one mutex around it.
\<close>

datatype auth_store_error = HandleExists | InvalidToken | AuthDb

section \<open>Rows\<close>

record account_row =
  ac_handle :: string
  ac_opaque_record :: string
  ac_oprf_key_id :: string
  ac_created_at :: int

record map_row =
  am_handle :: string
  am_tenant :: string

record failure_row =
  fl_handle :: string
  fl_count :: int
  fl_first :: int
  fl_last :: int
  fl_locked_until :: int

record token_row =
  tr_id :: string
  tr_tenant :: string
  tr_device :: string
  tr_pub :: string
  tr_hash :: string
  tr_kind :: string
  tr_created_at :: int
  tr_expires_at :: int
  tr_revoked_at :: "int option"
  tr_content :: "string option"
  tr_version :: int
  tr_scope :: string

record binding_row =
  bd_content :: string
  bd_tenant :: string
  bd_state :: string
  bd_version :: int
  bd_operation :: "string option"
  bd_device :: "string option"
  bd_pub :: "string option"

record challenge_row =
  ch_tenant :: string
  ch_operation :: string
  ch_text :: string
  ch_expires_at :: int

record auth_db =
  at_accounts :: "account_row list"
  at_map :: "map_row list"
  at_failures :: "failure_row list"
  at_tokens :: "token_row list"
  at_bindings :: "binding_row list"
  at_challenges :: "challenge_row list"
  at_instance :: string

section \<open>Schema\<close>

text \<open>The tables before the binding migration: no bindings, and tokens without authority columns.\<close>

record legacy_token_row =
  lt_id :: string
  lt_account :: string
  lt_device :: string
  lt_pub :: string
  lt_hash :: string
  lt_kind :: string
  lt_created_at :: int
  lt_expires_at :: int
  lt_revoked_at :: "int option"

record legacy_auth_db =
  lg_accounts :: "account_row list"
  lg_map :: "map_row list"
  lg_failures :: "failure_row list"
  lg_tokens :: "legacy_token_row list"

definition migrate_token :: "legacy_token_row \<Rightarrow> token_row" where
  "migrate_token t =
     \<lparr>tr_id = lt_id t, tr_tenant = lt_account t, tr_device = lt_device t, tr_pub = lt_pub t, tr_hash = lt_hash t,
      tr_kind = lt_kind t, tr_created_at = lt_created_at t, tr_expires_at = lt_expires_at t,
      tr_revoked_at = lt_revoked_at t, tr_content = Some (lt_account t), tr_version = 0, tr_scope = ''content''\<rparr>"

definition reserved_row :: "string \<Rightarrow> binding_row" where
  "reserved_row account =
     \<lparr>bd_content = account, bd_tenant = account, bd_state = ''legacy_reserved'', bd_version = 0,
      bd_operation = None, bd_device = None, bd_pub = None\<rparr>"

definition migrate :: "string \<Rightarrow> legacy_auth_db \<Rightarrow> auth_db" where
  "migrate instance_id l =
     \<lparr>at_accounts = lg_accounts l, at_map = lg_map l, at_failures = lg_failures l,
      at_tokens = map migrate_token (lg_tokens l), at_bindings = map (\<lambda>r. reserved_row (am_tenant r)) (lg_map l),
      at_challenges = [], at_instance = instance_id\<rparr>"

definition legacy_empty :: legacy_auth_db where
  "legacy_empty = \<lparr>lg_accounts = [], lg_map = [], lg_failures = [], lg_tokens = []\<rparr>"

section \<open>Accounts\<close>

definition account_exists :: "string \<Rightarrow> auth_db \<Rightarrow> bool" where
  "account_exists h db \<longleftrightarrow> list_ex (\<lambda>r. ac_handle r = h) (at_accounts db)"

definition insert_account :: "account_row \<Rightarrow> auth_db \<Rightarrow> auth_store_error + auth_db" where
  "insert_account r db =
     (if account_exists (ac_handle r) db then Inl AuthDb
      else Inr (db\<lparr>at_accounts := at_accounts db @ [r]\<rparr>))"

definition insert_map :: "map_row \<Rightarrow> auth_db \<Rightarrow> auth_store_error + auth_db" where
  "insert_map r db =
     (if list_ex (\<lambda>x. am_handle x = am_handle r \<or> am_tenant x = am_tenant r) (at_map db) then Inl AuthDb
      else Inr (db\<lparr>at_map := at_map db @ [r]\<rparr>))"

text \<open>The primary key, the unique index over live rows, the foreign key and the checks.\<close>

definition insert_binding :: "binding_row \<Rightarrow> auth_db \<Rightarrow> auth_store_error + auth_db" where
  "insert_binding b db =
     (if list_ex (\<lambda>x. bd_content x = bd_content b) (at_bindings db)
         \<or> (bd_state b \<noteq> ''retired'' \<and> list_ex (\<lambda>x. bd_tenant x = bd_tenant b \<and> bd_state x \<noteq> ''retired'') (at_bindings db))
         \<or> \<not> list_ex (\<lambda>r. am_tenant r = bd_tenant b) (at_map db)
         \<or> bd_state b \<notin> {''legacy_reserved'', ''active'', ''retired''} \<or> bd_version b < 0
      then Inl AuthDb
      else Inr (db\<lparr>at_bindings := at_bindings db @ [b]\<rparr>))"

definition finish_registration_at ::
  "int \<Rightarrow> string \<Rightarrow> string \<Rightarrow> string \<Rightarrow> string \<Rightarrow> auth_db \<Rightarrow> auth_store_error + (string \<times> auth_db)" where
  "finish_registration_at now h opaque_record oprf_key_id account db =
     (if account_exists h db then Inl HandleExists
      else
        bindR (insert_account \<lparr>ac_handle = h, ac_opaque_record = opaque_record, ac_oprf_key_id = oprf_key_id,
                 ac_created_at = now\<rparr> db) (\<lambda>db.
        bindR (insert_map \<lparr>am_handle = h, am_tenant = account\<rparr> db) (\<lambda>db.
        bindR (insert_binding (reserved_row account) db) (\<lambda>db.
          Inr (account, db)))))"

definition register_unbound ::
  "int \<Rightarrow> string \<Rightarrow> string \<Rightarrow> string \<Rightarrow> string \<Rightarrow> auth_db \<Rightarrow> auth_store_error + (string \<times> auth_db)" where
  "register_unbound now tenant h opaque_record key_id db =
     (if account_exists h db then Inl HandleExists
      else
        bindR (insert_account \<lparr>ac_handle = h, ac_opaque_record = opaque_record, ac_oprf_key_id = key_id,
                 ac_created_at = now\<rparr> db) (\<lambda>db.
        bindR (insert_map \<lparr>am_handle = h, am_tenant = tenant\<rparr> db) (\<lambda>db.
          Inr (tenant, db))))"

definition opaque_record :: "string \<Rightarrow> auth_db \<Rightarrow> string option" where
  "opaque_record h db = map_option ac_opaque_record (find (\<lambda>r. ac_handle r = h) (at_accounts db))"

definition account_id :: "string \<Rightarrow> auth_db \<Rightarrow> string option" where
  "account_id h db = map_option am_tenant (find (\<lambda>r. am_handle r = h) (at_map db))"

section \<open>Throttling\<close>

record failure_state =
  fs_failure_count :: u32
  fs_locked_until_ms :: int

definition failure_state_of :: "string \<Rightarrow> auth_db \<Rightarrow> failure_state" where
  "failure_state_of h db =
     (case find (\<lambda>r. fl_handle r = h) (at_failures db) of
        None \<Rightarrow> \<lparr>fs_failure_count = 0, fs_locked_until_ms = 0\<rparr>
      | Some r \<Rightarrow>
          \<lparr>fs_failure_count = (let n = max (fl_count r) 0 in if n < 2 ^ 32 then of_int n else - 1),
           fs_locked_until_ms = fl_locked_until r\<rparr>)"

definition locked_until :: "int \<Rightarrow> string \<Rightarrow> auth_db \<Rightarrow> int option" where
  "locked_until now h db =
     (let until = fs_locked_until_ms (failure_state_of h db) in if until > now then Some until else None)"

text \<open>\<open>i64::try_from(d.as_millis()).unwrap_or(i64::MAX)\<close>.\<close>

definition millis_i64 :: "duration \<Rightarrow> int" where
  "millis_i64 d = min (int (d div 1000000)) I64_MAX"

definition record_failure :: "int \<Rightarrow> string \<Rightarrow> throttle_config \<Rightarrow> auth_db \<Rightarrow> failure_state \<times> auth_db" where
  "record_failure now h throttle db =
     (let new_count = sat_inc (fs_failure_count (failure_state_of h db));
          until = sat_add_i64 now (millis_i64 (lockout_for throttle new_count));
          db' = (if list_ex (\<lambda>r. fl_handle r = h) (at_failures db)
                 then db\<lparr>at_failures := map (\<lambda>r. if fl_handle r = h
                        then r\<lparr>fl_count := fl_count r + 1, fl_last := now, fl_locked_until := until\<rparr> else r) (at_failures db)\<rparr>
                 else db\<lparr>at_failures := at_failures db @ [\<lparr>fl_handle = h, fl_count = 1, fl_first = now, fl_last = now,
                        fl_locked_until = until\<rparr>]\<rparr>)
      in (\<lparr>fs_failure_count = new_count, fs_locked_until_ms = until\<rparr>, db'))"

definition reset_failures :: "string \<Rightarrow> auth_db \<Rightarrow> auth_db" where
  "reset_failures h db = db\<lparr>at_failures := filter (\<lambda>r. fl_handle r \<noteq> h) (at_failures db)\<rparr>"

section \<open>Bindings\<close>

record content_binding =
  cn_tenant :: string
  cn_content :: string
  cn_version :: int
  cn_state :: string
  cn_operation :: "string option"

definition binding_of_row :: "binding_row \<Rightarrow> content_binding" where
  "binding_of_row b =
     \<lparr>cn_tenant = bd_tenant b, cn_content = bd_content b, cn_version = bd_version b, cn_state = bd_state b,
      cn_operation = bd_operation b\<rparr>"

definition binding_for :: "string \<Rightarrow> auth_db \<Rightarrow> content_binding option" where
  "binding_for tenant db =
     map_option binding_of_row (find (\<lambda>b. bd_tenant b = tenant \<and> bd_state b \<noteq> ''retired'') (at_bindings db))"

text \<open>What a token captures of the binding, and is compared with later.\<close>

definition authority :: "string \<Rightarrow> auth_db \<Rightarrow> string option \<times> int" where
  "authority tenant db =
     (case binding_for tenant db of None \<Rightarrow> (None, 0) | Some b \<Rightarrow> (Some (cn_content b), cn_version b))"

section \<open>Tokens\<close>

definition new_token_row ::
  "int \<Rightarrow> string \<Rightarrow> string \<Rightarrow> string \<Rightarrow> string \<Rightarrow> string \<Rightarrow> token_kind \<Rightarrow> int \<Rightarrow> auth_db \<Rightarrow> token_row" where
  "new_token_row now i tenant device pub hash kind expires db =
     \<lparr>tr_id = i, tr_tenant = tenant, tr_device = device, tr_pub = pub, tr_hash = hash, tr_kind = kind_as_str kind,
      tr_created_at = now, tr_expires_at = expires, tr_revoked_at = None,
      tr_content = fst (authority tenant db), tr_version = snd (authority tenant db),
      tr_scope = (case binding_for tenant db of None \<Rightarrow> ''control'' | Some _ \<Rightarrow> ''content'')\<rparr>"

definition insert_token_row ::
  "int \<Rightarrow> string \<Rightarrow> string \<Rightarrow> string \<Rightarrow> string \<Rightarrow> string \<Rightarrow> token_kind \<Rightarrow> int \<Rightarrow> auth_db \<Rightarrow> auth_store_error + auth_db" where
  "insert_token_row now i tenant device pub hash kind expires db =
     (if list_ex (\<lambda>t. tr_id t = i) (at_tokens db) then Inl AuthDb
      else Inr (db\<lparr>at_tokens := at_tokens db @ [new_token_row now i tenant device pub hash kind expires db]\<rparr>))"

definition mint ::
  "'c auth_env \<Rightarrow> ambient \<Rightarrow> string \<Rightarrow> string \<Rightarrow> string \<Rightarrow> token_kind \<Rightarrow> int \<Rightarrow> auth_db
     \<Rightarrow> auth_store_error + ((string \<times> int) \<times> auth_db)" where
  "mint E am tenant device pub kind ttl_ms db =
     (let t = generate E am 0; expires_at = sat_add_i64 (am_now am 0) ttl_ms
      in bindR (insert_token_row (am_now am 1) (nt_token_id t) tenant device pub (nt_token_hash t) kind expires_at db)
           (\<lambda>db. Inr ((nt_bearer t, expires_at), db)))"

record rotated =
  rt_access_token :: string
  rt_access_expires_at :: int
  rt_refresh_token :: string
  rt_refresh_expires_at :: int

text \<open>The two inserts both \<open>mint_pair\<close> and \<open>rotate_refresh\<close> end with.\<close>

definition insert_pair ::
  "(nat \<Rightarrow> int) \<Rightarrow> string \<Rightarrow> string \<Rightarrow> string \<Rightarrow> new_token \<Rightarrow> int \<Rightarrow> new_token \<Rightarrow> int \<Rightarrow> auth_db
     \<Rightarrow> auth_store_error + (rotated \<times> auth_db)" where
  "insert_pair now tenant device pub access access_expires refresh refresh_expires db =
     bindR (insert_token_row (now 0) (nt_token_id access) tenant device pub (nt_token_hash access) Access access_expires db) (\<lambda>db.
     bindR (insert_token_row (now 1) (nt_token_id refresh) tenant device pub (nt_token_hash refresh) Refresh refresh_expires db) (\<lambda>db.
       Inr (\<lparr>rt_access_token = nt_bearer access, rt_access_expires_at = access_expires,
             rt_refresh_token = nt_bearer refresh, rt_refresh_expires_at = refresh_expires\<rparr>, db)))"

definition mint_pair ::
  "'c auth_env \<Rightarrow> ambient \<Rightarrow> string \<Rightarrow> string \<Rightarrow> string \<Rightarrow> token_config \<Rightarrow> auth_db \<Rightarrow> auth_store_error + (rotated \<times> auth_db)" where
  "mint_pair E am tenant device pub config db =
     insert_pair (\<lambda>k. am_now am (k + 2)) tenant device pub
       (generate E am 0) (sat_add_i64 (am_now am 0) (tc_access_ttl_ms config))
       (generate E am 1) (sat_add_i64 (am_now am 1) (tc_refresh_ttl_ms config)) db"

text \<open>The rows the \<open>UPDATE\<close> of a rotation consumes.\<close>

definition consumable :: "int \<Rightarrow> string \<Rightarrow> string \<Rightarrow> string \<Rightarrow> string \<Rightarrow> auth_db \<Rightarrow> token_row \<Rightarrow> bool" where
  "consumable now i tenant device pub db t \<longleftrightarrow>
     tr_id t = i \<and> tr_revoked_at t = None \<and> tr_kind t = ''refresh'' \<and> tr_expires_at t > now
     \<and> tr_tenant t = tenant \<and> tr_device t = device \<and> tr_pub t = pub
     \<and> (tr_content t, tr_version t) = authority tenant db"

definition revoke_where :: "int \<Rightarrow> (token_row \<Rightarrow> bool) \<Rightarrow> auth_db \<Rightarrow> nat \<times> auth_db" where
  "revoke_where now P db =
     (length (filter P (at_tokens db)),
      db\<lparr>at_tokens := map (\<lambda>t. if P t then t\<lparr>tr_revoked_at := Some now\<rparr> else t) (at_tokens db)\<rparr>)"

definition rotate_refresh ::
  "'c auth_env \<Rightarrow> ambient \<Rightarrow> string \<Rightarrow> string \<Rightarrow> string \<Rightarrow> string \<Rightarrow> int \<Rightarrow> int \<Rightarrow> auth_db
     \<Rightarrow> auth_store_error + (rotated \<times> auth_db)" where
  "rotate_refresh E am presented tenant device pub access_ttl_ms refresh_ttl_ms db =
     (let now = am_now am 0;
          (consumed, db') = revoke_where now (consumable now presented tenant device pub db) db
      in if consumed \<noteq> 1 then Inl InvalidToken
         else insert_pair (\<lambda>k. am_now am (k + 1)) tenant device pub
                (generate E am 0) (sat_add_i64 now access_ttl_ms) (generate E am 1) (sat_add_i64 now refresh_ttl_ms) db')"

record validated_token =
  vt_token_id :: string
  vt_tenant :: string
  vt_device :: string
  vt_pub :: string
  vt_content :: "string option"
  vt_version :: int
  vt_scope :: token_scope

definition scope_of :: "token_row \<Rightarrow> token_scope option" where
  "scope_of t =
     (if tr_scope t = ''control'' \<and> tr_content t = None then Some Control
      else if tr_scope t = ''content'' \<and> tr_content t \<noteq> None then Some Content
      else None)"

definition load_valid_token ::
  "'c auth_env \<Rightarrow> int \<Rightarrow> string \<Rightarrow> token_kind \<Rightarrow> auth_db \<Rightarrow> auth_store_error + validated_token option" where
  "load_valid_token E now bearer kind db =
     (case parse_bearer E bearer of
        None \<Rightarrow> Inr None
      | Some (token_id, secret) \<Rightarrow>
          (case find (\<lambda>t. tr_id t = token_id) (at_tokens db) of
             None \<Rightarrow> Inr None
           | Some t \<Rightarrow>
               if kind_from_wire (tr_kind t) \<noteq> Some kind then Inr None
               else if tr_revoked_at t \<noteq> None \<or> tr_expires_at t \<le> now then Inr None
               else if \<not> constant_time_eq (hash_secret E secret) (tr_hash t) then Inr None
               else if authority (tr_tenant t) db \<noteq> (tr_content t, tr_version t) then Inr None
               else (case scope_of t of
                       None \<Rightarrow> Inl AuthDb
                     | Some scope \<Rightarrow>
                         if length (tr_pub t) \<noteq> ED25519_PUB_LEN then Inr None
                         else Inr (Some \<lparr>vt_token_id = token_id, vt_tenant = tr_tenant t, vt_device = tr_device t,
                                vt_pub = tr_pub t, vt_content = tr_content t, vt_version = tr_version t,
                                vt_scope = scope\<rparr>))))"

definition principal_of :: "validated_token \<Rightarrow> auth_account option" where
  "principal_of v =
     map_option (\<lambda>c. \<lparr>aa_account_id = c, aa_device_id = vt_device v, aa_auth_tenant_id = vt_tenant v,
       aa_binding_version = vt_version v, aa_token_id = vt_token_id v\<rparr>) (vt_content v)"

definition store_validate_token ::
  "'c auth_env \<Rightarrow> int \<Rightarrow> string \<Rightarrow> auth_db \<Rightarrow> auth_store_error + auth_account option" where
  "store_validate_token E now bearer db =
     bindR (load_valid_token E now bearer Access db) (\<lambda>v. Inr (Option.bind v principal_of))"

definition revoke_device :: "int \<Rightarrow> string \<Rightarrow> string \<Rightarrow> auth_db \<Rightarrow> nat \<times> auth_db" where
  "revoke_device now tenant device db =
     revoke_where now (\<lambda>t. tr_tenant t = tenant \<and> tr_device t = device \<and> tr_revoked_at t = None) db"

definition revoke_token :: "int \<Rightarrow> string \<Rightarrow> auth_db \<Rightarrow> nat \<times> auth_db" where
  "revoke_token now i db = revoke_where now (\<lambda>t. tr_id t = i \<and> tr_revoked_at t = None) db"

definition store_principal_is_current :: "int \<Rightarrow> auth_account \<Rightarrow> auth_db \<Rightarrow> bool" where
  "store_principal_is_current now p db \<longleftrightarrow>
     list_ex (\<lambda>t. tr_id t = aa_token_id p \<and> tr_tenant t = aa_auth_tenant_id p
       \<and> tr_content t = Some (aa_account_id p) \<and> tr_version t = aa_binding_version p
       \<and> tr_revoked_at t = None \<and> tr_expires_at t > now \<and> tr_kind t = ''access'' \<and> tr_scope t = ''content''
       \<and> list_ex (\<lambda>b. bd_tenant b = tr_tenant t \<and> bd_state b \<noteq> ''retired'' \<and> Some (bd_content b) = tr_content t
           \<and> bd_version b = tr_version t) (at_bindings db)) (at_tokens db)"

end
