(* ===== verification/Auth_Binding.thy ===== *)
theory Auth_Binding
  imports Auth_Store
begin

text \<open>
  The binding of a login to a content account, \<^verbatim>\<open>crates/pergamon-sync-server/src/auth/binding.rs\<close>:
  what a tenant may ask about its own binding, the challenge a device signs, and the
  transaction that allocates a namespace. The content store takes part only through the
  question whether an account was ever used (\<open>occupied\<close>), asked under its writer lock.
\<close>

section \<open>Requests and answers\<close>

record binding_status =
  bs_tenant :: string
  bs_server_instance_id :: string
  bs_binding :: "content_binding option"

record binding_start =
  bq_operation_id :: string
  bq_content_account_id :: string

record binding_challenge =
  bc_server_instance_id :: string
  bc_operation_id :: string
  bc_challenge_id :: string
  bc_nonce_b64 :: string
  bc_tenant :: string
  bc_content_account_id :: string
  bc_device_id :: string
  bc_pub_b64 :: string
  bc_binding_version :: int
  bc_expires_at_ms :: int

record binding_finish =
  bf_operation_id :: string
  bf_challenge_id :: string
  bf_pop_signature_b64 :: string

type_synonym binding_env = "binding_challenge auth_env"

text \<open>\<open>From<AuthStoreError> for ApiError\<close>, and a conflict with a code of its own.\<close>

fun api_of_auth :: "auth_store_error \<Rightarrow> api_error" where
  "api_of_auth HandleExists = conflict"
| "api_of_auth InvalidToken = unauthorized"
| "api_of_auth AuthDb = internal"

definition coded_conflict :: "string \<Rightarrow> api_error" where
  "coded_conflict c = conflict\<lparr>ae_code := c\<rparr>"

definition auth_res :: "auth_store_error + 'a \<Rightarrow> api_error + 'a" where
  "auth_res r = map_sum api_of_auth id r"

text \<open>The header checks of \<open>bearer\<close>: as in the middleware, but with an error to answer.\<close>

definition binding_bearer :: "string option \<Rightarrow> api_error + string" where
  "binding_bearer header =
     (case Option.bind header header_to_str of
        None \<Rightarrow> Inl unauthorized
      | Some raw \<Rightarrow>
          (case split_once (CHR '' '') raw of
             None \<Rightarrow> Inl unauthorized
           | Some (scheme, v) \<Rightarrow>
               if eq_ignore_ascii_case scheme ''Bearer'' \<and> trim_blank v \<noteq> [] then Inr (trim_blank v)
               else Inl unauthorized))"

definition access_principal :: "binding_env \<Rightarrow> int \<Rightarrow> string \<Rightarrow> auth_db \<Rightarrow> api_error + validated_token" where
  "access_principal E now credential db =
     bindR (auth_res (load_valid_token E now credential Access db)) (\<lambda>v.
       case v of None \<Rightarrow> Inl unauthorized | Some who \<Rightarrow> Inr who)"

section \<open>The signed statement\<close>

definition BINDING_POP_TAG :: string where
  "BINDING_POP_TAG = ''pergamon/v2/auth/content-binding-pop''"

text \<open>\<open>i64::to_be_bytes\<close>.\<close>

definition i64_be_bytes :: "int \<Rightarrow> string" where
  "i64_be_bytes n = map (\<lambda>k. char_of (unat (drop_bit (8 * k) (word_of_int n :: u64)))) [7, 6, 5, 4, 3, 2, 1, 0]"

definition lp_field :: "string \<Rightarrow> string \<Rightarrow> api_error + string" where
  "lp_field bytes out = (if length bytes < 2 ^ 32 then Inr (push_lp out bytes) else Inl bad_request)"

definition signing_bytes :: "binding_env \<Rightarrow> binding_challenge \<Rightarrow> api_error + string" where
  "signing_bytes E c =
     (case ae_b64_decode E (bc_nonce_b64 c) of
        None \<Rightarrow> Inl bad_request
      | Some nonce \<Rightarrow>
          (case ae_b64_decode E (bc_pub_b64 c) of
             None \<Rightarrow> Inl bad_request
           | Some key \<Rightarrow>
               if length nonce \<noteq> 32 \<or> length key \<noteq> 32 \<or> bc_binding_version c < 0 then Inl bad_request
               else bindR (foldR lp_field
                       [bc_server_instance_id c, bc_operation_id c, bc_challenge_id c, nonce, bc_tenant c,
                        bc_content_account_id c, bc_device_id c] BINDING_POP_TAG) (\<lambda>bytes.
                    Inr (bytes @ key @ i64_be_bytes (bc_binding_version c) @ i64_be_bytes (bc_expires_at_ms c)))))"

section \<open>Status and start\<close>

definition binding_status_of :: "binding_env \<Rightarrow> ambient \<Rightarrow> string option \<Rightarrow> auth_db \<Rightarrow> api_error + binding_status" where
  "binding_status_of E am header db =
     bindR (binding_bearer header) (\<lambda>credential.
     bindR (access_principal E (am_now am 0) credential db) (\<lambda>who.
       Inr \<lparr>bs_tenant = vt_tenant who, bs_server_instance_id = at_instance db,
            bs_binding = binding_for (vt_tenant who) db\<rparr>))"

definition canonical_id :: "string \<Rightarrow> bool" where
  "canonical_id s \<longleftrightarrow> length s = 32 \<and> list_all (\<lambda>c. (CHR ''0'' \<le> c \<and> c \<le> CHR ''9'') \<or> (CHR ''a'' \<le> c \<and> c \<le> CHR ''f'')) s"

definition purge_challenges :: "int \<Rightarrow> auth_db \<Rightarrow> auth_db" where
  "purge_challenges now db = db\<lparr>at_challenges := filter (\<lambda>r. \<not> ch_expires_at r \<le> now) (at_challenges db)\<rparr>"

definition find_challenge :: "string \<Rightarrow> string \<Rightarrow> auth_db \<Rightarrow> string option" where
  "find_challenge tenant operation db =
     map_option ch_text (find (\<lambda>r. ch_tenant r = tenant \<and> ch_operation r = operation) (at_challenges db))"

definition insert_challenge :: "challenge_row \<Rightarrow> auth_db \<Rightarrow> auth_store_error + auth_db" where
  "insert_challenge r db =
     (if list_ex (\<lambda>x. ch_tenant x = ch_tenant r \<and> ch_operation x = ch_operation r) (at_challenges db)
         \<or> \<not> list_ex (\<lambda>x. am_tenant x = ch_tenant r) (at_map db)
      then Inl AuthDb else Inr (db\<lparr>at_challenges := at_challenges db @ [r]\<rparr>))"

definition new_challenge :: "binding_env \<Rightarrow> ambient \<Rightarrow> validated_token \<Rightarrow> binding_start \<Rightarrow> auth_db \<Rightarrow> binding_challenge" where
  "new_challenge E am who req db =
     \<lparr>bc_server_instance_id = at_instance db, bc_operation_id = bq_operation_id req, bc_challenge_id = am_uuid am 0,
      bc_nonce_b64 = ae_b64_encode E (am_bytes am 0), bc_tenant = vt_tenant who,
      bc_content_account_id = bq_content_account_id req, bc_device_id = vt_device who,
      bc_pub_b64 = ae_b64_encode E (vt_pub who), bc_binding_version = vt_version who,
      bc_expires_at_ms = wrap_add_i64 (am_now am 2) 120000\<rparr>"

text \<open>The purge of expired challenges is a statement of its own: it stays when the rest fails.\<close>

definition binding_start_of ::
  "binding_env \<Rightarrow> ambient \<Rightarrow> string option \<Rightarrow> binding_start \<Rightarrow> auth_db \<Rightarrow> (api_error + binding_challenge) \<times> auth_db" where
  "binding_start_of E am header req db =
     (case bindR (binding_bearer header) (\<lambda>credential. access_principal E (am_now am 0) credential db) of
        Inl e \<Rightarrow> (Inl e, db)
      | Inr who \<Rightarrow>
          if bq_operation_id req = [] \<or> length (bq_operation_id req) > 128 \<or> \<not> canonical_id (bq_content_account_id req)
          then (Inl bad_request, db)
          else if (\<exists>b \<in> set_option (binding_for (vt_tenant who) db).
                     cn_operation b = Some (bq_operation_id req) \<and> cn_content b \<noteq> bq_content_account_id req)
          then (Inl (coded_conflict ''OPERATION_CONFLICT''), db)
          else
            let db1 = purge_challenges (am_now am 1) db in
            case find_challenge (vt_tenant who) (bq_operation_id req) db1 of
              Some old \<Rightarrow>
                (case ae_challenge_parse E old of
                   None \<Rightarrow> (Inl internal, db1)
                 | Some c \<Rightarrow>
                     if bc_content_account_id c \<noteq> bq_content_account_id req \<or> bc_device_id c \<noteq> vt_device who
                        \<or> bc_pub_b64 c \<noteq> ae_b64_encode E (vt_pub who)
                     then (Inl (coded_conflict ''OPERATION_CONFLICT''), db1)
                     else (Inr c, db1))
            | None \<Rightarrow>
                if length (at_challenges db1) \<ge> 10000 then (Inl unavailable, db1)
                else
                  let c = new_challenge E am who req db1 in
                  (case ae_challenge_text E c of
                     None \<Rightarrow> (Inl internal, db1)
                   | Some txt \<Rightarrow>
                       (case auth_res (insert_challenge \<lparr>ch_tenant = bc_tenant c, ch_operation = bc_operation_id c,
                               ch_text = txt, ch_expires_at = bc_expires_at_ms c\<rparr> db1) of
                          Inl e \<Rightarrow> (Inl e, db1)
                        | Inr db2 \<Rightarrow> (Inr c, db2))))"

section \<open>Finish\<close>

definition retire_bindings :: "string \<Rightarrow> auth_db \<Rightarrow> auth_db" where
  "retire_bindings tenant db =
     db\<lparr>at_bindings := map (\<lambda>b. if bd_tenant b = tenant then b\<lparr>bd_state := ''retired''\<rparr> else b) (at_bindings db)\<rparr>"

definition drop_challenges :: "string \<Rightarrow> auth_db \<Rightarrow> auth_db" where
  "drop_challenges tenant db = db\<lparr>at_challenges := filter (\<lambda>r. ch_tenant r \<noteq> tenant) (at_challenges db)\<rparr>"

text \<open>The proof a challenge must carry.\<close>

definition proof_holds ::
  "binding_env \<Rightarrow> int \<Rightarrow> validated_token \<Rightarrow> binding_finish \<Rightarrow> binding_challenge \<Rightarrow> string \<Rightarrow> api_error + unit" where
  "proof_holds E now who req c sig =
     (if bc_challenge_id c \<noteq> bf_challenge_id req \<or> bc_expires_at_ms c \<le> now \<or> bc_tenant c \<noteq> vt_tenant who
         \<or> bc_device_id c \<noteq> vt_device who \<or> bc_pub_b64 c \<noteq> ae_b64_encode E (vt_pub who)
         \<or> bc_binding_version c \<noteq> vt_version who
      then Inl unauthorized
      else bindR (signing_bytes E c) (\<lambda>bytes.
             if verify_ed25519 E (vt_pub who) bytes sig then Inr () else Inl unauthorized))"

text \<open>The allocation itself: the tenant's old binding is retired, the new one is written, and every
  token and challenge of the tenant is withdrawn.\<close>

definition allocate ::
  "ambient \<Rightarrow> validated_token \<Rightarrow> binding_finish \<Rightarrow> string \<Rightarrow> auth_db \<Rightarrow> api_error + (content_binding \<times> auth_db)" where
  "allocate am who req account db =
     (case checked_add_i64 (vt_version who) 1 of
        None \<Rightarrow> Inl internal
      | Some version \<Rightarrow>
          let row = \<lparr>bd_content = account, bd_tenant = vt_tenant who, bd_state = ''active'', bd_version = version,
                     bd_operation = Some (bf_operation_id req), bd_device = Some (vt_device who), bd_pub = Some (vt_pub who)\<rparr>
          in bindR (auth_res (insert_binding row (retire_bindings (vt_tenant who) db))) (\<lambda>db2.
               let db3 = snd (revoke_where (am_now am 3) (\<lambda>t. tr_tenant t = vt_tenant who \<and> tr_revoked_at t = None) db2)
               in Inr (binding_of_row row, drop_challenges (vt_tenant who) db3)))"

definition decode_signature :: "binding_env \<Rightarrow> string \<Rightarrow> api_error + string" where
  "decode_signature E b64 =
     (case ae_b64_decode E b64 of
        None \<Rightarrow> Inl bad_request
      | Some sig \<Rightarrow> if length sig \<noteq> ED25519_SIG_LEN then Inl bad_request else Inr sig)"

text \<open>A binding that is in the way of the new one.\<close>

definition immutable :: "(string \<Rightarrow> bool) \<Rightarrow> content_binding \<Rightarrow> bool" where
  "immutable occupied b \<longleftrightarrow> cn_state b \<noteq> ''legacy_reserved'' \<or> occupied (cn_content b)"

definition finish_under_barrier ::
  "binding_env \<Rightarrow> ambient \<Rightarrow> (string \<Rightarrow> bool) \<Rightarrow> string \<Rightarrow> binding_finish \<Rightarrow> auth_db
     \<Rightarrow> api_error + (content_binding \<times> auth_db)" where
  "finish_under_barrier E am occupied credential req db =
     bindR (access_principal E (am_now am 1) credential db) (\<lambda>who.
       let current = binding_for (vt_tenant who) db in
       case (case current of Some b \<Rightarrow> if cn_operation b = Some (bf_operation_id req) then Some b else None | None \<Rightarrow> None) of
         Some b \<Rightarrow> Inr (b, db)
       | None \<Rightarrow>
           (case find_challenge (vt_tenant who) (bf_operation_id req) db of
              None \<Rightarrow> Inl unauthorized
            | Some raw \<Rightarrow>
                (case ae_challenge_parse E raw of
                   None \<Rightarrow> Inl internal
                 | Some c \<Rightarrow>
                     bindR (decode_signature E (bf_pop_signature_b64 req)) (\<lambda>sig.
                     bindR (proof_holds E (am_now am 2) who req c sig) (\<lambda>_.
                       let account = bc_content_account_id c;
                           taken = list_ex (\<lambda>b. bd_content b = account) (at_bindings db) \<or> occupied account;
                           new = (if taken then Inl (coded_conflict ''CONTENT_NAMESPACE_UNAVAILABLE'')
                                  else allocate am who req account db)
                       in case current of
                            None \<Rightarrow> new
                          | Some b \<Rightarrow>
                              if cn_content b = account then Inr (b, db)
                              else if immutable occupied b then Inl (coded_conflict ''BINDING_IMMUTABLE'')
                              else new)))))"

definition binding_finish_of ::
  "binding_env \<Rightarrow> ambient \<Rightarrow> (string \<Rightarrow> fairness_error + unit) \<Rightarrow> (string \<Rightarrow> bool) \<Rightarrow> string option \<Rightarrow> binding_finish \<Rightarrow> auth_db
     \<Rightarrow> api_error + (content_binding \<times> auth_db)" where
  "binding_finish_of E am acquire occupied header req db =
     bindR (binding_bearer header) (\<lambda>credential.
     bindR (access_principal E (am_now am 0) credential db) (\<lambda>who.
     bindR (map_sum api_of_fairness id (acquire (vt_tenant who))) (\<lambda>_.
       finish_under_barrier E am occupied credential req db)))"

end
