(* ===== verification/Auth_Routes.thy ===== *)
theory Auth_Routes
  imports Auth_Binding
begin

text \<open>
  The auth control plane's endpoints, \<^verbatim>\<open>crates/pergamon-sync-server/src/auth/{routes,state,wire,
  mod}.rs\<close>: registration, login, refresh and revocation of tokens, and the binding routes, over
  the auth database and the table of logins that wait for their last message. OPAQUE is
  third-party code and a parameter (\<open>opaque\<close>); so is the question whether an account was ever
  used in the content store. The poisoned lock is not modelled.
\<close>

section \<open>Deployment and state\<close>

text \<open>Deserialisers as tests on the bytes; \<open>oq_login_start\<close> takes the random bytes, the verifier
  (\<open>None\<close> for an unknown identity), the request and the identity.\<close>

record 'l opaque =
  oq_request_ok :: "string \<Rightarrow> bool"
  oq_respond :: "string \<Rightarrow> string \<Rightarrow> string option"
  oq_upload_record :: "string \<Rightarrow> string option"
  oq_credential_ok :: "string \<Rightarrow> bool"
  oq_verifier_ok :: "string \<Rightarrow> bool"
  oq_login_start :: "string \<Rightarrow> string option \<Rightarrow> string \<Rightarrow> string \<Rightarrow> ('l \<times> string) option"
  oq_finalization_ok :: "string \<Rightarrow> bool"
  oq_login_finish :: "'l \<Rightarrow> string \<Rightarrow> bool"

record 'l auth_config =
  au_env :: binding_env
  au_opaque :: "'l opaque"
  au_oprf_key_id :: string
  au_throttle :: throttle_config
  au_tokens :: token_config
  au_acquire :: "string \<Rightarrow> fairness_error + unit"

record 'l pending_login =
  pd_login_id :: string
  pd_state :: 'l
  pd_handle :: string
  pd_expires_at_ms :: int

record 'l auth_world =
  aw_db :: auth_db
  aw_pending :: "'l pending_login list"

definition PENDING_LOGIN_TTL_MS :: int where
  "PENDING_LOGIN_TTL_MS = 120000"

definition MAX_PENDING_LOGINS :: nat where
  "MAX_PENDING_LOGINS = 10000"

definition too_many_requests :: api_error where
  "too_many_requests = \<lparr>ae_status = 429, ae_code = ''TOO_MANY_REQUESTS''\<rparr>"

text \<open>An ambient whose clock readings start \<open>k\<close> later.\<close>

definition readings_from :: "nat \<Rightarrow> ambient \<Rightarrow> ambient" where
  "readings_from k am = am\<lparr>am_now := (\<lambda>i. am_now am (i + k))\<rparr>"

section \<open>Pending logins\<close>

definition insert_pending ::
  "ambient \<Rightarrow> 'l \<Rightarrow> string \<Rightarrow> 'l pending_login list \<Rightarrow> (api_error + string) \<times> 'l pending_login list" where
  "insert_pending am st h pending =
     (let now = am_now am 0; live = filter (\<lambda>p. pd_expires_at_ms p > now) pending; login_id = am_uuid am 0
      in if length live \<ge> MAX_PENDING_LOGINS then (Inl unavailable, live)
         else (Inr login_id, filter (\<lambda>p. pd_login_id p \<noteq> login_id) live
                 @ [\<lparr>pd_login_id = login_id, pd_state = st, pd_handle = h,
                     pd_expires_at_ms = wrap_add_i64 now PENDING_LOGIN_TTL_MS\<rparr>]))"

definition take_pending ::
  "int \<Rightarrow> string \<Rightarrow> 'l pending_login list \<Rightarrow> ('l \<times> string) option \<times> 'l pending_login list" where
  "take_pending now login_id pending =
     ((case find (\<lambda>p. pd_login_id p = login_id) pending of
         Some p \<Rightarrow> if pd_expires_at_ms p > now then Some (pd_state p, pd_handle p) else None
       | None \<Rightarrow> None),
      filter (\<lambda>p. pd_login_id p \<noteq> login_id) pending)"

section \<open>Frames\<close>

record register_start_request =
  rs_identity_handle :: string
  rs_registration_request_b64 :: string

record register_finish_request =
  rf_identity_handle :: string
  rf_registration_upload_b64 :: string

record login_start_request =
  ls_identity_handle :: string
  ls_credential_request_b64 :: string

record login_finish_request =
  lf_login_id :: string
  lf_credential_finalization_b64 :: string
  lf_device_id :: "string option"
  lf_pub_b64 :: "string option"
  lf_pop_signature_b64 :: "string option"

record refresh_request =
  rr_refresh_token :: string
  rr_device_id :: string
  rr_pub_b64 :: string
  rr_nonce_b64 :: string
  rr_pop_signature_b64 :: string

record token_bundle =
  tb_pair :: rotated
  tb_device_id :: string
  tb_account_id :: string

record v2_token_bundle =
  v2_scope :: token_scope
  v2_pair :: rotated
  v2_device_id :: string
  v2_tenant :: string
  v2_content :: "string option"
  v2_version :: int

record v2_login_response =
  lr_authenticated :: bool
  lr_tenant :: string
  lr_content :: "string option"
  lr_version :: int
  lr_binding_state :: string
  lr_token :: "v2_token_bundle option"

section \<open>Decoding\<close>

definition auth_decode_b64 :: "'l auth_config \<Rightarrow> string \<Rightarrow> api_error + string" where
  "auth_decode_b64 C v = (case ae_b64_decode (au_env C) v of None \<Rightarrow> Inl bad_request | Some b \<Rightarrow> Inr b)"

definition decode_fixed :: "'l auth_config \<Rightarrow> nat \<Rightarrow> string \<Rightarrow> api_error + string" where
  "decode_fixed C n v = bindR (auth_decode_b64 C v) (\<lambda>b. if length b = n then Inr b else Inl bad_request)"

definition strip_bearer :: "string \<Rightarrow> string option" where
  "strip_bearer v =
     (if take 7 v = ''Bearer '' then Some (drop 7 v) else if take 7 v = ''bearer '' then Some (drop 7 v) else None)"

definition bearer_from_headers :: "string option \<Rightarrow> api_error + string" where
  "bearer_from_headers header =
     (case Option.bind header header_to_str of
        None \<Rightarrow> Inl unauthorized
      | Some v \<Rightarrow> (case strip_bearer v of None \<Rightarrow> Inl unauthorized | Some t \<Rightarrow> Inr (trim_blank t)))"

section \<open>Registration\<close>

definition register_start :: "'l auth_config \<Rightarrow> register_start_request \<Rightarrow> api_error + string" where
  "register_start C req =
     bindR (auth_decode_b64 C (rs_registration_request_b64 req)) (\<lambda>bytes.
       if \<not> oq_request_ok (au_opaque C) bytes then Inl bad_request
       else case oq_respond (au_opaque C) bytes (rs_identity_handle req) of
              None \<Rightarrow> Inl bad_request
            | Some m \<Rightarrow> Inr (ae_b64_encode (au_env C) m))"

definition upload_record :: "'l auth_config \<Rightarrow> register_finish_request \<Rightarrow> api_error + string" where
  "upload_record C req =
     bindR (auth_decode_b64 C (rf_registration_upload_b64 req)) (\<lambda>bytes.
       case oq_upload_record (au_opaque C) bytes of None \<Rightarrow> Inl bad_request | Some r \<Rightarrow> Inr r)"

definition register_legacy ::
  "'l auth_config \<Rightarrow> ambient \<Rightarrow> (string \<Rightarrow> bool) \<Rightarrow> string \<Rightarrow> string \<Rightarrow> auth_db \<Rightarrow> api_error + (string \<times> auth_db)" where
  "register_legacy C am occupied h opaque db =
     (let candidate = am_uuid am 0 in
      if occupied candidate then Inl (coded_conflict ''CONTENT_NAMESPACE_UNAVAILABLE'')
      else auth_res (finish_registration_at (am_now am 0) h opaque (au_oprf_key_id C) candidate db))"

definition register_finish ::
  "'l auth_config \<Rightarrow> ambient \<Rightarrow> (string \<Rightarrow> bool) \<Rightarrow> register_finish_request \<Rightarrow> auth_db \<Rightarrow> api_error + (string \<times> auth_db)" where
  "register_finish C am occupied req db =
     bindR (upload_record C req) (\<lambda>r. register_legacy C am occupied (rf_identity_handle req) r db)"

text \<open>A handle that is taken gets the same receipt as a free one.\<close>

definition register_finish_v2 :: "'l auth_config \<Rightarrow> ambient \<Rightarrow> register_finish_request \<Rightarrow> auth_db \<Rightarrow> api_error + auth_db" where
  "register_finish_v2 C am req db =
     bindR (upload_record C req) (\<lambda>r.
       case register_unbound (am_now am 0) (am_uuid am 0) (rf_identity_handle req) r (au_oprf_key_id C) db of
         Inr (_, db') \<Rightarrow> Inr db'
       | Inl HandleExists \<Rightarrow> Inr db
       | Inl e \<Rightarrow> Inl (api_of_auth e))"

section \<open>Login\<close>

definition login_start ::
  "'l auth_config \<Rightarrow> ambient \<Rightarrow> login_start_request \<Rightarrow> 'l auth_world \<Rightarrow> (api_error + (string \<times> string)) \<times> 'l auth_world" where
  "login_start C am req w =
     (let h = ls_identity_handle req; db = aw_db w; oq = au_opaque C in
      if locked_until (am_now am 0) h db \<noteq> None then (Inl too_many_requests, w)
      else case auth_decode_b64 C (ls_credential_request_b64 req) of
             Inl e \<Rightarrow> (Inl e, w)
           | Inr bytes \<Rightarrow>
               if \<not> oq_credential_ok oq bytes then (Inl bad_request, w)
               else if (\<exists>v \<in> set_option (opaque_record h db). \<not> oq_verifier_ok oq v) then (Inl internal, w)
               else (case oq_login_start oq (am_bytes am 0) (opaque_record h db) bytes h of
                       None \<Rightarrow> (Inl bad_request, w)
                     | Some (st, m) \<Rightarrow>
                         (case insert_pending (readings_from 1 am) st h (aw_pending w) of
                            (r, p) \<Rightarrow> (map_sum id (\<lambda>i. (i, ae_b64_encode (au_env C) m)) r, w\<lparr>aw_pending := p\<rparr>))))"

text \<open>The device proof of a login: nothing, a proof, or a malformed request.\<close>

definition pop_fields :: "login_finish_request \<Rightarrow> api_error + (string \<times> string \<times> string) option" where
  "pop_fields req =
     (case (lf_device_id req, lf_pub_b64 req, lf_pop_signature_b64 req) of
        (None, None, None) \<Rightarrow> Inr None
      | (Some d, Some p, Some s) \<Rightarrow> Inr (Some (d, p, s))
      | _ \<Rightarrow> Inl bad_request)"

definition mint_on_login ::
  "'l auth_config \<Rightarrow> ambient \<Rightarrow> login_finish_request \<Rightarrow> string \<Rightarrow> string \<Rightarrow> auth_db
     \<Rightarrow> api_error + (v2_token_bundle option \<times> auth_db)" where
  "mint_on_login C am req finalization tenant db =
     bindR (pop_fields req) (\<lambda>fields.
       case fields of
         None \<Rightarrow> Inr (None, db)
       | Some (device, pub_b64, sig_b64) \<Rightarrow>
           bindR (decode_fixed C ED25519_PUB_LEN pub_b64) (\<lambda>pub.
           bindR (decode_fixed C ED25519_SIG_LEN sig_b64) (\<lambda>sig.
             if device_id_from_ed25519 (au_env C) pub = device
                \<and> verify_ed25519 (au_env C) pub (mint_pop_message (au_env C) (lf_login_id req) finalization device pub) sig
             then bindR (auth_res (mint_pair (au_env C) am tenant device pub (au_tokens C) db)) (\<lambda>(pair, db').
               let b = binding_for tenant db' in
               Inr (Some \<lparr>v2_scope = (if b = None then Control else Content), v2_pair = pair, v2_device_id = device,
                          v2_tenant = tenant, v2_content = map_option cn_content b,
                          v2_version = (case b of None \<Rightarrow> 0 | Some x \<Rightarrow> cn_version x)\<rparr>, db'))
             else Inl unauthorized)))"

text \<open>The part of \<open>finish_login\<close> after the key exchange succeeded. The reset of the counter stays
  when minting fails.\<close>

definition finish_authenticated ::
  "'l auth_config \<Rightarrow> ambient \<Rightarrow> login_finish_request \<Rightarrow> string \<Rightarrow> bool \<Rightarrow> string \<Rightarrow> auth_db
     \<Rightarrow> (api_error + v2_login_response) \<times> auth_db" where
  "finish_authenticated C am req finalization v2 h db0 =
     (let db = reset_failures h db0 in
      case account_id h db of
        None \<Rightarrow> (Inl internal, db)
      | Some tenant \<Rightarrow>
          let b = binding_for tenant db in
          if \<not> v2 \<and> (case b of None \<Rightarrow> True | Some x \<Rightarrow> cn_state x \<noteq> ''legacy_reserved'')
          then (Inl (coded_conflict ''AUTH_PROTOCOL_UPGRADE_REQUIRED''), db)
          else case mint_on_login C am req finalization tenant db of
                 Inl e \<Rightarrow> (Inl e, db)
               | Inr (bundle, db') \<Rightarrow>
                   (Inr \<lparr>lr_authenticated = True, lr_tenant = tenant, lr_content = map_option cn_content b,
                         lr_version = (case b of None \<Rightarrow> 0 | Some x \<Rightarrow> cn_version x),
                         lr_binding_state = (case b of None \<Rightarrow> ''unbound'' | Some x \<Rightarrow> cn_state x),
                         lr_token = bundle\<rparr>, db'))"

definition finish_login ::
  "'l auth_config \<Rightarrow> ambient \<Rightarrow> login_finish_request \<Rightarrow> bool \<Rightarrow> 'l auth_world
     \<Rightarrow> (api_error + v2_login_response) \<times> 'l auth_world" where
  "finish_login C am req v2 w0 =
     (case take_pending (am_now am 0) (lf_login_id req) (aw_pending w0) of
        (taken, pending) \<Rightarrow>
          let w = w0\<lparr>aw_pending := pending\<rparr> in
          case taken of
            None \<Rightarrow> (Inl unauthorized, w)
          | Some (st, h) \<Rightarrow>
              if locked_until (am_now am 1) h (aw_db w) \<noteq> None then (Inl too_many_requests, w)
              else case auth_decode_b64 C (lf_credential_finalization_b64 req) of
                     Inl e \<Rightarrow> (Inl e, w)
                   | Inr bytes \<Rightarrow>
                       if \<not> oq_finalization_ok (au_opaque C) bytes then (Inl bad_request, w)
                       else if \<not> oq_login_finish (au_opaque C) st bytes
                       then (Inl unauthorized, w\<lparr>aw_db := snd (record_failure (am_now am 2) h (au_throttle C) (aw_db w))\<rparr>)
                       else apsnd (\<lambda>db. w\<lparr>aw_db := db\<rparr>)
                              (finish_authenticated C (readings_from 2 am) req bytes v2 h (aw_db w)))"

definition login_finish ::
  "'l auth_config \<Rightarrow> ambient \<Rightarrow> login_finish_request \<Rightarrow> 'l auth_world
     \<Rightarrow> (api_error + (string \<times> token_bundle option)) \<times> 'l auth_world" where
  "login_finish C am req w =
     apfst (\<lambda>r. bindR r (\<lambda>resp.
       case lr_content resp of
         None \<Rightarrow> Inl internal
       | Some account \<Rightarrow>
           Inr (account, map_option (\<lambda>t. \<lparr>tb_pair = v2_pair t, tb_device_id = v2_device_id t, tb_account_id = account\<rparr>)
                           (lr_token resp))))
       (finish_login C am req False w)"

definition login_finish_v2 ::
  "'l auth_config \<Rightarrow> ambient \<Rightarrow> login_finish_request \<Rightarrow> 'l auth_world
     \<Rightarrow> (api_error + v2_login_response) \<times> 'l auth_world" where
  "login_finish_v2 C am req w = finish_login C am req True w"

section \<open>Refresh and revocation\<close>

definition token_refresh ::
  "'l auth_config \<Rightarrow> ambient \<Rightarrow> refresh_request \<Rightarrow> auth_db \<Rightarrow> api_error + (rotated \<times> auth_db)" where
  "token_refresh C am req db =
     bindR (decode_fixed C ED25519_PUB_LEN (rr_pub_b64 req)) (\<lambda>pub.
     bindR (decode_fixed C ED25519_SIG_LEN (rr_pop_signature_b64 req)) (\<lambda>sig.
     bindR (auth_decode_b64 C (rr_nonce_b64 req)) (\<lambda>nonce.
       if device_id_from_ed25519 (au_env C) pub \<noteq> rr_device_id req then Inl unauthorized
       else bindR (auth_res (load_valid_token (au_env C) (am_now am 0) (rr_refresh_token req) Refresh db)) (\<lambda>v.
         case v of
           None \<Rightarrow> Inl unauthorized
         | Some t \<Rightarrow>
             if vt_device t \<noteq> rr_device_id req \<or> vt_pub t \<noteq> pub then Inl unauthorized
             else if \<not> verify_ed25519 (au_env C) pub
                         (refresh_pop_message (vt_token_id t) nonce (rr_device_id req) pub) sig then Inl unauthorized
             else auth_res (rotate_refresh (au_env C) (readings_from 1 am) (vt_token_id t) (vt_tenant t) (vt_device t) pub
                         (tc_access_ttl_ms (au_tokens C)) (tc_refresh_ttl_ms (au_tokens C)) db)))))"

definition token_revoke ::
  "'l auth_config \<Rightarrow> ambient \<Rightarrow> string option \<Rightarrow> string \<Rightarrow> auth_db \<Rightarrow> api_error + (nat \<times> auth_db)" where
  "token_revoke C am header device db =
     bindR (bearer_from_headers header) (\<lambda>bearer.
     bindR (access_principal (au_env C) (am_now am 0) bearer db) (\<lambda>caller.
       Inr (revoke_device (am_now am 1) (vt_tenant caller) device db)))"

section \<open>What the content routes ask\<close>

text \<open>\<open>AuthState::validate_token\<close>: a control-only token is told so, anything else goes through the
  store's check.\<close>

definition state_validate_token :: "'l auth_config \<Rightarrow> ambient \<Rightarrow> string \<Rightarrow> auth_db \<Rightarrow> api_error + auth_account option" where
  "state_validate_token C am bearer db =
     bindR (auth_res (load_valid_token (au_env C) (am_now am 0) bearer Access db)) (\<lambda>v.
       if (\<exists>t \<in> set_option v. vt_content t = None) then Inl forbidden
       else auth_res (store_validate_token (au_env C) (am_now am 1) bearer db))"

section \<open>The router\<close>

datatype auth_request =
    RegisterStart register_start_request
  | RegisterFinish register_finish_request
  | RegisterFinishV2 register_finish_request
  | LoginStart login_start_request
  | LoginFinish login_finish_request
  | LoginFinishV2 login_finish_request
  | TokenRefresh refresh_request
  | TokenRevoke "string option" string
  | BindingGet "string option"
  | BindingStart "string option" binding_start
  | BindingFinish "string option" binding_finish

datatype auth_reply =
    RegisterStarted string
  | Registered string
  | RegistrationReceived
  | LoginStarted string string
  | LoggedIn string "token_bundle option"
  | LoggedInV2 v2_login_response
  | Refreshed rotated
  | Revoked nat
  | BindingIs binding_status
  | BindingChallenged binding_challenge
  | BindingDone content_binding

text \<open>A handler that changes the database only when it succeeds.\<close>

definition on_db ::
  "('a \<Rightarrow> auth_reply) \<Rightarrow> (auth_db \<Rightarrow> api_error + ('a \<times> auth_db)) \<Rightarrow> 'l auth_world \<Rightarrow> (api_error + auth_reply) \<times> 'l auth_world" where
  "on_db f h w = (case h (aw_db w) of Inl e \<Rightarrow> (Inl e, w) | Inr (x, db) \<Rightarrow> (Inr (f x), w\<lparr>aw_db := db\<rparr>))"

fun auth_serve ::
  "'l auth_config \<Rightarrow> (string \<Rightarrow> bool) \<Rightarrow> ambient \<Rightarrow> auth_request \<Rightarrow> 'l auth_world \<Rightarrow> (api_error + auth_reply) \<times> 'l auth_world" where
  "auth_serve C occupied am (RegisterStart req) w = (map_sum id RegisterStarted (register_start C req), w)"
| "auth_serve C occupied am (RegisterFinish req) w = on_db Registered (register_finish C am occupied req) w"
| "auth_serve C occupied am (RegisterFinishV2 req) w =
     on_db (\<lambda>_. RegistrationReceived) (\<lambda>db. bindR (register_finish_v2 C am req db) (\<lambda>db'. Inr ((), db'))) w"
| "auth_serve C occupied am (LoginStart req) w = apfst (map_sum id (\<lambda>(i, m). LoginStarted i m)) (login_start C am req w)"
| "auth_serve C occupied am (LoginFinish req) w = apfst (map_sum id (\<lambda>(a, t). LoggedIn a t)) (login_finish C am req w)"
| "auth_serve C occupied am (LoginFinishV2 req) w = apfst (map_sum id LoggedInV2) (login_finish_v2 C am req w)"
| "auth_serve C occupied am (TokenRefresh req) w = on_db Refreshed (token_refresh C am req) w"
| "auth_serve C occupied am (TokenRevoke header device) w = on_db Revoked (token_revoke C am header device) w"
| "auth_serve C occupied am (BindingGet header) w =
     (map_sum id BindingIs (binding_status_of (au_env C) am header (aw_db w)), w)"
| "auth_serve C occupied am (BindingStart header req) w =
     (case binding_start_of (au_env C) am header req (aw_db w) of (r, db) \<Rightarrow> (map_sum id BindingChallenged r, w\<lparr>aw_db := db\<rparr>))"
| "auth_serve C occupied am (BindingFinish header req) w =
     on_db BindingDone (binding_finish_of (au_env C) am (au_acquire C) occupied header req) w"

end
