(* ===== verification/Auth_Invariant.thy ===== *)
theory Auth_Invariant
  imports Auth_Routes
begin

text \<open>
  What every request of the auth control plane keeps: the consistency of its tables
  (\<open>auth_ok\<close>), and their history (\<open>persists\<close>). Tokens and bindings are only appended; a token
  changes once, when it is revoked, and a binding once, when it is retired.
\<close>

section \<open>Definitions\<close>

definition live :: "binding_row \<Rightarrow> bool" where
  "live b \<longleftrightarrow> bd_state b \<noteq> ''retired''"

text \<open>Keys of the tokens, and scopes that agree with the authority a token captured.\<close>

definition scoped :: "token_row \<Rightarrow> bool" where
  "scoped t \<longleftrightarrow> scope_of t \<noteq> None"

definition tokens_ok :: "token_row list \<Rightarrow> bool" where
  "tokens_ok ts \<longleftrightarrow> distinct (map tr_id ts) \<and> (\<forall>t \<in> set ts. scoped t)"

text \<open>Distinct accounts, and one live binding per tenant, with the greatest version of the tenant.\<close>

definition bindings_ok :: "binding_row list \<Rightarrow> bool" where
  "bindings_ok bs \<longleftrightarrow>
     distinct (map bd_content bs)
     \<and> (\<forall>b \<in> set bs. \<forall>c \<in> set bs. live b \<and> live c \<and> bd_tenant b = bd_tenant c \<longrightarrow> b = c)
     \<and> (\<forall>b \<in> set bs. 0 \<le> bd_version b
          \<and> (\<exists>c \<in> set bs. live c \<and> bd_tenant c = bd_tenant b \<and> (b = c \<or> bd_version b < bd_version c)))"

text \<open>Every account is mapped to a tenant of its own.\<close>

definition maps_ok :: "account_row list \<Rightarrow> map_row list \<Rightarrow> bool" where
  "maps_ok accounts ms \<longleftrightarrow>
     distinct (map am_handle ms) \<and> distinct (map am_tenant ms) \<and> am_handle ` set ms = ac_handle ` set accounts"

definition auth_ok :: "auth_db \<Rightarrow> bool" where
  "auth_ok db \<longleftrightarrow> tokens_ok (at_tokens db) \<and> bindings_ok (at_bindings db) \<and> maps_ok (at_accounts db) (at_map db)
     \<and> bd_tenant ` set (at_bindings db) \<subseteq> am_tenant ` set (at_map db)"

definition token_grows :: "token_row \<Rightarrow> token_row \<Rightarrow> bool" where
  "token_grows t t' \<longleftrightarrow> t' = t \<or> (tr_revoked_at t = None \<and> (\<exists>now. t' = t\<lparr>tr_revoked_at := Some now\<rparr>))"

definition binding_grows :: "binding_row \<Rightarrow> binding_row \<Rightarrow> bool" where
  "binding_grows b b' \<longleftrightarrow> b' = b \<or> b' = b\<lparr>bd_state := ''retired''\<rparr>"

definition tokens_persist :: "token_row list \<Rightarrow> token_row list \<Rightarrow> bool" where
  "tokens_persist ts ts' \<longleftrightarrow> (\<forall>t \<in> set ts. \<exists>t' \<in> set ts'. token_grows t t')"

definition bindings_persist :: "binding_row list \<Rightarrow> binding_row list \<Rightarrow> bool" where
  "bindings_persist bs bs' \<longleftrightarrow> (\<forall>b \<in> set bs. \<exists>b' \<in> set bs'. binding_grows b b')"

definition persists :: "auth_db \<Rightarrow> auth_db \<Rightarrow> bool" where
  "persists db db' \<longleftrightarrow> tokens_persist (at_tokens db) (at_tokens db')
     \<and> bindings_persist (at_bindings db) (at_bindings db') \<and> set (at_map db) \<subseteq> set (at_map db')"

definition safe_step :: "auth_db \<Rightarrow> auth_db \<Rightarrow> bool" where
  "safe_step db db' \<longleftrightarrow> (auth_ok db \<longrightarrow> auth_ok db' \<and> persists db db')"

lemma token_grows_refl [simp]: "token_grows t t"
  by (simp add: token_grows_def)

lemma token_grows_trans: "token_grows a b \<Longrightarrow> token_grows b c \<Longrightarrow> token_grows a c"
  by (auto simp: token_grows_def)

lemma token_grows_id: "token_grows t t' \<Longrightarrow> tr_id t' = tr_id t"
  by (auto simp: token_grows_def)

lemma binding_grows_refl [simp]: "binding_grows b b"
  by (simp add: binding_grows_def)

lemma binding_grows_trans: "binding_grows a b \<Longrightarrow> binding_grows b c \<Longrightarrow> binding_grows a c"
  by (auto simp: binding_grows_def)

lemma tokens_persist_refl [simp]: "tokens_persist ts ts" "tokens_persist ts (ts @ us)"
  by (auto simp: tokens_persist_def intro!: bexI)

lemma bindings_persist_refl [simp]: "bindings_persist bs bs" "bindings_persist bs (bs @ cs)"
  by (auto simp: bindings_persist_def intro!: bexI)

lemma persists_refl [simp]: "persists db db"
  by (simp add: persists_def)

lemma tokens_persist_trans: "tokens_persist a b \<Longrightarrow> tokens_persist b c \<Longrightarrow> tokens_persist a c"
  unfolding tokens_persist_def by (meson token_grows_trans)

lemma bindings_persist_trans: "bindings_persist a b \<Longrightarrow> bindings_persist b c \<Longrightarrow> bindings_persist a c"
  unfolding bindings_persist_def by (meson binding_grows_trans)

lemma persists_trans: "persists a b \<Longrightarrow> persists b c \<Longrightarrow> persists a c"
  using tokens_persist_trans bindings_persist_trans unfolding persists_def by blast

lemma safe_refl [simp]: "safe_step db db"
  by (simp add: safe_step_def)

lemma safe_trans: "safe_step a b \<Longrightarrow> safe_step b c \<Longrightarrow> safe_step a c"
  unfolding safe_step_def using persists_trans by blast

section \<open>Reading the tables\<close>

lemma filter_untouched: "(\<And>x. P (f x) = P x) \<Longrightarrow> (\<And>x. P x \<Longrightarrow> f x = x) \<Longrightarrow> filter P (map f xs) = filter P xs"
  by (induction xs) auto

lemma find_unique:
  assumes "x \<in> set xs" and "P x" and "\<And>y. y \<in> set xs \<Longrightarrow> P y \<Longrightarrow> y = x"
  shows "find P xs = Some x"
proof -
  obtain y where y: "find P xs = Some y"
    using assms(1,2) by (cases "find P xs") (auto simp: find_None_iff)
  then have "y \<in> set xs" and "P y" by (auto simp: find_Some_iff)
  with assms(3) y show ?thesis by simp
qed

lemma find_token:
  assumes "auth_ok db" and "t \<in> set (at_tokens db)"
  shows "find (\<lambda>x. tr_id x = tr_id t) (at_tokens db) = Some t"
  using assms by (intro find_unique) (auto simp: auth_ok_def tokens_ok_def distinct_map inj_on_def)

lemma binding_for_live:
  assumes "auth_ok db" and "b \<in> set (at_bindings db)" and "live b"
  shows "binding_for (bd_tenant b) db = Some (binding_of_row b)"
proof -
  have "find (\<lambda>x. bd_tenant x = bd_tenant b \<and> bd_state x \<noteq> ''retired'') (at_bindings db) = Some b"
    using assms by (intro find_unique) (auto simp: auth_ok_def bindings_ok_def live_def)
  then show ?thesis by (simp add: binding_for_def)
qed

lemma binding_for_Some:
  "binding_for tenant db = Some x \<Longrightarrow> \<exists>b \<in> set (at_bindings db). live b \<and> bd_tenant b = tenant \<and> x = binding_of_row b"
  by (fastforce simp: binding_for_def live_def find_Some_iff)

lemma binding_for_None:
  "binding_for tenant db = None \<Longrightarrow> b \<in> set (at_bindings db) \<Longrightarrow> live b \<Longrightarrow> bd_tenant b \<noteq> tenant"
  by (auto simp: binding_for_def live_def find_None_iff)

lemma authority_bound:
  assumes "auth_ok db" and "b \<in> set (at_bindings db)"
  shows "bd_version b \<le> snd (authority (bd_tenant b) db)"
proof -
  obtain c where "c \<in> set (at_bindings db)" "live c" "bd_tenant c = bd_tenant b" "b = c \<or> bd_version b < bd_version c"
    using assms unfolding auth_ok_def bindings_ok_def by blast
  then show ?thesis
    using binding_for_live [OF assms(1), of c] by (auto simp: authority_def binding_of_row_def)
qed

section \<open>The operations\<close>

lemma scoped_simps [simp]:
  "scoped (t\<lparr>tr_revoked_at := r\<rparr>) \<longleftrightarrow> scoped t"
  "scoped (new_token_row now i tenant device pub hash kind expires db)"
  by (auto simp: scoped_def new_token_row_def scope_of_def authority_def split: option.splits)

lemma new_token_row_id [simp]: "tr_id (new_token_row now i tenant device pub hash kind expires db) = i"
  by (simp add: new_token_row_def)

lemma safe_tokens:
  "(tokens_ok (at_tokens db) \<Longrightarrow> tokens_ok ts \<and> tokens_persist (at_tokens db) ts) \<Longrightarrow> safe_step db (db\<lparr>at_tokens := ts\<rparr>)"
  by (simp add: safe_step_def auth_ok_def persists_def)

lemma safe_insert_token:
  assumes "insert_token_row now i tenant device pub hash kind expires db = Inr db'"
  shows "safe_step db db'"
  using assms by (auto simp: insert_token_row_def list_ex_iff tokens_ok_def split: if_splits intro!: safe_tokens)

lemma safe_insert_pair:
  "insert_pair now tenant device pub a ae r re db = Inr (x, db') \<Longrightarrow> safe_step db db'"
  by (auto simp: insert_pair_def result_iff intro: safe_insert_token safe_trans)

lemma safe_mint_pair: "mint_pair E am tenant device pub config db = Inr (x, db') \<Longrightarrow> safe_step db db'"
  unfolding mint_pair_def by (rule safe_insert_pair)

lemma safe_revoke:
  assumes "\<And>t. P t \<Longrightarrow> tr_revoked_at t = None"
  shows "safe_step db (snd (revoke_where now P db))"
proof -
  let ?f = "\<lambda>t. if P t then t\<lparr>tr_revoked_at := Some now\<rparr> else t"
  have g: "token_grows t (?f t)" for t using assms by (auto simp: token_grows_def)
  have ids: "map tr_id (map ?f ts) = map tr_id ts" for ts by simp
  have "tokens_ok ts \<Longrightarrow> tokens_ok (map ?f ts)" for ts
    unfolding tokens_ok_def ids by auto
  moreover have "tokens_persist ts (map ?f ts)" for ts
    unfolding tokens_persist_def using g by (metis (mono_tags, lifting) image_eqI set_map)
  ultimately show ?thesis by (simp add: revoke_where_def safe_tokens)
qed

lemma safe_rotate:
  assumes "rotate_refresh E am presented tenant device pub attl rttl db = Inr (x, db')"
  shows "safe_step db db'"
proof -
  let ?c = "consumable (am_now am 0) presented tenant device pub db"
  have "safe_step db (snd (revoke_where (am_now am 0) ?c db))"
    by (rule safe_revoke) (simp add: consumable_def)
  moreover have "safe_step (snd (revoke_where (am_now am 0) ?c db)) db'"
    using assms by (auto simp: rotate_refresh_def Let_def split: prod.splits if_splits intro: safe_insert_pair)
  ultimately show ?thesis by (rule safe_trans)
qed

lemma safe_revoke_device: "safe_step db (snd (revoke_device now tenant device db))"
  unfolding revoke_device_def by (rule safe_revoke) simp

lemma safe_frame:
  "safe_step db (db\<lparr>at_failures := fs\<rparr>)" "safe_step db (db\<lparr>at_challenges := cs\<rparr>)"
  by (simp_all add: safe_step_def auth_ok_def persists_def)

lemma safe_throttle:
  "safe_step db (snd (record_failure now h throttle db))" "safe_step db (reset_failures h db)"
  by (simp_all add: record_failure_def reset_failures_def Let_def safe_frame)

lemma maps_ok_add:
  assumes "maps_ok accounts ms" and "ac_handle a = am_handle m"
    and "am_handle m \<notin> am_handle ` set ms" and "am_tenant m \<notin> am_tenant ` set ms"
  shows "maps_ok (accounts @ [a]) (ms @ [m])"
  using assms by (auto simp: maps_ok_def)

lemma inserted_account:
  assumes "insert_account r db = Inr db1" and "insert_map m db1 = Inr db2" and "ac_handle r = am_handle m"
  shows "safe_step db db2" and "at_bindings db2 = at_bindings db" and "at_tokens db2 = at_tokens db"
    and "at_map db2 = at_map db @ [m]" and "am_tenant m \<notin> am_tenant ` set (at_map db)"
proof -
  have d: "db2 = db\<lparr>at_accounts := at_accounts db @ [r], at_map := at_map db @ [m]\<rparr>"
    and m: "am_handle m \<notin> am_handle ` set (at_map db)" "am_tenant m \<notin> am_tenant ` set (at_map db)"
    using assms by (auto simp: insert_account_def insert_map_def list_ex_iff split: if_splits)
  from m assms(3) show "safe_step db db2"
    by (auto simp: d safe_step_def auth_ok_def persists_def intro: maps_ok_add)
  from d m show "at_bindings db2 = at_bindings db" "at_tokens db2 = at_tokens db"
    "at_map db2 = at_map db @ [m]" "am_tenant m \<notin> am_tenant ` set (at_map db)" by simp_all
qed

lemma safe_register_unbound:
  "register_unbound now tenant h r k db = Inr (x, db') \<Longrightarrow> safe_step db db'"
  by (auto simp: register_unbound_def result_iff split: if_splits dest: inserted_account(1))

lemma distinct_map_snoc:
  "map f ys = map f xs \<Longrightarrow> distinct (map f xs) \<Longrightarrow> f x \<notin> f ` set xs \<Longrightarrow> distinct (map f (ys @ [x]))"
  unfolding map_append distinct_append by (simp del: distinct_map)

text \<open>A tenant gets a new live binding: it had none that is live any more, and all of its bindings
  are older.\<close>

lemma bindings_ok_add:
  assumes "bindings_ok bs" and "live b" and "bd_content b \<notin> bd_content ` set bs" and "0 \<le> bd_version b"
    and "\<forall>c \<in> set bs. bd_tenant c = bd_tenant b \<longrightarrow> bd_version c < bd_version b"
  shows "bindings_ok (map (\<lambda>c. if bd_tenant c = bd_tenant b then c\<lparr>bd_state := ''retired''\<rparr> else c) bs @ [b])"
    (is "bindings_ok (map ?f bs @ [b])")
proof -
  have content: "map bd_content (map ?f bs) = map bd_content bs" by simp
  have same: "?f c = c" if "bd_tenant c \<noteq> bd_tenant b" for c using that by simp
  have older: "\<exists>d \<in> set (map ?f bs @ [b]). live d \<and> bd_tenant d = bd_tenant c \<and> (c = d \<or> bd_version c < bd_version d)"
    if c: "c \<in> set (map ?f bs)" for c
  proof (cases "bd_tenant c = bd_tenant b")
    case True
    with c assms(5) have "bd_version c < bd_version b" by (auto split: if_splits)
    with True assms(2) show ?thesis by (intro bexI [of _ b]) auto
  next
    case False
    then have "c \<in> set bs" using c by (auto split: if_splits)
    then obtain d where d: "d \<in> set bs" "live d" "bd_tenant d = bd_tenant c" "c = d \<or> bd_version c < bd_version d"
      using assms(1) unfolding bindings_ok_def by blast
    have "?f d \<in> set (map ?f bs)" unfolding set_map using d(1) by (rule imageI)
    then have "d \<in> set (map ?f bs)" using same [of d] False d(3) by simp
    with d show ?thesis by (intro bexI [of _ d]) auto
  qed
  have new: "x = b" if "x \<in> set (map ?f bs @ [b])" "live x" "bd_tenant x = bd_tenant b" for x
    using that by (auto simp: live_def split: if_splits)
  have one: "x = y" if "x \<in> set (map ?f bs @ [b])" "y \<in> set (map ?f bs @ [b])" "live x" "live y" "bd_tenant x = bd_tenant y" for x y
  proof (cases "bd_tenant x = bd_tenant b")
    case True
    with that new [of x] new [of y] show ?thesis by metis
  next
    case False
    with that have "x \<in> set bs" "y \<in> set bs" by (auto split: if_splits)
    with that assms(1) show ?thesis unfolding bindings_ok_def by blast
  qed
  have keys: "distinct (map bd_content (map ?f bs @ [b]))"
    using assms(1,3) unfolding bindings_ok_def by (intro distinct_map_snoc [OF content]) simp_all
  have nonneg: "\<forall>c \<in> set (map ?f bs @ [b]). 0 \<le> bd_version c"
    using assms(1,4) unfolding bindings_ok_def by auto
  have "\<exists>d \<in> set (map ?f bs @ [b]). live d \<and> bd_tenant d = bd_tenant c \<and> (c = d \<or> bd_version c < bd_version d)"
    if "c \<in> set (map ?f bs @ [b])" for c
  proof (cases "c = b")
    case True
    with assms(2) show ?thesis by (intro bexI [of _ b]) simp_all
  next
    case False
    with that have "c \<in> set (map ?f bs)" by simp
    then show ?thesis by (rule older)
  qed
  with keys nonneg one show ?thesis unfolding bindings_ok_def by blast
qed

definition row_valid :: "'c auth_env \<Rightarrow> int \<Rightarrow> string \<Rightarrow> token_kind \<Rightarrow> auth_db \<Rightarrow> token_row \<Rightarrow> bool" where
  "row_valid E now bearer kind db t \<longleftrightarrow>
     (\<exists>secret. parse_bearer E bearer = Some (tr_id t, secret) \<and> hash_secret E secret = tr_hash t)
     \<and> kind_from_wire (tr_kind t) = Some kind \<and> tr_revoked_at t = None \<and> now < tr_expires_at t
     \<and> authority (tr_tenant t) db = (tr_content t, tr_version t) \<and> length (tr_pub t) = ED25519_PUB_LEN"

definition validated_row :: "token_row \<Rightarrow> validated_token \<Rightarrow> bool" where
  "validated_row t v \<longleftrightarrow> vt_token_id v = tr_id t \<and> vt_tenant v = tr_tenant t \<and> vt_device v = tr_device t
     \<and> vt_pub v = tr_pub t \<and> vt_content v = tr_content t \<and> vt_version v = tr_version t"

lemma load_valid_SomeD:
  assumes "load_valid_token E now bearer kind db = Inr (Some v)"
  shows "\<exists>t \<in> set (at_tokens db). row_valid E now bearer kind db t \<and> validated_row t v"
proof -
  from assms obtain i secret t where p: "parse_bearer E bearer = Some (i, secret)"
    and f: "find (\<lambda>t. tr_id t = i) (at_tokens db) = Some t"
    by (auto simp: load_valid_token_def split: option.splits)
  from f have t: "t \<in> set (at_tokens db)" "tr_id t = i" by (auto simp: find_Some_iff)
  with assms p f show ?thesis
    by (intro bexI [of _ t])
      (auto simp: load_valid_token_def row_valid_def validated_row_def split: if_splits option.splits)
qed

lemma load_valid_row:
  assumes "auth_ok db" and "t \<in> set (at_tokens db)" and "row_valid E now bearer kind db t"
  shows "\<exists>v. load_valid_token E now bearer kind db = Inr (Some v) \<and> validated_row t v"
proof -
  have "scoped t" using assms(1,2) by (simp add: auth_ok_def tokens_ok_def)
  with assms(3) find_token [OF assms(1,2)] show ?thesis
    by (auto simp: load_valid_token_def row_valid_def validated_row_def scoped_def)
qed

lemma access_principal_Inr:
  "access_principal E now credential db = Inr who \<longleftrightarrow> load_valid_token E now credential Access db = Inr (Some who)"
  by (cases "load_valid_token E now credential Access db")
    (auto simp: access_principal_def auth_res_def split: option.split)

lemma principal_authority:
  assumes "access_principal E now credential db = Inr who"
  shows "authority (vt_tenant who) db = (vt_content who, vt_version who)"
  using load_valid_SomeD [OF assms [unfolded access_principal_Inr]] by (auto simp: row_valid_def validated_row_def)

section \<open>Registration and allocation\<close>

lemma insert_binding_row:
  "insert_binding b db = Inr db' \<Longrightarrow> db' = db\<lparr>at_bindings := at_bindings db @ [b]\<rparr>
     \<and> bd_content b \<notin> bd_content ` set (at_bindings db) \<and> bd_tenant b \<in> am_tenant ` set (at_map db) \<and> 0 \<le> bd_version b"
  by (force simp: insert_binding_def list_ex_iff split: if_splits)

lemma auth_res_Inr [result_iff]: "auth_res r = Inr x \<longleftrightarrow> r = Inr x"
  by (cases r) (simp_all add: auth_res_def)

lemma safe_register:
  assumes "finish_registration_at now h r k account db = Inr (x, db')"
  shows "safe_step db db'"
proof -
  let ?a = "\<lparr>ac_handle = h, ac_opaque_record = r, ac_oprf_key_id = k, ac_created_at = now\<rparr>"
    and ?m = "\<lparr>am_handle = h, am_tenant = account\<rparr>"
  obtain db1 db2 where i: "insert_account ?a db = Inr db1" "insert_map ?m db1 = Inr db2"
    and b: "insert_binding (reserved_row account) db2 = Inr db'"
    using assms by (auto simp: finish_registration_at_def result_iff split: if_splits)
  note a = inserted_account [OF i]
  have fresh: "account \<notin> am_tenant ` set (at_map db)" using a(5) by simp
  have "safe_step db2 db'" if ok: "auth_ok db"
  proof -
    have none: "bd_tenant c \<noteq> account" if "c \<in> set (at_bindings db)" for c
      using ok fresh that by (auto simp: auth_ok_def)
    then have same: "map (\<lambda>c. if bd_tenant c = bd_tenant (reserved_row account) then c\<lparr>bd_state := ''retired''\<rparr> else c)
        (at_bindings db) = at_bindings db"
      by (intro map_idI) (auto simp: reserved_row_def)
    have "bindings_ok (at_bindings db @ [reserved_row account])"
      using bindings_ok_add [of "at_bindings db" "reserved_row account"] insert_binding_row [OF b] ok none
      unfolding same by (auto simp: a auth_ok_def live_def reserved_row_def)
    with insert_binding_row [OF b] show ?thesis
      by (auto simp: a safe_step_def auth_ok_def persists_def reserved_row_def)
  qed
  with a(1) show ?thesis
    by (cases "auth_ok db") (auto simp: safe_step_def intro: persists_trans)
qed

lemma retire_contents: "bd_content ` set (at_bindings (retire_bindings tenant db)) = bd_content ` set (at_bindings db)"
proof -
  have "map bd_content (at_bindings (retire_bindings tenant db)) = map bd_content (at_bindings db)"
    by (simp add: retire_bindings_def)
  then show ?thesis by (metis set_map)
qed

lemma safe_allocate:
  assumes "allocate am who req account db = Inr (x, db')"
    and "vt_version who = snd (authority (vt_tenant who) db)"
  shows "safe_step db db'"
proof -
  let ?retire = "\<lambda>c. if bd_tenant c = vt_tenant who then c\<lparr>bd_state := ''retired''\<rparr> else c"
  let ?P = "\<lambda>t. tr_tenant t = vt_tenant who \<and> tr_revoked_at t = None"
  from assms(1) obtain row db2 where
    b: "insert_binding row (retire_bindings (vt_tenant who) db) = Inr db2"
    and row: "bd_tenant row = vt_tenant who" "bd_version row = vt_version who + 1" "live row"
    and db': "db' = drop_challenges (vt_tenant who) (snd (revoke_where (am_now am 3) ?P db2))"
    by (auto simp: allocate_def checked_add_i64_def live_def Let_def result_iff split: option.splits if_splits)
  note i = insert_binding_row [OF b]
  have "safe_step db db2"
    unfolding safe_step_def
  proof
    assume ok: "auth_ok db"
    have content: "bd_content row \<notin> bd_content ` set (at_bindings db)"
      using i by (simp add: retire_contents)
    have "bindings_ok (map ?retire (at_bindings db) @ [row])"
      using bindings_ok_add [of "at_bindings db" row] ok row content i authority_bound [OF ok] assms(2)
      by (force simp: auth_ok_def)
    moreover have "bindings_persist (at_bindings db) (map ?retire (at_bindings db) @ [row])"
      unfolding bindings_persist_def
    proof
      fix c assume "c \<in> set (at_bindings db)"
      then have "?retire c \<in> set (map ?retire (at_bindings db) @ [row])" by auto
      moreover have "binding_grows c (?retire c)" by (simp add: binding_grows_def)
      ultimately show "\<exists>c' \<in> set (map ?retire (at_bindings db) @ [row]). binding_grows c c'" by blast
    qed
    moreover have "bd_tenant ` set (map ?retire (at_bindings db) @ [row]) \<subseteq> am_tenant ` set (at_map db)"
      using ok i row by (auto simp: auth_ok_def retire_bindings_def)
    ultimately show "auth_ok db2 \<and> persists db db2"
      using ok i by (simp add: auth_ok_def persists_def retire_bindings_def)
  qed
  moreover have "safe_step db2 db'"
    unfolding db' drop_challenges_def by (rule safe_trans [OF safe_revoke safe_frame(2)]) simp
  ultimately show ?thesis by (rule safe_trans)
qed

section \<open>The handlers\<close>

lemma safe_register_finish: "register_finish C am occupied req db = Inr (x, db') \<Longrightarrow> safe_step db db'"
  by (auto simp: register_finish_def register_legacy_def Let_def result_iff split: if_splits intro: safe_register)

lemma safe_register_finish_v2:
  assumes "register_finish_v2 C am req db = Inr db'"
  shows "safe_step db db'"
proof -
  from assms obtain r where
    "(case register_unbound (am_now am 0) (am_uuid am 0) (rf_identity_handle req) r (au_oprf_key_id C) db of
       Inr (_, db') \<Rightarrow> Inr db' | Inl HandleExists \<Rightarrow> Inr db | Inl e \<Rightarrow> Inl (api_of_auth e)) = Inr db'"
    by (auto simp: register_finish_v2_def result_iff)
  then show ?thesis
    by (cases "register_unbound (am_now am 0) (am_uuid am 0) (rf_identity_handle req) r (au_oprf_key_id C) db")
      (auto split: auth_store_error.splits intro: safe_register_unbound)
qed

lemma safe_mint_on_login: "mint_on_login C am req fin tenant db = Inr (x, db') \<Longrightarrow> safe_step db db'"
  by (auto simp: mint_on_login_def result_iff Let_def split: option.splits if_splits prod.splits intro: safe_mint_pair)

lemma safe_finish_authenticated: "safe_step db (snd (finish_authenticated C am req fin v2 h db))"
  using safe_throttle(2) [of db h]
  by (auto simp: finish_authenticated_def Let_def split: option.splits sum.splits prod.splits
      intro: safe_trans safe_mint_on_login)

lemma safe_finish_login: "safe_step (aw_db w) (aw_db (snd (finish_login C am req v2 w)))"
  by (auto simp: finish_login_def Let_def safe_throttle safe_finish_authenticated
      split: prod.splits option.splits sum.splits if_splits)

lemma login_start_db: "aw_db (snd (login_start C am req w)) = aw_db w"
  by (auto simp: login_start_def Let_def split: sum.splits option.splits prod.splits)

lemma safe_token_refresh: "token_refresh C am req db = Inr (x, db') \<Longrightarrow> safe_step db db'"
  by (auto simp: token_refresh_def result_iff split: if_splits option.splits intro: safe_rotate)

lemma safe_token_revoke: "token_revoke C am header device db = Inr (x, db') \<Longrightarrow> safe_step db db'"
  using safe_revoke_device [of db "am_now am 1" _ device] by (auto simp: token_revoke_def result_iff) (metis snd_conv)

lemma safe_binding_start: "safe_step db (snd (binding_start_of E am header req db))"
proof -
  have purge: "safe_step db (purge_challenges now db)" for now
    by (simp add: purge_challenges_def safe_frame)
  moreover have "safe_step db db2" if "insert_challenge r (purge_challenges now db) = Inr db2" for r now db2
    using that purge [of now] safe_frame(2) by (auto simp: insert_challenge_def split: if_splits intro: safe_trans)
  ultimately show ?thesis
    by (auto simp: binding_start_of_def Let_def auth_res_Inr split: sum.splits option.splits intro: safe_trans)
qed

lemma safe_binding_finish:
  assumes "binding_finish_of E am acquire occupied header req db = Inr (x, db')"
  shows "safe_step db db'"
proof -
  from assms obtain credential where f: "finish_under_barrier E am occupied credential req db = Inr (x, db')"
    by (auto simp: binding_finish_of_def result_iff)
  then obtain who where w: "access_principal E (am_now am 1) credential db = Inr who"
    by (auto simp: finish_under_barrier_def result_iff)
  have "db' = db \<or> (\<exists>account. allocate am who req account db = Inr (x, db'))"
    using f w by (auto simp: finish_under_barrier_def Let_def result_iff split: option.splits if_splits)
  with principal_authority [OF w] show ?thesis by (auto intro: safe_allocate)
qed

lemma safe_on_db: "(\<And>x db'. h (aw_db w) = Inr (x, db') \<Longrightarrow> safe_step (aw_db w) db') \<Longrightarrow> safe_step (aw_db w) (aw_db (snd (on_db f h w)))"
  by (auto simp: on_db_def split: sum.splits prod.splits)

lemma safe_serve: "safe_step (aw_db w) (aw_db (snd (auth_serve C occupied am req w)))"
proof (cases req)
  case (RegisterFinishV2 r)
  then show ?thesis
    by (simp, intro safe_on_db) (auto simp: result_iff intro: safe_register_finish_v2)
next
  case (BindingStart header r)
  then show ?thesis using safe_binding_start [of "aw_db w" "au_env C" am header r] by (auto split: prod.split)
qed (auto intro!: safe_on_db intro: safe_register_finish safe_token_refresh safe_token_revoke safe_binding_finish
  simp: login_start_db login_finish_def login_finish_v2_def safe_finish_login)

section \<open>Reachable databases\<close>

text \<open>What the database held before bindings existed: keys and a tenant per account.\<close>

definition legacy_ok :: "legacy_auth_db \<Rightarrow> bool" where
  "legacy_ok l \<longleftrightarrow> distinct (map lt_id (lg_tokens l)) \<and> maps_ok (lg_accounts l) (lg_map l)"

lemma migrate_ok:
  assumes "legacy_ok l"
  shows "auth_ok (migrate i l)"
proof -
  have ids: "map tr_id (map migrate_token ts) = map lt_id ts" for ts by (simp add: migrate_token_def)
  have contents: "map bd_content (map (\<lambda>r. reserved_row (am_tenant r)) ms) = map am_tenant ms" for ms
    by (simp add: reserved_row_def)
  have "scoped (migrate_token t)" for t by (simp add: scoped_def scope_of_def migrate_token_def)
  then have "tokens_ok (map migrate_token (lg_tokens l))"
    using assms unfolding tokens_ok_def ids by (auto simp: legacy_ok_def)
  moreover have "bindings_ok (map (\<lambda>r. reserved_row (am_tenant r)) (lg_map l))"
    using assms unfolding bindings_ok_def contents by (auto simp: legacy_ok_def maps_ok_def live_def reserved_row_def)
  ultimately show ?thesis
    using assms by (auto simp: migrate_def auth_ok_def legacy_ok_def reserved_row_def)
qed

text \<open>From a migrated database, by any requests with any clock, random source and content store.\<close>

inductive auth_reaches :: "'l auth_config \<Rightarrow> 'l auth_world \<Rightarrow> bool" for C :: "'l auth_config" where
  start: "legacy_ok l \<Longrightarrow> auth_reaches C \<lparr>aw_db = migrate i l, aw_pending = []\<rparr>"
| step: "auth_reaches C w \<Longrightarrow> auth_reaches C (snd (auth_serve C occupied am req w))"

inductive auth_later :: "'l auth_config \<Rightarrow> 'l auth_world \<Rightarrow> 'l auth_world \<Rightarrow> bool" for C :: "'l auth_config" and w where
  now: "auth_later C w w"
| more: "auth_later C w w' \<Longrightarrow> auth_later C w (snd (auth_serve C occupied am req w'))"

lemma reaches_auth_ok: "auth_reaches C w \<Longrightarrow> auth_ok (aw_db w)"
proof (induction rule: auth_reaches.induct)
  case (step w occupied am req)
  then show ?case using safe_serve [of w C occupied am req] by (simp add: safe_step_def)
qed (simp add: migrate_ok)

lemma later_safe: "auth_later C w w' \<Longrightarrow> safe_step (aw_db w) (aw_db w')"
  by (induction rule: auth_later.induct) (auto intro: safe_trans safe_serve)

lemma later_reaches: "auth_later C w w' \<Longrightarrow> auth_reaches C w \<Longrightarrow> auth_reaches C w'"
  by (induction rule: auth_later.induct) (auto intro: auth_reaches.step)

lemma later_trans: "auth_later C b c \<Longrightarrow> auth_later C a b \<Longrightarrow> auth_later C a c"
  by (induction rule: auth_later.induct) (auto intro: auth_later.more)

text \<open>The history of one row.\<close>

lemma later_token:
  assumes "auth_reaches C w" and "auth_later C w w'" and "t \<in> set (at_tokens (aw_db w))"
  shows "\<exists>t'. find (\<lambda>x. tr_id x = tr_id t) (at_tokens (aw_db w')) = Some t' \<and> token_grows t t'"
proof -
  have ok: "auth_ok (aw_db w')" and p: "persists (aw_db w) (aw_db w')"
    using later_safe [OF assms(2)] reaches_auth_ok [OF assms(1)] by (auto simp: safe_step_def)
  from p assms(3) obtain t' where t': "t' \<in> set (at_tokens (aw_db w'))" "token_grows t t'"
    by (auto simp: persists_def tokens_persist_def)
  with find_token [OF ok t'(1)] token_grows_id [OF t'(2)] show ?thesis by simp
qed

lemma later_binding:
  assumes "auth_reaches C w" and "auth_later C w w'" and "b \<in> set (at_bindings (aw_db w))"
  shows "\<exists>b' \<in> set (at_bindings (aw_db w')). binding_grows b b'"
  using later_safe [OF assms(2)] reaches_auth_ok [OF assms(1)] assms(3)
  by (auto simp: safe_step_def persists_def bindings_persist_def)

lemma revoked_stays:
  assumes "auth_reaches C w" and "auth_later C w w'" and "t \<in> set (at_tokens (aw_db w))" and "tr_revoked_at t \<noteq> None"
    and "parse_bearer E bearer = Some (tr_id t, secret)"
  shows "load_valid_token E now bearer kind (aw_db w') = Inr None"
  using later_token [OF assms(1-3)] assms(4,5)
  by (auto simp: load_valid_token_def token_grows_def split: option.split)

end
