(* ===== verification/Auth_Demo.thy ===== *)
theory Auth_Demo
  imports Auth_Invariant
begin

text \<open>
  A concrete deployment the witnesses of the auth theories evaluate: codecs that are the identity,
  a hash that is the identity, a signature that starts with the key, one login from before the
  binding migration with an access and a refresh token, and a content store that was never used.
\<close>

definition demo_pub :: string where
  "demo_pub = replicate 32 (CHR ''k'')"

definition demo_secret :: string where
  "demo_secret = replicate 32 (CHR ''s'')"

definition demo_sig :: string where
  "demo_sig = demo_pub @ demo_pub"

definition demo_device :: string where
  "demo_device = to_hex (take 16 demo_pub)"

definition demo_account :: string where
  "demo_account = replicate 32 (CHR ''b'')"

definition demo_challenge :: binding_challenge where
  "demo_challenge =
     \<lparr>bc_server_instance_id = ''srv'', bc_operation_id = ''op'', bc_challenge_id = ''u0'', bc_nonce_b64 = demo_secret,
      bc_tenant = ''t'', bc_content_account_id = demo_account, bc_device_id = demo_device, bc_pub_b64 = demo_pub,
      bc_binding_version = 0, bc_expires_at_ms = 120001\<rparr>"

definition demo_auth_env :: binding_env where
  "demo_auth_env =
     \<lparr>ae_blake3 = (\<lambda>s. s), ae_b64url_encode = (\<lambda>s. s), ae_b64url_decode = Some, ae_b64_encode = (\<lambda>s. s),
      ae_b64_decode = Some, ae_verify_strict = (\<lambda>pub msg sig. take 32 sig = pub),
      ae_challenge_text = (\<lambda>c. if c = demo_challenge then Some ''c'' else None),
      ae_challenge_parse = (\<lambda>s. if s = ''c'' then Some demo_challenge else None)\<rparr>"

text \<open>A password check that accepts the message \<open>ok\<close>.\<close>

definition demo_opaque :: "unit opaque" where
  "demo_opaque =
     \<lparr>oq_request_ok = (\<lambda>_. True), oq_respond = (\<lambda>r h. Some r), oq_upload_record = Some, oq_credential_ok = (\<lambda>_. True),
      oq_verifier_ok = (\<lambda>_. True), oq_login_start = (\<lambda>r v m h. Some ((), ''m'')), oq_finalization_ok = (\<lambda>_. True),
      oq_login_finish = (\<lambda>st m. m = ''ok'')\<rparr>"

definition demo_config :: "unit auth_config" where
  "demo_config =
     \<lparr>au_env = demo_auth_env, au_opaque = demo_opaque, au_oprf_key_id = ''key'', au_throttle = \<lparr>th_threshold = 5, th_base_delay = 0, th_max_delay = 0\<rparr>,
      au_tokens = token_config_default, au_acquire = (\<lambda>_. Inr ())\<rparr>"

definition demo_legacy_token :: "string \<Rightarrow> token_kind \<Rightarrow> legacy_token_row" where
  "demo_legacy_token i kind =
     \<lparr>lt_id = i, lt_account = ''t'', lt_device = demo_device, lt_pub = demo_pub, lt_hash = demo_secret,
      lt_kind = kind_as_str kind, lt_created_at = 0, lt_expires_at = 1000000, lt_revoked_at = None\<rparr>"

definition demo_legacy :: legacy_auth_db where
  "demo_legacy =
     \<lparr>lg_accounts = [\<lparr>ac_handle = ''alice'', ac_opaque_record = ''rec'', ac_oprf_key_id = ''key'', ac_created_at = 0\<rparr>],
      lg_map = [\<lparr>am_handle = ''alice'', am_tenant = ''t''\<rparr>], lg_failures = [],
      lg_tokens = [demo_legacy_token ''a'' Access, demo_legacy_token ''r'' Refresh]\<rparr>"

definition demo_world :: "unit auth_world" where
  "demo_world = \<lparr>aw_db = migrate ''srv'' demo_legacy, aw_pending = []\<rparr>"

text \<open>A clock that stands at 1, and identifiers and random bytes by a letter.\<close>

definition demo_ambient :: "char \<Rightarrow> ambient" where
  "demo_ambient c = \<lparr>am_now = (\<lambda>_. 1), am_uuid = (\<lambda>k. [c, if k = 0 then CHR ''0'' else CHR ''1'']), am_bytes = (\<lambda>_. demo_secret)\<rparr>"

definition demo_access :: string where
  "demo_access = ''a.'' @ demo_secret"

definition demo_refresh :: string where
  "demo_refresh = ''r.'' @ demo_secret"

lemma demo_legacy_ok: "legacy_ok demo_legacy"
  by (simp add: legacy_ok_def maps_ok_def demo_legacy_def demo_legacy_token_def)

lemma demo_reaches [simp]: "auth_reaches demo_config demo_world"
  unfolding demo_world_def by (rule auth_reaches.start [OF demo_legacy_ok])

definition demo_refresh_request :: refresh_request where
  "demo_refresh_request =
     \<lparr>rr_refresh_token = demo_refresh, rr_device_id = demo_device, rr_pub_b64 = demo_pub, rr_nonce_b64 = ''n'',
      rr_pop_signature_b64 = demo_sig\<rparr>"

text \<open>What the demo deployment answers, and the state it goes to.\<close>

definition demo_serve :: "char \<Rightarrow> auth_request \<Rightarrow> unit auth_world \<Rightarrow> (api_error + auth_reply) \<times> unit auth_world" where
  "demo_serve c req w = auth_serve demo_config (\<lambda>_. False) (demo_ambient c) req w"

lemma demo_serve_Inr:
  assumes "\<not> isl (fst (demo_serve c req w))"
  shows "auth_serve demo_config (\<lambda>_. False) (demo_ambient c) req w
    = (Inr (projr (fst (demo_serve c req w))), snd (demo_serve c req w))"
  using assms by (cases "demo_serve c req w") (auto simp: demo_serve_def)

lemma demo_reaches_step [simp]: "auth_reaches demo_config w \<Longrightarrow> auth_reaches demo_config (snd (demo_serve c req w))"
  unfolding demo_serve_def by (rule auth_reaches.step)

lemma demo_later_step [simp]: "auth_later demo_config w w' \<Longrightarrow> auth_later demo_config w (snd (demo_serve c req w'))"
  unfolding demo_serve_def by (rule auth_later.more)

lemmas demo_now [simp] = auth_later.now [of demo_config]

section \<open>Evaluating the demo\<close>

lemma demo_len [simp]: "length demo_pub = 32" "length demo_secret = 32" "length demo_sig = 64" "take 32 demo_sig = demo_pub"
  by (simp_all add: demo_pub_def demo_secret_def demo_sig_def)

lemma demo_fields [simp]:
  "ae_blake3 demo_auth_env s = s" "ae_b64url_encode demo_auth_env s = s" "ae_b64url_decode demo_auth_env s = Some s"
  "ae_b64_encode demo_auth_env s = s" "ae_b64_decode demo_auth_env s = Some s"
  "ae_verify_strict demo_auth_env pub msg sig = (take 32 sig = pub)"
  "ae_challenge_text demo_auth_env ch = (if ch = demo_challenge then Some ''c'' else None)"
  "ae_challenge_parse demo_auth_env s = (if s = ''c'' then Some demo_challenge else None)"
  "au_env demo_config = demo_auth_env" "au_tokens demo_config = token_config_default" "au_acquire demo_config t = Inr ()"
  "am_now (demo_ambient c) k = 1" "am_bytes (demo_ambient c) k = demo_secret"
  "am_uuid (demo_ambient c) k = [c, if k = 0 then CHR ''0'' else CHR ''1'']"
  by (simp_all add: demo_auth_env_def demo_config_def demo_ambient_def)

lemma demo_device_id [simp]: "device_id_from_ed25519 demo_auth_env demo_pub = demo_device"
  by (simp add: device_id_from_ed25519_def demo_device_def DEVICE_ID_LEN_def)

lemma demo_parse [simp]:
  "parse_bearer demo_auth_env demo_access = Some (''a'', demo_secret)"
  "parse_bearer demo_auth_env demo_refresh = Some (''r'', demo_secret)"
  by (simp_all add: parse_bearer_def demo_access_def demo_refresh_def TOKEN_SECRET_LEN_def)

lemma demo_tokens [simp]: "load_valid_token demo_auth_env 1 demo_access Access (aw_db demo_world)
  = Inr (Some \<lparr>vt_token_id = ''a'', vt_tenant = ''t'', vt_device = demo_device, vt_pub = demo_pub, vt_content = Some ''t'',
      vt_version = 0, vt_scope = Content\<rparr>)"
 "load_valid_token demo_auth_env 1 demo_refresh Refresh (aw_db demo_world)
  = Inr (Some \<lparr>vt_token_id = ''r'', vt_tenant = ''t'', vt_device = demo_device, vt_pub = demo_pub, vt_content = Some ''t'',
      vt_version = 0, vt_scope = Content\<rparr>)"
  by (simp_all add: load_valid_token_def demo_world_def migrate_def demo_legacy_def migrate_token_def demo_legacy_token_def
    kind_from_wire_def hash_secret_def authority_def binding_for_def reserved_row_def binding_of_row_def scope_of_def
    ED25519_PUB_LEN_def)


lemma demo_auth_tables: "aw_db demo_world = migrate ''srv'' demo_legacy"
  by (simp add: demo_world_def)

lemmas demo_rows = migrate_def demo_legacy_def migrate_token_def demo_legacy_token_def reserved_row_def
lemmas demo_authority = authority_def binding_for_def binding_of_row_def

lemma demo_decode [simp]: "auth_decode_b64 demo_config s = Inr s"
  "decode_fixed demo_config n s = (if length s = n then Inr s else Inl bad_request)"
  by (simp_all add: auth_decode_b64_def decode_fixed_def)

lemma demo_rotates: "\<not> isl (rotate_refresh demo_auth_env (readings_from 1 (demo_ambient (CHR ''u''))) ''r'' ''t'' demo_device demo_pub a r (aw_db demo_world))"
  by (simp add: demo_auth_tables demo_rows demo_authority rotate_refresh_def revoke_where_def consumable_def readings_from_def insert_pair_def insert_token_row_def generate_def)

lemma demo_refreshes: "\<not> isl (fst (demo_serve (CHR ''u'') (TokenRefresh demo_refresh_request) demo_world))"
proof -
  have "\<not> isl (token_refresh demo_config (demo_ambient (CHR ''u'')) demo_refresh_request (aw_db demo_world))"
    using demo_rotates
    by (simp add: token_refresh_def demo_refresh_request_def ED25519_PUB_LEN_def ED25519_SIG_LEN_def auth_res_def isl_map_sum verify_ed25519_def)
  then show ?thesis by (auto simp: demo_serve_def on_db_def split: sum.split)
qed


definition demo_header :: "string option" where
  "demo_header = Some (''Bearer '' @ demo_access)"

lemma demo_header_bearer [simp]: "bearer_from_headers demo_header = Inr demo_access" "binding_bearer demo_header = Inr demo_access"
  by code_simp+

lemma demo_principal [simp]: "access_principal demo_auth_env 1 demo_access (aw_db demo_world)
  = Inr \<lparr>vt_token_id = ''a'', vt_tenant = ''t'', vt_device = demo_device, vt_pub = demo_pub, vt_content = Some ''t'',
      vt_version = 0, vt_scope = Content\<rparr>"
  by (simp add: access_principal_def auth_res_def)

lemma demo_revokes: "\<not> isl (fst (demo_serve c (TokenRevoke demo_header d) demo_world))"
  by (simp add: demo_serve_def on_db_def token_revoke_def split: sum.split prod.split)

definition demo_start :: binding_start where
  "demo_start = \<lparr>bq_operation_id = ''op'', bq_content_account_id = demo_account\<rparr>"

definition demo_challenged :: "unit auth_world" where
  "demo_challenged = demo_world\<lparr>aw_db := (aw_db demo_world)\<lparr>at_challenges :=
     [\<lparr>ch_tenant = ''t'', ch_operation = ''op'', ch_text = ''c'', ch_expires_at = 120001\<rparr>]\<rparr>\<rparr>"

lemma demo_canonical [simp]: "canonical_id demo_account"
  by (simp add: canonical_id_def demo_account_def list_all_iff) 

lemma demo_starts: "demo_serve (CHR ''u'') (BindingStart demo_header demo_start) demo_world
   = (Inr (BindingChallenged demo_challenge), demo_challenged)"
proof -
  have w: "wrap_add_i64 1 120000 = 120001" by code_simp
  have c: "new_challenge demo_auth_env (demo_ambient (CHR ''u''))
     \<lparr>vt_token_id = ''a'', vt_tenant = ''t'', vt_device = demo_device, vt_pub = demo_pub, vt_content = Some ''t'',
      vt_version = 0, vt_scope = Content\<rparr> demo_start (aw_db demo_world) = demo_challenge"
    by (simp add: new_challenge_def demo_start_def demo_challenge_def w demo_auth_tables demo_rows)
  have "purge_challenges now (aw_db demo_world) = aw_db demo_world" "at_challenges (aw_db demo_world) = []" for now
    by (simp_all add: purge_challenges_def demo_auth_tables demo_rows)
  then show ?thesis using c
   by (simp add: demo_serve_def binding_start_of_def demo_start_def find_challenge_def insert_challenge_def auth_res_def demo_challenged_def)
    (simp add: demo_auth_tables demo_rows demo_authority demo_challenge_def)
qed

definition demo_finish :: binding_finish where
  "demo_finish = \<lparr>bf_operation_id = ''op'', bf_challenge_id = ''u0'', bf_pop_signature_b64 = demo_sig\<rparr>"



lemma authority_challenges [simp]: "authority tenant (db\<lparr>at_challenges := x\<rparr>) = authority tenant db"
  by (simp add: authority_def binding_for_def)

lemma load_challenges [simp]: "load_valid_token E now b k (db\<lparr>at_challenges := x\<rparr>) = load_valid_token E now b k db"
  by (simp add: load_valid_token_def cong: option.case_cong if_cong)

lemma access_challenges [simp]: "access_principal E now b (db\<lparr>at_challenges := x\<rparr>) = access_principal E now b db"
  by (simp add: access_principal_def)

lemma demo_challenged_tokens [simp]:
  "load_valid_token E now b k (aw_db demo_challenged) = load_valid_token E now b k (aw_db demo_world)"
  by (simp add: demo_challenged_def)

lemma demo_proof: "proof_holds demo_auth_env 1 \<lparr>vt_token_id = ''a'', vt_tenant = ''t'', vt_device = demo_device, vt_pub = demo_pub,
     vt_content = Some ''t'', vt_version = 0, vt_scope = Content\<rparr> demo_finish demo_challenge demo_sig = Inr ()"
proof -
  have l: "length demo_device = 32" "length demo_account = 32" by (simp_all add: demo_device_def to_hex_def length_concat o_def sum_list_triv demo_account_def)
  obtain bytes where "signing_bytes demo_auth_env demo_challenge = Inr bytes"
    by (simp add: demo_challenge_def signing_bytes_def lp_field_def l)
  then show ?thesis
    by (simp add: proof_holds_def demo_finish_def verify_ed25519_def) (simp add: demo_challenge_def)
qed

lemma demo_finishes:
  "\<not> isl (fst (demo_serve (CHR ''v'') (BindingFinish demo_header demo_finish) demo_challenged))
   \<and> at_challenges (aw_db (snd (demo_serve (CHR ''v'') (BindingFinish demo_header demo_finish) demo_challenged))) = []"
proof -
  have p: "access_principal demo_auth_env 1 demo_access (aw_db demo_challenged)
    = Inr \<lparr>vt_token_id = ''a'', vt_tenant = ''t'', vt_device = demo_device, vt_pub = demo_pub, vt_content = Some ''t'',
      vt_version = 0, vt_scope = Content\<rparr>" 
    by (simp add: demo_challenged_def)
  have c: "bc_content_account_id demo_challenge = demo_account" by (simp add: demo_challenge_def)
  have f: "find_challenge ''t'' ''op'' (aw_db demo_challenged) = Some ''c''"
    "bf_pop_signature_b64 demo_finish = demo_sig" "bf_operation_id demo_finish = ''op''"
    by (simp_all add: demo_challenged_def find_challenge_def demo_finish_def)
  have b: "at_bindings (aw_db demo_challenged) = [reserved_row ''t'']" "at_map (aw_db demo_challenged) = [\<lparr>am_handle = ''alice'', am_tenant = ''t''\<rparr>]"
    by (simp_all add: demo_challenged_def demo_auth_tables demo_rows)
  have t: "demo_account \<noteq> ''t''" by (simp add: demo_account_def numeral_eq_Suc)
  have ch: "at_challenges (aw_db demo_challenged) = [\<lparr>ch_tenant = ''t'', ch_operation = ''op'', ch_text = ''c'', ch_expires_at = 120001\<rparr>]"
    by (simp add: demo_challenged_def)
  have "\<exists>b db'. finish_under_barrier demo_auth_env (demo_ambient (CHR ''v'')) (\<lambda>_. False) demo_access demo_finish (aw_db demo_challenged)
    = Inr (b, db') \<and> at_challenges db' = []"
    using t
    by (simp add: finish_under_barrier_def p f b decode_signature_def ED25519_SIG_LEN_def demo_authority demo_proof c
      reserved_row_def immutable_def allocate_def checked_add_i64_def I64_MAX_def insert_binding_def retire_bindings_def auth_res_def
      drop_challenges_def revoke_where_def ch)
  then obtain b db' where "binding_finish_of demo_auth_env (demo_ambient (CHR ''v'')) (au_acquire demo_config) (\<lambda>_. False) demo_header
     demo_finish (aw_db demo_challenged) = Inr (b, db')" "at_challenges db' = []"
    by (auto simp: binding_finish_of_def p)
  then show ?thesis by (simp add: demo_serve_def on_db_def split: prod.split)
qed
lemmas demo_binds = demo_finishes [THEN conjunct1]

lemma demo_binds_changes: "snd (demo_serve (CHR ''v'') (BindingFinish demo_header demo_finish) demo_challenged) \<noteq> demo_challenged"
proof
  assume "snd (demo_serve (CHR ''v'') (BindingFinish demo_header demo_finish) demo_challenged) = demo_challenged"
  with demo_finishes have "at_challenges (aw_db demo_challenged) = []" by simp
  then show False by (simp add: demo_challenged_def)
qed

end
