(* ===== verification/Auth_Lifecycle.thy ===== *)
theory Auth_Lifecycle
  imports Auth_Demo
begin

text \<open>
  What the auth control plane promises over time: a content account belongs to one login for
  good, a refresh token is used once, and a revoked token stays revoked.
\<close>

section \<open>Who a bearer is\<close>

lemma authority_binding:
  assumes "authority tenant db = (Some c, v)"
  shows "\<exists>b \<in> set (at_bindings db). live b \<and> bd_tenant b = tenant \<and> bd_content b = c \<and> bd_version b = v"
  using assms binding_for_Some [of tenant db]
  by (auto simp: authority_def binding_of_row_def split: option.splits)

lemma validated_principal:
  assumes "state_validate_token C am bearer db = Inr (Some p)"
  shows "\<exists>t \<in> set (at_tokens db). row_valid (au_env C) (am_now am 1) bearer Access db t \<and> tr_id t = aa_token_id p
    \<and> tr_tenant t = aa_auth_tenant_id p \<and> tr_device t = aa_device_id p \<and> tr_content t = Some (aa_account_id p)
    \<and> tr_version t = aa_binding_version p"
proof -
  from assms obtain v where l: "load_valid_token (au_env C) (am_now am 1) bearer Access db = Inr (Some v)"
    and p: "principal_of v = Some p"
    by (auto simp: state_validate_token_def store_validate_token_def result_iff bind_eq_Some_conv split: if_splits)
  from load_valid_SomeD [OF l] p show ?thesis by (auto simp: validated_row_def principal_of_def)
qed

lemma principal_binding:
  assumes "state_validate_token C am bearer db = Inr (Some p)"
  shows "\<exists>b \<in> set (at_bindings db). live b \<and> bd_tenant b = aa_auth_tenant_id p \<and> bd_content b = aa_account_id p
    \<and> bd_version b = aa_binding_version p"
  using validated_principal [OF assms] authority_binding by (auto simp: row_valid_def)

section \<open>One owner per account\<close>

lemma same_content:
  "auth_ok db \<Longrightarrow> b \<in> set (at_bindings db) \<Longrightarrow> c \<in> set (at_bindings db) \<Longrightarrow> bd_content b = bd_content c \<Longrightarrow> b = c"
  by (auto simp: auth_ok_def bindings_ok_def distinct_map inj_on_def)

lemma binding_grows_key:
  "binding_grows b b' \<Longrightarrow> bd_content b' = bd_content b \<and> bd_tenant b' = bd_tenant b \<and> bd_version b' = bd_version b"
  by (auto simp: binding_grows_def)

lemma retired_grows: "binding_grows b b' \<Longrightarrow> \<not> live b \<Longrightarrow> \<not> live b'"
  by (auto simp: binding_grows_def live_def)

lemma one_live: "auth_ok db \<Longrightarrow> b \<in> set (at_bindings db) \<Longrightarrow> c \<in> set (at_bindings db) \<Longrightarrow> live b \<Longrightarrow> live c
  \<Longrightarrow> bd_tenant b = bd_tenant c \<Longrightarrow> b = c"
  by (auto simp: auth_ok_def bindings_ok_def)

lemma live_newest:
  assumes "auth_ok db" and "b \<in> set (at_bindings db)" and "c \<in> set (at_bindings db)" and "live c" and "bd_tenant b = bd_tenant c"
  shows "b = c \<or> (\<not> live b \<and> bd_version b < bd_version c)"
proof -
  from assms(1,2) obtain d where d: "d \<in> set (at_bindings db)" "live d" "bd_tenant d = bd_tenant b"
      "b = d \<or> bd_version b < bd_version d"
    unfolding auth_ok_def bindings_ok_def by blast
  have "d = c" using one_live [OF assms(1) d(1) assms(3) d(2) assms(4)] d(3) assms(5) by simp
  with d(4) one_live [OF assms(1,2,3) _ assms(4)] assms(5) show ?thesis by blast
qed

lemma one_owner:
  assumes "auth_reaches C w" and "auth_later C w w'"
    and "state_validate_token C am bearer (aw_db w) = Inr (Some p)"
    and "state_validate_token C am' bearer' (aw_db w') = Inr (Some p')"
    and "aa_account_id p' = aa_account_id p"
  shows "aa_auth_tenant_id p' = aa_auth_tenant_id p \<and> aa_binding_version p' = aa_binding_version p"
proof -
  obtain b where b: "b \<in> set (at_bindings (aw_db w))" "bd_tenant b = aa_auth_tenant_id p"
      "bd_content b = aa_account_id p" "bd_version b = aa_binding_version p"
    using principal_binding [OF assms(3)] by blast
  obtain b1 where b1: "b1 \<in> set (at_bindings (aw_db w'))" "binding_grows b b1"
    using later_binding [OF assms(1,2) b(1)] by blast
  obtain c where c: "c \<in> set (at_bindings (aw_db w'))" "bd_tenant c = aa_auth_tenant_id p'"
      "bd_content c = aa_account_id p'" "bd_version c = aa_binding_version p'"
    using principal_binding [OF assms(4)] by blast
  have "auth_ok (aw_db w')" using later_reaches [OF assms(2,1)] by (rule reaches_auth_ok)
  from same_content [OF this b1(1) c(1)] b c binding_grows_key [OF b1(2)] assms(5) show ?thesis by simp
qed

text \<open>
  C7. A content account has one owner for good. Two bearers that validate for the same account, now
  or at any later time and whatever requests come between, are of the same login and the same
  version of its binding. When a login is found bound to another account than before, the
  version has grown, and the earlier account is never granted to anyone again.
\<close>
theorem account_has_one_owner:
  assumes "auth_reaches C w" and "auth_later C w w'"
    and "state_validate_token C am bearer (aw_db w) = Inr (Some p)"
    and "state_validate_token C am' bearer' (aw_db w') = Inr (Some p')"
  shows "(aa_account_id p' = aa_account_id p \<longrightarrow>
            aa_auth_tenant_id p' = aa_auth_tenant_id p \<and> aa_binding_version p' = aa_binding_version p)
    \<and> (aa_auth_tenant_id p' = aa_auth_tenant_id p \<and> aa_account_id p' \<noteq> aa_account_id p \<longrightarrow>
            aa_binding_version p < aa_binding_version p'
            \<and> (\<forall>w2 am2 bearer2 p2. auth_later C w' w2 \<and> state_validate_token C am2 bearer2 (aw_db w2) = Inr (Some p2)
                 \<longrightarrow> aa_account_id p2 \<noteq> aa_account_id p))"
proof -
  have ok: "auth_ok (aw_db w')" using later_reaches [OF assms(2,1)] by (rule reaches_auth_ok)
  obtain b where b: "b \<in> set (at_bindings (aw_db w))" "bd_tenant b = aa_auth_tenant_id p"
      "bd_content b = aa_account_id p" "bd_version b = aa_binding_version p"
    using principal_binding [OF assms(3)] by blast
  obtain b1 where b1: "b1 \<in> set (at_bindings (aw_db w'))" "binding_grows b b1"
    using later_binding [OF assms(1,2) b(1)] by blast
  obtain c where c: "c \<in> set (at_bindings (aw_db w'))" "live c" "bd_tenant c = aa_auth_tenant_id p'"
      "bd_content c = aa_account_id p'" "bd_version c = aa_binding_version p'"
    using principal_binding [OF assms(4)] by blast
  note k = binding_grows_key [OF b1(2)]
  have "aa_auth_tenant_id p' = aa_auth_tenant_id p \<and> aa_binding_version p' = aa_binding_version p"
    if "aa_account_id p' = aa_account_id p"
    by (rule one_owner [OF assms that])
  moreover have "aa_binding_version p < aa_binding_version p' \<and> (\<forall>w2 am2 bearer2 p2. auth_later C w' w2
      \<and> state_validate_token C am2 bearer2 (aw_db w2) = Inr (Some p2) \<longrightarrow> aa_account_id p2 \<noteq> aa_account_id p)"
    if other: "aa_auth_tenant_id p' = aa_auth_tenant_id p" "aa_account_id p' \<noteq> aa_account_id p"
  proof -
    have n: "\<not> live b1" "bd_version b1 < bd_version c"
      using live_newest [OF ok b1(1) c(1,2)] other b c k by auto
    have "aa_account_id p2 \<noteq> aa_account_id p"
      if w2: "auth_later C w' w2" and v: "state_validate_token C am2 bearer2 (aw_db w2) = Inr (Some p2)" for w2 am2 bearer2 p2
    proof
      assume e: "aa_account_id p2 = aa_account_id p"
      have r2: "auth_reaches C w'" using assms(1,2) by (blast intro: later_reaches)
      obtain b2 where b2: "b2 \<in> set (at_bindings (aw_db w2))" "binding_grows b1 b2"
        using later_binding [OF r2 w2 b1(1)] by blast
      obtain d where d: "d \<in> set (at_bindings (aw_db w2))" "live d" "bd_content d = aa_account_id p2"
        using principal_binding [OF v] by blast
      have "d = b2"
        using same_content [OF reaches_auth_ok [OF later_reaches [OF w2 r2]] d(1) b2(1)] binding_grows_key [OF b2(2)] k b d e
        by simp
      with d(2) retired_grows [OF b2(2) n(1)] show False by simp
    qed
    with n b c k show ?thesis by auto
  qed
  ultimately show ?thesis by blast
qed

lemma account_has_one_owner_witness:
  "\<exists>p p'. state_validate_token demo_config (demo_ambient (CHR ''x'')) demo_access (aw_db demo_world) = Inr (Some p)
   \<and> state_validate_token demo_config (demo_ambient (CHR ''y'')) demo_access (aw_db demo_challenged) = Inr (Some p')
   \<and> aa_account_id p' = ''t'' \<and> aa_auth_tenant_id p' = aa_auth_tenant_id p"
proof -
  let ?p = "\<lparr>aa_account_id = ''t'', aa_device_id = demo_device, aa_auth_tenant_id = ''t'', aa_binding_version = 0,
                  aa_token_id = ''a''\<rparr>"
  have v1: "state_validate_token demo_config (demo_ambient (CHR ''x'')) demo_access (aw_db demo_world) = Inr (Some ?p)"
    and v2: "state_validate_token demo_config (demo_ambient (CHR ''y'')) demo_access (aw_db demo_challenged) = Inr (Some ?p)"
    by (simp_all add: state_validate_token_def store_validate_token_def principal_of_def auth_res_def)
  have "auth_later demo_config demo_world demo_challenged"
    using demo_later_step [OF demo_now, of demo_world "CHR ''u''" "BindingStart demo_header demo_start"] by (simp add: demo_starts)
  from account_has_one_owner [OF demo_reaches this v1 v2] v1 v2 show ?thesis by auto
qed

section \<open>Refresh\<close>

lemma refreshD:
  assumes "token_refresh C am req db = Inr (pair, db')"
  shows "\<exists>v sig nonce. load_valid_token (au_env C) (am_now am 0) (rr_refresh_token req) Refresh db = Inr (Some v)
    \<and> vt_device v = rr_device_id req \<and> device_id_from_ed25519 (au_env C) (vt_pub v) = rr_device_id req
    \<and> verify_ed25519 (au_env C) (vt_pub v) (refresh_pop_message (vt_token_id v) nonce (rr_device_id req) (vt_pub v)) sig
    \<and> rotate_refresh (au_env C) (readings_from 1 am) (vt_token_id v) (vt_tenant v) (vt_device v) (vt_pub v)
         (tc_access_ttl_ms (au_tokens C)) (tc_refresh_ttl_ms (au_tokens C)) db = Inr (pair, db')"
proof -
  from assms obtain pub sig nonce r where
    l: "load_valid_token (au_env C) (am_now am 0) (rr_refresh_token req) Refresh db = Inr r"
    and d: "device_id_from_ed25519 (au_env C) pub = rr_device_id req"
    and rest: "(case r of None \<Rightarrow> Inl unauthorized
         | Some t \<Rightarrow>
             if vt_device t = rr_device_id req \<longrightarrow> vt_pub t \<noteq> pub then Inl unauthorized
             else if \<not> verify_ed25519 (au_env C) pub
                         (refresh_pop_message (vt_token_id t) nonce (rr_device_id req) pub) sig then Inl unauthorized
             else auth_res (rotate_refresh (au_env C) (readings_from 1 am) (vt_token_id t) (vt_tenant t) (vt_device t) pub
                         (tc_access_ttl_ms (au_tokens C)) (tc_refresh_ttl_ms (au_tokens C)) db)) = Inr (pair, db')"
    by (simp add: token_refresh_def result_iff split: if_splits) blast
  from rest obtain v where "r = Some v" by (cases r) auto
  with l d rest show ?thesis by (auto simp: result_iff split: if_splits)
qed

lemma insert_token_keeps:
  "insert_token_row now i tenant device pub hash kind expires db = Inr db' \<Longrightarrow> set (at_tokens db) \<subseteq> set (at_tokens db')"
  by (auto simp: insert_token_row_def split: if_splits)

lemma insert_pair_keeps:
  "insert_pair now tenant device pub a ae r re db = Inr (x, db') \<Longrightarrow> set (at_tokens db) \<subseteq> set (at_tokens db')"
  by (fastforce simp: insert_pair_def result_iff dest: insert_token_keeps)

lemma rotate_consumes:
  assumes "rotate_refresh E am presented tenant device pub attl rttl db = Inr (x, db')"
  shows "\<exists>t \<in> set (at_tokens db'). tr_id t = presented \<and> tr_revoked_at t \<noteq> None"
proof -
  let ?c = "consumable (am_now am 0) presented tenant device pub db"
  have one: "length (filter ?c (at_tokens db)) = 1"
    and i: "insert_pair (\<lambda>k. am_now am (k + 1)) tenant device pub (generate E am 0) (sat_add_i64 (am_now am 0) attl)
      (generate E am 1) (sat_add_i64 (am_now am 0) rttl) (snd (revoke_where (am_now am 0) ?c db)) = Inr (x, db')"
    using assms by (auto simp: rotate_refresh_def revoke_where_def Let_def split: if_splits)
  from one have "filter ?c (at_tokens db) \<noteq> []" by auto
  then obtain t where t: "t \<in> set (at_tokens db)" "?c t" by (auto simp: filter_empty_conv)
  then have "t\<lparr>tr_revoked_at := Some (am_now am 0)\<rparr> \<in> set (at_tokens (snd (revoke_where (am_now am 0) ?c db)))"
    by (auto simp: revoke_where_def)
  with insert_pair_keeps [OF i] t(2) show ?thesis by (intro bexI [of _ "t\<lparr>tr_revoked_at := Some (am_now am 0)\<rparr>"])
      (auto simp: consumable_def)
qed

lemma rotated_refused:
  assumes "token_refresh C am req db = Inr (pair, db')" and "parse_bearer (au_env C) (rr_refresh_token req) = Some (i, secret)"
  shows "\<exists>t \<in> set (at_tokens db'). tr_id t = i \<and> tr_revoked_at t \<noteq> None"
proof -
  from refreshD [OF assms(1)] obtain v where
    l: "load_valid_token (au_env C) (am_now am 0) (rr_refresh_token req) Refresh db = Inr (Some v)"
    and r: "rotate_refresh (au_env C) (readings_from 1 am) (vt_token_id v) (vt_tenant v) (vt_device v) (vt_pub v)
         (tc_access_ttl_ms (au_tokens C)) (tc_refresh_ttl_ms (au_tokens C)) db = Inr (pair, db')" by blast
  have "vt_token_id v = i"
    using load_valid_SomeD [OF l] assms(2) by (auto simp: row_valid_def validated_row_def)
  with rotate_consumes [OF r] show ?thesis by simp
qed

lemma refresh_unparsed: "parse_bearer (au_env C) (rr_refresh_token req) = None \<Longrightarrow> \<exists>e. token_refresh C am req db = Inl e"
  by (cases "token_refresh C am req db")
    (auto simp: token_refresh_def load_valid_token_def result_iff split: if_splits)

lemma refresh_invalid:
  assumes "\<And>now. load_valid_token (au_env C) now (rr_refresh_token req) Refresh db = Inr None"
  shows "\<exists>e. token_refresh C am req db = Inl e"
  by (cases "token_refresh C am req db") (auto simp: token_refresh_def assms result_iff auth_res_def split: if_splits)

lemma serve_refresh_Inr:
  "auth_serve C occupied am (TokenRefresh req) w = (Inr reply, w') \<longleftrightarrow>
     (\<exists>pair db'. token_refresh C am req (aw_db w) = Inr (pair, db') \<and> reply = Refreshed pair \<and> w' = w\<lparr>aw_db := db'\<rparr>)"
  by (auto simp: on_db_def split: sum.splits)

text \<open>
  C21. A refresh token is used once. A refresh that succeeds was made with a refresh token that is
  neither expired nor revoked, of the device that signed the request; from then on, whatever
  requests come between, a refresh with the same token is refused and leaves the state as it was.
\<close>
theorem refresh_token_is_single_use:
  assumes "auth_reaches C w"
    and "auth_serve C occupied am (TokenRefresh req) w = (Inr reply, w1)"
    and "auth_later C w1 w2" and "rr_refresh_token req2 = rr_refresh_token req"
  shows "(\<exists>t \<in> set (at_tokens (aw_db w)). row_valid (au_env C) (am_now am 0) (rr_refresh_token req) Refresh (aw_db w) t
            \<and> tr_device t = rr_device_id req
            \<and> (\<exists>nonce sig. verify_ed25519 (au_env C) (tr_pub t) (refresh_pop_message (tr_id t) nonce (tr_device t) (tr_pub t)) sig))
    \<and> (\<exists>e. auth_serve C occupied2 am2 (TokenRefresh req2) w2 = (Inl e, w2))"
proof -
  from assms(2) obtain pair db' where r: "token_refresh C am req (aw_db w) = Inr (pair, db')" and w1: "w1 = w\<lparr>aw_db := db'\<rparr>"
    by (auto simp: serve_refresh_Inr simp del: auth_serve.simps)
  have one: "\<exists>t \<in> set (at_tokens (aw_db w)). row_valid (au_env C) (am_now am 0) (rr_refresh_token req) Refresh (aw_db w) t
            \<and> tr_device t = rr_device_id req
            \<and> (\<exists>nonce sig. verify_ed25519 (au_env C) (tr_pub t) (refresh_pop_message (tr_id t) nonce (tr_device t) (tr_pub t)) sig)"
  proof -
    from refreshD [OF r] obtain v sig nonce where
      v: "load_valid_token (au_env C) (am_now am 0) (rr_refresh_token req) Refresh (aw_db w) = Inr (Some v)"
        "vt_device v = rr_device_id req"
        "verify_ed25519 (au_env C) (vt_pub v) (refresh_pop_message (vt_token_id v) nonce (rr_device_id req) (vt_pub v)) sig"
      by blast
    from load_valid_SomeD [OF v(1)] obtain t where "t \<in> set (at_tokens (aw_db w))"
      "row_valid (au_env C) (am_now am 0) (rr_refresh_token req) Refresh (aw_db w) t" "validated_row t v" by blast
    with v(2,3) show ?thesis by (intro bexI [of _ t]) (auto simp: validated_row_def)
  qed
  then obtain i secret where p: "parse_bearer (au_env C) (rr_refresh_token req) = Some (i, secret)"
    by (auto simp: row_valid_def)
  obtain t where t: "t \<in> set (at_tokens (aw_db w1))" "tr_id t = i" "tr_revoked_at t \<noteq> None"
    using rotated_refused [OF r p] by (auto simp: w1)
  have reach: "auth_reaches C w1"
    using auth_reaches.step [OF assms(1), of occupied am "TokenRefresh req"] assms(2) by simp
  have "load_valid_token (au_env C) now (rr_refresh_token req2) Refresh (aw_db w2) = Inr None" for now
    using revoked_stays [OF reach assms(3) t(1,3), of "au_env C" "rr_refresh_token req2" secret] p t(2) assms(4) by simp
  then obtain e where "token_refresh C am2 req2 (aw_db w2) = Inl e"
    using refresh_invalid by blast
  with one show ?thesis by (auto simp: on_db_def)
qed

lemma refresh_token_is_single_use_witness:
  "\<exists>e. auth_serve demo_config (\<lambda>_. False) (demo_ambient (CHR ''v'')) (TokenRefresh demo_refresh_request)
       (snd (demo_serve (CHR ''u'') (TokenRefresh demo_refresh_request) demo_world))
     = (Inl e, snd (demo_serve (CHR ''u'') (TokenRefresh demo_refresh_request) demo_world))"
proof -
  from refresh_token_is_single_use [OF demo_reaches demo_serve_Inr [OF demo_refreshes] demo_now refl] show ?thesis by blast
qed

section \<open>Revocation\<close>

lemma serve_revoke_Inr:
  "auth_serve C occupied am (TokenRevoke header device) w = (Inr reply, w') \<longleftrightarrow>
     (\<exists>n db'. token_revoke C am header device (aw_db w) = Inr (n, db') \<and> reply = Revoked n \<and> w' = w\<lparr>aw_db := db'\<rparr>)"
  by (auto simp: on_db_def split: sum.splits)

lemma revokeD:
  assumes "token_revoke C am header device db = Inr (n, db')"
  shows "\<exists>bearer caller. bearer_from_headers header = Inr bearer
    \<and> load_valid_token (au_env C) (am_now am 0) bearer Access db = Inr (Some caller)
    \<and> revoke_device (am_now am 1) (vt_tenant caller) device db = (n, db')"
  using assms by (auto simp: token_revoke_def result_iff access_principal_Inr)

lemma revoke_device_rows:
  assumes "revoke_device now tenant device db = (n, db')"
  shows "at_tokens db' = map (\<lambda>t. if tr_tenant t = tenant \<and> tr_device t = device \<and> tr_revoked_at t = None
      then t\<lparr>tr_revoked_at := Some now\<rparr> else t) (at_tokens db)" and "db'\<lparr>at_tokens := at_tokens db\<rparr> = db"
  using assms by (auto simp: revoke_device_def revoke_where_def)

lemma revoke_serve:
  assumes "auth_serve C occupied am (TokenRevoke header device) w = (Inr reply, w1)"
  shows "\<exists>bearer caller n. bearer_from_headers header = Inr bearer
    \<and> load_valid_token (au_env C) (am_now am 0) bearer Access (aw_db w) = Inr (Some caller)
    \<and> revoke_device (am_now am 1) (vt_tenant caller) device (aw_db w) = (n, aw_db w1) \<and> w1 = w\<lparr>aw_db := aw_db w1\<rparr>"
  using assms by (auto simp: serve_revoke_Inr simp del: auth_serve.simps dest!: revokeD)

lemma revoked_row:
  assumes "revoke_device now tenant device db = (n, db')" and "t \<in> set (at_tokens db)"
    and "tr_tenant t = tenant" and "tr_device t = device"
  shows "\<exists>t' \<in> set (at_tokens db'). tr_id t' = tr_id t \<and> tr_revoked_at t' \<noteq> None"
proof -
  let ?t = "if tr_revoked_at t = None then t\<lparr>tr_revoked_at := Some now\<rparr> else t"
  have "?t \<in> set (at_tokens db')" using assms(2-4) by (force simp: revoke_device_rows(1) [OF assms(1)])
  moreover have "tr_id ?t = tr_id t \<and> tr_revoked_at ?t \<noteq> None" by simp
  ultimately show ?thesis by blast
qed

text \<open>
  Revocation is final and touches nothing else. A device is revoked only by a caller with a
  valid access token, and only under the caller's own login. From then on no bearer whose token
  was there validates for it, for either kind and whatever requests come between; every row of
  another login or another device, and every other table, is as before.
\<close>
theorem revocation_is_final:
  assumes "auth_reaches C w"
    and "auth_serve C occupied am (TokenRevoke header device) w = (Inr reply, w1)"
    and "auth_later C w1 w2"
  shows "\<exists>bearer caller. bearer_from_headers header = Inr bearer
    \<and> load_valid_token (au_env C) (am_now am 0) bearer Access (aw_db w) = Inr (Some caller)
    \<and> (\<forall>t \<in> set (at_tokens (aw_db w)). \<forall>bearer2 secret now kind. tr_tenant t = vt_tenant caller \<and> tr_device t = device
         \<and> parse_bearer (au_env C) bearer2 = Some (tr_id t, secret)
         \<longrightarrow> load_valid_token (au_env C) now bearer2 kind (aw_db w2) = Inr None)
    \<and> filter (\<lambda>t. \<not> (tr_tenant t = vt_tenant caller \<and> tr_device t = device)) (at_tokens (aw_db w1))
        = filter (\<lambda>t. \<not> (tr_tenant t = vt_tenant caller \<and> tr_device t = device)) (at_tokens (aw_db w))
    \<and> w1\<lparr>aw_db := (aw_db w1)\<lparr>at_tokens := at_tokens (aw_db w)\<rparr>\<rparr> = w"
proof -
  from revoke_serve [OF assms(2)] obtain bearer caller n where
    c: "bearer_from_headers header = Inr bearer" "load_valid_token (au_env C) (am_now am 0) bearer Access (aw_db w) = Inr (Some caller)"
    and d: "revoke_device (am_now am 1) (vt_tenant caller) device (aw_db w) = (n, aw_db w1)" and w1: "w1 = w\<lparr>aw_db := aw_db w1\<rparr>"
    by blast
  note rows = revoke_device_rows [OF d]
  have reach: "auth_reaches C w1"
    using auth_reaches.step [OF assms(1), of occupied am "TokenRevoke header device"] assms(2) by simp
  have "load_valid_token (au_env C) now bearer2 kind (aw_db w2) = Inr None"
    if t: "t \<in> set (at_tokens (aw_db w))" "tr_tenant t = vt_tenant caller" "tr_device t = device"
      and p: "parse_bearer (au_env C) bearer2 = Some (tr_id t, secret)" for t bearer2 secret now kind
    using revoked_row [OF d t] revoked_stays [OF reach assms(3)] p by metis
  moreover have "filter (\<lambda>t. \<not> (tr_tenant t = vt_tenant caller \<and> tr_device t = device)) (at_tokens (aw_db w1))
        = filter (\<lambda>t. \<not> (tr_tenant t = vt_tenant caller \<and> tr_device t = device)) (at_tokens (aw_db w))"
    unfolding rows(1) by (rule filter_untouched) auto
  moreover have "w1\<lparr>aw_db := (aw_db w1)\<lparr>at_tokens := at_tokens (aw_db w)\<rparr>\<rparr> = w"
    using rows(2) w1 by (metis auth_world.surjective auth_world.update_convs(1))
  ultimately show ?thesis using c by blast
qed

lemma revocation_is_final_witness:
  "load_valid_token demo_auth_env 1 demo_access Access (aw_db demo_world) \<noteq> Inr None
   \<and> load_valid_token demo_auth_env 1 demo_access Access
       (aw_db (snd (demo_serve (CHR ''u'') (TokenRevoke demo_header demo_device) demo_world))) = Inr None"
proof -
  have t: "migrate_token (demo_legacy_token ''a'' Access) \<in> set (at_tokens (aw_db demo_world))"
    by (simp add: demo_auth_tables migrate_def demo_legacy_def)
  from revocation_is_final [OF demo_reaches demo_serve_Inr [OF demo_revokes] demo_now, of "CHR ''u''" demo_device]
  have "\<forall>t \<in> set (at_tokens (aw_db demo_world)). \<forall>bearer2 secret now kind. tr_tenant t = ''t'' \<and> tr_device t = demo_device
         \<and> parse_bearer demo_auth_env bearer2 = Some (tr_id t, secret)
         \<longrightarrow> load_valid_token demo_auth_env now bearer2 kind
               (aw_db (snd (demo_serve (CHR ''u'') (TokenRevoke demo_header demo_device) demo_world))) = Inr None"
    by auto
  from this [rule_format, OF t, of demo_access demo_secret] show ?thesis
    by (simp add: migrate_token_def demo_legacy_token_def)
qed

section \<open>Well-formed tables\<close>

text \<open>
  C36. The tables of the control plane stay well typed. From a migrated database of unique keys, after any
  requests, token ids are unique and every token's scope agrees with the authority it captured; a
  content account is bound at most once; a login with bindings has exactly one that is not
  retired, it has the greatest version, and versions are never negative; and handles and tenants
  correspond one to one.
\<close>
theorem auth_tables_stay_well_formed:
  assumes "auth_reaches C w" and "db = aw_db w"
  shows "distinct (map tr_id (at_tokens db)) \<and> (\<forall>t \<in> set (at_tokens db). scope_of t \<noteq> None)
    \<and> distinct (map bd_content (at_bindings db))
    \<and> (\<forall>b \<in> set (at_bindings db). 0 \<le> bd_version b
        \<and> (\<exists>!c. c \<in> set (at_bindings db) \<and> bd_tenant c = bd_tenant b \<and> bd_state c \<noteq> ''retired'')
        \<and> (\<forall>c \<in> set (at_bindings db). bd_tenant c = bd_tenant b \<and> bd_state c \<noteq> ''retired'' \<longrightarrow> bd_version b \<le> bd_version c))
    \<and> distinct (map am_handle (at_map db)) \<and> distinct (map am_tenant (at_map db))
    \<and> am_handle ` set (at_map db) = ac_handle ` set (at_accounts db)"
proof -
  have ok: "tokens_ok (at_tokens db)" "bindings_ok (at_bindings db)" "maps_ok (at_accounts db) (at_map db)"
    using reaches_auth_ok [OF assms(1)] by (simp_all add: auth_ok_def assms(2))
  have one: "b = c" if "b \<in> set (at_bindings db)" "c \<in> set (at_bindings db)" "live b" "live c" "bd_tenant b = bd_tenant c" for b c
    using ok(2) that unfolding bindings_ok_def by blast
  have "(\<exists>!c. c \<in> set (at_bindings db) \<and> bd_tenant c = bd_tenant b \<and> live c)
      \<and> (\<forall>c \<in> set (at_bindings db). bd_tenant c = bd_tenant b \<and> live c \<longrightarrow> bd_version b \<le> bd_version c)"
    if b: "b \<in> set (at_bindings db)" for b
  proof -
    obtain c where c: "c \<in> set (at_bindings db)" "live c" "bd_tenant c = bd_tenant b" "b = c \<or> bd_version b < bd_version c"
      using ok(2) b unfolding bindings_ok_def by blast
    have same: "x = c" if "x \<in> set (at_bindings db)" "live x" "bd_tenant x = bd_tenant b" for x
      using one [OF that(1) c(1) that(2) c(2)] that(3) c(3) by simp
    moreover have "bd_version b \<le> bd_version c" using c(4) by auto
    ultimately show ?thesis using c by blast
  qed
  then show ?thesis
    using ok by (simp add: tokens_ok_def scoped_def bindings_ok_def maps_ok_def live_def)
qed

lemma auth_tables_stay_well_formed_witness:
  "distinct (map tr_id (at_tokens (aw_db (snd (demo_serve (CHR ''u'') (TokenRefresh demo_refresh_request) demo_world)))))"
  using auth_tables_stay_well_formed [OF demo_reaches_step [OF demo_reaches] refl] by blast

end
