(* ===== verification/Server_Isolation.thy ===== *)
theory Server_Isolation
  imports Server_Routes
begin

text \<open>
  Tenants do not see each other. What a route answers and stores for an account depends on
  that account's rows alone, and it changes no other account's rows (\<open>tenant_op\<close>, proved
  operation by operation); in multi-tenant mode a route reaches the store only for the account
  of a live token.
\<close>

section \<open>The rows of an account\<close>

definition devices_of :: "string \<Rightarrow> server \<Rightarrow> device_row list" where
  "devices_of a s = filter (\<lambda>r. dr_account_id r = a) (sv_devices s)"

definition bundles_of :: "string \<Rightarrow> server \<Rightarrow> bundle_row list" where
  "bundles_of a s = filter (\<lambda>r. br_account_id r = a) (sv_bundles s)"

definition attestations_of :: "string \<Rightarrow> server \<Rightarrow> attestation_row list" where
  "attestations_of a s = filter (\<lambda>r. ar_account_id r = a) (sv_attestations s)"

definition recovery_of :: "string \<Rightarrow> server \<Rightarrow> recovery_row list" where
  "recovery_of a s = filter (\<lambda>r. rr_account_id r = a) (sv_recovery s)"

definition same_view :: "string \<Rightarrow> server \<Rightarrow> server \<Rightarrow> bool" where
  "same_view a s t \<longleftrightarrow> events_of a s = events_of a t \<and> blobs_of a s = blobs_of a t
     \<and> devices_of a s = devices_of a t \<and> bundles_of a s = bundles_of a t
     \<and> attestations_of a s = attestations_of a t \<and> recovery_of a s = recovery_of a t
     \<and> sv_quota s = sv_quota t"

lemma same_view_refl [simp]: "same_view a s s"
  by (simp add: same_view_def)

lemma same_view_trans: "same_view a s t \<Longrightarrow> same_view a t u \<Longrightarrow> same_view a s u"
  by (simp add: same_view_def)

text \<open>An operation of account \<open>a\<close>: its answer and the rows it leaves to \<open>a\<close> are a function of
  the rows of \<open>a\<close>, and every other account keeps its rows.\<close>

definition tenant_op :: "string \<Rightarrow> (server \<Rightarrow> 'r \<times> server) \<Rightarrow> bool" where
  "tenant_op a f \<longleftrightarrow>
     (\<forall>s t. same_view a s t \<longrightarrow> fst (f s) = fst (f t) \<and> same_view a (snd (f s)) (snd (f t)))
     \<and> (\<forall>s b. b \<noteq> a \<longrightarrow> same_view b s (snd (f s)))"

named_theorems tenant
  \<open>operations confined to the rows of one account\<close>

lemma tenant_const [tenant]: "tenant_op a (\<lambda>s. (r, s))" "tenant_op a (Pair r)"
  by (simp_all add: tenant_op_def)

lemma tenant_reply [tenant]: "tenant_op a f \<Longrightarrow> tenant_op a (\<lambda>s. reply_with g (f s))"
  by (simp add: tenant_op_def reply_with_def)

lemma tenant_store [tenant]: "tenant_op a f \<Longrightarrow> tenant_op a (with_account_store A a p f)"
  by (auto simp: tenant_op_def with_account_store_def split: sum.split prod.split) (metis fst_conv snd_conv)+

lemma tenant_authorized [tenant]: "tenant_op a f \<Longrightarrow> tenant_op a (when_authorized p t f)"
  by (auto simp: tenant_op_def when_authorized_def split: sum.split option.split)

lemma tenant_decoded [tenant]: "(\<And>b. tenant_op a (f b)) \<Longrightarrow> tenant_op a (with_decoded A b64 f)"
  by (auto simp: tenant_op_def with_decoded_def split: option.split)

lemma tenant_reading [tenant]: "(\<And>s t. same_view a s t \<Longrightarrow> f s = f t) \<Longrightarrow> tenant_op a (reading f)"
  by (simp add: tenant_op_def reading_def)

lemma tenant_writing [tenant]: "tenant_op a f \<Longrightarrow> tenant_op a (writing f)"
  by (auto simp: tenant_op_def writing_def split: prod.split) (metis fst_conv snd_conv)+

section \<open>Reads\<close>

lemma find_filter: "find (\<lambda>x. P x \<and> Q x) xs = find Q (filter P xs)"
  by (induction xs) auto

lemma find_filter_True: "find P xs = find (\<lambda>_. True) (filter P xs)"
  by (induction xs) auto

lemma list_ex_filter: "list_ex (\<lambda>x. P x \<and> Q x) xs \<longleftrightarrow> list_ex Q (filter P xs)"
  by (induction xs) auto

lemma read_view:
  "known_seq a i s = map_option ev_server_seq (find (\<lambda>r. ev_change_id r = i) (events_of a s))"
  "blob_present a h s = list_ex (\<lambda>r. bl_ct_hash r = h) (blobs_of a s)"
  "blob_get a h s = map_option bl_bytes (find (\<lambda>r. bl_ct_hash r = h) (blobs_of a s))"
  "device_record_get a d s = map_option dr_bytes (find (\<lambda>r. dr_device_id r = d) (devices_of a s))"
  "recovery_blob_get a s = map_option rr_bytes (find (\<lambda>r. True) (recovery_of a s))"
  using find_filter_True [of "\<lambda>r. rr_account_id r = a" "sv_recovery s"]
  by (simp_all add: known_seq_def blob_present_def blob_get_def device_record_get_def recovery_blob_get_def
      find_filter list_ex_filter events_of_def blobs_of_def devices_of_def recovery_of_def)

lemma reads_cong:
  assumes "same_view a s t"
  shows "known_seq a i s = known_seq a i t" "blob_present a h s = blob_present a h t"
    "blob_get a h s = blob_get a h t" "blob_probe a hs s = blob_probe a hs t"
    "device_record_get a d s = device_record_get a d t" "recovery_blob_get a s = recovery_blob_get a t"
    "account_usage a s = account_usage a t" "max_event_seq a s = max_event_seq a t"
    "high_water_of a s = high_water_of a t" "store_pull_page E a c n s = store_pull_page E a c n t"
    "device_records_list a s = device_records_list a t"
    "wrapped_bundles_list a d c n s = wrapped_bundles_list a d c n t"
    "attestations_list a c n s = attestations_list a c n t"
    "sv_quota s = sv_quota t"
proof -
  note v = assms [unfolded same_view_def]
  show "known_seq a i s = known_seq a i t" "blob_present a h s = blob_present a h t"
    "blob_get a h s = blob_get a h t" "device_record_get a d s = device_record_get a d t"
    "recovery_blob_get a s = recovery_blob_get a t" "sv_quota s = sv_quota t"
    "account_usage a s = account_usage a t" and m: "max_event_seq a s = max_event_seq a t"
    using v by (simp_all add: read_view account_usage_def max_event_seq_def)
  show "blob_probe a hs s = blob_probe a hs t" using v by (simp add: blob_probe_def read_view)
  show "high_water_of a s = high_water_of a t" using m by (simp add: high_water_of_def)
  then show "store_pull_page E a c n s = store_pull_page E a c n t"
    using v by (simp add: store_pull_page_def pull_events_def rows_after_def)
  show "device_records_list a s = device_records_list a t"
    using v by (simp add: device_records_list_def devices_of_def)
  have br: "filter (\<lambda>r. br_account_id r = a \<and> br_recipient r = d \<and> br_seq r > i64_of c) (sv_bundles u) =
      filter (\<lambda>r. br_recipient r = d \<and> br_seq r > i64_of c) (bundles_of a u)" for u
    by (auto simp: bundles_of_def intro: filter_cong)
  show "wrapped_bundles_list a d c n s = wrapped_bundles_list a d c n t"
    using v by (simp add: wrapped_bundles_list_def br)
  have ar: "filter (\<lambda>r. ar_account_id r = a \<and> ar_seq r > i64_of c) (sv_attestations u) =
      filter (\<lambda>r. ar_seq r > i64_of c) (attestations_of a u)" for u
    by (auto simp: attestations_of_def intro: filter_cong)
  show "attestations_list a c n s = attestations_list a c n t"
    using v by (simp add: attestations_list_def ar)
qed

section \<open>Writes\<close>

lemma view_add:
  "same_view b (note_account c s) t = same_view b s t" "same_view b s (note_account c t) = same_view b s t"
  by (simp_all add: same_view_def note_account_def events_of_def blobs_of_def devices_of_def bundles_of_def
      attestations_of_def recovery_of_def)

lemma tenant_blob_put [tenant]: "tenant_op a (blob_put E now a h bytes)"
proof -
  have "fst (blob_put E now a h bytes s) = fst (blob_put E now a h bytes t)
      \<and> same_view a (snd (blob_put E now a h bytes s)) (snd (blob_put E now a h bytes t))" if "same_view a s t" for s t
    using that unfolding blob_put_def Let_def reads_cong [OF that]
    by (auto simp: view_add split: sum.split) (auto simp: same_view_def events_of_def blobs_of_def devices_of_def
        bundles_of_def attestations_of_def recovery_of_def)
  moreover have "same_view b s (snd (blob_put E now a h bytes s))" if "b \<noteq> a" for s b
    using that by (auto simp: blob_put_def Let_def view_add split: sum.split)
      (auto simp: same_view_def events_of_def blobs_of_def devices_of_def bundles_of_def attestations_of_def recovery_of_def)
  ultimately show ?thesis unfolding tenant_op_def by blast
qed

lemma insert_event_view:
  assumes "ev_account_id r = a"
  shows "insert_event r s =
    (if list_ex (\<lambda>x. ev_server_seq x = ev_server_seq r \<or> ev_change_id x = ev_change_id r) (events_of a s) then Inl StoreDb
     else Inr (note_account a (s\<lparr>sv_events := sv_events s @ [r]\<rparr>)))"
  using assms by (simp add: insert_event_def list_ex_filter events_of_def)

lemma view_event:
  "same_view a s t \<Longrightarrow> same_view a (s\<lparr>sv_events := sv_events s @ [r]\<rparr>) (t\<lparr>sv_events := sv_events t @ [r]\<rparr>)"
  "ev_account_id r \<noteq> b \<Longrightarrow> same_view b s (t\<lparr>sv_events := sv_events t @ [r]\<rparr>) = same_view b s t"
  by (auto simp: same_view_def events_of_def blobs_of_def devices_of_def bundles_of_def attestations_of_def recovery_of_def)

text \<open>Two batches over stores that agree on the account.\<close>

definition batch_rel :: "string \<Rightarrow> batch \<Rightarrow> batch \<Rightarrow> bool" where
  "batch_rel a b c \<longleftrightarrow> ba_next b = ba_next c \<and> ba_bytes b = ba_bytes c \<and> ba_objects b = ba_objects c
     \<and> ba_results b = ba_results c \<and> same_view a (ba_store b) (ba_store c)"

fun same_res :: "('a \<Rightarrow> 'a \<Rightarrow> bool) \<Rightarrow> 'e + 'a \<Rightarrow> 'e + 'a \<Rightarrow> bool" where
  "same_res R (Inl e) (Inl e') = (e = e')"
| "same_res R (Inr x) (Inr y) = R x y"
| "same_res R _ _ = False"

lemma same_res_bind:
  "same_res R m n \<Longrightarrow> (\<And>x y. m = Inr x \<Longrightarrow> n = Inr y \<Longrightarrow> R x y \<Longrightarrow> same_res S (f x) (g y)) \<Longrightarrow>
   same_res S (bindR m f) (bindR n g)"
  by (cases m; cases n) auto

lemma push_one_rel:
  assumes "batch_rel a b c"
  shows "same_res (batch_rel a) (push_one E now a q ev b) (push_one E now a q ev c)"
proof -
  have v: "same_view a (ba_store b) (ba_store c)" using assms by (simp add: batch_rel_def)
  have m: "meter q ev b = meter q ev c" using assms by (simp add: meter_def batch_rel_def)
  have e: "events_of a (ba_store b) = events_of a (ba_store c)" using v by (simp add: same_view_def)
  have acc: "ev_account_id (row_of E now a n ev) = a" for n by (simp add: row_of_def)
  show ?thesis
    using assms v view_event(1) [OF v]
    by (auto simp: push_one_def reads_cong [OF v] m insert_event_view [OF acc] e batch_rel_def Let_def view_add
        split: option.split sum.split intro!: same_res_bind [where R = "(=)"]) (cases "meter q ev c"; auto)+
qed

lemma push_all_rel:
  "batch_rel a b c \<Longrightarrow> same_res (batch_rel a) (foldR (push_one E now a q) evs b) (foldR (push_one E now a q) evs c)"
proof (induction evs arbitrary: b c)
  case (Cons ev evs)
  show ?case using push_one_rel [OF Cons.prems] Cons.IH by (auto intro!: same_res_bind)
qed simp

lemma push_one_others:
  assumes "push_one E now a q ev b = Inr b'" and "c \<noteq> a"
  shows "same_view c (ba_store b) (ba_store b')"
proof -
  have acc: "ev_account_id (row_of E now a n ev) = a" for n by (simp add: row_of_def)
  show ?thesis
    using assms by (auto simp: push_one_def result_iff Let_def insert_event_def acc view_add view_event(2)
        split: option.splits if_splits)
qed

lemma push_all_others:
  "foldR (push_one E now a q) evs b = Inr b' \<Longrightarrow> c \<noteq> a \<Longrightarrow> same_view c (ba_store b) (ba_store b')"
  by (induction evs arbitrary: b) (auto simp: result_iff intro: same_view_trans push_one_others)

lemma tenant_push [tenant]: "tenant_op a (push_events E now a evs)"
proof -
  have "fst (push_events E now a evs s) = fst (push_events E now a evs t)
      \<and> same_view a (snd (push_events E now a evs s)) (snd (push_events E now a evs t))" if v: "same_view a s t" for s t
  proof -
    have q: "sv_quota s = sv_quota t" using v by (simp add: same_view_def)
    have "batch_rel a (start_batch a s) (start_batch a t)"
      using v by (simp add: batch_rel_def start_batch_def Let_def reads_cong [OF v])
    from push_all_rel [OF this, of E now "sv_quota t" evs] show ?thesis
      using v unfolding push_events_def q by (auto simp: batch_rel_def split: sum.split)
  qed
  moreover have "same_view b s (snd (push_events E now a evs s))" if "b \<noteq> a" for s b
    using push_all_others [OF _ that, of E now _ evs "start_batch a s"]
    by (auto simp: push_events_def start_batch_def Let_def split: sum.split)
  ultimately show ?thesis unfolding tenant_op_def by blast
qed

lemmas view_defs = same_view_def events_of_def blobs_of_def devices_of_def bundles_of_def attestations_of_def recovery_of_def

lemma filter_map_where:
  "(\<And>x. P (f x) = P x) \<Longrightarrow> filter P (map (\<lambda>x. if Q x then f x else x) xs)
     = map (\<lambda>x. if Q x then f x else x) (filter P xs)"
  by (induction xs) auto

lemma map_where_others:
  "(\<And>x. P (f x) = P x) \<Longrightarrow> (\<And>x. P x \<Longrightarrow> \<not> Q x) \<Longrightarrow> filter P (map (\<lambda>x. if Q x then f x else x) xs) = filter P xs"
  by (induction xs) auto

lemma tenant_device_put [tenant]: "tenant_op a (\<lambda>s. ((), device_record_put now a d bytes s))"
proof -
  have known: "list_ex (\<lambda>r. dr_account_id r = a \<and> dr_device_id r = d) (sv_devices s)
      = list_ex (\<lambda>r. dr_device_id r = d) (devices_of a s)" for s
    by (simp add: list_ex_filter devices_of_def)
  have "same_view a (device_record_put now a d bytes s) (device_record_put now a d bytes t)" if "same_view a s t" for s t
    using that unfolding device_record_put_def known by (auto simp: view_add) (auto simp: view_defs filter_map_where)
  moreover have "same_view b s (device_record_put now a d bytes s)" if "b \<noteq> a" for s b
    using that by (auto simp: device_record_put_def view_add) (auto simp: view_defs intro!: map_where_others [symmetric])
  ultimately show ?thesis by (simp add: tenant_op_def)
qed

lemma tenant_recovery_put [tenant]: "tenant_op a (\<lambda>s. ((), recovery_blob_put now a bytes s))"
proof -
  have known: "list_ex (\<lambda>r. rr_account_id r = a) (sv_recovery s) \<longleftrightarrow> recovery_of a s \<noteq> []" for s
    by (auto simp: list_ex_iff recovery_of_def filter_empty_conv)
  have "same_view a (recovery_blob_put now a bytes s) (recovery_blob_put now a bytes t)" if "same_view a s t" for s t
    using that unfolding recovery_blob_put_def known by (auto simp: view_add) (auto simp: view_defs filter_map_where)
  moreover have "same_view b s (recovery_blob_put now a bytes s)" if "b \<noteq> a" for s b
    using that by (auto simp: recovery_blob_put_def view_add) (auto simp: view_defs intro!: map_where_others [symmetric])
  ultimately show ?thesis by (simp add: tenant_op_def)
qed

lemma tenant_wrap_put [tenant]: "tenant_op a (wrapped_bundle_put E now a d bytes)"
proof -
  have mine: "filter (\<lambda>r. br_account_id r = a \<and> br_recipient r = d) (sv_bundles s)
      = filter (\<lambda>r. br_recipient r = d) (bundles_of a s)" for s
    by (simp add: bundles_of_def conj_commute)
  have "fst (wrapped_bundle_put E now a d bytes s) = fst (wrapped_bundle_put E now a d bytes t)
      \<and> same_view a (snd (wrapped_bundle_put E now a d bytes s)) (snd (wrapped_bundle_put E now a d bytes t))"
    if v: "same_view a s t" for s t
  proof -
    have b: "bundles_of a s = bundles_of a t" using v by (simp add: same_view_def)
    show ?thesis using v unfolding wrapped_bundle_put_def mine b
      by (auto simp: Let_def view_add split: option.split) (auto simp: view_defs)
  qed
  moreover have "same_view b s (snd (wrapped_bundle_put E now a d bytes s))" if "b \<noteq> a" for s b
    using that by (auto simp: wrapped_bundle_put_def Let_def view_add split: option.split) (auto simp: view_defs)
  ultimately show ?thesis unfolding tenant_op_def by blast
qed

lemma tenant_attestation [tenant]: "tenant_op a (attestation_append E now a bytes)"
proof -
  have "fst (attestation_append E now a bytes s) = fst (attestation_append E now a bytes t)
      \<and> same_view a (snd (attestation_append E now a bytes s)) (snd (attestation_append E now a bytes t))"
    if v: "same_view a s t" for s t
  proof -
    have b: "filter (\<lambda>r. ar_account_id r = a) (sv_attestations s) = filter (\<lambda>r. ar_account_id r = a) (sv_attestations t)"
      using v by (simp add: same_view_def attestations_of_def)
    show ?thesis using v unfolding attestation_append_def b
      by (auto simp: Let_def view_add split: option.split) (auto simp: view_defs)
  qed
  moreover have "same_view b s (snd (attestation_append E now a bytes s))" if "b \<noteq> a" for s b
    using that by (auto simp: attestation_append_def Let_def view_add split: option.split) (auto simp: view_defs)
  ultimately show ?thesis unfolding tenant_op_def by blast
qed

section \<open>Routes\<close>

text \<open>The account a call is about.\<close>

fun call_account :: "call \<Rightarrow> string option" where
  "call_account (EventsPush req) = Some (pq_account_id req)"
| "call_account (EventsPull a _ _) = Some a"
| "call_account (BlobsProbe req) = Some (bq_account_id req)"
| "call_account c = path_account c"

lemma call_account_Health [simp]: "call_account c = None \<longleftrightarrow> c = Health"
  by (cases c) auto

lemma tenant_events_push [tenant]: "tenant_op (pq_account_id req) (events_push A now p req)"
  unfolding events_push_def
  by (intro tenant) (cases "map_res (record_of_input A (pq_account_id req)) (pq_events req)"; simp; intro tenant)

lemma serve_call_route:
  "serve_call A now p (EventsPush req) = events_push A now p req"
  "serve_call A now p (EventsPull a after limit) = events_pull A p a after limit"
  "serve_call A now p (BlobsProbe preq) = blobs_probe A p preq"
  "serve_call A now p (BlobPut a h b) = blobs_put A now p a h b"
  "serve_call A now p (BlobGet a h) = blobs_get A p a h"
  "serve_call A now p (DevicesList a) = devices_list A p a"
  "serve_call A now p (DevicePut a d b) = device_put A now p a d b"
  "serve_call A now p (DeviceGet a d) = device_get A p a d"
  "serve_call A now p (WrapPut a d b) = wrap_put A now p a d b"
  "serve_call A now p (WrapsList a d after limit) = wraps_list A p a d after limit"
  "serve_call A now p (AttestationAppend a b) = attestation_put A now p a b"
  "serve_call A now p (AttestationsList a after limit) = attestations_get A p a after limit"
  "serve_call A now p (RecoveryPut a b) = recovery_put A now p a b"
  "serve_call A now p (RecoveryGet a) = recovery_get A p a"
  "serve_call A now p (UsageGet a) = usage_get A p a"
  by (simp_all add: fun_eq_iff)

lemmas route_defs = events_pull_def blobs_probe_def blobs_put_def [abs_def] blobs_get_def [abs_def]
  devices_list_def [abs_def] device_put_def [abs_def] device_get_def [abs_def] wrap_put_def [abs_def]
  wraps_list_def [abs_def] attestation_put_def [abs_def] attestations_get_def [abs_def]
  recovery_put_def [abs_def] recovery_get_def [abs_def] usage_get_def [abs_def]

lemma tenant_serve_call: "call_account c = Some a \<Longrightarrow> tenant_op a (serve_call A now p c)"
  by (cases c; simp only: serve_call_route call_account.simps path_account.simps option.inject option.distinct;
      hypsubst?; (unfold route_defs)?; (intro tenant)?; (simp add: reads_cong)?)

lemma tenant_serve: "call_account c = Some a \<Longrightarrow> tenant_op a (serve A now header c)"
  unfolding serve_def [abs_def] require_account_auth_def
  using tenant_serve_call [of c a A now] tenant_const(1)
  by (cases "c = Health") (auto simp: tenant_op_def split: option.split sum.split)

text \<open>
  C4. One tenant never learns of another. Whatever the request and the mode, the answer to a call
  about account \<open>a\<close> and the rows it leaves to \<open>a\<close> are the same on any two stores that agree on
  the rows of \<open>a\<close> and the quota, and the rows of every other account stay as they were.
\<close>
theorem tenants_are_isolated:
  assumes "call_account c = Some a" and "same_view a s t"
    and "serve A now header c s = (r, s')" and "serve A now header c t = (r2, t')"
  shows "r = r2 \<and> same_view a s' t' \<and> (\<forall>b. b \<noteq> a \<longrightarrow> same_view b s s')"
  using tenant_serve [OF assms(1), of A now header] assms(2-)
  unfolding tenant_op_def by (metis fst_conv snd_conv)

section \<open>Admission\<close>

text \<open>A step that, unless the principal was admitted for the account, refuses and leaves the store
  alone.\<close>

definition guarded :: "app_state \<Rightarrow> string \<Rightarrow> auth_account option \<Rightarrow> (server \<Rightarrow> (api_error + 'r) \<times> server) \<Rightarrow> bool" where
  "guarded A a p f \<longleftrightarrow> admit A a p = Inr () \<or> (\<forall>s. \<exists>e. f s = (Inl e, s))"

named_theorems guards
  \<open>steps behind the admission check\<close>

lemma guarded_store [guards]: "guarded A a p (with_account_store A a p f)"
  by (cases "admit A a p") (auto simp: guarded_def with_account_store_def)

lemma guarded_reply [guards]: "guarded A a p f \<Longrightarrow> guarded A a p (\<lambda>s. reply_with g (f s))"
  unfolding guarded_def reply_with_def by (metis bindR_simps(1) fst_conv snd_conv)

lemma guarded_error [guards]: "guarded A a p (\<lambda>s. (Inl e, s))"
  by (simp add: guarded_def)

lemma guarded_authorized [guards]: "guarded A a p f \<Longrightarrow> guarded A a p (when_authorized q t f)"
  by (auto simp: guarded_def when_authorized_def split: option.split sum.split)

lemma guarded_decoded [guards]: "(\<And>b. guarded A a p (f b)) \<Longrightarrow> guarded A a p (with_decoded A b64 f)"
  by (auto simp: guarded_def with_decoded_def split: option.split)

lemma guarded_events_push [guards]: "guarded A (pq_account_id req) p (events_push A now p req)"
  unfolding events_push_def
  by (intro guards) (cases "map_res (record_of_input A (pq_account_id req)) (pq_events req)"; simp; intro guards)

lemma guarded_serve_call: "call_account c = Some a \<Longrightarrow> guarded A a p (serve_call A now p c)"
  by (cases c; simp only: serve_call_route call_account.simps path_account.simps option.inject option.distinct;
      hypsubst?; (unfold route_defs)?; (intro guards)?)

lemma content_principal:
  assumes "ap_auth A = Some auth" and "serve A now header c s = (r, s')" and "c \<noteq> Health"
    and "(\<exists>reply. r = Inr reply) \<or> s' \<noteq> s"
  shows "\<exists>bearer p. bearer_from_header header = Some bearer \<and> validate_token auth bearer = Inr (Some p)
    \<and> call_account c = Some (aa_account_id p) \<and> principal_is_current auth p = Inr True"
proof -
  from assms obtain bearer p where b: "bearer_from_header header = Some bearer"
    and p: "validate_token auth bearer = Inr (Some p)" and run: "serve_call A now (Some p) c s = (r, s')"
    by (auto simp: serve_def require_account_auth_def split: option.splits sum.splits)
  obtain a where a: "call_account c = Some a" using assms(3) by (cases "call_account c") auto
  have "admit A a (Some p) = Inr ()"
  proof (rule ccontr)
    assume "admit A a (Some p) \<noteq> Inr ()"
    then obtain e where "serve_call A now (Some p) c s = (Inl e, s)"
      using guarded_serve_call [OF a, of A "Some p" now] unfolding guarded_def by blast
    with run assms(4) show False by auto
  qed
  from admit_multitenant [OF assms(1) this] a b p show ?thesis by auto
qed

text \<open>
  C9. In multi-tenant mode content is reached only with a live token of its account: a request
  other than the health check that is answered normally or changes the store carries a
  bearer that validates to a principal of exactly the account the call names, and that
  principal is still current when the store is entered.
\<close>
theorem content_needs_live_token:
  assumes "ap_auth A = Some auth" and "serve A now header c s = (r, s')" and "c \<noteq> Health"
    and "(\<exists>reply. r = Inr reply) \<or> s' \<noteq> s"
  shows "\<exists>bearer p. bearer_from_header header = Some bearer \<and> validate_token auth bearer = Inr (Some p)
    \<and> call_account c = Some (aa_account_id p) \<and> principal_is_current auth p = Inr True"
  by (rule content_principal [OF assms])

section \<open>Instances\<close>

lemma demo_bearer: "bearer_from_header (Some ''bearer  secret '') = Some ''secret''"
  by code_simp

theorem tenants_are_isolated_witness:
  "let s = server_empty unlimited; t = recovery_blob_put 0 ''other'' ''theirs'' s;
       c = RecoveryPut ''acct'' ''mine''; f = serve (demo_app (Some demo_auth)) 5 (Some ''bearer  secret '') c
   in fst (f s) = Inr Created \<and> fst (f t) = Inr Created \<and> recovery_of ''other'' (snd (f t)) = recovery_of ''other'' t"
proof -
  let ?s = "server_empty unlimited" and ?c = "RecoveryPut ''acct'' ''mine''"
  let ?t = "recovery_blob_put 0 ''other'' ''theirs'' ?s"
  let ?f = "serve (demo_app (Some demo_auth)) 5 (Some ''bearer  secret '') ?c"
  have c: "call_account ?c = Some ''acct''" by simp
  have v: "same_view ''acct'' ?t ?s"
    by (simp add: recovery_blob_put_def server_empty_def note_account_def view_defs)
  have s: "fst (?f ?s) = Inr Created"
    by (simp add: serve_def require_account_auth_def demo_app_def demo_bearer demo_auth_def demo_principal_def
        authorize_account_def recovery_put_def with_decoded_def reply_with_def with_account_store_def writing_def admit_def)
  obtain r2 t' where t: "?f ?t = (r2, t')" by (meson surj_pair)
  obtain r s' where s': "?f ?s = (r, s')" by (meson surj_pair)
  from tenants_are_isolated [OF c v t s'] s s' t show ?thesis by (simp add: same_view_def)
qed

theorem content_needs_live_token_witness:
  "fst (serve (demo_app (Some demo_auth)) 5 (Some ''bearer  secret '') (RecoveryPut ''acct'' ''mine'') (server_empty unlimited))
      = Inr Created
    \<and> (\<exists>p. validate_token demo_auth ''secret'' = Inr (Some p) \<and> aa_account_id p = ''acct'')"
proof -
  let ?c = "RecoveryPut ''acct'' ''mine''"
  obtain s' where s: "serve (demo_app (Some demo_auth)) 5 (Some ''bearer  secret '') ?c (server_empty unlimited) = (Inr Created, s')"
    by (simp add: serve_def require_account_auth_def demo_app_def demo_bearer demo_auth_def demo_principal_def
        authorize_account_def recovery_put_def with_decoded_def reply_with_def with_account_store_def writing_def admit_def)
  have a: "ap_auth (demo_app (Some demo_auth)) = Some demo_auth" by (simp add: demo_app_def)
  from content_needs_live_token [OF a s] s show ?thesis by (auto simp: demo_bearer)
qed

end
