(* ===== verification/Content_Authority.thy ===== *)
theory Content_Authority
  imports Auth_Lifecycle Server_Isolation
begin

text \<open>
  The content routes over the auth control plane. The middleware validates the bearer against
  the auth database of one moment, and the store is entered at another, later one, when the
  principal is checked again; requests of the control plane may come between the two.
\<close>

text \<open>The check of \<open>routes\<close> (\<open>validate_token\<close>) at \<open>w\<close>, the one of \<open>with_account_store\<close> at \<open>we\<close>.\<close>

definition authority_between :: "'l auth_config \<Rightarrow> ambient \<Rightarrow> 'l auth_world \<Rightarrow> int \<Rightarrow> 'l auth_world \<Rightarrow> auth_state" where
  "authority_between C am w now we =
     \<lparr>validate_token = (\<lambda>bearer. state_validate_token C am bearer (aw_db w)),
      principal_is_current = (\<lambda>p. Inr (store_principal_is_current now p (aw_db we)))\<rparr>"

definition with_authority :: "app_state \<Rightarrow> auth_state \<Rightarrow> app_state" where
  "with_authority A auth = A\<lparr>ap_auth := Some auth\<rparr>"

lemma reached_content:
  assumes "serve (with_authority A (authority_between C am w now we)) t header c s = (r, s')" and "c \<noteq> Health"
    and "(\<exists>reply. r = Inr reply) \<or> s' \<noteq> s"
  shows "\<exists>bearer p. bearer_from_header header = Some bearer \<and> state_validate_token C am bearer (aw_db w) = Inr (Some p)
    \<and> call_account c = Some (aa_account_id p) \<and> store_principal_is_current now p (aw_db we)"
  using content_principal [OF _ assms, of "authority_between C am w now we"]
  by (auto simp: with_authority_def authority_between_def)

lemma current_binding:
  assumes "store_principal_is_current now p db"
  shows "\<exists>b \<in> set (at_bindings db). live b \<and> bd_tenant b = aa_auth_tenant_id p \<and> bd_content b = aa_account_id p
    \<and> bd_version b = aa_binding_version p"
    and "\<exists>t \<in> set (at_tokens db). tr_id t = aa_token_id p \<and> tr_revoked_at t = None \<and> now < tr_expires_at t"
  using assms by (auto simp: store_principal_is_current_def list_ex_iff live_def)

text \<open>
  C5. Content of one account is reached under one login. Take two content requests, each
  validated at some moment and entering the store at a later one, with any requests of the control
  plane between and around. If both are answered normally or change the store and name the same
  account, they are of the same login and the same version of its binding; and when the second
  one entered, that login was still bound to the account.
\<close>
theorem account_is_reached_under_one_login:
  assumes "auth_reaches C w" and "auth_later C w w2"
    and "serve (with_authority A (authority_between C am w now we)) t header c s = (r, s')" and "c \<noteq> Health"
    and "(\<exists>reply. r = Inr reply) \<or> s' \<noteq> s"
    and "serve (with_authority A2 (authority_between C am2 w2 now2 we2)) t2 header2 c2 s2 = (r2, s2')"
    and "call_account c2 = call_account c" and "(\<exists>reply. r2 = Inr reply) \<or> s2' \<noteq> s2"
  shows "\<exists>bearer p bearer2 p2.
      bearer_from_header header = Some bearer \<and> state_validate_token C am bearer (aw_db w) = Inr (Some p)
    \<and> bearer_from_header header2 = Some bearer2 \<and> state_validate_token C am2 bearer2 (aw_db w2) = Inr (Some p2)
    \<and> aa_auth_tenant_id p2 = aa_auth_tenant_id p \<and> aa_binding_version p2 = aa_binding_version p
    \<and> (\<exists>b \<in> set (at_bindings (aw_db we2)). live b \<and> bd_tenant b = aa_auth_tenant_id p \<and> call_account c = Some (bd_content b))"
proof -
  from reached_content [OF assms(3-5)] obtain bearer p where
    p: "bearer_from_header header = Some bearer" "state_validate_token C am bearer (aw_db w) = Inr (Some p)"
      "call_account c = Some (aa_account_id p)" by blast
  then have "c2 \<noteq> Health" using assms(7) by auto
  from reached_content [OF assms(6) this assms(8)] obtain bearer2 p2 where
    p2: "bearer_from_header header2 = Some bearer2" "state_validate_token C am2 bearer2 (aw_db w2) = Inr (Some p2)"
      "call_account c2 = Some (aa_account_id p2)" and cur: "store_principal_is_current now2 p2 (aw_db we2)" by blast
  have same: "aa_account_id p2 = aa_account_id p" using p(3) p2(3) assms(7) by simp
  have "aa_auth_tenant_id p2 = aa_auth_tenant_id p \<and> aa_binding_version p2 = aa_binding_version p"
    by (rule one_owner [OF assms(1,2) p(2) p2(2) same])
  with p p2 same current_binding(1) [OF cur] show ?thesis by auto
qed

text \<open>
  C6. A revoked device is shut out at once. After a device was revoked, every content request
  with a bearer of a token it had is refused and leaves the store alone when it enters, even when
  the bearer was validated before the revocation, and whatever requests come between.
\<close>
theorem revoked_device_is_shut_out:
  assumes "auth_reaches C w"
    and "auth_serve C occupied am (TokenRevoke header device) w = (Inr reply, w1)"
    and "bearer_from_headers header = Inr bearer"
    and "load_valid_token (au_env C) (am_now am 0) bearer Access (aw_db w) = Inr (Some caller)"
    and "t \<in> set (at_tokens (aw_db w))" and "tr_tenant t = vt_tenant caller" and "tr_device t = device"
    and "parse_bearer (au_env C) bearer2 = Some (tr_id t, secret)"
    and "auth_later C w1 w2" and "bearer_from_header header2 = Some bearer2" and "c \<noteq> Health"
  shows "\<exists>e. serve (with_authority A (authority_between C am2 wv now w2)) clock header2 c s = (Inl e, s)"
proof (rule ccontr)
  assume n: "\<not> ?thesis"
  obtain r s' where r: "serve (with_authority A (authority_between C am2 wv now w2)) clock header2 c s = (r, s')"
    by (meson surj_pair)
  from n r have "(\<exists>reply. r = Inr reply) \<or> s' \<noteq> s" by (cases r) auto
  from reached_content [OF r assms(11) this] assms(10) obtain p where
    v: "state_validate_token C am2 bearer2 (aw_db wv) = Inr (Some p)" and cur: "store_principal_is_current now p (aw_db w2)"
    by auto
  have i: "aa_token_id p = tr_id t" using validated_principal [OF v] assms(8) by (auto simp: row_valid_def)
  from revoke_serve [OF assms(2)] assms(3,4) obtain k where
    d: "revoke_device (am_now am 1) (vt_tenant caller) device (aw_db w) = (k, aw_db w1)" by auto
  from revoked_row [OF d assms(5-7)] obtain t1 where
    t1: "t1 \<in> set (at_tokens (aw_db w1))" "tr_id t1 = tr_id t" "tr_revoked_at t1 \<noteq> None" by blast
  have reach: "auth_reaches C w1"
    using auth_reaches.step [OF assms(1), of occupied am "TokenRevoke header device"] assms(2) by simp
  obtain t2 where t2: "find (\<lambda>x. tr_id x = tr_id t1) (at_tokens (aw_db w2)) = Some t2" "token_grows t1 t2"
    using later_token [OF reach assms(9) t1(1)] by blast
  obtain t3 where t3: "t3 \<in> set (at_tokens (aw_db w2))" "tr_id t3 = tr_id t1" "tr_revoked_at t3 = None"
    using current_binding(2) [OF cur] i t1(2) by auto
  have "find (\<lambda>x. tr_id x = tr_id t3) (at_tokens (aw_db w2)) = Some t3"
    using find_token [OF reaches_auth_ok [OF later_reaches [OF assms(9) reach]] t3(1)] .
  with t2 t3 t1 show False by (auto simp: token_grows_def)
qed

section \<open>Instances\<close>

definition demo_token_principal :: auth_account where
  "demo_token_principal = \<lparr>aa_account_id = ''t'', aa_device_id = demo_device, aa_auth_tenant_id = ''t'',
     aa_binding_version = 0, aa_token_id = ''a''\<rparr>"

lemma demo_content_bearer [simp]: "bearer_from_header demo_header = Some demo_access"
  by code_simp

lemma demo_validates [simp]:
  "state_validate_token demo_config (demo_ambient x) demo_access (aw_db demo_world) = Inr (Some demo_token_principal)"
  by (simp add: state_validate_token_def store_validate_token_def principal_of_def auth_res_def demo_token_principal_def)

lemma demo_current [simp]: "store_principal_is_current 1 demo_token_principal (aw_db demo_world)"
  by (simp add: store_principal_is_current_def demo_token_principal_def demo_auth_tables demo_rows)

lemma demo_content_served:
  "\<exists>s'. serve (with_authority (demo_app None) (authority_between demo_config (demo_ambient x) demo_world 1 demo_world)) 5
     demo_header (RecoveryPut ''t'' ''mine'') s = (Inr Created, s')"
proof -
  have a: "aa_account_id demo_token_principal = ''t''" "aa_auth_tenant_id demo_token_principal = ''t''"
    by (simp_all add: demo_token_principal_def)
  show ?thesis
    by (simp add: serve_def require_account_auth_def with_authority_def authority_between_def demo_app_def a
        authorize_account_def recovery_put_def with_decoded_def reply_with_def with_account_store_def writing_def admit_def)
qed

theorem account_is_reached_under_one_login_witness:
  "\<exists>b \<in> set (at_bindings (aw_db demo_world)). live b \<and> bd_tenant b = ''t'' \<and> bd_content b = ''t''"
proof -
  obtain s' where r: "serve (with_authority (demo_app None) (authority_between demo_config (demo_ambient (CHR ''x'')) demo_world 1
     demo_world)) 5 demo_header (RecoveryPut ''t'' ''mine'') (server_empty unlimited) = (Inr Created, s')"
    using demo_content_served by blast
  from account_is_reached_under_one_login [OF demo_reaches demo_now r _ _ r] show ?thesis
    by (auto simp: demo_token_principal_def)
qed

theorem revoked_device_is_shut_out_witness:
  "(\<exists>s'. serve (with_authority (demo_app None) (authority_between demo_config (demo_ambient (CHR ''x'')) demo_world 1 demo_world)) 5
      demo_header (RecoveryPut ''t'' ''mine'') (server_empty unlimited) = (Inr Created, s'))
   \<and> (\<exists>e. serve (with_authority (demo_app None) (authority_between demo_config (demo_ambient (CHR ''x'')) demo_world 1
          (snd (demo_serve (CHR ''u'') (TokenRevoke demo_header demo_device) demo_world)))) 5
      demo_header (RecoveryPut ''t'' ''mine'') (server_empty unlimited) = (Inl e, server_empty unlimited))"
proof -
  let ?caller = "\<lparr>vt_token_id = ''a'', vt_tenant = ''t'', vt_device = demo_device, vt_pub = demo_pub, vt_content = Some ''t'',
      vt_version = 0, vt_scope = Content\<rparr>"
  let ?t = "migrate_token (demo_legacy_token ''a'' Access)"
  have l: "load_valid_token (au_env demo_config) (am_now (demo_ambient (CHR ''u'')) 0) demo_access Access (aw_db demo_world)
      = Inr (Some ?caller)" by simp
  have t: "?t \<in> set (at_tokens (aw_db demo_world))" by (simp add: demo_auth_tables migrate_def demo_legacy_def)
  have f: "tr_tenant ?t = vt_tenant ?caller" "tr_device ?t = demo_device"
    and p: "parse_bearer (au_env demo_config) demo_access = Some (tr_id ?t, demo_secret)"
    by (simp_all add: migrate_token_def demo_legacy_token_def)
  from revoked_device_is_shut_out [OF demo_reaches demo_serve_Inr [OF demo_revokes] demo_header_bearer(1) l t f p demo_now
      demo_content_bearer] demo_content_served show ?thesis by simp
qed

end
