(* ===== verification/Auth_Allocation.thy ===== *)
theory Auth_Allocation
  imports Auth_Demo
begin

text \<open>
  What the transaction that allocates a namespace does to the auth database, and what the token
  pair a login or a rotation issues is good for.
\<close>

section \<open>Allocation\<close>

lemma proof_holdsD:
  assumes "proof_holds E now who req c sig = Inr u"
  shows "bc_challenge_id c = bf_challenge_id req \<and> now < bc_expires_at_ms c \<and> bc_tenant c = vt_tenant who
    \<and> bc_device_id c = vt_device who \<and> bc_binding_version c = vt_version who
    \<and> (\<exists>bytes. signing_bytes E c = Inr bytes \<and> verify_ed25519 E (vt_pub who) bytes sig)"
  using assms by (auto simp: proof_holds_def result_iff split: if_splits)

lemma barrierD:
  assumes "finish_under_barrier E am occupied credential req db = Inr (b, db')" and "db' \<noteq> db"
  shows "\<exists>who raw c sig. access_principal E (am_now am 1) credential db = Inr who
    \<and> find_challenge (vt_tenant who) (bf_operation_id req) db = Some raw \<and> ae_challenge_parse E raw = Some c
    \<and> proof_holds E (am_now am 2) who req c sig = Inr ()
    \<and> bc_content_account_id c \<notin> bd_content ` set (at_bindings db) \<and> \<not> occupied (bc_content_account_id c)
    \<and> (\<forall>old. binding_for (vt_tenant who) db = Some old \<longrightarrow> \<not> immutable occupied old)
    \<and> allocate am who req (bc_content_account_id c) db = Inr (b, db')"
proof -
  obtain who where w: "access_principal E (am_now am 1) credential db = Inr who"
    using assms(1) by (auto simp: finish_under_barrier_def result_iff)
  let ?cur = "binding_for (vt_tenant who) db"
  have n: "\<not> (\<exists>x. ?cur = Some x \<and> cn_operation x = Some (bf_operation_id req))"
    using assms by (auto simp: finish_under_barrier_def w [simplified] Let_def)
  then obtain raw c sig where c: "find_challenge (vt_tenant who) (bf_operation_id req) db = Some raw"
      "ae_challenge_parse E raw = Some c" "proof_holds E (am_now am 2) who req c sig = Inr ()"
    and rest: "(case ?cur of
         None \<Rightarrow> if list_ex (\<lambda>b. bd_content b = bc_content_account_id c) (at_bindings db) \<or> occupied (bc_content_account_id c)
                 then Inl (coded_conflict ''CONTENT_NAMESPACE_UNAVAILABLE'') else allocate am who req (bc_content_account_id c) db
       | Some b \<Rightarrow> if cn_content b = bc_content_account_id c then Inr (b, db)
                   else if immutable occupied b then Inl (coded_conflict ''BINDING_IMMUTABLE'')
                   else if list_ex (\<lambda>b. bd_content b = bc_content_account_id c) (at_bindings db) \<or> occupied (bc_content_account_id c)
                   then Inl (coded_conflict ''CONTENT_NAMESPACE_UNAVAILABLE'') else allocate am who req (bc_content_account_id c) db)
      = Inr (b, db')"
    using assms(1) by (auto simp: finish_under_barrier_def w [simplified] Let_def result_iff split: option.splits if_splits)
  from rest assms(2) have "bc_content_account_id c \<notin> bd_content ` set (at_bindings db)" "\<not> occupied (bc_content_account_id c)"
    "allocate am who req (bc_content_account_id c) db = Inr (b, db')" "\<forall>old. ?cur = Some old \<longrightarrow> \<not> immutable occupied old"
    by (auto simp: list_ex_iff split: option.splits if_splits)
  with w c show ?thesis by blast
qed

lemma allocateD:
  assumes "allocate am who req account db = Inr (b, db')"
  shows "cn_tenant b = vt_tenant who \<and> cn_content b = account \<and> cn_version b = vt_version who + 1 \<and> cn_state b = ''active''
    \<and> cn_operation b = Some (bf_operation_id req)
    \<and> (\<exists>row. binding_of_row row = b \<and> live row \<and> at_bindings db' = at_bindings (retire_bindings (vt_tenant who) db) @ [row])
    \<and> at_tokens db' = map (\<lambda>t. if tr_tenant t = vt_tenant who \<and> tr_revoked_at t = None
         then t\<lparr>tr_revoked_at := Some (am_now am 3)\<rparr> else t) (at_tokens db)
    \<and> at_challenges db' = filter (\<lambda>r. ch_tenant r \<noteq> vt_tenant who) (at_challenges db)
    \<and> db'\<lparr>at_bindings := at_bindings db, at_tokens := at_tokens db, at_challenges := at_challenges db\<rparr> = db"
proof -
  from assms obtain version db2 where v: "checked_add_i64 (vt_version who) 1 = Some version"
    and i: "insert_binding \<lparr>bd_content = account, bd_tenant = vt_tenant who, bd_state = ''active'', bd_version = version,
       bd_operation = Some (bf_operation_id req), bd_device = Some (vt_device who), bd_pub = Some (vt_pub who)\<rparr>
       (retire_bindings (vt_tenant who) db) = Inr db2"
    and r: "db' = drop_challenges (vt_tenant who)
       (snd (revoke_where (am_now am 3) (\<lambda>t. tr_tenant t = vt_tenant who \<and> tr_revoked_at t = None) db2))"
    and b: "b = \<lparr>cn_tenant = vt_tenant who, cn_content = account, cn_version = version, cn_state = ''active'',
       cn_operation = Some (bf_operation_id req)\<rparr>"
    by (auto simp: allocate_def Let_def result_iff binding_of_row_def split: option.splits)
  from v have "version = vt_version who + 1" by (simp add: checked_add_i64_def split: if_splits)
  with insert_binding_row [OF i, THEN conjunct1] r b show ?thesis
    by (simp add: binding_of_row_def live_def drop_challenges_def revoke_where_def retire_bindings_def)
qed

lemma find_map_other:
  "(\<And>x. P (f x) \<longleftrightarrow> P x \<and> \<not> Q x) \<Longrightarrow> (\<And>x. P x \<Longrightarrow> \<not> Q x) \<Longrightarrow> (\<And>x. P x \<Longrightarrow> f x = x) \<Longrightarrow> find P (map f xs) = find P xs"
  by (induction xs) auto

lemma find_none_append: "(\<And>x. x \<in> set xs \<Longrightarrow> \<not> P x) \<Longrightarrow> P y \<Longrightarrow> find P (xs @ [y]) = Some y"
  by (induction xs) auto

lemma find_append_other: "\<not> P y \<Longrightarrow> find P (xs @ [y]) = find P xs"
  by (induction xs) auto

lemma allocate_binding:
  assumes "allocate am who req account db = Inr (b, db')"
  shows "binding_for (vt_tenant who) db' = Some b"
    and "tenant \<noteq> vt_tenant who \<Longrightarrow> binding_for tenant db' = binding_for tenant db"
proof -
  from allocateD [OF assms] obtain row where row: "binding_of_row row = b" "live row" "cn_tenant b = vt_tenant who"
    "at_bindings db' = at_bindings (retire_bindings (vt_tenant who) db) @ [row]" by blast
  have t: "bd_tenant row = vt_tenant who" using row(1,3) by (auto simp: binding_of_row_def)
  have "find (\<lambda>b. bd_tenant b = vt_tenant who \<and> bd_state b \<noteq> ''retired'') (at_bindings db') = Some row"
    unfolding row(4) using t row(2) by (intro find_none_append) (auto simp: retire_bindings_def live_def split: if_splits)
  then show "binding_for (vt_tenant who) db' = Some b" by (simp add: binding_for_def row(1))
  assume o: "tenant \<noteq> vt_tenant who"
  have "find (\<lambda>b. bd_tenant b = tenant \<and> bd_state b \<noteq> ''retired'') (at_bindings db')
      = find (\<lambda>b. bd_tenant b = tenant \<and> bd_state b \<noteq> ''retired'') (at_bindings db)"
    unfolding row(4) using t o
    by (subst find_append_other) (auto simp: retire_bindings_def intro!: find_map_other [where Q = "\<lambda>_. False"] split: if_splits)
  then show "binding_for tenant db' = binding_for tenant db" by (simp add: binding_for_def)
qed

lemma serve_finish_Inr:
  "auth_serve C occupied am (BindingFinish header req) w = (Inr reply, w') \<longleftrightarrow>
     (\<exists>b db'. binding_finish_of (au_env C) am (au_acquire C) occupied header req (aw_db w) = Inr (b, db')
        \<and> reply = BindingDone b \<and> w' = w\<lparr>aw_db := db'\<rparr>)"
  by (auto simp: on_db_def split: sum.splits)

text \<open>
  C8. A namespace is allocated once, to who proves it. When finishing a binding changes the
  database, the caller held a valid access token, had asked for this account under this
  operation, and signed the challenge, not yet expired, with the key of the token. The account
  was in no binding, retired ones included, and was never used in the content store; the
  binding it replaces, if any, was a reservation of an account never used. Afterwards the account
  is the caller's, one version on, and every token of the login is revoked. The binding,
  tokens and challenges of every other login are as before.
\<close>
theorem allocation_needs_proof_and_fresh_account:
  assumes "auth_serve C occupied am (BindingFinish header req) w = (Inr reply, w1)" and "w1 \<noteq> w"
  shows "\<exists>credential who raw c sig bytes b.
      binding_bearer header = Inr credential
    \<and> access_principal (au_env C) (am_now am 1) credential (aw_db w) = Inr who
    \<and> find_challenge (vt_tenant who) (bf_operation_id req) (aw_db w) = Some raw \<and> ae_challenge_parse (au_env C) raw = Some c
    \<and> bc_challenge_id c = bf_challenge_id req \<and> am_now am 2 < bc_expires_at_ms c
    \<and> signing_bytes (au_env C) c = Inr bytes \<and> verify_ed25519 (au_env C) (vt_pub who) bytes sig
    \<and> bc_content_account_id c \<notin> bd_content ` set (at_bindings (aw_db w)) \<and> \<not> occupied (bc_content_account_id c)
    \<and> (\<forall>old. binding_for (vt_tenant who) (aw_db w) = Some old \<longrightarrow> cn_state old = ''legacy_reserved'' \<and> \<not> occupied (cn_content old))
    \<and> reply = BindingDone b \<and> binding_for (vt_tenant who) (aw_db w1) = Some b
    \<and> cn_content b = bc_content_account_id c \<and> cn_version b = vt_version who + 1
    \<and> (\<forall>t \<in> set (at_tokens (aw_db w1)). tr_tenant t = vt_tenant who \<longrightarrow> tr_revoked_at t \<noteq> None)
    \<and> (\<forall>tenant. tenant \<noteq> vt_tenant who \<longrightarrow>
          binding_for tenant (aw_db w1) = binding_for tenant (aw_db w)
        \<and> filter (\<lambda>t. tr_tenant t = tenant) (at_tokens (aw_db w1)) = filter (\<lambda>t. tr_tenant t = tenant) (at_tokens (aw_db w))
        \<and> filter (\<lambda>r. ch_tenant r = tenant) (at_challenges (aw_db w1)) = filter (\<lambda>r. ch_tenant r = tenant) (at_challenges (aw_db w)))"
proof -
  from assms obtain b db' where f: "binding_finish_of (au_env C) am (au_acquire C) occupied header req (aw_db w) = Inr (b, db')"
    and r: "reply = BindingDone b" "w1 = w\<lparr>aw_db := db'\<rparr>"
    by (auto simp: serve_finish_Inr simp del: auth_serve.simps)
  have n: "db' \<noteq> aw_db w" using r assms(2) by auto
  from f obtain credential where h: "binding_bearer header = Inr credential"
    and u: "finish_under_barrier (au_env C) am occupied credential req (aw_db w) = Inr (b, db')"
    by (auto simp: binding_finish_of_def result_iff)
  from barrierD [OF u n] obtain who raw c sig where
    w: "access_principal (au_env C) (am_now am 1) credential (aw_db w) = Inr who"
      "find_challenge (vt_tenant who) (bf_operation_id req) (aw_db w) = Some raw" "ae_challenge_parse (au_env C) raw = Some c"
    and p: "proof_holds (au_env C) (am_now am 2) who req c sig = Inr ()"
    and fresh: "bc_content_account_id c \<notin> bd_content ` set (at_bindings (aw_db w))" "\<not> occupied (bc_content_account_id c)"
      "\<forall>old. binding_for (vt_tenant who) (aw_db w) = Some old \<longrightarrow> \<not> immutable occupied old"
    and a: "allocate am who req (bc_content_account_id c) (aw_db w) = Inr (b, db')" by blast
  note bind = allocate_binding [OF a] and rows = allocateD [OF a]
  have others: "filter (\<lambda>t. tr_tenant t = tenant) (at_tokens db') = filter (\<lambda>t. tr_tenant t = tenant) (at_tokens (aw_db w))
      \<and> filter (\<lambda>r. ch_tenant r = tenant) (at_challenges db') = filter (\<lambda>r. ch_tenant r = tenant) (at_challenges (aw_db w))"
    if "tenant \<noteq> vt_tenant who" for tenant
  proof -
    let ?f = "\<lambda>t. if tr_tenant t = vt_tenant who \<and> tr_revoked_at t = None then t\<lparr>tr_revoked_at := Some (am_now am 3)\<rparr> else t"
    have rows': "at_tokens db' = map ?f (at_tokens (aw_db w))"
      "at_challenges db' = filter (\<lambda>r. ch_tenant r \<noteq> vt_tenant who) (at_challenges (aw_db w))"
      using rows by blast+
    have "filter (\<lambda>t. tr_tenant t = tenant) (map ?f (at_tokens (aw_db w))) = filter (\<lambda>t. tr_tenant t = tenant) (at_tokens (aw_db w))"
      using that by (intro filter_untouched) auto
    then show ?thesis unfolding rows' using that by (auto intro: filter_cong)
  qed
  have gone: "\<forall>t \<in> set (at_tokens db'). tr_tenant t = vt_tenant who \<longrightarrow> tr_revoked_at t \<noteq> None"
    using rows by auto
  from proof_holdsD [OF p] obtain bytes where
    s: "bc_challenge_id c = bf_challenge_id req" "am_now am 2 < bc_expires_at_ms c"
      "signing_bytes (au_env C) c = Inr bytes" "verify_ed25519 (au_env C) (vt_pub who) bytes sig" by blast
  have old: "\<forall>old. binding_for (vt_tenant who) (aw_db w) = Some old \<longrightarrow> cn_state old = ''legacy_reserved'' \<and> \<not> occupied (cn_content old)"
    using fresh(3) by (auto simp: immutable_def)
  have new: "binding_for (vt_tenant who) db' = Some b" "cn_content b = bc_content_account_id c" "cn_version b = vt_version who + 1"
    using bind(1) rows by blast+
  have rest: "\<forall>tenant. tenant \<noteq> vt_tenant who \<longrightarrow> binding_for tenant db' = binding_for tenant (aw_db w)
        \<and> filter (\<lambda>t. tr_tenant t = tenant) (at_tokens db') = filter (\<lambda>t. tr_tenant t = tenant) (at_tokens (aw_db w))
        \<and> filter (\<lambda>r. ch_tenant r = tenant) (at_challenges db') = filter (\<lambda>r. ch_tenant r = tenant) (at_challenges (aw_db w))"
    using bind(2) others by blast
  have aw: "aw_db w1 = db'" using r by simp
  show ?thesis
    unfolding aw by (rule exI [of _ credential], rule exI [of _ who], rule exI [of _ raw], rule exI [of _ c], rule exI [of _ sig],
        rule exI [of _ bytes], rule exI [of _ b], intro conjI) fact+
qed

lemma allocation_needs_proof_and_fresh_account_witness:
  "\<exists>c b. find_challenge ''t'' ''op'' (aw_db demo_challenged) = Some ''c''
   \<and> binding_for ''t'' (aw_db (snd (demo_serve (CHR ''v'') (BindingFinish demo_header demo_finish) demo_challenged))) = Some b
   \<and> cn_content b = demo_account \<and> cn_version b = 1"
proof -
  let ?w = "snd (demo_serve (CHR ''v'') (BindingFinish demo_header demo_finish) demo_challenged)"
  have n: "?w \<noteq> demo_challenged" by (rule demo_binds_changes)
  have f: "find_challenge ''t'' ''op'' (aw_db demo_challenged) = Some ''c''" "bf_operation_id demo_finish = ''op''"
    by (simp_all add: demo_challenged_def find_challenge_def demo_finish_def)
  have p: "access_principal demo_auth_env 1 demo_access (aw_db demo_challenged)
    = Inr \<lparr>vt_token_id = ''a'', vt_tenant = ''t'', vt_device = demo_device, vt_pub = demo_pub, vt_content = Some ''t'',
      vt_version = 0, vt_scope = Content\<rparr>"
    by (simp add: access_principal_def auth_res_def)
  have c: "bc_content_account_id demo_challenge = demo_account" by (simp add: demo_challenge_def)
  from allocation_needs_proof_and_fresh_account [OF demo_serve_Inr [OF demo_binds] n] show ?thesis
    by (simp add: p f c) blast
qed

end
