(* ===== verification/Auth_Login.thy ===== *)
theory Auth_Login
  imports Auth_Demo
begin

text \<open>
  What a login proves and what it issues: the lockout after failed attempts, the proof of
  possession a device signs, and the tokens minted at the end.
\<close>

section \<open>The lockout\<close>

lemma unat_sub_one:
  assumes "t < (n :: u32)"
  shows "unat (n - t - 1) = unat n - unat t - 1"
proof -
  have d: "unat (n - t) = unat n - unat t" using assms by (intro unat_sub) simp
  then have "1 \<le> n - t" using assms by (simp add: word_le_nat_alt word_less_nat_alt)
  then have "unat (n - t - 1) = unat (n - t) - 1" by (simp add: unat_sub)
  with d show ?thesis by simp
qed

lemma lockout_after:
  assumes "th_threshold c < n"
  shows "lockout_for c n = from_millis (min (as_millis_u64 (th_base_delay c) * 2 ^ min (unat n - unat (th_threshold c) - 1) 40)
      (as_millis_u64 (th_max_delay c)))"
proof -
  have u: "unat (min (n - th_threshold c - 1) 40) = min (unat n - unat (th_threshold c) - 1) 40"
    using unat_sub_one [OF assms] by (simp add: min_def word_le_nat_alt)
  have m: "as_millis_u64 (th_max_delay c) \<le> 2 ^ 64 - 1" by (simp add: as_millis_u64_def)
  have "min (min x (2 ^ 64 - 1)) (as_millis_u64 (th_max_delay c)) = min x (as_millis_u64 (th_max_delay c))" for x
    using m by linarith
  with assms show ?thesis by (simp add: lockout_for_def Let_def u linorder_not_less [symmetric] mult.commute)
qed

lemma from_millis_mono: "x \<le> y \<Longrightarrow> from_millis x \<le> from_millis y"
  by (simp add: from_millis_def)

text \<open>
  The lockout follows its schedule at every count, without wrapping: none up to the threshold, then
  the base delay doubled once per further failure (forty times at most), never more than the
  largest delay, and never shorter for more failures. Delays count in whole milliseconds.
\<close>
theorem lockout_schedule:
  "lockout_for c n = (if n \<le> th_threshold c then 0
      else from_millis (min (as_millis_u64 (th_base_delay c) * 2 ^ min (unat n - unat (th_threshold c) - 1) 40)
             (as_millis_u64 (th_max_delay c))))
   \<and> lockout_for c n \<le> th_max_delay c \<and> (n \<le> m \<longrightarrow> lockout_for c n \<le> lockout_for c m)"
proof -
  have s: "lockout_for c n = (if n \<le> th_threshold c then 0
      else from_millis (min (as_millis_u64 (th_base_delay c) * 2 ^ min (unat n - unat (th_threshold c) - 1) 40)
             (as_millis_u64 (th_max_delay c))))" for n
    using lockout_after [of c n] by (auto simp: lockout_for_def not_le)
  have "from_millis (as_millis_u64 (th_max_delay c)) \<le> th_max_delay c"
    by (simp add: from_millis_def as_millis_u64_def min_mult_distrib_right div_times_less_eq_dividend min.coboundedI1)
  then have "lockout_for c n \<le> th_max_delay c"
    using from_millis_mono [OF min.cobounded2] by (auto simp: s intro: order_trans)
  moreover have "lockout_for c n \<le> lockout_for c m" if n: "n \<le> m"
  proof -
    have "as_millis_u64 (th_base_delay c) * 2 ^ min (unat n - unat (th_threshold c) - 1) 40
      \<le> as_millis_u64 (th_base_delay c) * 2 ^ min (unat m - unat (th_threshold c) - 1) 40"
      using n by (intro mult_left_mono power_increasing) (auto simp: word_le_nat_alt)
    with n show ?thesis by (auto simp: s intro!: from_millis_mono min.mono)
  qed
  ultimately show ?thesis using s by blast
qed

lemma lockout_schedule_witness:
  "lockout_for throttle_default 5 = 0 \<and> lockout_for throttle_default 6 = from_millis 1000
   \<and> lockout_for throttle_default 6 \<le> lockout_for throttle_default 9"
proof -
  have t: "as_millis_u64 (th_base_delay throttle_default) = 1000" "as_millis_u64 (th_max_delay throttle_default) = 900000"
    "th_threshold throttle_default = 5"
    by (simp_all add: as_millis_u64_def throttle_default_def from_millis_def)
  show ?thesis
    using lockout_schedule [of throttle_default 5 6] lockout_schedule [of throttle_default 6 9] by (simp add: t)
qed

section \<open>A failed login\<close>

text \<open>Failure counts are stored as integers and read as 32-bit numbers; no count is negative.\<close>

definition failures_ok :: "auth_db \<Rightarrow> bool" where
  "failures_ok db \<longleftrightarrow> (\<forall>r \<in> set (at_failures db). 0 \<le> fl_count r)"

lemma count_below: "0 \<le> c \<Longrightarrow> c < 4294967295 \<Longrightarrow> sat_inc (word_of_int c :: u32) = word_of_int c + 1"
proof -
  assume c: "0 \<le> c" "c < 4294967295"
  have "(word_of_int c :: u32) \<noteq> - 1"
  proof
    assume "(word_of_int c :: u32) = - 1"
    then have "uint (word_of_int c :: u32) = uint (- 1 :: u32)" by (rule arg_cong)
    with c show False
      by (simp add: uint_word_of_int take_bit_int_eq_self unsigned_minus_1_eq_mask mask_eq_exp_minus_1)
  qed
  then show ?thesis by (simp add: sat_inc_def)
qed

lemma count_top: "\<not> c < 4294967295 \<Longrightarrow> c < 4294967296 \<Longrightarrow> sat_inc (word_of_int c :: u32) = - 1"
proof -
  assume "\<not> c < 4294967295" "c < 4294967296"
  then have "c = 4294967295" by simp
  moreover have "(4294967295 :: u32) = - 1" by simp
  ultimately show ?thesis by (simp add: sat_inc_def)
qed

lemma failure_after:
  fixes h :: string
  assumes "failures_ok db"
  defines "n \<equiv> sat_inc (fs_failure_count (failure_state_of h db))"
  shows "failure_state_of h (snd (record_failure now h throttle db)) =
    \<lparr>fs_failure_count = n, fs_locked_until_ms = sat_add_i64 now (millis_i64 (lockout_for throttle n))\<rparr>"
proof -
  have f: "find (\<lambda>r. fl_handle r = h) (map (\<lambda>r. if fl_handle r = h then g r else r) fs)
    = map_option g (find (\<lambda>r. fl_handle r = h) fs)" if "\<And>r. fl_handle r = h \<Longrightarrow> fl_handle (g r) = h" for g :: "failure_row \<Rightarrow> failure_row" and fs
    using that by (induction fs) auto
  have a: "find (\<lambda>r. fl_handle r = h) (fs @ [r]) = Some r" if "\<not> list_ex (\<lambda>r. fl_handle r = h) fs" "fl_handle r = h" for fs r
    using that by (induction fs) auto
  show ?thesis
  proof (cases "list_ex (\<lambda>r. fl_handle r = h) (at_failures db)")
    case True
    then obtain r where r: "find (\<lambda>r. fl_handle r = h) (at_failures db) = Some r"
      by (cases "find (\<lambda>r. fl_handle r = h) (at_failures db)") (auto simp: find_None_iff list_ex_iff)
    then have "0 \<le> fl_count r" using assms(1) by (auto simp: failures_ok_def find_Some_iff)
    with True r show ?thesis
      by (simp add: n_def record_failure_def Let_def failure_state_of_def f count_below count_top)
  next
    case False
    then have none: "find (\<lambda>r. fl_handle r = h) (at_failures db) = None" by (simp add: find_None_iff list_ex_iff)
    have "sat_inc (0 :: u32) = 1" by (simp add: sat_inc_def)
    with False none show ?thesis
      by (simp add: n_def record_failure_def Let_def failure_state_of_def a)
  qed
qed

lemma failures_ok_record: "failures_ok db \<Longrightarrow> failures_ok (snd (record_failure now h throttle db))"
  by (auto simp: failures_ok_def record_failure_def Let_def)

lemma failures_ok_reset: "failures_ok db \<Longrightarrow> failures_ok (reset_failures h db)"
  by (auto simp: failures_ok_def reset_failures_def)

lemma other_failures:
  assumes "h' \<noteq> h"
  shows "failure_state_of h' (snd (record_failure now h throttle db)) = failure_state_of h' db"
proof -
  have f: "find (\<lambda>r. fl_handle r = h') (map (\<lambda>r. if fl_handle r = h then g r else r) fs) = find (\<lambda>r. fl_handle r = h') fs"
    if "\<And>r. fl_handle (g r) = fl_handle r" for g :: "failure_row \<Rightarrow> failure_row" and fs
    using that assms by (induction fs) auto
  have n: "find (\<lambda>r. fl_handle r = h') (fs @ [r]) = find (\<lambda>r. fl_handle r = h') fs" if "fl_handle r = h" for fs r
    using that assms by (induction fs) auto
  show ?thesis by (simp add: record_failure_def Let_def failure_state_of_def f n)
qed

lemma record_failure_frame: "(snd (record_failure now h throttle db))\<lparr>at_failures := at_failures db\<rparr> = db"
  by (simp add: record_failure_def Let_def)

lemma finish_refused:
  assumes "finish \<in> {LoginFinish, LoginFinishV2}" and "\<And>v2. finish_login C am req v2 w = (Inl e, w')"
  shows "auth_serve C occupied am (finish req) w = (Inl e, w')"
  using assms by (auto simp: login_finish_def login_finish_v2_def)

text \<open>
  C23. A failed login is recorded the same way for every identity, registered or not, on either
  version of the route. When the key exchange of a pending login fails, the answer is unauthorized
  and the login can not be continued; the identity's failure count (never negative in the table, which
  stays so) goes up by one, stopping at the largest 32-bit number, no table but the failure counters changes, and those of other identities
  do not. Until the lockout of the new count has passed, starting a login with the identity, and
  finishing one that was started earlier, is answered with too many requests; from then on the
  identity is not locked.
\<close>
theorem failed_login_locks_identity:
  assumes "finish \<in> {LoginFinish, LoginFinishV2}"
    and "take_pending (am_now am 0) (lf_login_id req) (aw_pending w) = (Some (st, h), rest)"
    and "locked_until (am_now am 1) h (aw_db w) = None"
    and "ae_b64_decode (au_env C) (lf_credential_finalization_b64 req) = Some bytes"
    and "oq_finalization_ok (au_opaque C) bytes" and "\<not> oq_login_finish (au_opaque C) st bytes"
    and "failures_ok (aw_db w)" and "n = sat_inc (fs_failure_count (failure_state_of h (aw_db w)))"
    and "until = sat_add_i64 (am_now am 2) (millis_i64 (lockout_for (au_throttle C) n))"
  shows "\<exists>w'. auth_serve C occupied am (finish req) w = (Inl unauthorized, w') \<and> aw_pending w' = rest
    \<and> failure_state_of h (aw_db w') = \<lparr>fs_failure_count = n, fs_locked_until_ms = until\<rparr> \<and> failures_ok (aw_db w')
    \<and> (aw_db w')\<lparr>at_failures := at_failures (aw_db w)\<rparr> = aw_db w
    \<and> (\<forall>h'. h' \<noteq> h \<longrightarrow> failure_state_of h' (aw_db w') = failure_state_of h' (aw_db w))
    \<and> (\<forall>am2 req2. ls_identity_handle req2 = h \<and> am_now am2 0 < until \<longrightarrow>
          auth_serve C occupied2 am2 (LoginStart req2) w' = (Inl too_many_requests, w'))
    \<and> (\<forall>finish2 \<in> {LoginFinish, LoginFinishV2}. \<forall>am2 req2 st2 rest2.
          take_pending (am_now am2 0) (lf_login_id req2) rest = (Some (st2, h), rest2) \<and> am_now am2 1 < until \<longrightarrow>
          auth_serve C occupied2 am2 (finish2 req2) w' = (Inl too_many_requests, w'\<lparr>aw_pending := rest2\<rparr>))
    \<and> (\<forall>now. until \<le> now \<longrightarrow> locked_until now h (aw_db w') = None)"
proof -
  let ?db = "snd (record_failure (am_now am 2) h (au_throttle C) (aw_db w))"
  let ?w = "w\<lparr>aw_pending := rest, aw_db := ?db\<rparr>"
  have "finish_login C am req v2 w = (Inl unauthorized, ?w)" for v2
    using assms(2-6) by (simp add: finish_login_def auth_decode_b64_def)
  note f = finish_refused [OF assms(1) this, of occupied]
  have u: "failure_state_of h ?db = \<lparr>fs_failure_count = n, fs_locked_until_ms = until\<rparr>"
    by (simp add: failure_after [OF assms(7)] assms(8,9))
  then have l: "locked_until now h ?db = (if now < until then Some until else None)" for now
    by (simp add: locked_until_def)
  have "auth_serve C occupied2 am2 (LoginStart req2) ?w = (Inl too_many_requests, ?w)"
    if "ls_identity_handle req2 = h" "am_now am2 0 < until" for am2 req2
    using that l by (simp add: login_start_def Let_def)
  moreover have "auth_serve C occupied2 am2 (finish2 req2) ?w = (Inl too_many_requests, ?w\<lparr>aw_pending := rest2\<rparr>)"
    if "finish2 \<in> {LoginFinish, LoginFinishV2}"
      "take_pending (am_now am2 0) (lf_login_id req2) rest = (Some (st2, h), rest2)" "am_now am2 1 < until"
    for finish2 am2 req2 st2 rest2
    by (rule finish_refused [OF that(1)]) (use that(2,3) l in \<open>simp add: finish_login_def Let_def\<close>)
  ultimately show ?thesis
    using f u l by (intro exI [of _ ?w]) (simp add: record_failure_frame other_failures failures_ok_record [OF assms(7)])
qed

definition demo_login :: "string \<Rightarrow> login_finish_request" where
  "demo_login m = \<lparr>lf_login_id = ''l'', lf_credential_finalization_b64 = m, lf_device_id = Some demo_device,
     lf_pub_b64 = Some demo_pub, lf_pop_signature_b64 = Some demo_sig\<rparr>"

definition demo_pending :: "unit auth_world" where
  "demo_pending = demo_world\<lparr>aw_pending := [\<lparr>pd_login_id = ''l'', pd_state = (), pd_handle = ''alice'', pd_expires_at_ms = 9\<rparr>]\<rparr>"

lemma failed_login_locks_identity_witness:
  "\<exists>w'. auth_serve demo_config (\<lambda>_. False) (demo_ambient (CHR ''u'')) (LoginFinishV2 (demo_login ''no'')) demo_pending
     = (Inl unauthorized, w') \<and> aw_pending w' = [] \<and> fs_failure_count (failure_state_of ''alice'' (aw_db w')) = 1"
proof -
  have t: "take_pending (am_now (demo_ambient (CHR ''u'')) 0) (lf_login_id (demo_login ''no'')) (aw_pending demo_pending) = (Some ((), ''alice''), [])"
    by (simp add: take_pending_def demo_pending_def demo_login_def)
  have l: "locked_until (am_now (demo_ambient (CHR ''u'')) 1) ''alice'' (aw_db demo_pending) = None"
    by (simp add: locked_until_def failure_state_of_def demo_pending_def demo_auth_tables demo_rows)
  have d: "ae_b64_decode (au_env demo_config) (lf_credential_finalization_b64 (demo_login ''no'')) = Some ''no''"
    and f: "oq_finalization_ok (au_opaque demo_config) ''no''" "\<not> oq_login_finish (au_opaque demo_config) () ''no''"
    by (simp_all add: demo_login_def demo_config_def demo_opaque_def)
  have k: "failures_ok (aw_db demo_pending)" and z: "fs_failure_count (failure_state_of ''alice'' (aw_db demo_pending)) = 0"
    by (simp_all add: failures_ok_def failure_state_of_def demo_pending_def demo_auth_tables demo_rows)
  have "LoginFinishV2 \<in> {LoginFinish, LoginFinishV2}" by simp
  from failed_login_locks_identity [OF this t l d f k refl refl, of "\<lambda>_. False"] z show ?thesis
    by (auto simp: sat_inc_def)
qed

section \<open>The tokens a login issues\<close>

text \<open>What minting relies on: Base64 decodes what it encoded, identifiers have no dot, secrets 32 bytes.\<close>

definition bearers_parse :: "'c auth_env \<Rightarrow> ambient \<Rightarrow> bool" where
  "bearers_parse E am \<longleftrightarrow> (\<forall>s. ae_b64url_decode E (ae_b64url_encode E s) = Some s)
     \<and> (\<forall>k. am_uuid am k \<noteq> [] \<and> CHR ''.'' \<notin> set (am_uuid am k) \<and> length (am_bytes am k) = TOKEN_SECRET_LEN)"

lemma generated_parses:
  assumes "bearers_parse E am"
  shows "parse_bearer E (nt_bearer (generate E am k)) = Some (nt_token_id (generate E am k), am_bytes am k)
    \<and> nt_token_hash (generate E am k) = hash_secret E (am_bytes am k)"
proof -
  have "split_once (CHR ''.'') (am_uuid am k @ CHR ''.'' # ae_b64url_encode E (am_bytes am k))
      = Some (am_uuid am k, ae_b64url_encode E (am_bytes am k))"
    using assms by (simp add: split_once_Some bearers_parse_def)
  with assms show ?thesis by (simp add: parse_bearer_def generate_def Let_def bearers_parse_def)
qed

lemma insert_pair_rows:
  assumes "insert_pair now tenant device pub a ae r re db = Inr (pair, db')"
  shows "pair = \<lparr>rt_access_token = nt_bearer a, rt_access_expires_at = ae, rt_refresh_token = nt_bearer r, rt_refresh_expires_at = re\<rparr>
    \<and> db' = db\<lparr>at_tokens := at_tokens db @ [new_token_row (now 0) (nt_token_id a) tenant device pub (nt_token_hash a) Access ae db,
         new_token_row (now 1) (nt_token_id r) tenant device pub (nt_token_hash r) Refresh re db]\<rparr>"
  using assms
  by (auto simp: insert_pair_def insert_token_row_def result_iff new_token_row_def authority_def binding_for_def split: if_splits)

lemma pair_validates:
  assumes "mint_pair E am tenant device pub cfg db = Inr (pair, db')" and "auth_ok db" and "bearers_parse E am"
    and "length pub = ED25519_PUB_LEN"
  shows "(now < rt_access_expires_at pair \<longrightarrow> (\<exists>v. load_valid_token E now (rt_access_token pair) Access db' = Inr (Some v)
        \<and> vt_tenant v = tenant \<and> vt_device v = device \<and> vt_pub v = pub \<and> (vt_content v, vt_version v) = authority tenant db))
    \<and> (now < rt_refresh_expires_at pair \<longrightarrow> (\<exists>v. load_valid_token E now (rt_refresh_token pair) Refresh db' = Inr (Some v)
        \<and> vt_tenant v = tenant \<and> vt_device v = device \<and> vt_pub v = pub \<and> (vt_content v, vt_version v) = authority tenant db))"
proof -
  from insert_pair_rows [OF assms(1) [unfolded mint_pair_def]] obtain n0 n1 ae re where
    p: "pair = \<lparr>rt_access_token = nt_bearer (generate E am 0), rt_access_expires_at = ae,
          rt_refresh_token = nt_bearer (generate E am 1), rt_refresh_expires_at = re\<rparr>"
    and d: "db' = db\<lparr>at_tokens := at_tokens db @ [new_token_row n0 (nt_token_id (generate E am 0)) tenant device pub
          (nt_token_hash (generate E am 0)) Access ae db,
          new_token_row n1 (nt_token_id (generate E am 1)) tenant device pub (nt_token_hash (generate E am 1)) Refresh re db]\<rparr>"
    by blast
  have ok: "auth_ok db'" using safe_mint_pair [OF assms(1)] assms(2) by (simp add: safe_step_def)
  have auth: "authority tenant db' = authority tenant db" by (simp add: d authority_def binding_for_def)
  have valid: "\<exists>v. load_valid_token E now (nt_bearer (generate E am k)) kind db' = Inr (Some v)
        \<and> vt_tenant v = tenant \<and> vt_device v = device \<and> vt_pub v = pub \<and> (vt_content v, vt_version v) = authority tenant db"
    if t: "new_token_row m (nt_token_id (generate E am k)) tenant device pub (nt_token_hash (generate E am k)) kind e db \<in> set (at_tokens db')"
      and e: "now < e" for m k kind e
  proof -
    have "row_valid E now (nt_bearer (generate E am k)) kind db'
        (new_token_row m (nt_token_id (generate E am k)) tenant device pub (nt_token_hash (generate E am k)) kind e db)"
      using generated_parses [OF assms(3)] e assms(4) by (simp add: row_valid_def new_token_row_def auth kind_wire.of_to_wire)
    from load_valid_row [OF ok t this] show ?thesis by (auto simp: validated_row_def new_token_row_def)
  qed
  show ?thesis using valid [of n0 0 Access ae] valid [of n1 1 Refresh re] by (simp add: p d)
qed

lemma mint_on_loginD:
  assumes "mint_on_login C am req fin tenant db = Inr (Some b, db')"
  shows "\<exists>pub sig. length pub = ED25519_PUB_LEN \<and> device_id_from_ed25519 (au_env C) pub = v2_device_id b
    \<and> verify_ed25519 (au_env C) pub (mint_pop_message (au_env C) (lf_login_id req) fin (v2_device_id b) pub) sig
    \<and> mint_pair (au_env C) am tenant (v2_device_id b) pub (au_tokens C) db = Inr (v2_pair b, db')
    \<and> v2_tenant b = tenant \<and> (v2_content b, v2_version b) = authority tenant db'"
proof -
  from assms obtain device pub sig pair where
    f: "length pub = ED25519_PUB_LEN" "device_id_from_ed25519 (au_env C) pub = device"
      "verify_ed25519 (au_env C) pub (mint_pop_message (au_env C) (lf_login_id req) fin device pub) sig"
      "mint_pair (au_env C) am tenant device pub (au_tokens C) db = Inr (pair, db')"
    and b: "b = \<lparr>v2_scope = (if binding_for tenant db' = None then Control else Content), v2_pair = pair, v2_device_id = device,
        v2_tenant = tenant, v2_content = map_option cn_content (binding_for tenant db'),
        v2_version = (case binding_for tenant db' of None \<Rightarrow> 0 | Some x \<Rightarrow> cn_version x)\<rparr>"
    by (auto simp: mint_on_login_def decode_fixed_def result_iff Let_def split: option.splits if_splits prod.splits)
  have "v2_tenant b = tenant \<and> (v2_content b, v2_version b) = authority tenant db' \<and> v2_pair b = pair \<and> v2_device_id b = device"
    by (auto simp: b authority_def split: option.splits)
  with f show ?thesis by auto
qed

lemma pending_unique_gone: "find (\<lambda>p. pd_login_id p = i) (filter (\<lambda>p. pd_login_id p \<noteq> i) ps) = None"
  by (induction ps) auto

lemma finish_loginD:
  assumes "finish_login C am req v2 w = (Inr resp, w1)" and "lr_token resp = Some b"
  shows "\<exists>st h bytes tenant db.
      take_pending (am_now am 0) (lf_login_id req) (aw_pending w) = (Some (st, h), aw_pending w1)
    \<and> ae_b64_decode (au_env C) (lf_credential_finalization_b64 req) = Some bytes \<and> oq_login_finish (au_opaque C) st bytes
    \<and> account_id h (aw_db w) = Some tenant \<and> db = reset_failures h (aw_db w)
    \<and> mint_on_login C (readings_from 2 am) req bytes tenant db = Inr (Some b, aw_db w1)"
proof -
  obtain taken pending where t: "take_pending (am_now am 0) (lf_login_id req) (aw_pending w) = (taken, pending)"
    by (meson surj_pair)
  with assms(1) obtain st h where taken: "taken = Some (st, h)"
    by (cases taken) (auto simp: finish_login_def)
  from assms(1) t taken obtain bytes where b: "ae_b64_decode (au_env C) (lf_credential_finalization_b64 req) = Some bytes"
    "oq_login_finish (au_opaque C) st bytes"
    and f: "apsnd (\<lambda>db. w\<lparr>aw_pending := pending, aw_db := db\<rparr>)
       (finish_authenticated C (readings_from 2 am) req bytes v2 h (aw_db w)) = (Inr resp, w1)"
    by (auto simp: finish_login_def auth_decode_b64_def Let_def split: option.splits if_splits)
  from f obtain db' where fa: "finish_authenticated C (readings_from 2 am) req bytes v2 h (aw_db w) = (Inr resp, db')"
    and w1: "w1 = w\<lparr>aw_pending := pending, aw_db := db'\<rparr>"
    by (cases "finish_authenticated C (readings_from 2 am) req bytes v2 h (aw_db w)") auto
  from fa assms(2) obtain tenant where "account_id h (aw_db w) = Some tenant"
    "mint_on_login C (readings_from 2 am) req bytes tenant (reset_failures h (aw_db w)) = Inr (Some b, db')"
    by (auto simp: finish_authenticated_def Let_def account_id_def reset_failures_def split: option.splits if_splits sum.splits prod.splits)
  with t taken b w1 show ?thesis by auto
qed

lemma mint_pair_authority:
  "mint_pair E am tenant device pub cfg db = Inr (pair, db') \<Longrightarrow> authority t db' = authority t db"
  unfolding mint_pair_def by (drule insert_pair_rows) (auto simp: authority_def binding_for_def)

lemma take_pendingD:
  assumes "take_pending now i ps = (Some (st, h), rest)"
  shows "(\<exists>p \<in> set ps. pd_login_id p = i \<and> pd_state p = st \<and> pd_handle p = h \<and> now < pd_expires_at_ms p)
     \<and> take_pending now2 i rest = (None, rest)"
proof -
  from assms obtain p where p: "find (\<lambda>p. pd_login_id p = i) ps = Some p" "now < pd_expires_at_ms p" "pd_state p = st" "pd_handle p = h"
    and rest: "rest = filter (\<lambda>p. pd_login_id p \<noteq> i) ps"
    by (auto simp: take_pending_def split: option.splits if_splits)
  from p(1) have "p \<in> set ps" "pd_login_id p = i" by (auto simp: find_Some_iff)
  moreover have "take_pending now2 i rest = (None, rest)"
    by (simp add: rest take_pending_def pending_unique_gone)
  ultimately show ?thesis using p by blast
qed

text \<open>
  C22. A login issues working tokens, once, to a device that proved its key. When a login ends with
  a token pair, the key exchange of a pending, unexpired login succeeded, the pair is of the login
  the identity is mapped to, and the device signed this login with the key its id is the
  fingerprint of. Both tokens then validate until they expire, for that login, device and key, with
  the authority the answer states. The same login cannot be finished again.
\<close>
theorem login_issues_working_tokens:
  assumes "auth_reaches C w" and "bearers_parse (au_env C) am"
    and "auth_serve C occupied am (LoginFinishV2 req) w = (Inr (LoggedInV2 resp), w1)" and "lr_token resp = Some b"
  shows "\<exists>p bytes pub sig.
      p \<in> set (aw_pending w) \<and> pd_login_id p = lf_login_id req \<and> am_now am 0 < pd_expires_at_ms p
    \<and> ae_b64_decode (au_env C) (lf_credential_finalization_b64 req) = Some bytes
    \<and> oq_login_finish (au_opaque C) (pd_state p) bytes
    \<and> account_id (pd_handle p) (aw_db w) = Some (v2_tenant b)
    \<and> device_id_from_ed25519 (au_env C) pub = v2_device_id b
    \<and> verify_ed25519 (au_env C) pub (mint_pop_message (au_env C) (lf_login_id req) bytes (v2_device_id b) pub) sig
    \<and> (\<forall>(kind, bearer, until) \<in> {(Access, rt_access_token (v2_pair b), rt_access_expires_at (v2_pair b)),
                                  (Refresh, rt_refresh_token (v2_pair b), rt_refresh_expires_at (v2_pair b))}.
         \<forall>now < until. \<exists>v. load_valid_token (au_env C) now bearer kind (aw_db w1) = Inr (Some v)
           \<and> vt_tenant v = v2_tenant b \<and> vt_device v = v2_device_id b \<and> vt_pub v = pub
           \<and> vt_content v = v2_content b \<and> vt_version v = v2_version b)
    \<and> (\<forall>am2 req2. lf_login_id req2 = lf_login_id req \<longrightarrow>
         auth_serve C occupied2 am2 (LoginFinishV2 req2) w1 = (Inl unauthorized, w1))"
proof -
  have f: "finish_login C am req True w = (Inr resp, w1)"
    using assms(3) by (auto simp: login_finish_v2_def apfst_def map_prod_def split: prod.splits sum.splits)
      (cases "fst (finish_login C am req True w)"; simp)
  from finish_loginD [OF f assms(4)] obtain st h bytes tenant where
    t: "take_pending (am_now am 0) (lf_login_id req) (aw_pending w) = (Some (st, h), aw_pending w1)"
    and x: "ae_b64_decode (au_env C) (lf_credential_finalization_b64 req) = Some bytes" "oq_login_finish (au_opaque C) st bytes"
      "account_id h (aw_db w) = Some tenant"
    and m: "mint_on_login C (readings_from 2 am) req bytes tenant (reset_failures h (aw_db w)) = Inr (Some b, aw_db w1)"
    by blast
  from mint_on_loginD [OF m] obtain pub sig where
    pub: "length pub = ED25519_PUB_LEN" "device_id_from_ed25519 (au_env C) pub = v2_device_id b"
      "verify_ed25519 (au_env C) pub (mint_pop_message (au_env C) (lf_login_id req) bytes (v2_device_id b) pub) sig"
    and mint: "mint_pair (au_env C) (readings_from 2 am) tenant (v2_device_id b) pub (au_tokens C) (reset_failures h (aw_db w))
        = Inr (v2_pair b, aw_db w1)"
    and b: "v2_tenant b = tenant" "(v2_content b, v2_version b) = authority tenant (aw_db w1)" by blast
  have ok: "auth_ok (reset_failures h (aw_db w))"
    using safe_throttle(2) reaches_auth_ok [OF assms(1)] by (auto simp: safe_step_def)
  have parse: "bearers_parse (au_env C) (readings_from 2 am)"
    using assms(2) by (simp add: bearers_parse_def readings_from_def)
  have auth: "authority tenant (reset_failures h (aw_db w)) = (v2_content b, v2_version b)"
    using mint_pair_authority [OF mint] b(2) by simp
  note valid = pair_validates [OF mint ok parse pub(1), unfolded auth prod.inject]
  have tokens: "\<forall>(kind, bearer, until) \<in> {(Access, rt_access_token (v2_pair b), rt_access_expires_at (v2_pair b)),
                                  (Refresh, rt_refresh_token (v2_pair b), rt_refresh_expires_at (v2_pair b))}.
         \<forall>now < until. \<exists>v. load_valid_token (au_env C) now bearer kind (aw_db w1) = Inr (Some v)
           \<and> vt_tenant v = v2_tenant b \<and> vt_device v = v2_device_id b \<and> vt_pub v = pub
           \<and> vt_content v = v2_content b \<and> vt_version v = v2_version b"
    using valid b(1) by auto
  have replay: "auth_serve C occupied2 am2 (LoginFinishV2 req2) w1 = (Inl unauthorized, w1)"
    if "lf_login_id req2 = lf_login_id req" for am2 req2
    using take_pendingD [OF t, of "am_now am2 0"] that by (simp add: login_finish_v2_def finish_login_def)
  from take_pendingD [OF t] obtain p where
    p: "p \<in> set (aw_pending w)" "pd_login_id p = lf_login_id req" "am_now am 0 < pd_expires_at_ms p" "pd_state p = st" "pd_handle p = h"
    by blast
  show ?thesis
    by (rule exI [of _ p], rule exI [of _ bytes], rule exI [of _ pub], rule exI [of _ sig])
      (use p x pub b tokens replay in simp)
qed

definition demo_started :: "unit auth_world" where
  "demo_started = demo_world\<lparr>aw_pending := [\<lparr>pd_login_id = ''u0'', pd_state = (), pd_handle = ''alice'', pd_expires_at_ms = 120001\<rparr>]\<rparr>"

lemma demo_login_starts:
  "snd (demo_serve (CHR ''u'') (LoginStart \<lparr>ls_identity_handle = ''alice'', ls_credential_request_b64 = ''x''\<rparr>) demo_world) = demo_started"
proof -
  have w: "wrap_add_i64 1 120000 = 120001" by code_simp
  have l: "locked_until 1 ''alice'' (aw_db demo_world) = None" "opaque_record ''alice'' (aw_db demo_world) = Some ''rec''"
    by (simp_all add: locked_until_def failure_state_of_def opaque_record_def demo_auth_tables demo_rows)
  have p: "aw_pending demo_world = []" by (simp add: demo_world_def)
  have o: "oq_credential_ok (au_opaque demo_config) x" "oq_verifier_ok (au_opaque demo_config) x"
    "oq_login_start (au_opaque demo_config) r v m h = Some ((), ''m'')" for x r v m h
    by (simp_all add: demo_config_def demo_opaque_def)
  show ?thesis
    by (simp add: demo_serve_def login_start_def insert_pending_def l o p MAX_PENDING_LOGINS_def PENDING_LOGIN_TTL_MS_def w
        demo_started_def readings_from_def Let_def)
qed

definition demo_login_v2 :: login_finish_request where
  "demo_login_v2 = (demo_login ''ok'')\<lparr>lf_login_id := ''u0''\<rparr>"

lemma demo_mints:
  "\<exists>pair db'. mint_pair demo_auth_env (readings_from 2 (demo_ambient (CHR ''v''))) ''t'' demo_device demo_pub token_config_default
     (reset_failures ''alice'' (aw_db demo_world)) = Inr (pair, db')"
  by (simp add: mint_pair_def insert_pair_def insert_token_row_def generate_def reset_failures_def demo_auth_tables demo_rows
      readings_from_def)

lemma demo_logs_in:
  "\<exists>resp b w1. auth_serve demo_config (\<lambda>_. False) (demo_ambient (CHR ''v'')) (LoginFinishV2 demo_login_v2) demo_started
     = (Inr (LoggedInV2 resp), w1) \<and> lr_token resp = Some b"
proof -
  obtain pair db' where m: "mint_pair demo_auth_env (readings_from 2 (demo_ambient (CHR ''v''))) ''t'' demo_device demo_pub
     token_config_default (reset_failures ''alice'' (aw_db demo_world)) = Inr (pair, db')"
    using demo_mints by blast
  have d: "aw_db demo_started = aw_db demo_world" by (simp add: demo_started_def)
  have l: "locked_until 1 ''alice'' (aw_db demo_world) = None" "account_id ''alice'' (reset_failures ''alice'' (aw_db demo_world)) = Some ''t''"
    by (simp_all add: locked_until_def failure_state_of_def account_id_def reset_failures_def demo_auth_tables demo_rows)
  have o: "oq_finalization_ok (au_opaque demo_config) x" "oq_login_finish (au_opaque demo_config) () ''ok''" for x
    by (simp_all add: demo_config_def demo_opaque_def)
  have t: "take_pending 1 ''u0'' (aw_pending demo_started) = (Some ((), ''alice''), [])"
    by (simp add: take_pending_def demo_started_def)
  have r: "lf_login_id demo_login_v2 = ''u0''" "lf_credential_finalization_b64 demo_login_v2 = ''ok''"
    "pop_fields demo_login_v2 = Inr (Some (demo_device, demo_pub, demo_sig))"
    by (simp_all add: demo_login_v2_def demo_login_def pop_fields_def)
  show ?thesis
    by (simp add: login_finish_v2_def finish_login_def t r l o d finish_authenticated_def mint_on_login_def
        ED25519_PUB_LEN_def ED25519_SIG_LEN_def verify_ed25519_def m auth_res_def Let_def)
qed

lemma login_issues_working_tokens_witness:
  "\<exists>resp b w1 p. auth_serve demo_config (\<lambda>_. False) (demo_ambient (CHR ''v'')) (LoginFinishV2 demo_login_v2) demo_started
       = (Inr (LoggedInV2 resp), w1)
     \<and> p \<in> set (aw_pending demo_started) \<and> account_id (pd_handle p) (aw_db demo_started) = Some (v2_tenant (b :: v2_token_bundle))
     \<and> auth_serve demo_config (\<lambda>_. False) (demo_ambient (CHR ''v'')) (LoginFinishV2 demo_login_v2) w1 = (Inl unauthorized, w1)"
proof -
  obtain resp b w1 where s: "auth_serve demo_config (\<lambda>_. False) (demo_ambient (CHR ''v'')) (LoginFinishV2 demo_login_v2) demo_started
     = (Inr (LoggedInV2 resp), w1)" and b: "lr_token resp = Some b"
    using demo_logs_in by blast
  have reach: "auth_reaches demo_config demo_started"
    using demo_reaches_step [OF demo_reaches] demo_login_starts by metis
  have parse: "bearers_parse (au_env demo_config) (demo_ambient (CHR ''v''))"
    by (simp add: bearers_parse_def TOKEN_SECRET_LEN_def)
  have "\<exists>p. p \<in> set (aw_pending demo_started) \<and> account_id (pd_handle p) (aw_db demo_started) = Some (v2_tenant b)
      \<and> auth_serve demo_config (\<lambda>_. False) (demo_ambient (CHR ''v'')) (LoginFinishV2 demo_login_v2) w1 = (Inl unauthorized, w1)"
    using login_issues_working_tokens [OF reach parse s b, of "\<lambda>_. False"] by (elim exE conjE) (intro exI conjI, assumption+, simp)
  with s show ?thesis by blast
qed

end
