(* ===== verification/Wire_Cursor.thy ===== *)
theory Wire_Cursor
  imports Envelope
begin

text \<open>
  Reading of the canonical encodings of \<^verbatim>\<open>crates/pergamon-crypto\<close>: the cursor of \<^verbatim>\<open>src/wire.rs\<close> with
  its bounds checks, the big-endian integers and the UTF-8 check of the standard library it relies
  on, and the one generic fact the decoders need: what a reader accepts is exactly what the
  matching writer writes (\<open>reads\<close>).
\<close>

section \<open>Big-endian integers\<close>

definition be_word :: "string \<Rightarrow> 'a::len word" where
  "be_word bs = of_nat (fold (\<lambda>c n. 256 * n + of_char c) bs 0)"

definition be64 :: "u64 \<Rightarrow> string" where
  "be64 x = map (\<lambda>k. char_of (unat (drop_bit (8 * k) x))) [7, 6, 5, 4, 3, 2, 1, 0]"

section \<open>UTF-8\<close>

text \<open>How many continuation bytes follow a first byte, and which second bytes it admits
  (\<open>String::from_utf8\<close>: no overlong forms, no surrogates, nothing past \<open>U+10FFFF\<close>).\<close>

definition utf8_more :: "nat \<Rightarrow> nat option" where
  "utf8_more a =
     (if a < 128 then Some 0 else if a < 194 then None else if a < 224 then Some 1
      else if a < 240 then Some 2 else if a < 245 then Some 3 else None)"

definition utf8_second :: "nat \<Rightarrow> nat \<Rightarrow> bool" where
  "utf8_second a b \<longleftrightarrow>
     (if a = 224 then 160 else if a = 240 then 144 else 128) \<le> b
     \<and> b \<le> (if a = 237 then 159 else if a = 244 then 143 else 191)"

fun utf8_valid :: "string \<Rightarrow> bool" where
  "utf8_valid [] = True"
| "utf8_valid (c # cs) =
     (case utf8_more (of_char c) of
        None \<Rightarrow> False
      | Some n \<Rightarrow> n \<le> length cs
          \<and> (n > 0 \<longrightarrow> utf8_second (of_char c) (of_char (hd cs)))
          \<and> list_all (\<lambda>d. 128 \<le> (of_char d :: nat) \<and> (of_char d :: nat) < 192) (take n cs)
          \<and> utf8_valid (drop n cs))"

lemma utf8_ascii: "list_all (\<lambda>c. (of_char c :: nat) < 128) s \<Longrightarrow> utf8_valid s"
  by (induction s) (auto simp: utf8_more_def)

section \<open>The cursor\<close>

record cursor =
  cu_bytes :: string
  cu_pos :: nat

type_synonym 'a reader = "cursor \<Rightarrow> crypto_error + ('a \<times> cursor)"

definition cursor_new :: "string \<Rightarrow> cursor" where
  "cursor_new bytes = \<lparr>cu_bytes = bytes, cu_pos = 0\<rparr>"

definition take_bytes :: "nat \<Rightarrow> string reader" where
  "take_bytes len cur =
     (let end_pos = cu_pos cur + len in
      if end_pos \<ge> 2 ^ 64 then Inl (Malformed ''wire length overflow'')
      else if end_pos > length (cu_bytes cur) then Inl (Malformed ''wire input truncated'')
      else Inr (take len (drop (cu_pos cur) (cu_bytes cur)), cur\<lparr>cu_pos := end_pos\<rparr>))"

definition expect_tag :: "string \<Rightarrow> unit reader" where
  "expect_tag tag cur =
     bindR (take_bytes (length tag) cur) (\<lambda>(got, cur).
       if got = tag then Inr ((), cur) else Inl (Malformed ''wire tag mismatch''))"

definition read_u32 :: "u32 reader" where
  "read_u32 cur = bindR (take_bytes 4 cur) (\<lambda>(b, cur). Inr (be_word b, cur))"

definition read_i64 :: "u64 reader" where
  "read_i64 cur = bindR (take_bytes 8 cur) (\<lambda>(b, cur). Inr (be_word b, cur))"

definition read_array :: "nat \<Rightarrow> string reader" where
  "read_array n cur = take_bytes n cur"

definition read_string :: "nat \<Rightarrow> string reader" where
  "read_string len cur =
     bindR (take_bytes len cur) (\<lambda>(b, cur).
       if utf8_valid b then Inr (b, cur) else Inl (Malformed ''wire string not utf-8''))"

definition read_u8 :: "nat reader" where
  "read_u8 cur = bindR (take_bytes 1 cur) (\<lambda>(b, cur). Inr (of_char (b ! 0), cur))"

definition expect_end :: "cursor \<Rightarrow> crypto_error + unit" where
  "expect_end cur =
     (if cu_pos cur = length (cu_bytes cur) then Inr ()
      else Inl (Malformed ''trailing bytes after wire record''))"

section \<open>Integers and their bytes\<close>

abbreviation value_of :: "string \<Rightarrow> nat" where
  "value_of bs \<equiv> fold (\<lambda>c n. 256 * n + of_char c) bs 0"

definition be_digits :: "nat \<Rightarrow> 'a::len word \<Rightarrow> string" where
  "be_digits n x = map (\<lambda>k. char_of (unat (drop_bit (8 * k) x))) (rev [0..<n])"

lemma be_digits_Suc: "be_digits (Suc n) x = char_of (unat (drop_bit (8 * n) x)) # be_digits n x"
  by (simp add: be_digits_def)

lemma length_be_digits [simp]: "length (be_digits n x) = n"
  by (simp add: be_digits_def)

lemma be_digits: "to_be_bytes x = be_digits 4 x" "be64 y = be_digits 8 y"
  by (simp_all add: to_be_bytes_def be64_def be_digits_def byte_def upt_rec)

lemma fold_be: "fold (\<lambda>c n. 256 * n + of_char c) bs (m :: nat) = 256 ^ length bs * m + value_of bs"
proof (induction bs arbitrary: m)
  case Nil
  then show ?case by simp
next
  case (Cons c bs)
  have "fold (\<lambda>c n. 256 * n + of_char c) bs (of_char c) = 256 ^ length bs * of_char c + value_of bs"
    by (rule Cons.IH)
  moreover have "fold (\<lambda>c n. 256 * n + of_char c) bs (256 * m + of_char c)
      = 256 ^ length bs * (256 * m + of_char c) + value_of bs"
    by (rule Cons.IH)
  ultimately show ?case by (simp add: add_mult_distrib2 mult.assoc mult.left_commute)
qed

lemma char_less_256: "of_char c < (256 :: nat)"
  using nat_of_char_less_256 [of c] by simp

lemma value_bound: "value_of bs < 256 ^ length bs"
proof (induction bs rule: rev_induct)
  case (snoc c bs)
  have "of_char c < (256 :: nat)" by (rule char_less_256)
  with snoc have "256 * value_of bs + of_char c < 256 * 256 ^ length bs" by linarith
  then show ?case by simp
qed simp

lemma value_digit:
  assumes "k < length bs"
  shows "value_of bs div 256 ^ k mod 256 = of_char (rev bs ! k)"
  using assms
proof (induction bs arbitrary: k rule: rev_induct)
  case (snoc c bs)
  have c: "of_char c < (256 :: nat)" by (rule char_less_256)
  show ?case
  proof (cases k)
    case 0
    with c show ?thesis by simp
  next
    case (Suc j)
    have "(256 * value_of bs + of_char c) div 256 ^ k = value_of bs div 256 ^ j"
      using c by (simp add: Suc div_mult2_eq)
    with snoc Suc show ?thesis by simp
  qed
qed simp

lemma digit_eq: "(of_char (char_of (unat (drop_bit (8 * k) (x :: 'a::len word))) :: char) :: nat) = unat x div 256 ^ k mod 256"
  by (simp add: unat_drop_bit_eq drop_bit_nat_def power_mult del: drop_bit_eq_div)

lemma value_be_digits: "value_of (be_digits n (x :: 'a::len word)) = unat x mod 256 ^ n"
proof (induction n)
  case 0
  then show ?case by (simp add: be_digits_def)
next
  case (Suc n)
  have "unat x mod 256 ^ Suc n = 256 ^ n * (unat x div 256 ^ n mod 256) + unat x mod 256 ^ n"
    by (simp add: mod_mult2_eq mult.commute [of 256])
  moreover have "value_of (be_digits (Suc n) x) = 256 ^ n * (unat x div 256 ^ n mod 256) + value_of (be_digits n x)"
    using fold_be [of "be_digits n x" "unat x div 256 ^ n mod 256"]
    by (simp add: be_digits_Suc digit_eq del: of_char_of)
  ultimately show ?case by (simp add: Suc)
qed

lemma be_word_digits:
  assumes "8 * n = LENGTH('a::len)"
  shows "be_word (be_digits n x) = (x :: 'a word)"
proof -
  have "unat x < 256 ^ n" using unsigned_less [of x] by (simp add: assms [symmetric] power_mult)
  then show ?thesis by (simp add: be_word_def value_be_digits)
qed

lemma be_digits_word:
  assumes "length bs = n" and "8 * n = LENGTH('a::len)"
  shows "be_digits n (be_word bs :: 'a word) = bs"
proof (rule nth_equalityI)
  show "length (be_digits n (be_word bs :: 'a word)) = length bs" using assms by simp
next
  fix i assume "i < length (be_digits n (be_word bs :: 'a word))"
  then have i: "i < n" by simp
  have v: "unat (be_word bs :: 'a word) = value_of bs"
  proof -
    have "value_of bs < 2 ^ LENGTH('a)" using value_bound [of bs] by (simp add: assms(1) assms(2) [symmetric] power_mult)
    then show ?thesis by (simp add: be_word_def unat_of_nat)
  qed
  have "of_char (be_digits n (be_word bs :: 'a word) ! i) = (of_char (rev bs ! (n - Suc i)) :: nat)"
    using i assms(1) value_digit [of "n - Suc i" bs]
    by (simp add: be_digits_def rev_nth digit_eq v del: of_char_of)
  then show "be_digits n (be_word bs :: 'a word) ! i = bs ! i"
    using i assms(1) by (simp add: rev_nth)
qed

section \<open>Reading what was written\<close>

text \<open>A cursor that has consumed \<open>pre\<close> and has \<open>rest\<close> ahead. Buffers are shorter than
  \<open>2\<^sup>6\<^sup>4\<close>, as every \<open>usize\<close> is.\<close>

definition at :: "string \<Rightarrow> string \<Rightarrow> cursor" where
  "at pre rest = \<lparr>cu_bytes = pre @ rest, cu_pos = length pre\<rparr>"

text \<open>\<open>reads f w\<close>: at any place of a buffer, \<open>f\<close> returns \<open>x\<close> and advances over \<open>s\<close> exactly
  when \<open>w x s\<close>; \<open>w\<close> says how the writer lays \<open>x\<close> out.\<close>

definition reads :: "'a reader \<Rightarrow> ('a \<Rightarrow> string \<Rightarrow> bool) \<Rightarrow> bool" where
  "reads f w \<longleftrightarrow> (\<forall>pre rest x cur. length (pre @ rest) < 2 ^ 64 \<longrightarrow>
     (f (at pre rest) = Inr (x, cur) \<longleftrightarrow> (\<exists>s rest'. rest = s @ rest' \<and> w x s \<and> cur = at (pre @ s) rest')))"

lemma readsD:
  "reads f w \<Longrightarrow> length (pre @ rest) < 2 ^ 64 \<Longrightarrow>
   f (at pre rest) = Inr (x, cur) \<longleftrightarrow> (\<exists>s rest'. rest = s @ rest' \<and> w x s \<and> cur = at (pre @ s) rest')"
  by (simp add: reads_def)

lemma cursor_new_at: "cursor_new bytes = at [] bytes"
  by (simp add: cursor_new_def at_def)

lemma reads_take: "reads (take_bytes n) (\<lambda>x s. x = s \<and> length s = n)"
  unfolding reads_def
proof (intro allI impI)
  fix pre rest :: string and x cur
  assume len: "length (pre @ rest) < 2 ^ 64"
  have "take_bytes n (at pre rest) = Inr (x, cur)
      \<longleftrightarrow> n \<le> length rest \<and> x = take n rest \<and> cur = at (pre @ take n rest) (drop n rest)"
    using len by (auto simp: take_bytes_def at_def Let_def)
  also have "\<dots> \<longleftrightarrow> (\<exists>s rest'. rest = s @ rest' \<and> (x = s \<and> length s = n) \<and> cur = at (pre @ s) rest')"
    by (metis append_eq_conv_conj append_take_drop_id length_append length_take min.absorb2 le_add1)
  finally show "take_bytes n (at pre rest) = Inr (x, cur) \<longleftrightarrow>
      (\<exists>s rest'. rest = s @ rest' \<and> (x = s \<and> length s = n) \<and> cur = at (pre @ s) rest')" .
qed

lemma reads_bind:
  assumes "reads f w" and "\<And>x. reads (g x) (v x)"
  shows "reads (\<lambda>cur. bindR (f cur) (\<lambda>(x, cur). g x cur)) (\<lambda>y s. \<exists>x s1 s2. s = s1 @ s2 \<and> w x s1 \<and> v x y s2)"
  unfolding reads_def
proof (intro allI impI)
  fix pre rest :: string and y cur
  assume len: "length (pre @ rest) < 2 ^ 64"
  have "bindR (f (at pre rest)) (\<lambda>(x, cur). g x cur) = Inr (y, cur)
      \<longleftrightarrow> (\<exists>x c1. f (at pre rest) = Inr (x, c1) \<and> g x c1 = Inr (y, cur))"
    by (auto simp: result_iff)
  also have "\<dots> \<longleftrightarrow> (\<exists>x s1 r1. rest = s1 @ r1 \<and> w x s1 \<and> g x (at (pre @ s1) r1) = Inr (y, cur))"
  proof -
    have f: "f (at pre rest) = Inr (x, c1) \<longleftrightarrow> (\<exists>s1 r1. rest = s1 @ r1 \<and> w x s1 \<and> c1 = at (pre @ s1) r1)" for x c1
      by (rule readsD [OF assms(1) len])
    show ?thesis unfolding f by blast
  qed
  also have "\<dots> \<longleftrightarrow> (\<exists>x s1 r1 s2 r2. rest = s1 @ r1 \<and> w x s1 \<and> r1 = s2 @ r2 \<and> v x y s2 \<and> cur = at ((pre @ s1) @ s2) r2)"
  proof -
    have "g x (at (pre @ s1) r1) = Inr (y, cur) \<longleftrightarrow> (\<exists>s2 r2. r1 = s2 @ r2 \<and> v x y s2 \<and> cur = at ((pre @ s1) @ s2) r2)"
      if "rest = s1 @ r1" for x s1 r1
      by (rule readsD [OF assms(2)]) (use len that in simp)
    then show ?thesis by (simp cong: conj_cong)
  qed
  also have "\<dots> \<longleftrightarrow> (\<exists>s rest'. rest = s @ rest' \<and> (\<exists>x s1 s2. s = s1 @ s2 \<and> w x s1 \<and> v x y s2) \<and> cur = at (pre @ s) rest')"
    unfolding append.assoc [symmetric] by (metis append.assoc)
  finally show "bindR (f (at pre rest)) (\<lambda>(x, cur). g x cur) = Inr (y, cur) \<longleftrightarrow>
     (\<exists>s rest'. rest = s @ rest' \<and> (\<exists>x s1 s2. s = s1 @ s2 \<and> w x s1 \<and> v x y s2) \<and> cur = at (pre @ s) rest')" .
qed

lemma reads_ret: "reads (\<lambda>cur. Inr (x, cur)) (\<lambda>y s. y = x \<and> s = [])"
  by (auto simp: reads_def at_def)

lemma reads_check: "reads (\<lambda>cur. if b then Inr (x, cur) else Inl e) (\<lambda>y s. b \<and> y = x \<and> s = [])"
  by (auto simp: reads_def at_def)

lemma reads_iff: "reads f w \<Longrightarrow> (\<And>x s. w x s \<longleftrightarrow> v x s) \<Longrightarrow> reads f v"
  by (simp add: reads_def)

lemma be_word_iff:
  "x = be_word b \<and> length b = 4 \<longleftrightarrow> b = to_be_bytes (x :: u32)"
  "y = be_word b \<and> length b = 8 \<longleftrightarrow> b = be64 (y :: u64)"
  by (auto simp: be_digits be_word_digits be_digits_word)

lemma be_word_be [simp]: "be_word (to_be_bytes x) = x" "be_word (be64 y) = y"
  by (simp_all add: be_digits be_word_digits)

lemma reads_u32: "reads read_u32 (\<lambda>x s. s = to_be_bytes x)"
  unfolding read_u32_def
  by (rule reads_iff [OF reads_bind [OF reads_take reads_ret]]) (auto simp flip: be_word_iff)

lemma reads_i64: "reads read_i64 (\<lambda>x s. s = be64 x)"
  unfolding read_i64_def
  by (rule reads_iff [OF reads_bind [OF reads_take reads_ret]]) (auto simp flip: be_word_iff)

lemma reads_array: "reads (read_array n) (\<lambda>x s. x = s \<and> length s = n)"
  unfolding read_array_def by (rule reads_take)

lemma reads_string: "reads (read_string n) (\<lambda>x s. x = s \<and> length s = n \<and> utf8_valid s)"
  unfolding read_string_def
  by (rule reads_iff [OF reads_bind [OF reads_take reads_check]]) auto

lemma reads_u8: "reads read_u8 (\<lambda>x s. s = [char_of x] \<and> x < 256)"
  unfolding read_u8_def
  by (rule reads_iff [OF reads_bind [OF reads_take reads_ret]]) (auto simp: length_Suc_conv)

lemma reads_tag: "reads (expect_tag tag) (\<lambda>x s. s = tag)"
  unfolding expect_tag_def
  by (rule reads_iff [OF reads_bind [OF reads_take reads_check]]) auto

text \<open>A whole buffer: the record and nothing after it.\<close>

lemma reads_whole:
  assumes "reads f w" and "length bytes < 2 ^ 64"
  shows "bindR (f (cursor_new bytes)) (\<lambda>(x, cur). bindR (expect_end cur) (\<lambda>_. Inr x)) = Inr y \<longleftrightarrow> w y bytes"
proof -
  have end_iff: "expect_end (at pre rest) = Inr () \<longleftrightarrow> rest = []" for pre rest
    by (simp add: expect_end_def at_def)
  have "bindR (f (at [] bytes)) (\<lambda>(x, cur). bindR (expect_end cur) (\<lambda>_. Inr x)) = Inr y
      \<longleftrightarrow> (\<exists>cur. f (at [] bytes) = Inr (y, cur) \<and> expect_end cur = Inr ())"
    by (auto simp: result_iff)
  also have "\<dots> \<longleftrightarrow> (\<exists>s rest. bytes = s @ rest \<and> w y s \<and> expect_end (at s rest) = Inr ())"
    using readsD [OF assms(1), of "[]" bytes] assms(2) by auto
  also have "\<dots> \<longleftrightarrow> w y bytes" by (simp add: end_iff)
  finally show ?thesis by (simp add: cursor_new_at)
qed

section \<open>Enumerations sent as one byte\<close>

locale tagged_enum =
  fixes tag :: "'a \<Rightarrow> nat" and from_tag :: "nat \<Rightarrow> 'a option"
  assumes from_tag: "from_tag (tag x) = Some x"
    and tag_from: "from_tag t = Some x \<Longrightarrow> t = tag x"
    and tag_byte: "tag x < 256"
begin

lemma of_tag_iff: "from_tag t = Some x \<longleftrightarrow> t = tag x"
  using from_tag tag_from by blast

lemma char_tag_inj: "(char_of (tag x) :: char) = char_of (tag y) \<longleftrightarrow> x = y"
proof
  assume "(char_of (tag x) :: char) = char_of (tag y)"
  then have "(of_char (char_of (tag x) :: char) :: nat) = of_char (char_of (tag y) :: char)" by (rule arg_cong)
  then have "tag x = tag y" by (simp add: tag_byte)
  then have "from_tag (tag x) = from_tag (tag y)" by (rule arg_cong)
  then show "x = y" by (simp only: from_tag option.inject)
qed simp

end

end
