(* ===== verification/Device_Trust.thy ===== *)
theory Device_Trust
  imports Wire_Cursor
begin

text \<open>
  What a device says of itself and of others: \<^verbatim>\<open>crates/pergamon-crypto/src/device.rs\<close> (its two key
  pairs, the handle derived from its signing key, the self-signed roster record) and
  \<^verbatim>\<open>src/attestation.rs\<close> (signed statements that grant or withdraw trust). Curve operations are
  third-party code: \<open>key_prims\<close> adds what this part uses to \<open>prims\<close>.
\<close>

record key_prims =
  kp_prims :: prims
  x25519_public :: "string \<Rightarrow> string"
  diffie_hellman :: "string \<Rightarrow> string \<Rightarrow> string"
  ed25519_public :: "string \<Rightarrow> string"
  argon2id_kek :: "string \<Rightarrow> string \<Rightarrow> string option"

section \<open>Devices\<close>

definition DEVICE_ID_BYTES :: nat where
  "DEVICE_ID_BYTES = 16"

definition DEVICE_RECORD_TAG :: string where
  "DEVICE_RECORD_TAG = ''pergamon/v1/device-record''"

definition DEVICE_RECORD_WIRE_TAG :: string where
  "DEVICE_RECORD_WIRE_TAG = ''pergamon/v1/device-record-wire''"

definition device_id_of_ed25519 :: "key_prims \<Rightarrow> string \<Rightarrow> string" where
  "device_id_of_ed25519 K pub = to_hex (take DEVICE_ID_BYTES (blake3_hash (kp_prims K) pub))"

record device_keys =
  dk_x25519_secret :: string
  dk_x25519_public :: string
  dk_ed25519_signing :: string
  dk_ed25519_verifying :: string
  dk_device_id :: string

text \<open>\<open>generate\<close> draws the two secrets; the rest is \<open>from_secrets\<close>.\<close>

definition from_secrets :: "key_prims \<Rightarrow> string \<Rightarrow> string \<Rightarrow> device_keys" where
  "from_secrets K x25519_secret ed25519_signing =
     (let x25519_pub = x25519_public K x25519_secret;
          ed25519_verifying = ed25519_public K ed25519_signing
      in \<lparr>dk_x25519_secret = x25519_secret, dk_x25519_public = x25519_pub,
          dk_ed25519_signing = ed25519_signing, dk_ed25519_verifying = ed25519_verifying,
          dk_device_id = device_id_of_ed25519 K ed25519_verifying\<rparr>)"

record device_record =
  dv_device_id :: string
  dv_x25519_pub :: string
  dv_ed25519_pub :: string
  dv_created_at :: u64

record signed_record =
  sr_record :: device_record
  sr_signature :: string

definition record_signing_bytes :: "device_record \<Rightarrow> string" where
  "record_signing_bytes r =
     (let b = DEVICE_RECORD_TAG;
          b = b @ to_be_bytes (u32_len (length (dv_device_id r))) @ dv_device_id r;
          b = b @ dv_x25519_pub r @ dv_ed25519_pub r
      in b @ be64 (dv_created_at r))"

definition device_sign :: "key_prims \<Rightarrow> device_keys \<Rightarrow> string \<Rightarrow> string" where
  "device_sign K keys msg = ed25519_sign (kp_prims K) (dk_ed25519_signing keys) msg"

definition sign_record :: "key_prims \<Rightarrow> device_keys \<Rightarrow> u64 \<Rightarrow> signed_record" where
  "sign_record K keys created_at =
     (let r = \<lparr>dv_device_id = dk_device_id keys, dv_x25519_pub = dk_x25519_public keys,
               dv_ed25519_pub = dk_ed25519_verifying keys, dv_created_at = created_at\<rparr>
      in \<lparr>sr_record = r, sr_signature = device_sign K keys (record_signing_bytes r)\<rparr>)"

definition record_verify :: "key_prims \<Rightarrow> signed_record \<Rightarrow> crypto_error + unit" where
  "record_verify K s =
     (let r = sr_record s in
      if device_id_of_ed25519 K (dv_ed25519_pub r) \<noteq> dv_device_id r
      then Inl (Malformed ''device_id does not match ed25519 public key'')
      else ed25519_verify (kp_prims K) (dv_ed25519_pub r) (record_signing_bytes r) (sr_signature s))"

definition record_to_bytes :: "signed_record \<Rightarrow> string" where
  "record_to_bytes s =
     (let r = sr_record s;
          b = DEVICE_RECORD_WIRE_TAG;
          b = b @ to_be_bytes (u32_len (length (dv_device_id r))) @ dv_device_id r;
          b = b @ dv_x25519_pub r @ dv_ed25519_pub r;
          b = b @ be64 (dv_created_at r)
      in b @ sr_signature s)"

definition read_record :: "signed_record reader" where
  "read_record cur =
     bindR (expect_tag DEVICE_RECORD_WIRE_TAG cur) (\<lambda>(_, cur).
     bindR (read_u32 cur) (\<lambda>(id_len, cur).
     bindR (read_string (unat id_len) cur) (\<lambda>(device_id, cur).
     bindR (read_array KEY_LEN cur) (\<lambda>(x25519_pub, cur).
     bindR (read_array KEY_LEN cur) (\<lambda>(ed25519_pub, cur).
     bindR (read_i64 cur) (\<lambda>(created_at, cur).
     bindR (read_array SIG_LEN cur) (\<lambda>(signature, cur).
       Inr (\<lparr>sr_record = \<lparr>dv_device_id = device_id, dv_x25519_pub = x25519_pub, dv_ed25519_pub = ed25519_pub,
                          dv_created_at = created_at\<rparr>, sr_signature = signature\<rparr>, cur))))))))"

definition record_from_bytes :: "string \<Rightarrow> crypto_error + signed_record" where
  "record_from_bytes bytes =
     bindR (read_record (cursor_new bytes)) (\<lambda>(s, cur). bindR (expect_end cur) (\<lambda>_. Inr s))"

section \<open>Attestations\<close>

definition ATTESTATION_TAG :: string where
  "ATTESTATION_TAG = ''pergamon/v1/attestation''"

definition ATTESTATION_WIRE_TAG :: string where
  "ATTESTATION_WIRE_TAG = ''pergamon/v1/attestation-wire''"

datatype attestation_kind = Trust | Revoke

fun kind_tag :: "attestation_kind \<Rightarrow> nat" where
  "kind_tag Trust = 1"
| "kind_tag Revoke = 2"

definition kind_from_tag :: "nat \<Rightarrow> attestation_kind option" where
  "kind_from_tag t = (if t = 1 then Some Trust else if t = 2 then Some Revoke else None)"

record attestation =
  at_kind :: attestation_kind
  at_signer_device_id :: string
  at_signer_ed25519_pub :: string
  at_subject_device_id :: string
  at_subject_ed25519_pub :: string
  at_key_epoch :: u32
  at_issued_at :: u64

record signed_attestation =
  sa_attestation :: attestation
  sa_signature :: string

definition attestation_signing_bytes :: "attestation \<Rightarrow> string" where
  "attestation_signing_bytes a =
     (let b = ATTESTATION_TAG @ [char_of (kind_tag (at_kind a))];
          b = push_lp b (at_signer_device_id a) @ at_signer_ed25519_pub a;
          b = push_lp b (at_subject_device_id a) @ at_subject_ed25519_pub a
      in b @ to_be_bytes (at_key_epoch a) @ be64 (at_issued_at a))"

definition attestation_verify :: "key_prims \<Rightarrow> signed_attestation \<Rightarrow> crypto_error + unit" where
  "attestation_verify K s =
     (let a = sa_attestation s in
      if device_id_of_ed25519 K (at_signer_ed25519_pub a) \<noteq> at_signer_device_id a
      then Inl (Malformed ''signer device_id does not match its ed25519 key'')
      else if device_id_of_ed25519 K (at_subject_ed25519_pub a) \<noteq> at_subject_device_id a
      then Inl (Malformed ''subject device_id does not match its ed25519 key'')
      else ed25519_verify (kp_prims K) (at_signer_ed25519_pub a) (attestation_signing_bytes a) (sa_signature s))"

definition attestation_to_bytes :: "signed_attestation \<Rightarrow> string" where
  "attestation_to_bytes s =
     (let a = sa_attestation s;
          b = ATTESTATION_WIRE_TAG @ [char_of (kind_tag (at_kind a))];
          b = push_lp b (at_signer_device_id a) @ at_signer_ed25519_pub a;
          b = push_lp b (at_subject_device_id a) @ at_subject_ed25519_pub a;
          b = b @ to_be_bytes (at_key_epoch a) @ be64 (at_issued_at a)
      in b @ sa_signature s)"

definition read_kind :: "attestation_kind reader" where
  "read_kind cur =
     bindR (read_u8 cur) (\<lambda>(t, cur). case kind_from_tag t of
       Some k \<Rightarrow> Inr (k, cur) | None \<Rightarrow> Inl (Malformed ''unknown attestation kind''))"

definition read_attestation :: "signed_attestation reader" where
  "read_attestation cur =
     bindR (expect_tag ATTESTATION_WIRE_TAG cur) (\<lambda>(_, cur).
     bindR (read_kind cur) (\<lambda>(kind, cur).
     bindR (read_u32 cur) (\<lambda>(signer_len, cur).
     bindR (read_string (unat signer_len) cur) (\<lambda>(signer_device_id, cur).
     bindR (read_array KEY_LEN cur) (\<lambda>(signer_ed25519_pub, cur).
     bindR (read_u32 cur) (\<lambda>(subject_len, cur).
     bindR (read_string (unat subject_len) cur) (\<lambda>(subject_device_id, cur).
     bindR (read_array KEY_LEN cur) (\<lambda>(subject_ed25519_pub, cur).
     bindR (read_u32 cur) (\<lambda>(key_epoch, cur).
     bindR (read_i64 cur) (\<lambda>(issued_at, cur).
     bindR (read_array SIG_LEN cur) (\<lambda>(signature, cur).
       Inr (\<lparr>sa_attestation = \<lparr>at_kind = kind, at_signer_device_id = signer_device_id,
               at_signer_ed25519_pub = signer_ed25519_pub, at_subject_device_id = subject_device_id,
               at_subject_ed25519_pub = subject_ed25519_pub, at_key_epoch = key_epoch, at_issued_at = issued_at\<rparr>,
             sa_signature = signature\<rparr>, cur))))))))))))"

definition attestation_from_bytes :: "string \<Rightarrow> crypto_error + signed_attestation" where
  "attestation_from_bytes bytes =
     bindR (read_attestation (cursor_new bytes)) (\<lambda>(s, cur). bindR (expect_end cur) (\<lambda>_. Inr s))"

definition attest :: "key_prims \<Rightarrow> device_keys \<Rightarrow> attestation_kind \<Rightarrow> device_record \<Rightarrow> u32 \<Rightarrow> u64 \<Rightarrow> signed_attestation" where
  "attest K signer kind subject key_epoch issued_at =
     (let a = \<lparr>at_kind = kind, at_signer_device_id = dk_device_id signer,
               at_signer_ed25519_pub = dk_ed25519_verifying signer, at_subject_device_id = dv_device_id subject,
               at_subject_ed25519_pub = dv_ed25519_pub subject, at_key_epoch = key_epoch, at_issued_at = issued_at\<rparr>
      in \<lparr>sa_attestation = a, sa_signature = device_sign K signer (attestation_signing_bytes a)\<rparr>)"

definition attest_trust :: "key_prims \<Rightarrow> device_keys \<Rightarrow> device_record \<Rightarrow> u32 \<Rightarrow> u64 \<Rightarrow> signed_attestation" where
  "attest_trust K signer subject key_epoch issued_at = attest K signer Trust subject key_epoch issued_at"

definition attest_revoke :: "key_prims \<Rightarrow> device_keys \<Rightarrow> device_record \<Rightarrow> u32 \<Rightarrow> u64 \<Rightarrow> signed_attestation" where
  "attest_revoke K signer subject new_key_epoch issued_at = attest K signer Revoke subject new_key_epoch issued_at"

section \<open>Encodings\<close>

definition record_wf :: "signed_record \<Rightarrow> bool" where
  "record_wf s \<longleftrightarrow> length (dv_device_id (sr_record s)) < 2 ^ 32 \<and> utf8_valid (dv_device_id (sr_record s))
     \<and> length (dv_x25519_pub (sr_record s)) = KEY_LEN \<and> length (dv_ed25519_pub (sr_record s)) = KEY_LEN
     \<and> length (sr_signature s) = SIG_LEN"

definition attestation_wf :: "signed_attestation \<Rightarrow> bool" where
  "attestation_wf s \<longleftrightarrow> (let a = sa_attestation s in
     length (at_signer_device_id a) < 2 ^ 32 \<and> utf8_valid (at_signer_device_id a) \<and> length (at_signer_ed25519_pub a) = KEY_LEN
     \<and> length (at_subject_device_id a) < 2 ^ 32 \<and> utf8_valid (at_subject_device_id a)
     \<and> length (at_subject_ed25519_pub a) = KEY_LEN \<and> length (sa_signature s) = SIG_LEN)"

text \<open>A length-prefixed string, as the decoders read it.\<close>

lemma lp_iff: "s1 = to_be_bytes n \<and> length s2 = unat n \<longleftrightarrow> s1 @ s2 = lp s2 \<and> length s2 < 2 ^ 32 \<and> n = u32_len (length s2)"
proof
  assume n: "s1 = to_be_bytes n \<and> length s2 = unat n"
  have "unat n < 2 ^ 32" using unsigned_less [of n] by simp
  moreover from this have "n = u32_len (unat n)" by (simp add: u32_len_def)
  ultimately show "s1 @ s2 = lp s2 \<and> length s2 < 2 ^ 32 \<and> n = u32_len (length s2)" using n by (simp add: lp_def)
qed (auto simp: lp_def unat_u32_len)

lemma reads_lp:
  assumes "\<And>x. reads (g x) (v x)"
  shows "reads (\<lambda>cur. bindR (read_u32 cur) (\<lambda>(n, cur). bindR (read_string (unat n) cur) (\<lambda>(x, cur). g x cur)))
    (\<lambda>y s. \<exists>x t. s = lp x @ t \<and> length x < 2 ^ 32 \<and> utf8_valid x \<and> v x y t)"
proof (rule reads_iff [OF reads_bind [OF reads_u32 reads_bind [OF reads_string assms]]])
  fix y s
  show "(\<exists>n s1 s2. s = s1 @ s2 \<and> s1 = to_be_bytes n \<and>
      (\<exists>x s3 s4. s2 = s3 @ s4 \<and> (x = s3 \<and> length s3 = unat n \<and> utf8_valid s3) \<and> v x y s4))
    \<longleftrightarrow> (\<exists>x t. s = lp x @ t \<and> length x < 2 ^ 32 \<and> utf8_valid x \<and> v x y t)" (is "?l \<longleftrightarrow> ?r")
  proof
    assume ?l
    then obtain n s3 s4 where "s = to_be_bytes n @ s3 @ s4" "length s3 = unat n" "utf8_valid s3" "v s3 y s4" by blast
    with lp_iff [of "to_be_bytes n" n s3] show ?r by (metis append.assoc)
  next
    assume ?r
    then obtain x t where x: "s = lp x @ t" "length x < 2 ^ 32" "utf8_valid x" "v x y t" by blast
    then have "s = to_be_bytes (u32_len (length x)) @ x @ t" "length x = unat (u32_len (length x))"
      by (simp_all add: lp_def unat_u32_len)
    with x show ?l by blast
  qed
qed

lemma record_bytes:
  "record_to_bytes \<lparr>sr_record = \<lparr>dv_device_id = d, dv_x25519_pub = x, dv_ed25519_pub = e, dv_created_at = c\<rparr>, sr_signature = g\<rparr>
     = DEVICE_RECORD_WIRE_TAG @ lp d @ x @ e @ be64 c @ g"
  by (simp add: record_to_bytes_def lp_def)

lemma reads_record: "reads read_record (\<lambda>s bytes. record_wf s \<and> bytes = record_to_bytes s)"
  unfolding read_record_def
proof (rule reads_iff [OF reads_bind [OF reads_tag reads_lp [OF reads_bind [OF reads_array reads_bind [OF reads_array
      reads_bind [OF reads_i64 reads_bind [OF reads_array reads_ret]]]]]]], rule iffI, goal_cases)
  case (1 s bytes)
  then show ?case by (auto simp: record_wf_def record_bytes)
next
  case (2 s bytes)
  obtain d x e c g where s: "s = \<lparr>sr_record = \<lparr>dv_device_id = d, dv_x25519_pub = x, dv_ed25519_pub = e, dv_created_at = c\<rparr>,
      sr_signature = g\<rparr>"
    by (metis device_record.cases signed_record.cases)
  from 2 have wf: "length d < 2 ^ 32" "utf8_valid d" "length x = KEY_LEN" "length e = KEY_LEN" "length g = SIG_LEN"
    and b: "bytes = DEVICE_RECORD_WIRE_TAG @ lp d @ x @ e @ be64 c @ g"
    by (simp_all add: s record_wf_def record_bytes)
  show ?case unfolding b s by (intro exI conjI) (rule refl wf append_Nil2 [symmetric])+
qed

interpretation kind_byte: tagged_enum kind_tag kind_from_tag
proof unfold_locales
  fix k show "kind_from_tag (kind_tag k) = Some k" "kind_tag k < 256" by (cases k; simp add: kind_from_tag_def)+
qed (auto simp: kind_from_tag_def split: if_splits)

lemma reads_kind: "reads read_kind (\<lambda>k s. s = [char_of (kind_tag k)])"
proof -
  have *: "reads (\<lambda>cur. case kind_from_tag t of Some k \<Rightarrow> Inr (k, cur) | None \<Rightarrow> Inl (Malformed ''unknown attestation kind''))
      (\<lambda>k s. kind_from_tag t = Some k \<and> s = [])" for t
    by (auto simp: reads_def at_def split: option.splits)
  show ?thesis
    unfolding read_kind_def
    by (rule reads_iff [OF reads_bind [OF reads_u8 *]]) (auto simp: kind_byte.of_tag_iff kind_byte.tag_byte)
qed

lemma attestation_bytes:
  "attestation_to_bytes \<lparr>sa_attestation = \<lparr>at_kind = k, at_signer_device_id = i, at_signer_ed25519_pub = p,
       at_subject_device_id = j, at_subject_ed25519_pub = q, at_key_epoch = e, at_issued_at = t\<rparr>, sa_signature = g\<rparr>
     = ATTESTATION_WIRE_TAG @ [char_of (kind_tag k)] @ lp i @ p @ lp j @ q @ to_be_bytes e @ be64 t @ g"
  by (simp add: attestation_to_bytes_def push_lp_def)

lemma reads_attestation: "reads read_attestation (\<lambda>s bytes. attestation_wf s \<and> bytes = attestation_to_bytes s)"
  unfolding read_attestation_def
proof (rule reads_iff [OF reads_bind [OF reads_tag reads_bind [OF reads_kind reads_lp [OF reads_bind [OF reads_array
      reads_lp [OF reads_bind [OF reads_array reads_bind [OF reads_u32 reads_bind [OF reads_i64 reads_bind [OF reads_array reads_ret]]]]]]]]]],
      rule iffI, goal_cases)
  case (1 s bytes)
  then show ?case by (auto simp: attestation_wf_def attestation_bytes)
next
  case (2 s bytes)
  obtain k i p j q e t g where s: "s = \<lparr>sa_attestation = \<lparr>at_kind = k, at_signer_device_id = i, at_signer_ed25519_pub = p,
      at_subject_device_id = j, at_subject_ed25519_pub = q, at_key_epoch = e, at_issued_at = t\<rparr>, sa_signature = g\<rparr>"
    by (metis attestation.cases signed_attestation.cases)
  from 2 have wf: "length i < 2 ^ 32" "utf8_valid i" "length p = KEY_LEN" "length j < 2 ^ 32" "utf8_valid j"
      "length q = KEY_LEN" "length g = SIG_LEN"
    and b: "bytes = ATTESTATION_WIRE_TAG @ [char_of (kind_tag k)] @ lp i @ p @ lp j @ q @ to_be_bytes e @ be64 t @ g"
    by (simp_all add: s attestation_wf_def attestation_bytes)
  show ?case unfolding b s by (intro exI conjI) (rule refl wf append_Nil2 [symmetric])+
qed

section \<open>Round trips\<close>

lemma record_from_bytes_iff:
  "length bytes < 2 ^ 64 \<Longrightarrow> record_from_bytes bytes = Inr s \<longleftrightarrow> record_wf s \<and> bytes = record_to_bytes s"
  unfolding record_from_bytes_def by (rule reads_whole [OF reads_record])

lemma attestation_from_bytes_iff:
  "length bytes < 2 ^ 64 \<Longrightarrow> attestation_from_bytes bytes = Inr s \<longleftrightarrow> attestation_wf s \<and> bytes = attestation_to_bytes s"
  unfolding attestation_from_bytes_def by (rule reads_whole [OF reads_attestation])

lemma lengths [simp]: "length (be64 x) = 8" "length (lp s) = 4 + length s"
  by (simp_all add: be64_def lp_def)

lemma record_round_trip: "record_wf s \<Longrightarrow> record_from_bytes (record_to_bytes s) = Inr s"
  by (subst record_from_bytes_iff)
    (simp_all add: record_wf_def record_to_bytes_def DEVICE_RECORD_WIRE_TAG_def KEY_LEN_def SIG_LEN_def Let_def)

lemma attestation_round_trip: "attestation_wf s \<Longrightarrow> attestation_from_bytes (attestation_to_bytes s) = Inr s"
  by (subst attestation_from_bytes_iff)
    (simp_all add: attestation_wf_def attestation_to_bytes_def ATTESTATION_WIRE_TAG_def KEY_LEN_def SIG_LEN_def push_lp_def Let_def)

section \<open>What a device signs verifies\<close>

text \<open>The contract of Ed25519: a signature verifies under the key of its seed, and both have their
  lengths.\<close>

definition ed25519_ok :: "key_prims \<Rightarrow> bool" where
  "ed25519_ok K \<longleftrightarrow> (\<forall>seed m. ed25519_verify (kp_prims K) (ed25519_public K seed) m (ed25519_sign (kp_prims K) seed m) = Inr ()
     \<and> length (ed25519_sign (kp_prims K) seed m) = SIG_LEN) \<and> (\<forall>seed. length (ed25519_public K seed) = KEY_LEN)
     \<and> (\<forall>s. length (x25519_public K s) = KEY_LEN)"

definition own_keys :: "key_prims \<Rightarrow> device_keys \<Rightarrow> bool" where
  "own_keys K keys \<longleftrightarrow> dk_x25519_public keys = x25519_public K (dk_x25519_secret keys)
     \<and> dk_ed25519_verifying keys = ed25519_public K (dk_ed25519_signing keys)
     \<and> dk_device_id keys = device_id_of_ed25519 K (dk_ed25519_verifying keys)"

lemma own_keys_from_secrets [simp]: "own_keys K (from_secrets K x e)"
  by (simp add: own_keys_def from_secrets_def Let_def)

lemma own_keysD:
  assumes "own_keys K keys"
  shows "dk_x25519_public keys = x25519_public K (dk_x25519_secret keys)"
    "dk_ed25519_verifying keys = ed25519_public K (dk_ed25519_signing keys)"
    "dk_device_id keys = device_id_of_ed25519 K (dk_ed25519_verifying keys)"
  using assms by (simp_all add: own_keys_def)

lemma device_id_wf: "length (device_id_of_ed25519 K pub) \<le> 32" "utf8_valid (device_id_of_ed25519 K pub)"
proof -
  have "length (to_hex s) = 2 * length s" for s by (induction s) (simp_all add: to_hex_def)
  then show "length (device_id_of_ed25519 K pub) \<le> 32" by (simp add: device_id_of_ed25519_def DEVICE_ID_BYTES_def)
  have d: "(of_char (hex_digit n) :: nat) < 128" if "n < 16" for n using that by (simp add: hex_digit_def)
  have "list_all (\<lambda>c. (of_char c :: nat) < 128) (to_hex s)" for s
  proof (induction s)
    case (Cons c s)
    have "(of_char c :: nat) div 16 < 16" using nat_of_char_less_256 [of c] by (simp add: less_mult_imp_div_less)
    with Cons show ?case by (simp add: to_hex_def d)
  qed (simp add: to_hex_def)
  then show "utf8_valid (device_id_of_ed25519 K pub)" unfolding device_id_of_ed25519_def by (rule utf8_ascii)
qed

lemma sign_record_wf:
  assumes "ed25519_ok K" and "own_keys K keys"
  shows "record_wf (sign_record K keys t)" "record_verify K (sign_record K keys t) = Inr ()"
    "dv_device_id (sr_record (sign_record K keys t)) = dk_device_id keys"
    "dv_x25519_pub (sr_record (sign_record K keys t)) = dk_x25519_public keys"
    "dv_ed25519_pub (sr_record (sign_record K keys t)) = dk_ed25519_verifying keys"
proof -
  note k = own_keysD [OF assms(2)]
  have "length (dk_device_id keys) < 2 ^ 32" using device_id_wf(1) [of K "dk_ed25519_verifying keys"] by (simp add: k(3))
  then show "record_wf (sign_record K keys t)"
    using assms(1) device_id_wf(2) [of K "dk_ed25519_verifying keys"]
    by (simp add: record_wf_def sign_record_def device_sign_def ed25519_ok_def k Let_def)
  show "record_verify K (sign_record K keys t) = Inr ()"
    using assms(1) by (simp add: record_verify_def sign_record_def device_sign_def ed25519_ok_def k Let_def)
qed (simp_all add: sign_record_def Let_def)

lemma attest_wf:
  assumes "ed25519_ok K" and "own_keys K keys"
    and "length (dv_ed25519_pub r) = KEY_LEN" and "dv_device_id r = device_id_of_ed25519 K (dv_ed25519_pub r)"
  shows "attestation_wf (attest K keys k r e t)" "attestation_verify K (attest K keys k r e t) = Inr ()"
proof -
  note k = own_keysD [OF assms(2)]
  have "length (dk_device_id keys) < 2 ^ 32" "length (dv_device_id r) < 2 ^ 32"
    using device_id_wf(1) [of K "dk_ed25519_verifying keys"] device_id_wf(1) [of K "dv_ed25519_pub r"]
    by (simp_all add: k(3) assms(4))
  then show "attestation_wf (attest K keys k r e t)"
    using assms device_id_wf(2) [of K "dk_ed25519_verifying keys"] device_id_wf(2) [of K "dv_ed25519_pub r"]
    by (simp add: attestation_wf_def attest_def device_sign_def ed25519_ok_def k Let_def)
  show "attestation_verify K (attest K keys k r e t) = Inr ()"
    using assms by (simp add: attestation_verify_def attest_def device_sign_def ed25519_ok_def k Let_def)
qed

end
