(* ===== verification/Sealed_Keys.thy ===== *)
theory Sealed_Keys
  imports Device_Trust
begin

text \<open>
  How account keys travel: the sealed boxes of \<^verbatim>\<open>crates/pergamon-crypto/src/primitives.rs\<close> and the
  three things put into boxes or wraps: the enrollment bundle of a new device and the short
  authentication string shown for it (\<^verbatim>\<open>enrollment.rs\<close>), the epoch key handed to the devices that
  remain after a revocation (\<^verbatim>\<open>rotation.rs\<close>), and the root key under a recovery secret
  (\<^verbatim>\<open>recovery.rs\<close>). Randomness is an argument: \<open>eph\<close> the ephemeral scalar, \<open>nonce\<close> the AEAD's.
\<close>

section \<open>Sealed boxes\<close>

definition SEALED_BOX_INFO :: string where
  "SEALED_BOX_INFO = ''pergamon/v1/sealed-box''"

definition sealed_box_key :: "key_prims \<Rightarrow> string \<Rightarrow> string \<Rightarrow> string \<Rightarrow> string" where
  "sealed_box_key K shared eph_pub recip_pub =
     hkdf_sha256 (kp_prims K) KEY_LEN shared (SEALED_BOX_INFO @ eph_pub @ recip_pub)"

definition seal_to :: "key_prims \<Rightarrow> string \<Rightarrow> string \<Rightarrow> string \<Rightarrow> string \<Rightarrow> string \<Rightarrow> string" where
  "seal_to K eph nonce recipient_pub aad plaintext =
     (let eph_pub = x25519_public K eph;
          shared = diffie_hellman K eph recipient_pub;
          key = sealed_box_key K shared eph_pub recipient_pub
      in eph_pub @ aead_seal (kp_prims K) nonce key aad plaintext)"

definition open_sealed :: "key_prims \<Rightarrow> string \<Rightarrow> string \<Rightarrow> string \<Rightarrow> crypto_error + string" where
  "open_sealed K recipient_secret aad data =
     (if length data < KEY_LEN + NONCE_LEN + TAG_LEN then Inl (Malformed ''sealed box too short'')
      else let eph_pub = take KEY_LEN data; sealed = drop KEY_LEN data;
               recip_pub = x25519_public K recipient_secret;
               shared = diffie_hellman K recipient_secret eph_pub;
               key = sealed_box_key K shared eph_pub recip_pub
           in aead_open (kp_prims K) key aad sealed)"

section \<open>Enrollment\<close>

definition ACCOUNT_ID_LEN :: nat where
  "ACCOUNT_ID_LEN = 16"

definition SAS_TAG :: string where
  "SAS_TAG = ''pergamon/v1/enrollment-sas''"

definition BUNDLE_TAG :: string where
  "BUNDLE_TAG = ''pergamon/v1/enrollment-bundle''"

definition ENROLL_AAD_TAG :: string where
  "ENROLL_AAD_TAG = ''pergamon/v1/enrollment-aad''"

definition BUNDLE_PLAINTEXT_LEN :: nat where
  "BUNDLE_PLAINTEXT_LEN = length BUNDLE_TAG + KEY_LEN + ACCOUNT_ID_LEN + 4"

record enrollment_peer =
  ep_x25519_pub :: string
  ep_ed25519_pub :: string

definition peer_concat :: "enrollment_peer \<Rightarrow> string" where
  "peer_concat p = ep_x25519_pub p @ ep_ed25519_pub p"

text \<open>A \<open>Sas\<close> is its commitment.\<close>

definition sas_compute :: "key_prims \<Rightarrow> enrollment_peer \<Rightarrow> enrollment_peer \<Rightarrow> string" where
  "sas_compute K local remote =
     (let a = peer_concat local; b = peer_concat remote;
          (first, second) = (if a \<le> b then (a, b) else (b, a))
      in blake3_hash (kp_prims K) (SAS_TAG @ first @ second))"

text \<open>\<open>{code:012}\<close> and the grouping in fours.\<close>

definition decimal :: "nat \<Rightarrow> int \<Rightarrow> string" where
  "decimal k n = map (\<lambda>i. hex_digit (nat (n div 10 ^ i mod 10))) (rev [0..<k])"

definition sas_digits :: "string \<Rightarrow> string" where
  "sas_digits commitment =
     (let n = fold (\<lambda>b n. or (push_bit 8 n) (of_nat (of_char b))) (take 8 commitment) (0 :: u64);
          code = n mod 1000000000000;
          s = decimal 12 (uint code)
      in take 4 s @ '' '' @ take 4 (drop 4 s) @ '' '' @ drop 8 s)"

definition sas_matches :: "string \<Rightarrow> string \<Rightarrow> bool" where
  "sas_matches c d \<longleftrightarrow>
     fold (\<lambda>(x, y) diff. or diff (xor (of_nat (of_char x)) (of_nat (of_char y)))) (zip c d) (0 :: 8 word) = 0"

record enrollment_bundle =
  bn_ark :: string
  bn_account_id :: string
  bn_key_epoch :: u32

definition enrollment_aad :: "string \<Rightarrow> string" where
  "enrollment_aad recipient_device_id = ENROLL_AAD_TAG @ recipient_device_id"

definition seal_enrollment_bundle ::
  "key_prims \<Rightarrow> string \<Rightarrow> string \<Rightarrow> string \<Rightarrow> string \<Rightarrow> string \<Rightarrow> string \<Rightarrow> u32 \<Rightarrow> string" where
  "seal_enrollment_bundle K eph nonce recipient_x25519_pub recipient_device_id ark account_id key_epoch =
     (let plaintext = BUNDLE_TAG @ ark @ account_id @ to_be_bytes key_epoch
      in seal_to K eph nonce recipient_x25519_pub (enrollment_aad recipient_device_id) plaintext)"

definition open_enrollment_bundle ::
  "key_prims \<Rightarrow> string \<Rightarrow> string \<Rightarrow> string \<Rightarrow> crypto_error + enrollment_bundle" where
  "open_enrollment_bundle K recipient_x25519_secret recipient_device_id sealed =
     bindR (open_sealed K recipient_x25519_secret (enrollment_aad recipient_device_id) sealed) (\<lambda>plaintext.
       if length plaintext \<noteq> BUNDLE_PLAINTEXT_LEN \<or> take (length BUNDLE_TAG) plaintext \<noteq> BUNDLE_TAG
       then Inl (Malformed ''malformed enrollment bundle'')
       else let off = length BUNDLE_TAG;
                ark_bytes = take KEY_LEN (drop off plaintext); off = off + KEY_LEN;
                id_bytes = take ACCOUNT_ID_LEN (drop off plaintext); off = off + ACCOUNT_ID_LEN;
                epoch_bytes = take 4 (drop off plaintext)
            in Inr \<lparr>bn_ark = ark_bytes, bn_account_id = id_bytes, bn_key_epoch = be_word epoch_bytes\<rparr>)"

section \<open>Rotation\<close>

definition REWRAP_TAG :: string where
  "REWRAP_TAG = ''pergamon/v1/rewrap-bundle''"

definition REWRAP_AAD_TAG :: string where
  "REWRAP_AAD_TAG = ''pergamon/v1/rewrap-aad''"

definition REWRAP_PLAINTEXT_LEN :: nat where
  "REWRAP_PLAINTEXT_LEN = length REWRAP_TAG + 4 + KEY_LEN"

record rewrap_recipient =
  rc_device_id :: string
  rc_x25519_pub :: string

record rewrapped_key =
  rk_device_id :: string
  rk_key_epoch :: u32
  rk_sealed :: string

definition rewrap_aad :: "string \<Rightarrow> string \<Rightarrow> u32 \<Rightarrow> string" where
  "rewrap_aad account_id device_id epoch =
     REWRAP_AAD_TAG @ account_id @ to_be_bytes (u32_len (length device_id)) @ device_id @ to_be_bytes epoch"

text \<open>\<open>draw i\<close> is the ephemeral scalar and nonce of the \<open>i\<close>-th recipient.\<close>

definition rotate_and_rewrap ::
  "key_prims \<Rightarrow> (nat \<Rightarrow> string \<times> string) \<Rightarrow> string \<Rightarrow> string \<Rightarrow> u32 \<Rightarrow> rewrap_recipient list
     \<Rightarrow> content_key \<times> rewrapped_key list" where
  "rotate_and_rewrap K draw ark account_id new_epoch recipients =
     (let ack = content_key_at (kp_prims K) ark new_epoch;
          plaintext = REWRAP_TAG @ to_be_bytes new_epoch @ ack_key ack
      in (ack, map (\<lambda>(i, r).
           \<lparr>rk_device_id = rc_device_id r, rk_key_epoch = new_epoch,
            rk_sealed = seal_to K (fst (draw i)) (snd (draw i)) (rc_x25519_pub r)
                          (rewrap_aad account_id (rc_device_id r) new_epoch) plaintext\<rparr>)
           (enumerate 0 recipients)))"

definition open_rewrapped ::
  "key_prims \<Rightarrow> string \<Rightarrow> string \<Rightarrow> string \<Rightarrow> u32 \<Rightarrow> string \<Rightarrow> crypto_error + content_key" where
  "open_rewrapped K recipient_x25519_secret recipient_device_id account_id expected_epoch sealed =
     bindR (open_sealed K recipient_x25519_secret (rewrap_aad account_id recipient_device_id expected_epoch) sealed)
      (\<lambda>plaintext.
       if length plaintext \<noteq> REWRAP_PLAINTEXT_LEN \<or> take (length REWRAP_TAG) plaintext \<noteq> REWRAP_TAG
       then Inl (Malformed ''malformed re-wrap bundle'')
       else let off = length REWRAP_TAG;
                epoch = be_word (take 4 (drop off plaintext)); off = off + 4 in
            if epoch \<noteq> expected_epoch then Inl (Malformed ''re-wrap epoch mismatch'')
            else Inr \<lparr>ack_epoch = epoch, ack_key = take KEY_LEN (drop off plaintext)\<rparr>)"

section \<open>Recovery\<close>

definition RECOVERY_SALT_LEN :: nat where
  "RECOVERY_SALT_LEN = 16"

definition RECOVERY_CODE_BYTES :: nat where
  "RECOVERY_CODE_BYTES = 20"

definition RECOVERY_AAD_TAG :: string where
  "RECOVERY_AAD_TAG = ''pergamon/v1/recovery-aad''"

record recovery_blob =
  rb_salt :: string
  rb_wrapped :: string

definition blob_to_bytes :: "recovery_blob \<Rightarrow> string" where
  "blob_to_bytes b = rb_salt b @ rb_wrapped b"

definition blob_from_bytes :: "string \<Rightarrow> crypto_error + recovery_blob" where
  "blob_from_bytes bytes =
     (if length bytes \<le> RECOVERY_SALT_LEN then Inl (Malformed ''recovery blob too short'')
      else Inr \<lparr>rb_salt = take RECOVERY_SALT_LEN bytes, rb_wrapped = drop RECOVERY_SALT_LEN bytes\<rparr>)"

definition recovery_aad :: "string \<Rightarrow> string" where
  "recovery_aad account_id = RECOVERY_AAD_TAG @ account_id"

definition stretch :: "key_prims \<Rightarrow> string \<Rightarrow> string \<Rightarrow> crypto_error + string" where
  "stretch K secret salt = (case argon2id_kek K secret salt of Some k \<Rightarrow> Inr k | None \<Rightarrow> Inl KeyDerivation)"

definition enable_recovery ::
  "key_prims \<Rightarrow> string \<Rightarrow> string \<Rightarrow> string \<Rightarrow> string \<Rightarrow> string \<Rightarrow> crypto_error + recovery_blob" where
  "enable_recovery K salt nonce ark account_id secret =
     bindR (stretch K secret salt) (\<lambda>kek.
       Inr \<lparr>rb_salt = salt, rb_wrapped = aead_seal (kp_prims K) nonce kek (recovery_aad account_id) ark\<rparr>)"

definition recover :: "key_prims \<Rightarrow> recovery_blob \<Rightarrow> string \<Rightarrow> string \<Rightarrow> crypto_error + string" where
  "recover K blob account_id secret =
     bindR (stretch K secret (rb_salt blob)) (\<lambda>kek.
     bindR (aead_open (kp_prims K) kek (recovery_aad account_id) (rb_wrapped blob)) (\<lambda>plaintext.
       if length plaintext \<noteq> KEY_LEN then Inl (Malformed ''recovered key has wrong length'') else Inr plaintext))"

definition ALPHABET :: string where
  "ALPHABET = ''0123456789ABCDEFGHJKMNPQRSTVWXYZ''"

definition recovery_code :: "string \<Rightarrow> string" where
  "recovery_code raw =
     fold (\<lambda>(i, c) code.
        let byte = of_nat (of_char c) :: 8 word;
            hi = and (unat (drop_bit 3 byte)) 0x1f;
            lo = and (unat (push_bit 2 byte)) 0x1f;
            code = code @ [ALPHABET ! hi, ALPHABET ! lo]
        in if i mod 2 = 1 \<and> i + 1 \<noteq> length raw then code @ ''-'' else code)
      (enumerate 0 raw) []"

section \<open>Key packages\<close>

definition KEY_PACKAGE_MAGIC :: string where
  "KEY_PACKAGE_MAGIC = ''PGMKEY'' @ [char_of (1 :: nat), char_of (0 :: nat)]"

definition KEY_PACKAGE_VERSION :: char where
  "KEY_PACKAGE_VERSION = char_of (1 :: nat)"

definition KEY_PACKAGE_ACCOUNT_OFFSET :: nat where
  "KEY_PACKAGE_ACCOUNT_OFFSET = length KEY_PACKAGE_MAGIC + 1"

definition KEY_PACKAGE_BLOB_OFFSET :: nat where
  "KEY_PACKAGE_BLOB_OFFSET = KEY_PACKAGE_ACCOUNT_OFFSET + ACCOUNT_ID_LEN"

record key_package =
  kg_account_id :: string
  kg_blob :: recovery_blob

definition package_to_bytes :: "key_package \<Rightarrow> string" where
  "package_to_bytes p = KEY_PACKAGE_MAGIC @ [KEY_PACKAGE_VERSION] @ kg_account_id p @ blob_to_bytes (kg_blob p)"

definition package_from_bytes :: "string \<Rightarrow> crypto_error + key_package" where
  "package_from_bytes bytes =
     (if length bytes < KEY_PACKAGE_BLOB_OFFSET then Inl (Malformed ''key package too short'')
      else if take (length KEY_PACKAGE_MAGIC) bytes \<noteq> KEY_PACKAGE_MAGIC
      then Inl (Malformed ''not a pergamon key package'')
      else if bytes ! length KEY_PACKAGE_MAGIC \<noteq> KEY_PACKAGE_VERSION
      then Inl (Malformed ''unsupported key package version'')
      else let i = take ACCOUNT_ID_LEN (drop KEY_PACKAGE_ACCOUNT_OFFSET bytes) in
           bindR (blob_from_bytes (drop KEY_PACKAGE_BLOB_OFFSET bytes)) (\<lambda>blob.
             Inr \<lparr>kg_account_id = i, kg_blob = blob\<rparr>))"

definition export_key_package ::
  "key_prims \<Rightarrow> string \<Rightarrow> string \<Rightarrow> string \<Rightarrow> string \<Rightarrow> string \<Rightarrow> crypto_error + key_package" where
  "export_key_package K salt nonce ark account_id secret =
     bindR (enable_recovery K salt nonce ark account_id secret) (\<lambda>blob.
       Inr \<lparr>kg_account_id = account_id, kg_blob = blob\<rparr>)"

definition import_key_package :: "key_prims \<Rightarrow> key_package \<Rightarrow> string \<Rightarrow> crypto_error + string" where
  "import_key_package K package secret = recover K (kg_blob package) (kg_account_id package) secret"

section \<open>Boxes open for their recipient\<close>

text \<open>
  What is assumed of the primitives, beside the AEAD's contract: Diffie-Hellman agrees, public keys
  and content keys have their length, and HKDF has no collisions among the keys of boxes (the
  idealised form of its being a KDF).
\<close>

definition boxes_ok :: "key_prims \<Rightarrow> bool" where
  "boxes_ok K \<longleftrightarrow> aead_ok (kp_prims K)
     \<and> (\<forall>a b. diffie_hellman K a (x25519_public K b) = diffie_hellman K b (x25519_public K a))
     \<and> (\<forall>a. length (x25519_public K a) = KEY_LEN)
     \<and> (\<forall>ark e. length (hkdf_sha256 (kp_prims K) KEY_LEN ark (LABEL_ACCOUNT_CONTENT @ e)) = KEY_LEN)
     \<and> (\<forall>k i k' i'. hkdf_sha256 (kp_prims K) KEY_LEN k (SEALED_BOX_INFO @ i)
            = hkdf_sha256 (kp_prims K) KEY_LEN k' (SEALED_BOX_INFO @ i') \<longrightarrow> k = k' \<and> i = i')"

lemma boxes_okD:
  assumes "boxes_ok K"
  shows "aead_ok (kp_prims K)" "length (x25519_public K a) = KEY_LEN"
    "diffie_hellman K a (x25519_public K b) = diffie_hellman K b (x25519_public K a)"
    "hkdf_sha256 (kp_prims K) KEY_LEN k (SEALED_BOX_INFO @ i) = hkdf_sha256 (kp_prims K) KEY_LEN k' (SEALED_BOX_INFO @ i')
      \<longleftrightarrow> k = k' \<and> i = i'"
    "length (ack_key (content_key_at (kp_prims K) ark epoch)) = KEY_LEN"
  using assms unfolding boxes_ok_def content_key_at_def by (blast, blast, blast, blast, simp)

lemma aead_open_iff:
  assumes "aead_ok P" and "length n = NONCE_LEN"
  shows "aead_open P k' a' (aead_seal P n k a p) = Inr q \<longleftrightarrow> k' = k \<and> a' = a \<and> q = p"
proof -
  have "aead_decrypt P k' n a' (aead_encrypt P k n a p) = Some q \<longleftrightarrow> k' = k \<and> a' = a \<and> q = p"
  proof
    assume q: "aead_decrypt P k' n a' (aead_encrypt P k n a p) = Some q"
    have "k' = k \<and> n = n \<and> a' = a" using assms(1) q unfolding aead_ok_def by blast
    moreover have "aead_decrypt P k n a (aead_encrypt P k n a p) = Some p" using assms(1) by (simp add: aead_ok_def)
    ultimately show "k' = k \<and> a' = a \<and> q = p" using q by simp
  qed (use assms(1) in \<open>simp add: aead_ok_def\<close>)
  moreover have "aead_open P k' a' (aead_seal P n k a p) = Inr q
      \<longleftrightarrow> aead_decrypt P k' n a' (aead_encrypt P k n a p) = Some q"
    unfolding aead_open_seal [OF assms] by (simp split: option.split)
  ultimately show ?thesis by (simp only:)
qed

lemma open_sealed_iff:
  assumes "boxes_ok K" and "length n = NONCE_LEN" and "length r = KEY_LEN"
  shows "open_sealed K s a' (seal_to K e n r a p) = Inr q \<longleftrightarrow> x25519_public K s = r \<and> a' = a \<and> q = p"
proof -
  note ok = boxes_okD [OF assms(1)]
  let ?k = "sealed_box_key K (diffie_hellman K s (x25519_public K e)) (x25519_public K e) (x25519_public K s)"
  let ?k' = "sealed_box_key K (diffie_hellman K e r) (x25519_public K e) r"
  have "TAG_LEN \<le> length (aead_encrypt (kp_prims K) k n a p)" for k using ok(1) by (simp add: aead_ok_def)
  then have "open_sealed K s a' (seal_to K e n r a p) = aead_open (kp_prims K) ?k a' (aead_seal (kp_prims K) n ?k' a p)"
    using assms(2) by (simp add: open_sealed_def seal_to_def aead_seal_def ok(2) leD Let_def)
  moreover have "?k = ?k' \<longleftrightarrow> x25519_public K s = r"
    using ok(3) [of s e] by (auto simp: sealed_box_key_def ok(4))
  ultimately show ?thesis by (simp add: aead_open_iff [OF ok(1) assms(2)])
qed

lemma open_enrollment_iff:
  assumes "boxes_ok K" and "length n = NONCE_LEN" and "length r = KEY_LEN"
    and "length ark = KEY_LEN" and "length account = ACCOUNT_ID_LEN"
  shows "open_enrollment_bundle K s d' (seal_enrollment_bundle K e n r d ark account epoch) = Inr b
    \<longleftrightarrow> x25519_public K s = r \<and> d' = d \<and> b = \<lparr>bn_ark = ark, bn_account_id = account, bn_key_epoch = epoch\<rparr>"
  using assms(4,5)
  by (auto simp: open_enrollment_bundle_def seal_enrollment_bundle_def result_iff open_sealed_iff [OF assms(1-3)]
      enrollment_aad_def BUNDLE_PLAINTEXT_LEN_def Let_def split: if_splits)

definition account_framed :: "string \<Rightarrow> string \<Rightarrow> bool" where
  "account_framed account device \<longleftrightarrow> length account = ACCOUNT_ID_LEN \<and> length device < 2 ^ 32"

lemma rewrap_aad_inj:
  assumes "account_framed a d" and "account_framed a' d'"
  shows "rewrap_aad a d e = rewrap_aad a' d' e' \<longleftrightarrow> a = a' \<and> d = d' \<and> e = e'"
  using assms lp_append_inj [of d d' "to_be_bytes e" "to_be_bytes e'"]
  by (auto simp: rewrap_aad_def account_framed_def lp_def to_be_bytes_inj)

definition rewrap_seal :: "key_prims \<Rightarrow> string \<Rightarrow> string \<Rightarrow> string \<Rightarrow> string \<Rightarrow> string \<Rightarrow> string \<Rightarrow> u32 \<Rightarrow> string" where
  "rewrap_seal K e n r d ark account epoch =
     seal_to K e n r (rewrap_aad account d epoch)
       (REWRAP_TAG @ to_be_bytes epoch @ ack_key (content_key_at (kp_prims K) ark epoch))"

lemma open_rewrapped_iff:
  assumes "boxes_ok K" and "length n = NONCE_LEN" and "length r = KEY_LEN"
    and "account_framed account d" and "account_framed account' d'"
  shows "open_rewrapped K s d' account' epoch' (rewrap_seal K e n r d ark account epoch) = Inr ack
    \<longleftrightarrow> x25519_public K s = r \<and> d' = d \<and> account' = account \<and> epoch' = epoch
      \<and> ack = content_key_at (kp_prims K) ark epoch"
  using assms(4,5) boxes_okD(5) [OF assms(1), of ark epoch]
  by (auto simp: open_rewrapped_def rewrap_seal_def result_iff open_sealed_iff [OF assms(1-3)]
      rewrap_aad_inj REWRAP_PLAINTEXT_LEN_def Let_def content_key_at_def split: if_splits)

text \<open>The bundles of a rotation: one for each recipient.\<close>

lemma rewraps:
  "snd (rotate_and_rewrap K draw ark account epoch recipients) = map (\<lambda>(i, r). \<lparr>rk_device_id = rc_device_id r,
      rk_key_epoch = epoch, rk_sealed = rewrap_seal K (fst (draw i)) (snd (draw i)) (rc_x25519_pub r) (rc_device_id r) ark account epoch\<rparr>)
    (enumerate 0 recipients)"
  by (simp add: rotate_and_rewrap_def rewrap_seal_def Let_def)

lemma rewrap_ids: "map rk_device_id (snd (rotate_and_rewrap K draw ark account epoch recipients)) = map rc_device_id recipients"
proof -
  have "map rk_device_id (snd (rotate_and_rewrap K draw ark account epoch recipients))
      = map rc_device_id (map snd (enumerate 0 recipients))"
    unfolding rewraps map_map by (rule map_cong [OF refl]) auto
  then show ?thesis by (simp only: map_snd_enumerate)
qed

lemma rewrap_for:
  assumes "r \<in> set recipients"
  shows "\<exists>i. \<lparr>rk_device_id = rc_device_id r, rk_key_epoch = epoch,
      rk_sealed = rewrap_seal K (fst (draw i)) (snd (draw i)) (rc_x25519_pub r) (rc_device_id r) ark account epoch\<rparr>
    \<in> set (snd (rotate_and_rewrap K draw ark account epoch recipients))"
proof -
  from assms obtain i where i: "i < length recipients" "recipients ! i = r" by (auto simp: in_set_conv_nth)
  then have "(i, r) \<in> set (enumerate 0 recipients)" by (auto simp: in_set_enumerate_eq)
  then show ?thesis unfolding rewraps by force
qed

lemma bundle_is_not_rewrap:
  assumes "boxes_ok K" and "length n = NONCE_LEN" and "length r = KEY_LEN"
  shows "\<nexists>b. open_enrollment_bundle K s d' (rewrap_seal K e n r d ark account epoch) = Inr b"
  by (auto simp: open_enrollment_bundle_def rewrap_seal_def result_iff open_sealed_iff [OF assms]
      enrollment_aad_def rewrap_aad_def ENROLL_AAD_TAG_def REWRAP_AAD_TAG_def)

section \<open>Recovery\<close>

lemma blob_round_trip:
  "blob_from_bytes bytes = Inr b \<longleftrightarrow>
     bytes = blob_to_bytes b \<and> length (rb_salt b) = RECOVERY_SALT_LEN \<and> rb_wrapped b \<noteq> []"
  by (cases b) (auto simp: blob_from_bytes_def blob_to_bytes_def)

lemma package_round_trip:
  "package_from_bytes bytes = Inr p \<longleftrightarrow>
     bytes = package_to_bytes p \<and> length (kg_account_id p) = ACCOUNT_ID_LEN
     \<and> length (rb_salt (kg_blob p)) = RECOVERY_SALT_LEN \<and> rb_wrapped (kg_blob p) \<noteq> []"
proof
  have m: "length KEY_PACKAGE_MAGIC = 8" by (simp add: KEY_PACKAGE_MAGIC_def)
  {
    assume ok: "package_from_bytes bytes = Inr p"
    let ?i = "take ACCOUNT_ID_LEN (drop KEY_PACKAGE_ACCOUNT_OFFSET bytes)"
    from ok have len: "KEY_PACKAGE_BLOB_OFFSET \<le> length bytes"
      and magic: "take 8 bytes = KEY_PACKAGE_MAGIC" "bytes ! 8 = KEY_PACKAGE_VERSION"
      and blob: "blob_from_bytes (drop KEY_PACKAGE_BLOB_OFFSET bytes) = Inr (kg_blob p)" and i: "kg_account_id p = ?i"
      by (auto simp: package_from_bytes_def m result_iff Let_def split: if_splits)
    have "bytes = take 8 bytes @ bytes ! 8 # drop 9 bytes"
      using len id_take_nth_drop [of 8 bytes] by (simp add: KEY_PACKAGE_BLOB_OFFSET_def KEY_PACKAGE_ACCOUNT_OFFSET_def m)
    also have "drop 9 bytes = ?i @ drop KEY_PACKAGE_BLOB_OFFSET bytes"
      using append_take_drop_id [of ACCOUNT_ID_LEN "drop 9 bytes"]
      by (simp add: KEY_PACKAGE_BLOB_OFFSET_def KEY_PACKAGE_ACCOUNT_OFFSET_def m add.commute)
    finally have "bytes = package_to_bytes p"
      using magic blob i by (simp add: package_to_bytes_def blob_round_trip)
    moreover have "length (kg_account_id p) = ACCOUNT_ID_LEN"
      using len i by (simp add: KEY_PACKAGE_BLOB_OFFSET_def)
    ultimately show "bytes = package_to_bytes p \<and> length (kg_account_id p) = ACCOUNT_ID_LEN
       \<and> length (rb_salt (kg_blob p)) = RECOVERY_SALT_LEN \<and> rb_wrapped (kg_blob p) \<noteq> []"
      using blob by (simp add: blob_round_trip)
  }
  assume p: "bytes = package_to_bytes p \<and> length (kg_account_id p) = ACCOUNT_ID_LEN
     \<and> length (rb_salt (kg_blob p)) = RECOVERY_SALT_LEN \<and> rb_wrapped (kg_blob p) \<noteq> []"
  then show "package_from_bytes bytes = Inr p"
    by (cases p, cases "kg_blob p")
      (simp add: package_from_bytes_def package_to_bytes_def nth_append m KEY_PACKAGE_BLOB_OFFSET_def
        KEY_PACKAGE_ACCOUNT_OFFSET_def blob_from_bytes_def blob_to_bytes_def)
qed

lemma recovery_aad_inj: "recovery_aad a = recovery_aad b \<longleftrightarrow> a = b"
  by (simp add: recovery_aad_def)

lemma recover_iff:
  assumes "aead_ok (kp_prims K)" and "length n = NONCE_LEN" and "length ark = KEY_LEN"
    and "enable_recovery K salt n ark account secret = Inr blob"
  shows "recover K blob account' secret' = Inr ark' \<longleftrightarrow>
    argon2id_kek K secret' salt = argon2id_kek K secret salt \<and> account' = account \<and> ark' = ark"
  using assms(3,4)
  by (auto simp: recover_def enable_recovery_def stretch_def result_iff aead_open_iff [OF assms(1,2)]
      recovery_aad_inj split: option.splits if_splits)

text \<open>
  Each pair of symbols of a recovery code determines its byte: the high symbol holds five bits
  and the low one the remaining three, shifted.
\<close>

lemma symbols_determine:
  fixes x y :: "8 word"
  assumes "drop_bit 3 x = drop_bit 3 y" and "and (push_bit 2 x) 0x1f = and (push_bit 2 y) 0x1f"
  shows "x = y"
proof (rule bit_word_eqI)
  fix n assume n: "n < LENGTH(8)"
  show "bit x n = bit y n"
  proof (cases "3 \<le> n")
    case True
    have "bit (drop_bit 3 x) (n - 3) = bit (drop_bit 3 y) (n - 3)" using assms(1) by simp
    with True show ?thesis by (simp add: bit_drop_bit_eq)
  next
    case False
    have "bit (and (push_bit 2 x) 0x1f) (n + 2) = bit (and (push_bit 2 y) 0x1f) (n + 2)" using assms(2) by simp
    moreover have "bit (0x1f :: 8 word) (n + 2)" using False by (cases n; cases "n - 1") (auto simp: numeral_2_eq_2 not_le less_Suc_eq)
    ultimately show ?thesis using False by (simp add: bit_and_iff bit_push_bit_iff)
  qed
qed

definition code_symbols :: "char \<Rightarrow> string" where
  "code_symbols c =
     (let byte = of_nat (of_char c) :: 8 word
      in [ALPHABET ! and (unat (drop_bit 3 byte)) 0x1f, ALPHABET ! and (unat (push_bit 2 byte)) 0x1f])"

definition code_dash :: "nat \<Rightarrow> nat \<Rightarrow> string" where
  "code_dash n i = (if i mod 2 = 1 \<and> i + 1 \<noteq> n then ''-'' else [])"

lemma recovery_code_pieces:
  "recovery_code raw = concat (map (\<lambda>(i, c). code_symbols c @ code_dash (length raw) i) (enumerate 0 raw))"
proof -
  have "fold (\<lambda>(i, c) code.
        let byte = of_nat (of_char c) :: 8 word;
            hi = and (unat (drop_bit 3 byte)) 0x1f;
            lo = and (unat (push_bit 2 byte)) 0x1f;
            code = code @ [ALPHABET ! hi, ALPHABET ! lo]
        in if i mod 2 = 1 \<and> i + 1 \<noteq> length raw then code @ ''-'' else code) xs code
      = code @ concat (map (\<lambda>(i, c). code_symbols c @ code_dash (length raw) i) xs)" for xs code
    by (induction xs arbitrary: code) (auto simp: code_symbols_def code_dash_def Let_def)
  then show ?thesis by (simp add: recovery_code_def)
qed

lemma alphabet: "distinct ALPHABET" "length ALPHABET = 32"
  by (simp_all add: ALPHABET_def)

lemma low_five: "and (n :: nat) 0x1f < 32"
proof -
  have "and n 0x1f = take_bit 5 n" by (simp add: take_bit_eq_mask mask_eq_exp_minus_1)
  then show ?thesis using take_bit_nat_less_exp [of 5 n] by simp
qed

lemma byte_word_inj: "(of_nat (of_char c) :: 8 word) = of_nat (of_char d) \<longleftrightarrow> c = d"
proof
  assume "(of_nat (of_char c) :: 8 word) = of_nat (of_char d)"
  then have "unat (of_nat (of_char c) :: 8 word) = unat (of_nat (of_char d) :: 8 word)" by (rule arg_cong)
  then show "c = d" by (simp add: unat_of_nat)
qed simp

lemma high_five: "and (drop_bit 3 w) 0x1f = drop_bit 3 (w :: 8 word)"
proof -
  have "0x1f = (mask 5 :: 8 word)" by (simp add: mask_eq_exp_minus_1)
  then have "and (drop_bit 3 w) 0x1f = take_bit 5 (drop_bit 3 w)" by (simp add: take_bit_eq_mask)
  also have "\<dots> = drop_bit 3 (take_bit LENGTH(8) w)" by (simp add: take_bit_drop_bit)
  finally show ?thesis by (simp only: take_bit_length_eq)
qed

lemma code_symbols_inj: "code_symbols c = code_symbols d \<longleftrightarrow> c = d"
proof
  let ?x = "of_nat (of_char c) :: 8 word" and ?y = "of_nat (of_char d) :: 8 word"
  have five: "and (unat w) 0x1f = unat (and w (0x1f :: 8 word))" for w :: "8 word"
    by (simp add: unsigned_and_eq)
  assume "code_symbols c = code_symbols d"
  then have "and (unat (drop_bit 3 ?x)) 0x1f = and (unat (drop_bit 3 ?y)) 0x1f"
    and lo: "and (unat (push_bit 2 ?x)) 0x1f = and (unat (push_bit 2 ?y)) 0x1f"
    by (simp_all add: code_symbols_def Let_def nth_eq_iff_index_eq [OF alphabet(1)] low_five alphabet(2))
  then have "and (drop_bit 3 ?x) 0x1f = and (drop_bit 3 ?y) 0x1f" and low: "and (push_bit 2 ?x) 0x1f = and (push_bit 2 ?y) 0x1f"
    by (simp_all only: five word_unat_eq_iff)
  then have "drop_bit 3 ?x = drop_bit 3 ?y" by (simp only: high_five)
  then have "?x = ?y" using low by (rule symbols_determine)
  then show "c = d" by (simp only: byte_word_inj)
qed simp

lemma length_code_symbols [simp]: "length (code_symbols c) = 2"
  by (simp add: code_symbols_def Let_def)

lemma pieces_inj:
  "length xs = length ys \<Longrightarrow>
   concat (map (\<lambda>(i, c). code_symbols c @ f i) (enumerate k xs)) = concat (map (\<lambda>(i, c). code_symbols c @ f i) (enumerate k ys))
   \<longleftrightarrow> xs = ys"
  by (induction xs ys arbitrary: k rule: list_induct2) (auto simp: append_eq_append_conv code_symbols_inj)

lemma recovery_code_inj: "length raw = length raw' \<Longrightarrow> recovery_code raw = recovery_code raw' \<longleftrightarrow> raw = raw'"
  unfolding recovery_code_pieces using pieces_inj [of raw raw' "code_dash (length raw)" 0] by simp

section \<open>Short authentication strings\<close>

lemma sas_compute_symmetric: "sas_compute K p q = sas_compute K q p"
  by (auto simp: sas_compute_def Let_def split: if_splits)

lemma sas_matches_iff:
  assumes "length c = length d"
  shows "sas_matches c d \<longleftrightarrow> c = d"
proof -
  have step: "fold (\<lambda>(x, y) diff. or diff (xor (of_nat (of_char x)) (of_nat (of_char y)))) (zip c d) (z :: 8 word) = 0
      \<longleftrightarrow> z = 0 \<and> c = d" for z
    using assms
  proof (induction c d arbitrary: z rule: list_induct2)
    case (Cons x xs y ys)
    let ?e = "xor (of_nat (of_char x)) (of_nat (of_char y) :: 8 word)"
    have "xor u v = 0 \<longleftrightarrow> u = v" for u v :: "8 word" by (auto simp: bit_eq_iff bit_xor_iff)
    then have e: "?e = 0 \<longleftrightarrow> x = y" by (simp only: byte_word_inj)
    have "or u v = 0 \<longleftrightarrow> u = 0 \<and> v = 0" for u v :: "8 word" by (auto simp: bit_eq_iff bit_or_iff)
    then have "or z ?e = 0 \<longleftrightarrow> z = 0 \<and> ?e = 0" .
    with e show ?case by (simp add: Cons.IH)
  qed simp
  then show ?thesis by (simp add: sas_matches_def)
qed

end
