(* ===== verification/Artifact_Relay.thy ===== *)
theory Artifact_Relay
  imports Append_Log Envelope "HOL-Library.AList"
begin

text \<open>
  The relay of onboarding artifacts, \<^verbatim>\<open>crates/pergamon-sync/src/relay.rs\<close>: the trait (a record
  of its operations), the in-memory relay, and the interface its clients rely on. A relay replaces
  device records and recovery blobs, and appends wraps and attestations, each once. A poisoned lock
  is not modelled.
\<close>

section \<open>The trait\<close>

record relay_entry =
  re_seq :: u64
  re_bytes :: string

record 'w relay_transport =
  rl_device_put :: "string \<Rightarrow> string \<Rightarrow> string \<Rightarrow> ('w, unit) act"
  rl_device_get :: "string \<Rightarrow> string \<Rightarrow> ('w, string option) act"
  rl_devices_list :: "string \<Rightarrow> ('w, (string \<times> string) list) act"
  rl_wrap_put :: "string \<Rightarrow> string \<Rightarrow> string \<Rightarrow> ('w, u64) act"
  rl_wraps_list :: "string \<Rightarrow> string \<Rightarrow> u64 \<Rightarrow> ('w, relay_entry list) act"
  rl_attestation_append :: "string \<Rightarrow> string \<Rightarrow> ('w, u64) act"
  rl_attestations_list :: "string \<Rightarrow> u64 \<Rightarrow> ('w, relay_entry list) act"
  rl_recovery_put :: "string \<Rightarrow> string \<Rightarrow> ('w, unit) act"
  rl_recovery_get :: "string \<Rightarrow> ('w, string option) act"

section \<open>The in-memory relay\<close>

record account_relay =
  ay_devices :: "(string \<times> string) list"
  ay_wraps :: "string \<Rightarrow> relay_entry list option"
  ay_wrap_hashes :: "string \<Rightarrow> (string \<Rightarrow> u64 option) option"
  ay_attestations :: "relay_entry list"
  ay_attestation_hashes :: "string \<Rightarrow> u64 option"
  ay_recovery :: "string option"

type_synonym memory_relay = "string \<Rightarrow> account_relay option"

definition account_relay_default :: account_relay where
  "account_relay_default = \<lparr>ay_devices = [], ay_wraps = Map.empty, ay_wrap_hashes = Map.empty,
     ay_attestations = [], ay_attestation_hashes = Map.empty, ay_recovery = None\<rparr>"

definition relay_of :: "memory_relay \<Rightarrow> string \<Rightarrow> account_relay" where
  "relay_of m a = (case m a of Some acct \<Rightarrow> acct | None \<Rightarrow> account_relay_default)"

definition blake3_hex :: "prims \<Rightarrow> string \<Rightarrow> string" where
  "blake3_hex P bytes = to_hex (blake3_hash P bytes)"

definition memory_device_put :: "string \<Rightarrow> string \<Rightarrow> string \<Rightarrow> (memory_relay, unit) act" where
  "memory_device_put a d bytes m =
     (let acct = relay_of m a
      in (Inr (), m(a \<mapsto> acct\<lparr>ay_devices := AList.update d bytes (ay_devices acct)\<rparr>)))"

definition memory_device_get :: "string \<Rightarrow> string \<Rightarrow> (memory_relay, string option) act" where
  "memory_device_get a d m =
     (Inr (case m a of None \<Rightarrow> None | Some acct \<Rightarrow> map_of (ay_devices acct) d), m)"

definition memory_devices_list :: "string \<Rightarrow> (memory_relay, (string \<times> string) list) act" where
  "memory_devices_list a m =
     (Inr (case m a of None \<Rightarrow> [] | Some acct \<Rightarrow> sort_key fst (ay_devices acct)), m)"

text \<open>\<open>list.last().map_or(1, |w| w.seq + 1)\<close>.\<close>

definition next_seq :: "relay_entry list \<Rightarrow> u64" where
  "next_seq es = (if es = [] then 1 else re_seq (last es) + 1)"

definition memory_wrap_put :: "prims \<Rightarrow> string \<Rightarrow> string \<Rightarrow> string \<Rightarrow> (memory_relay, u64) act" where
  "memory_wrap_put P a d bundle m =
     (let acct = relay_of m a;
          hash = blake3_hex P bundle;
          seen = (case ay_wrap_hashes acct d of Some h \<Rightarrow> h | None \<Rightarrow> Map.empty);
          acct = acct\<lparr>ay_wrap_hashes := (ay_wrap_hashes acct)(d \<mapsto> seen)\<rparr>
      in case seen hash of
           Some seq \<Rightarrow> (Inr seq, m(a \<mapsto> acct))
         | None \<Rightarrow>
             let es = (case ay_wraps acct d of Some l \<Rightarrow> l | None \<Rightarrow> []);
                 seq = next_seq es;
                 acct = acct\<lparr>ay_wraps := (ay_wraps acct)(d \<mapsto> es @ [\<lparr>re_seq = seq, re_bytes = bundle\<rparr>])\<rparr>;
                 acct = acct\<lparr>ay_wrap_hashes := (ay_wrap_hashes acct)(d \<mapsto> seen(hash \<mapsto> seq))\<rparr>
             in (Inr seq, m(a \<mapsto> acct)))"

definition memory_wraps_list :: "string \<Rightarrow> string \<Rightarrow> u64 \<Rightarrow> (memory_relay, relay_entry list) act" where
  "memory_wraps_list a d after m =
     (Inr (case Option.bind (m a) (\<lambda>acct. ay_wraps acct d) of
             None \<Rightarrow> [] | Some es \<Rightarrow> filter (\<lambda>w. re_seq w > after) es), m)"

definition memory_attestation_append :: "prims \<Rightarrow> string \<Rightarrow> string \<Rightarrow> (memory_relay, u64) act" where
  "memory_attestation_append P a att m =
     (let acct = relay_of m a;
          hash = blake3_hex P att
      in case ay_attestation_hashes acct hash of
           Some seq \<Rightarrow> (Inr seq, m(a \<mapsto> acct))
         | None \<Rightarrow>
             let seq = next_seq (ay_attestations acct);
                 acct = acct\<lparr>ay_attestations := ay_attestations acct @ [\<lparr>re_seq = seq, re_bytes = att\<rparr>]\<rparr>;
                 acct = acct\<lparr>ay_attestation_hashes := (ay_attestation_hashes acct)(hash \<mapsto> seq)\<rparr>
             in (Inr seq, m(a \<mapsto> acct)))"

definition memory_attestations_list :: "string \<Rightarrow> u64 \<Rightarrow> (memory_relay, relay_entry list) act" where
  "memory_attestations_list a after m =
     (Inr (case m a of None \<Rightarrow> [] | Some acct \<Rightarrow> filter (\<lambda>x. re_seq x > after) (ay_attestations acct)), m)"

definition memory_recovery_put :: "string \<Rightarrow> string \<Rightarrow> (memory_relay, unit) act" where
  "memory_recovery_put a blob m =
     (Inr (), m(a \<mapsto> (relay_of m a)\<lparr>ay_recovery := Some blob\<rparr>))"

definition memory_recovery_get :: "string \<Rightarrow> (memory_relay, string option) act" where
  "memory_recovery_get a m = (Inr (Option.bind (m a) ay_recovery), m)"

definition memory_relay_transport :: "prims \<Rightarrow> memory_relay relay_transport" where
  "memory_relay_transport P =
     \<lparr>rl_device_put = memory_device_put, rl_device_get = memory_device_get, rl_devices_list = memory_devices_list,
      rl_wrap_put = memory_wrap_put P, rl_wraps_list = memory_wraps_list,
      rl_attestation_append = memory_attestation_append P, rl_attestations_list = memory_attestations_list,
      rl_recovery_put = memory_recovery_put, rl_recovery_get = memory_recovery_get\<rparr>"

section \<open>The interface\<close>

text \<open>
  What a client sees of an account: the record of each device, the bundles addressed to each device
  and the attestations in their order, the recovery blob. \<open>ok\<close> is the relay's own invariant; a list
  of more than \<open>page\<close> entries need not be answered whole.
\<close>

record relay_view =
  vw_devices :: "string \<Rightarrow> string option"
  vw_wraps :: "string \<Rightarrow> string list"
  vw_attestations :: "string list"
  vw_recovery :: "string option"

locale artifact_relay =
  fixes R :: "'w relay_transport" and a :: string
    and view :: "'w \<Rightarrow> relay_view"
    and ok :: "'w \<Rightarrow> bool" and page :: nat
  assumes device_put: "ok w \<Longrightarrow> \<exists>w'. rl_device_put R a d b w = (Inr (), w') \<and> ok w'
      \<and> view w' = (view w)\<lparr>vw_devices := (vw_devices (view w))(d \<mapsto> b)\<rparr>"
    and device_get: "ok w \<Longrightarrow> rl_device_get R a d w = (Inr (vw_devices (view w) d), w)"
    and devices_list: "ok w \<Longrightarrow> \<exists>ds. rl_devices_list R a w = (Inr ds, w) \<and> map_of ds = vw_devices (view w)
      \<and> sorted (map fst ds) \<and> distinct (map fst ds)"
    and wrap_put: "ok w \<Longrightarrow> \<exists>n w'. rl_wrap_put R a d b w = (Inr n, w') \<and> ok w'
      \<and> view w' = (view w)\<lparr>vw_wraps := (vw_wraps (view w))(d := log_add (vw_wraps (view w) d) b)\<rparr>"
    and wraps_list: "ok w \<Longrightarrow> length (vw_wraps (view w) d) \<le> page \<Longrightarrow>
      \<exists>es. rl_wraps_list R a d 0 w = (Inr es, w) \<and> map re_bytes es = vw_wraps (view w) d"
    and attestation_append: "ok w \<Longrightarrow> \<exists>n w'. rl_attestation_append R a b w = (Inr n, w') \<and> ok w'
      \<and> view w' = (view w)\<lparr>vw_attestations := log_add (vw_attestations (view w)) b\<rparr>"
    and attestations_list: "ok w \<Longrightarrow> length (vw_attestations (view w)) \<le> page \<Longrightarrow>
      \<exists>es. rl_attestations_list R a 0 w = (Inr es, w) \<and> map re_bytes es = vw_attestations (view w)"
    and recovery_put: "ok w \<Longrightarrow> \<exists>w'. rl_recovery_put R a b w = (Inr (), w') \<and> ok w'
      \<and> view w' = (view w)\<lparr>vw_recovery := Some b\<rparr>"
    and recovery_get: "ok w \<Longrightarrow> rl_recovery_get R a w = (Inr (vw_recovery (view w)), w)"

section \<open>The in-memory relay provides it\<close>

lemma hex_digit_inj: "m < 16 \<Longrightarrow> n < 16 \<Longrightarrow> hex_digit m = hex_digit n \<longleftrightarrow> m = n"
proof -
  assume "m < 16" "n < 16"
  moreover have "(char_of x :: char) = char_of y \<longleftrightarrow> x = y" if "x < 256" "y < 256" for x y :: nat
    using that by (simp add: char_of_eq_iff take_bit_nat_eq_self)
  ultimately show ?thesis by (simp add: hex_digit_def)
qed

lemma to_hex_inj: "to_hex s = to_hex t \<longleftrightarrow> s = t"
proof
  assume "to_hex s = to_hex t"
  then show "s = t"
  proof (induction s arbitrary: t)
    case Nil
    then show ?case by (cases t) (simp_all add: to_hex_def)
  next
    case (Cons c s)
    then obtain d t' where t: "t = d # t'" by (cases t) (simp_all add: to_hex_def)
    let ?c = "of_char c :: nat" and ?d = "of_char d :: nat"
    have b: "?c div 16 < 16" "?d div 16 < 16" "?c mod 16 < 16" "?d mod 16 < 16"
      using nat_of_char_less_256 [of c] nat_of_char_less_256 [of d] by (simp_all add: less_mult_imp_div_less)
    from Cons.prems have "hex_digit (?c div 16) = hex_digit (?d div 16)" "hex_digit (?c mod 16) = hex_digit (?d mod 16)"
      and rest: "to_hex s = to_hex t'"
      by (simp_all add: t to_hex_def)
    then have "?c div 16 = ?d div 16" "?c mod 16 = ?d mod 16" using hex_digit_inj b by blast+
    then have "?c = ?d" by (metis div_mult_mod_eq)
    with Cons.IH [OF rest] show ?case by (simp add: t)
  qed
qed simp

definition entries_ok :: "prims \<Rightarrow> relay_entry list \<Rightarrow> (string \<Rightarrow> u64 option) \<Rightarrow> bool" where
  "entries_ok P es hs \<longleftrightarrow> map re_seq es = map (\<lambda>i. of_nat (Suc i)) [0..<length es]
     \<and> dom hs = (\<lambda>e. blake3_hex P (re_bytes e)) ` set es"

definition wrap_entries :: "account_relay \<Rightarrow> string \<Rightarrow> relay_entry list" where
  "wrap_entries acct d = (case ay_wraps acct d of Some l \<Rightarrow> l | None \<Rightarrow> [])"

definition wrap_seen :: "account_relay \<Rightarrow> string \<Rightarrow> string \<Rightarrow> u64 option" where
  "wrap_seen acct d = (case ay_wrap_hashes acct d of Some h \<Rightarrow> h | None \<Rightarrow> Map.empty)"

definition account_relay_ok :: "prims \<Rightarrow> account_relay \<Rightarrow> bool" where
  "account_relay_ok P acct \<longleftrightarrow> distinct (map fst (ay_devices acct))
     \<and> (\<forall>d. entries_ok P (wrap_entries acct d) (wrap_seen acct d))
     \<and> entries_ok P (ay_attestations acct) (ay_attestation_hashes acct)"

definition memory_relay_ok :: "prims \<Rightarrow> memory_relay \<Rightarrow> bool" where
  "memory_relay_ok P m \<longleftrightarrow> (\<forall>a. account_relay_ok P (relay_of m a))"

definition memory_view :: "string \<Rightarrow> memory_relay \<Rightarrow> relay_view" where
  "memory_view a m = (let acct = relay_of m a in
     \<lparr>vw_devices = map_of (ay_devices acct), vw_wraps = (\<lambda>d. map re_bytes (wrap_entries acct d)),
      vw_attestations = map re_bytes (ay_attestations acct), vw_recovery = ay_recovery acct\<rparr>)"

lemma relay_of_upd [simp]: "relay_of (m(a \<mapsto> acct)) b = (if b = a then acct else relay_of m b)"
  by (simp add: relay_of_def)

lemma memory_relay_okI:
  "memory_relay_ok P m \<Longrightarrow> account_relay_ok P acct \<Longrightarrow> memory_relay_ok P (m(a \<mapsto> acct))"
  by (simp add: memory_relay_ok_def)

lemma entries_next: "entries_ok P es hs \<Longrightarrow> next_seq es = of_nat (Suc (length es))"
proof -
  assume es: "entries_ok P es hs"
  show ?thesis
  proof (cases "es = []")
    case False
    then have "re_seq (last es) = map re_seq es ! (length es - 1)" by (simp add: last_conv_nth)
    also have "\<dots> = of_nat (Suc (length es - 1))"
      using es False by (simp add: entries_ok_def del: of_nat_Suc)
    also have "\<dots> = of_nat (length es)" using False by (simp del: of_nat_Suc)
    finally show ?thesis using False by (simp add: next_seq_def)
  qed (simp add: next_seq_def)
qed

lemma entries_add:
  assumes "entries_ok P es hs"
  shows "entries_ok P (es @ [\<lparr>re_seq = next_seq es, re_bytes = b\<rparr>]) (hs(blake3_hex P b \<mapsto> next_seq es))"
  using assms entries_next [OF assms] by (auto simp: entries_ok_def)

lemma entries_known:
  assumes "inj (blake3_hash P)" and "entries_ok P es hs"
  shows "hs (blake3_hex P b) = None \<longleftrightarrow> b \<notin> set (map re_bytes es)"
proof -
  have "hs (blake3_hex P b) \<noteq> None \<longleftrightarrow> blake3_hex P b \<in> (\<lambda>e. blake3_hex P (re_bytes e)) ` set es"
    using assms(2) by (auto simp: entries_ok_def dom_def)
  also have "\<dots> \<longleftrightarrow> b \<in> set (map re_bytes es)"
    using assms(1) by (auto simp: blake3_hex_def to_hex_inj inj_eq)
  finally show ?thesis by blast
qed

lemma entries_all:
  assumes "entries_ok P es hs" and "length es < 2 ^ 64"
  shows "filter (\<lambda>e. re_seq e > 0) es = es"
proof -
  have "re_seq (es ! i) > 0" if i: "i < length es" for i
  proof -
    have "map re_seq es ! i = of_nat (Suc i)" using i assms(1) by (simp add: entries_ok_def del: of_nat_Suc)
    then have "unat (re_seq (es ! i)) = Suc i" using i assms(2) by (simp add: unat_of_nat del: of_nat_Suc)
    then show ?thesis by (simp add: word_less_nat_alt)
  qed
  then show ?thesis by (simp add: filter_id_conv all_set_conv_all_nth)
qed

lemma account_ok:
  "memory_relay_ok P m \<Longrightarrow> account_relay_ok P (relay_of m a)"
  by (simp add: memory_relay_ok_def)

lemma wrap_entries_upd [simp]:
  "wrap_entries (acct\<lparr>ay_wraps := w, ay_wrap_hashes := h\<rparr>) d = (case w d of Some l \<Rightarrow> l | None \<Rightarrow> [])"
  "wrap_seen (acct\<lparr>ay_wraps := w, ay_wrap_hashes := h\<rparr>) d = (case h d of Some l \<Rightarrow> l | None \<Rightarrow> Map.empty)"
  "wrap_entries (acct\<lparr>ay_wrap_hashes := h\<rparr>) d = wrap_entries acct d"
  "wrap_seen (acct\<lparr>ay_wrap_hashes := h\<rparr>) d = (case h d of Some l \<Rightarrow> l | None \<Rightarrow> Map.empty)"
  by (simp_all add: wrap_entries_def wrap_seen_def)

lemma memory_wrap_put_law:
  assumes "inj (blake3_hash P)" and "memory_relay_ok P m"
  shows "\<exists>n m'. memory_wrap_put P a d b m = (Inr n, m') \<and> memory_relay_ok P m'
    \<and> memory_view a m' = (memory_view a m)\<lparr>vw_wraps := (vw_wraps (memory_view a m))(d := log_add (vw_wraps (memory_view a m) d) b)\<rparr>"
proof -
  let ?acct = "relay_of m a" and ?h = "blake3_hex P b"
  let ?es = "wrap_entries ?acct d" and ?hs = "wrap_seen ?acct d"
  note acct = account_ok [OF assms(2), of a]
  then have es: "entries_ok P ?es ?hs" by (simp add: account_relay_ok_def)
  note known = entries_known [OF assms(1) es, of b]
  show ?thesis
  proof (cases "?hs ?h")
    case (Some n)
    let ?acct' = "?acct\<lparr>ay_wrap_hashes := (ay_wrap_hashes ?acct)(d \<mapsto> ?hs)\<rparr>"
    have put: "memory_wrap_put P a d b m = (Inr n, m(a \<mapsto> ?acct'))"
      using Some by (simp add: memory_wrap_put_def wrap_seen_def Let_def)
    have "entries_ok P (wrap_entries ?acct' e) (wrap_seen ?acct' e)" for e
      using acct es by (auto simp: account_relay_ok_def wrap_seen_def)
    with acct have "account_relay_ok P ?acct'" by (simp add: account_relay_ok_def)
    moreover have "b \<in> set (map re_bytes ?es)" using known Some by simp
    ultimately show ?thesis
      unfolding put using assms(2) by (auto simp: memory_view_def Let_def intro!: memory_relay_okI)
  next
    case None
    let ?n = "next_seq ?es"
    let ?acct' = "?acct\<lparr>ay_wraps := (ay_wraps ?acct)(d \<mapsto> ?es @ [\<lparr>re_seq = ?n, re_bytes = b\<rparr>]),
      ay_wrap_hashes := (ay_wrap_hashes ?acct)(d \<mapsto> ?hs(?h \<mapsto> ?n))\<rparr>"
    have put: "memory_wrap_put P a d b m = (Inr ?n, m(a \<mapsto> ?acct'))"
      using None by (simp add: memory_wrap_put_def wrap_seen_def wrap_entries_def Let_def)
    have "entries_ok P (wrap_entries ?acct' e) (wrap_seen ?acct' e)" for e
      using acct entries_add [OF es] by (auto simp: account_relay_ok_def wrap_seen_def wrap_entries_def)
    with acct have "account_relay_ok P ?acct'" by (simp add: account_relay_ok_def)
    then have "memory_relay_ok P (m(a \<mapsto> ?acct'))" by (rule memory_relay_okI [OF assms(2)])
    moreover have fresh: "b \<notin> set (map re_bytes ?es)" using known None by simp
    have "(\<lambda>e. map re_bytes (wrap_entries ?acct' e))
        = (\<lambda>e. map re_bytes (wrap_entries ?acct e))(d := log_add (map re_bytes ?es) b)"
      using fresh by (rule_tac ext) (simp add: log_add_def wrap_entries_def)
    then have "memory_view a (m(a \<mapsto> ?acct')) = (memory_view a m)\<lparr>vw_wraps := (vw_wraps (memory_view a m))(d := log_add (vw_wraps (memory_view a m) d) b)\<rparr>"
      by (simp add: memory_view_def Let_def)
    ultimately show ?thesis unfolding put by blast
  qed
qed

lemma memory_attestation_law:
  assumes "inj (blake3_hash P)" and "memory_relay_ok P m"
  shows "\<exists>n m'. memory_attestation_append P a b m = (Inr n, m') \<and> memory_relay_ok P m'
    \<and> memory_view a m' = (memory_view a m)\<lparr>vw_attestations := log_add (vw_attestations (memory_view a m)) b\<rparr>"
proof -
  let ?acct = "relay_of m a" and ?h = "blake3_hex P b"
  let ?es = "ay_attestations ?acct" and ?hs = "ay_attestation_hashes ?acct"
  note acct = account_ok [OF assms(2), of a]
  then have es: "entries_ok P ?es ?hs" by (simp add: account_relay_ok_def)
  note known = entries_known [OF assms(1) es, of b]
  show ?thesis
  proof (cases "?hs ?h")
    case (Some n)
    then have "memory_attestation_append P a b m = (Inr n, m(a \<mapsto> ?acct))"
      by (simp add: memory_attestation_append_def Let_def)
    moreover have "b \<in> set (map re_bytes ?es)" using known Some by simp
    ultimately show ?thesis
      using assms(2) acct by (auto simp: memory_view_def Let_def intro!: memory_relay_okI)
  next
    case None
    let ?n = "next_seq ?es"
    let ?acct' = "?acct\<lparr>ay_attestations := ?es @ [\<lparr>re_seq = ?n, re_bytes = b\<rparr>], ay_attestation_hashes := ?hs(?h \<mapsto> ?n)\<rparr>"
    have put: "memory_attestation_append P a b m = (Inr ?n, m(a \<mapsto> ?acct'))"
      using None by (simp add: memory_attestation_append_def Let_def)
    have "account_relay_ok P ?acct'"
      using acct entries_add [OF es] by (simp add: account_relay_ok_def wrap_entries_def wrap_seen_def)
    moreover have "b \<notin> set (map re_bytes ?es)" using known None by simp
    ultimately show ?thesis
      unfolding put using assms(2)
      by (auto simp: memory_view_def Let_def log_add_def wrap_entries_def intro!: memory_relay_okI)
  qed
qed

lemma memory_update:
  assumes "memory_relay_ok P m" and "account_relay_ok P acct" and "f m = (Inr x, m(a \<mapsto> acct))"
    and "memory_view a (m(a \<mapsto> acct)) = v"
  shows "\<exists>m'. f m = (Inr x, m') \<and> memory_relay_ok P m' \<and> memory_view a m' = v"
  using assms memory_relay_okI by blast

lemma view_entries:
  "vw_wraps (memory_view a m) d = map re_bytes (case Option.bind (m a) (\<lambda>acct. ay_wraps acct d) of Some l \<Rightarrow> l | None \<Rightarrow> [])"
  "vw_attestations (memory_view a m) = map re_bytes (case m a of Some acct \<Rightarrow> ay_attestations acct | None \<Rightarrow> [])"
  by (simp_all add: memory_view_def wrap_entries_def relay_of_def account_relay_default_def Let_def split: option.splits)

lemma listed_sorted:
  fixes xs :: "(string \<times> string) list"
  assumes "distinct (map fst xs)"
  shows "map_of (sort_key fst xs) = map_of xs" "sorted (map fst (sort_key fst xs))" "distinct (map fst (sort_key fst xs))"
proof -
  show d: "distinct (map fst (sort_key fst xs))" using assms by (simp add: distinct_map)
  show "map_of (sort_key fst xs) = map_of xs" using map_of_inject_set [OF d assms] by simp
qed simp

lemma memory_page_all:
  assumes "memory_relay_ok P m"
  shows "length (vw_wraps (memory_view a m) d) < 2 ^ 64 \<Longrightarrow>
      \<exists>es. memory_wraps_list a d 0 m = (Inr es, m) \<and> map re_bytes es = vw_wraps (memory_view a m) d"
    and "length (vw_attestations (memory_view a m)) < 2 ^ 64 \<Longrightarrow>
      \<exists>es. memory_attestations_list a 0 m = (Inr es, m) \<and> map re_bytes es = vw_attestations (memory_view a m)"
proof -
  let ?acct = "relay_of m a"
  have es: "entries_ok P (wrap_entries ?acct d) (wrap_seen ?acct d)" and
    at: "entries_ok P (ay_attestations ?acct) (ay_attestation_hashes ?acct)"
    using account_ok [OF assms(1)] by (simp_all add: account_relay_ok_def)
  show "\<exists>es. memory_wraps_list a d 0 m = (Inr es, m) \<and> map re_bytes es = vw_wraps (memory_view a m) d"
    if "length (vw_wraps (memory_view a m) d) < 2 ^ 64"
  proof -
    have "filter (\<lambda>e. re_seq e > 0) (wrap_entries ?acct d) = wrap_entries ?acct d"
      using that by (intro entries_all [OF es]) (simp add: memory_view_def Let_def)
    then show ?thesis
      by (cases "m a"; cases "ay_wraps (the (m a)) d")
        (auto simp: memory_wraps_list_def view_entries wrap_entries_def relay_of_def)
  qed
  show "\<exists>es. memory_attestations_list a 0 m = (Inr es, m) \<and> map re_bytes es = vw_attestations (memory_view a m)"
    if "length (vw_attestations (memory_view a m)) < 2 ^ 64"
  proof -
    have "filter (\<lambda>e. re_seq e > 0) (ay_attestations ?acct) = ay_attestations ?acct"
      using that by (intro entries_all [OF at]) (simp add: memory_view_def Let_def)
    then show ?thesis
      by (cases "m a") (auto simp: memory_attestations_list_def view_entries relay_of_def)
  qed
qed

lemma memory_relay_simps [simp]:
  "rl_device_put (memory_relay_transport P) = memory_device_put"
  "rl_device_get (memory_relay_transport P) = memory_device_get"
  "rl_devices_list (memory_relay_transport P) = memory_devices_list"
  "rl_wrap_put (memory_relay_transport P) = memory_wrap_put P"
  "rl_wraps_list (memory_relay_transport P) = memory_wraps_list"
  "rl_attestation_append (memory_relay_transport P) = memory_attestation_append P"
  "rl_attestations_list (memory_relay_transport P) = memory_attestations_list"
  "rl_recovery_put (memory_relay_transport P) = memory_recovery_put"
  "rl_recovery_get (memory_relay_transport P) = memory_recovery_get"
  by (simp_all add: memory_relay_transport_def)

definition memory_sound :: "prims \<Rightarrow> memory_relay \<Rightarrow> bool" where
  "memory_sound P m \<longleftrightarrow> inj (blake3_hash P) \<and> memory_relay_ok P m"

interpretation memory_relay: artifact_relay "memory_relay_transport P" a "memory_view a" "memory_sound P" "2 ^ 64 - 1"
  for P a
proof unfold_locales
  fix m d b
  assume m: "memory_sound P m"
  then have ok: "memory_relay_ok P m" "inj (blake3_hash P)" by (simp_all add: memory_sound_def)
  note acct = account_ok [OF ok(1), of a]
  show "\<exists>m'. rl_device_put (memory_relay_transport P) a d b m = (Inr (), m') \<and> memory_sound P m'
      \<and> memory_view a m' = (memory_view a m)\<lparr>vw_devices := (vw_devices (memory_view a m))(d \<mapsto> b)\<rparr>"
    using acct ok unfolding memory_sound_def
    by (auto simp: memory_device_put_def memory_view_def Let_def account_relay_ok_def wrap_entries_def wrap_seen_def
        update_conv' distinct_update intro!: memory_relay_okI)
  show "rl_device_get (memory_relay_transport P) a d m = (Inr (vw_devices (memory_view a m) d), m)"
    by (simp add: memory_device_get_def memory_view_def relay_of_def account_relay_default_def Let_def split: option.split)
  show "\<exists>ds. rl_devices_list (memory_relay_transport P) a m = (Inr ds, m) \<and> map_of ds = vw_devices (memory_view a m)
      \<and> sorted (map fst ds) \<and> distinct (map fst ds)"
    using acct listed_sorted [of "ay_devices (relay_of m a)"]
    by (cases "m a") (simp_all add: memory_devices_list_def memory_view_def relay_of_def account_relay_default_def Let_def
        account_relay_ok_def)
  show "\<exists>n m'. rl_wrap_put (memory_relay_transport P) a d b m = (Inr n, m') \<and> memory_sound P m'
      \<and> memory_view a m' = (memory_view a m)\<lparr>vw_wraps := (vw_wraps (memory_view a m))(d := log_add (vw_wraps (memory_view a m) d) b)\<rparr>"
    using memory_wrap_put_law [OF ok(2,1)] ok(2) by (simp add: memory_sound_def)
  show "\<exists>n m'. rl_attestation_append (memory_relay_transport P) a b m = (Inr n, m') \<and> memory_sound P m'
      \<and> memory_view a m' = (memory_view a m)\<lparr>vw_attestations := log_add (vw_attestations (memory_view a m)) b\<rparr>"
    using memory_attestation_law [OF ok(2,1)] ok(2) by (simp add: memory_sound_def)
  show "\<exists>m'. rl_recovery_put (memory_relay_transport P) a b m = (Inr (), m') \<and> memory_sound P m'
      \<and> memory_view a m' = (memory_view a m)\<lparr>vw_recovery := Some b\<rparr>"
    using acct ok unfolding memory_sound_def
    by (auto simp: memory_recovery_put_def memory_view_def Let_def account_relay_ok_def wrap_entries_def wrap_seen_def
        intro!: memory_relay_okI)
  show "rl_recovery_get (memory_relay_transport P) a m = (Inr (vw_recovery (memory_view a m)), m)"
    by (simp add: memory_recovery_get_def memory_view_def relay_of_def account_relay_default_def Let_def split: option.split)
next
  fix m d
  assume m: "memory_sound P m"
  then have ok: "memory_relay_ok P m" by (simp add: memory_sound_def)
  show "\<exists>es. rl_wraps_list (memory_relay_transport P) a d 0 m = (Inr es, m) \<and> map re_bytes es = vw_wraps (memory_view a m) d"
    if "length (vw_wraps (memory_view a m) d) \<le> 2 ^ 64 - 1"
    using memory_page_all(1) [OF ok, of a d] that by simp
  show "\<exists>es. rl_attestations_list (memory_relay_transport P) a 0 m = (Inr es, m) \<and> map re_bytes es = vw_attestations (memory_view a m)"
    if "length (vw_attestations (memory_view a m)) \<le> 2 ^ 64 - 1"
    using memory_page_all(2) [OF ok, of a] that by simp
qed

end
