(* ===== verification/Onboarding.thy ===== *)
theory Onboarding
  imports Sealed_Keys Artifact_Relay
begin

text \<open>
  Adding, removing and recovering devices: \<^verbatim>\<open>crates/pergamon-sync/src/onboarding.rs\<close> over any relay.
  The first device founds the roster, a new device publishes its record, a trusted one seals the
  account key to it and vouches for it, the new one opens the bundle; a revocation hands the next
  epoch's key to the devices that remain. Account ids are their sixteen bytes; the relay is
  addressed by their hex form. Draws of randomness (\<open>eph\<close>, \<open>nonce\<close>, \<open>salt\<close>) and the time are arguments.
\<close>

section \<open>Errors\<close>

fun crypto_error_text :: "crypto_error \<Rightarrow> string" where
  "crypto_error_text Decryption = ''decryption failed: ciphertext could not be authenticated''"
| "crypto_error_text (Malformed s) = ''malformed cryptographic input: '' @ s"
| "crypto_error_text BadSignature = ''signature verification failed''"
| "crypto_error_text KeyDerivation = ''key-derivation (argon2id) failed''"
| "crypto_error_text RandomFailure = ''secure random number generation failed''"
| "crypto_error_text (OtherCrypto s) = s"

definition crypto_err :: "string \<Rightarrow> crypto_error \<Rightarrow> sync_error" where
  "crypto_err what e = Protocol (what @ '': '' @ crypto_error_text e)"

text \<open>\<open>result.map_err(f)?\<close>.\<close>

definition map_err :: "('e \<Rightarrow> sync_error) \<Rightarrow> 'e + 'a \<Rightarrow> ('w, 'a) act" where
  "map_err f r = (case r of Inl e \<Rightarrow> fail (f e) | Inr x \<Rightarrow> ret x)"

lemma map_err_simps [simp]: "map_err f (Inr x) = ret x" "map_err f (Inl e) = fail (f e)"
  by (simp_all add: map_err_def)

lemma map_err_iff [result_iff]: "map_err f r w = (Inr x, w') \<longleftrightarrow> r = Inr x \<and> w' = w"
  by (cases r) auto

section \<open>Publishing and fetching records\<close>

definition local_peer :: "device_keys \<Rightarrow> enrollment_peer" where
  "local_peer keys = \<lparr>ep_x25519_pub = dk_x25519_public keys, ep_ed25519_pub = dk_ed25519_verifying keys\<rparr>"

definition record_peer :: "device_record \<Rightarrow> enrollment_peer" where
  "record_peer r = \<lparr>ep_x25519_pub = dv_x25519_pub r, ep_ed25519_pub = dv_ed25519_pub r\<rparr>"

definition enroll_publish :: "key_prims \<Rightarrow> 'w relay_transport \<Rightarrow> string \<Rightarrow> device_keys \<Rightarrow> u64 \<Rightarrow> ('w, unit) act" where
  "enroll_publish K R account keys now =
     (let srec = sign_record K keys now
      in rl_device_put R (to_hex account) (dk_device_id keys) (record_to_bytes srec))"

definition bootstrap ::
  "key_prims \<Rightarrow> 'w relay_transport \<Rightarrow> string \<Rightarrow> device_keys \<Rightarrow> u32 \<Rightarrow> u64 \<Rightarrow> ('w, unit) act" where
  "bootstrap K R account keys key_epoch now =
     (let srec = sign_record K keys now; account_hex = to_hex account in
      bindA (rl_device_put R account_hex (dk_device_id keys) (record_to_bytes srec)) (\<lambda>_.
        let att = attest_trust K keys (sr_record srec) key_epoch now in
        bindA (rl_attestation_append R account_hex (attestation_to_bytes att)) (\<lambda>_. ret ())))"

definition fetch_device_record :: "key_prims \<Rightarrow> 'w relay_transport \<Rightarrow> string \<Rightarrow> string \<Rightarrow> ('w, signed_record) act" where
  "fetch_device_record K R account device_id =
     bindA (rl_device_get R (to_hex account) device_id) (\<lambda>found.
     bindA (case found of None \<Rightarrow> fail (NotFound (''device record for '' @ device_id)) | Some b \<Rightarrow> ret b) (\<lambda>bytes.
     bindA (map_err (crypto_err ''parsing device record'') (record_from_bytes bytes)) (\<lambda>srec.
     bindA (map_err (crypto_err ''verifying device record'') (record_verify K srec)) (\<lambda>_.
       if dv_device_id (sr_record srec) \<noteq> device_id
       then fail (Protocol ''device record does not match the requested device'')
       else ret srec))))"

definition usable_record :: "key_prims \<Rightarrow> string \<times> string \<Rightarrow> signed_record option" where
  "usable_record K entry =
     (case record_from_bytes (snd entry) of
        Inl _ \<Rightarrow> None
      | Inr srec \<Rightarrow>
          if record_verify K srec = Inr () \<and> dv_device_id (sr_record srec) = fst entry then Some srec else None)"

definition roster :: "key_prims \<Rightarrow> 'w relay_transport \<Rightarrow> string \<Rightarrow> ('w, signed_record list) act" where
  "roster K R account =
     bindA (rl_devices_list R (to_hex account)) (\<lambda>raw. ret (List.map_filter (usable_record K) raw))"

definition sas_against ::
  "key_prims \<Rightarrow> 'w relay_transport \<Rightarrow> string \<Rightarrow> device_keys \<Rightarrow> string \<Rightarrow> ('w, string) act" where
  "sas_against K R account self peer_device_id =
     bindA (fetch_device_record K R account peer_device_id) (\<lambda>peer.
       ret (sas_compute K (local_peer self) (record_peer (sr_record peer))))"

section \<open>Enrollment\<close>

definition approve ::
  "key_prims \<Rightarrow> 'w relay_transport \<Rightarrow> string \<Rightarrow> string \<Rightarrow> string \<Rightarrow> device_keys \<Rightarrow> string \<Rightarrow> u32 \<Rightarrow> string \<Rightarrow> u64
     \<Rightarrow> ('w, string) act" where
  "approve K R eph nonce account approver ark key_epoch subject_device_id now =
     (let account_hex = to_hex account in
      bindA (fetch_device_record K R account subject_device_id) (\<lambda>subject.
        let s = sr_record subject;
            sas = sas_compute K (local_peer approver) (record_peer s);
            sealed = seal_enrollment_bundle K eph nonce (dv_x25519_pub s) (dv_device_id s) ark account key_epoch in
        bindA (rl_wrap_put R account_hex (dv_device_id s) sealed) (\<lambda>_.
          let att = attest_trust K approver s key_epoch now in
          bindA (rl_attestation_append R account_hex (attestation_to_bytes att)) (\<lambda>_. ret sas))))"

record accepted =
  ac_bundle :: enrollment_bundle
  ac_approver :: "string option"

definition find_truster :: "key_prims \<Rightarrow> 'w relay_transport \<Rightarrow> string \<Rightarrow> string \<Rightarrow> ('w, string option) act" where
  "find_truster K R account_hex subject_device_id =
     bindA (rl_attestations_list R account_hex 0) (\<lambda>entries.
       ret (map_option (\<lambda>e. case attestation_from_bytes (re_bytes e) of
                Inr s \<Rightarrow> at_signer_device_id (sa_attestation s) | Inl _ \<Rightarrow> [])
         (find (\<lambda>e. case attestation_from_bytes (re_bytes e) of
             Inl _ \<Rightarrow> False
           | Inr s \<Rightarrow> at_kind (sa_attestation s) = Trust
               \<and> at_subject_device_id (sa_attestation s) = subject_device_id
               \<and> attestation_verify K s = Inr ()) entries)))"

definition accept :: "key_prims \<Rightarrow> 'w relay_transport \<Rightarrow> string \<Rightarrow> device_keys \<Rightarrow> ('w, accepted) act" where
  "accept K R account keys =
     (let account_hex = to_hex account in
      bindA (rl_wraps_list R account_hex (dk_device_id keys) 0) (\<lambda>wraps.
      if wraps = [] then fail (NotFound (''no enrollment bundle for device '' @ dk_device_id keys
                                 @ '' yet; ask a trusted device to approve it''))
      else
        let opened = List.map_filter (\<lambda>w. case open_enrollment_bundle K (dk_x25519_secret keys) (dk_device_id keys) (re_bytes w) of
                        Inr b \<Rightarrow> Some b | Inl _ \<Rightarrow> None) wraps in
        bindA (case opened of [] \<Rightarrow> fail (Protocol ''no relayed bundle could be opened by this device'')
               | b # _ \<Rightarrow> ret b) (\<lambda>bundle.
        if bn_account_id bundle \<noteq> account
        then fail (Protocol ''opened enrollment belongs to a different content account'')
        else bindA (find_truster K R account_hex (dk_device_id keys)) (\<lambda>approver.
          ret \<lparr>ac_bundle = bundle, ac_approver = approver\<rparr>))))"

section \<open>Revocation\<close>

record revocation =
  rv_new_epoch :: u32
  rv_rewrapped :: "string list"

definition revoke ::
  "key_prims \<Rightarrow> 'w relay_transport \<Rightarrow> (nat \<Rightarrow> string \<times> string) \<Rightarrow> string \<Rightarrow> device_keys \<Rightarrow> string \<Rightarrow> u32 \<Rightarrow> string \<Rightarrow> u64
     \<Rightarrow> ('w, revocation) act" where
  "revoke K R draw account approver ark current_epoch revoked_device_id now =
     (let account_hex = to_hex account in
      bindA (roster K R account) (\<lambda>all_devices.
      bindA (case find (\<lambda>r. dv_device_id (sr_record r) = revoked_device_id) all_devices of
               None \<Rightarrow> fail (NotFound (''device '' @ revoked_device_id @ '' is not on the roster''))
             | Some r \<Rightarrow> ret r) (\<lambda>revoked.
        let new_epoch = sat_inc current_epoch;
            remaining = filter (\<lambda>r. dv_device_id (sr_record r) \<noteq> revoked_device_id) all_devices;
            recipients = map (\<lambda>r. \<lparr>rc_device_id = dv_device_id (sr_record r), rc_x25519_pub = dv_x25519_pub (sr_record r)\<rparr>) remaining;
            (_, wraps) = rotate_and_rewrap K draw ark account new_epoch recipients in
        bindA (each (\<lambda>w. bindA (rl_wrap_put R account_hex (rk_device_id w) (rk_sealed w)) (\<lambda>_. ret ())) wraps) (\<lambda>_.
          let att = attest_revoke K approver (sr_record revoked) new_epoch now in
          bindA (rl_attestation_append R account_hex (attestation_to_bytes att)) (\<lambda>_.
            ret \<lparr>rv_new_epoch = new_epoch, rv_rewrapped = map rk_device_id wraps\<rparr>)))))"

section \<open>Recovery\<close>

definition recovery_publish ::
  "key_prims \<Rightarrow> 'w relay_transport \<Rightarrow> string \<Rightarrow> string \<Rightarrow> string \<Rightarrow> string \<Rightarrow> string \<Rightarrow> ('w, unit) act" where
  "recovery_publish K R salt nonce account ark secret =
     bindA (map_err (crypto_err ''building recovery blob'') (enable_recovery K salt nonce ark account secret)) (\<lambda>blob.
       rl_recovery_put R (to_hex account) (blob_to_bytes blob))"

definition recover_ark :: "key_prims \<Rightarrow> 'w relay_transport \<Rightarrow> string \<Rightarrow> string \<Rightarrow> ('w, string) act" where
  "recover_ark K R account secret =
     bindA (rl_recovery_get R (to_hex account)) (\<lambda>found.
     bindA (case found of None \<Rightarrow> fail (NotFound ''recovery is not enabled for this account'') | Some b \<Rightarrow> ret b) (\<lambda>bytes.
     bindA (map_err (crypto_err ''parsing recovery blob'') (blob_from_bytes bytes)) (\<lambda>blob.
       map_err (crypto_err ''recovering account key'') (recover K blob account secret))))"

definition current_epoch :: "key_prims \<Rightarrow> 'w relay_transport \<Rightarrow> string \<Rightarrow> ('w, u32) act" where
  "current_epoch K R account =
     bindA (rl_attestations_list R (to_hex account) 0) (\<lambda>entries.
       ret (foldl (\<lambda>epoch e. case attestation_from_bytes (re_bytes e) of
            Inl _ \<Rightarrow> epoch
          | Inr s \<Rightarrow> if attestation_verify K s = Inr () then max epoch (at_key_epoch (sa_attestation s)) else epoch)
         0 entries))"

record pending_recovery =
  pn_code :: string
  pn_content_account_id :: string
  pn_blob :: string

definition pending_recovery_new ::
  "key_prims \<Rightarrow> string \<Rightarrow> string \<Rightarrow> string \<Rightarrow> string \<Rightarrow> string \<Rightarrow> sync_error + pending_recovery" where
  "pending_recovery_new K raw salt nonce ark account =
     (let code = recovery_code raw in
      case enable_recovery K salt nonce ark account code of
        Inl e \<Rightarrow> Inl (Crypto e)
      | Inr blob \<Rightarrow> Inr \<lparr>pn_code = code, pn_content_account_id = to_hex account, pn_blob = blob_to_bytes blob\<rparr>)"

definition pending_recovery_validate :: "key_prims \<Rightarrow> string \<Rightarrow> string \<Rightarrow> pending_recovery \<Rightarrow> sync_error + unit" where
  "pending_recovery_validate K ark account p =
     (if pn_content_account_id p \<noteq> to_hex account then Inl (Protocol ''pending recovery belongs to another account'')
      else case bindR (blob_from_bytes (pn_blob p)) (\<lambda>blob. recover K blob account (pn_code p)) of
             Inl e \<Rightarrow> Inl (Crypto e)
           | Inr recovered \<Rightarrow>
               if recovered \<noteq> ark then Inl (Protocol ''pending recovery has different account keys'') else Inr ())"

end
