(* ===== verification/Onboarding_Proofs.thy ===== *)
theory Onboarding_Proofs
  imports Onboarding
begin

text \<open>
  What the onboarding flows achieve, over any relay (inside \<open>artifact_relay\<close>) and then over the
  in-memory one: an approved device obtains the account key, the remaining devices of a revocation
  obtain the next epoch's key and the revoked one no bundle, a recovery secret brings the root key
  back, and the epoch of an account never goes back.
\<close>

section \<open>Reading lists of artifacts\<close>

definition vouches :: "key_prims \<Rightarrow> string \<Rightarrow> string \<Rightarrow> bool" where
  "vouches K d bytes \<longleftrightarrow> (case attestation_from_bytes bytes of
       Inl _ \<Rightarrow> False
     | Inr s \<Rightarrow> at_kind (sa_attestation s) = Trust \<and> at_subject_device_id (sa_attestation s) = d
         \<and> attestation_verify K s = Inr ())"

definition signer_of :: "string \<Rightarrow> string" where
  "signer_of bytes = (case attestation_from_bytes bytes of Inr s \<Rightarrow> at_signer_device_id (sa_attestation s) | Inl _ \<Rightarrow> [])"

definition attested_epoch :: "key_prims \<Rightarrow> string \<Rightarrow> u32" where
  "attested_epoch K bytes = (case attestation_from_bytes bytes of
       Inl _ \<Rightarrow> 0 | Inr s \<Rightarrow> if attestation_verify K s = Inr () then at_key_epoch (sa_attestation s) else 0)"

definition epoch_of :: "key_prims \<Rightarrow> string list \<Rightarrow> u32" where
  "epoch_of K bs = foldl (\<lambda>e b. max e (attested_epoch K b)) 0 bs"

lemma find_map: "find P (map f xs) = map_option f (find (P \<circ> f) xs)"
  by (induction xs) auto

lemma truster_bytes:
  "map_option (\<lambda>e. case attestation_from_bytes (re_bytes e) of
       Inr s \<Rightarrow> at_signer_device_id (sa_attestation s) | Inl _ \<Rightarrow> [])
     (find (\<lambda>e. case attestation_from_bytes (re_bytes e) of
         Inl _ \<Rightarrow> False
       | Inr s \<Rightarrow> at_kind (sa_attestation s) = Trust \<and> at_subject_device_id (sa_attestation s) = d
           \<and> attestation_verify K s = Inr ()) es)
   = map_option signer_of (find (vouches K d) (map re_bytes es))"
  by (simp add: find_map option.map_comp comp_def signer_of_def vouches_def)

lemma epoch_bytes:
  "foldl (\<lambda>epoch e. case attestation_from_bytes (re_bytes e) of
        Inl _ \<Rightarrow> epoch
      | Inr s \<Rightarrow> if attestation_verify K s = Inr () then max epoch (at_key_epoch (sa_attestation s)) else epoch) c es
   = foldl (\<lambda>e b. max e (attested_epoch K b)) c (map re_bytes es)"
  by (induction es arbitrary: c) (auto simp: attested_epoch_def split: sum.split)

lemma max_zero [simp]: "max (x :: 'a::len word) 0 = x" "max 0 (x :: 'a::len word) = x"
  by (simp_all add: max_def)

lemma epoch_of_append: "epoch_of K (bs @ cs) = max (epoch_of K bs) (epoch_of K cs)"
proof -
  let ?f = "\<lambda>e b. max e (attested_epoch K b)"
  have "foldl ?f c cs = max c (epoch_of K cs)" for c
  proof (induction cs rule: rev_induct)
    case (snoc b cs)
    have "foldl ?f c (cs @ [b]) = max (max c (epoch_of K cs)) (attested_epoch K b)" using snoc by simp
    also have "\<dots> = max c (max (epoch_of K cs) (attested_epoch K b))" by (rule max.assoc)
    also have "max (epoch_of K cs) (attested_epoch K b) = epoch_of K (cs @ [b])" by (simp add: epoch_of_def)
    finally show ?case .
  qed (simp add: epoch_of_def)
  moreover have "epoch_of K (bs @ cs) = foldl ?f (epoch_of K bs) cs" by (simp add: epoch_of_def)
  ultimately show ?thesis by (rule trans [rotated])
qed

lemma epoch_of_log_add: "epoch_of K (log_add bs b) = max (epoch_of K bs) (attested_epoch K b)"
proof (cases "b \<in> set bs")
  case True
  then obtain xs ys where "bs = xs @ b # ys" by (auto simp: in_set_conv_decomp)
  moreover have "epoch_of K (b # ys) = max (attested_epoch K b) (epoch_of K ys)"
    using epoch_of_append [of K "[b]" ys] by (simp add: epoch_of_def)
  ultimately show ?thesis using True
    by (simp add: epoch_of_append max.left_commute max.commute [of _ "attested_epoch K b"])
qed (simp add: log_add_def epoch_of_append, simp add: epoch_of_def)

lemma find_log_add:
  "find P (log_add bs b) = (case find P bs of Some x \<Rightarrow> Some x | None \<Rightarrow> if P b then Some b else None)"
proof -
  have "find P (bs @ [b]) = (case find P bs of Some x \<Rightarrow> Some x | None \<Rightarrow> if P b then Some b else None)"
    by (induction bs) auto
  moreover have "b \<in> set bs \<Longrightarrow> find P bs = None \<Longrightarrow> \<not> P b" by (auto simp: find_None_iff)
  ultimately show ?thesis by (auto simp: log_add_def split: option.split)
qed

definition opened_bundles :: "key_prims \<Rightarrow> device_keys \<Rightarrow> string list \<Rightarrow> enrollment_bundle list" where
  "opened_bundles K keys bs =
     List.map_filter (\<lambda>b. case open_enrollment_bundle K (dk_x25519_secret keys) (dk_device_id keys) b of
        Inr x \<Rightarrow> Some x | Inl _ \<Rightarrow> None) bs"

lemma map_filter_map: "List.map_filter f (map g xs) = List.map_filter (\<lambda>x. f (g x)) xs"
  by (simp add: List.map_filter_def filter_map comp_def)

lemma opened_append: "opened_bundles K keys (bs @ cs) = opened_bundles K keys bs @ opened_bundles K keys cs"
  by (simp add: opened_bundles_def List.map_filter_def)

definition keys_ok :: "key_prims \<Rightarrow> bool" where
  "keys_ok K \<longleftrightarrow> boxes_ok K \<and> ed25519_ok K"

lemma keys_okD: "keys_ok K \<Longrightarrow> boxes_ok K" "keys_ok K \<Longrightarrow> ed25519_ok K"
  by (simp_all add: keys_ok_def)

text \<open>A device's own record, as it publishes it.\<close>

definition own_record :: "key_prims \<Rightarrow> device_keys \<Rightarrow> signed_record \<Rightarrow> bool" where
  "own_record K keys s \<longleftrightarrow> (\<exists>t. s = sign_record K keys t)"

lemma vouches_attest:
  assumes "ed25519_ok K" and "own_keys K keys"
    and "length (dv_ed25519_pub r) = KEY_LEN" and "dv_device_id r = device_id_of_ed25519 K (dv_ed25519_pub r)"
  shows "vouches K d (attestation_to_bytes (attest_trust K keys r e t)) \<longleftrightarrow> dv_device_id r = d"
    "signer_of (attestation_to_bytes (attest_trust K keys r e t)) = dk_device_id keys"
    "attested_epoch K (attestation_to_bytes (attest_trust K keys r e t)) = e"
    "attested_epoch K (attestation_to_bytes (attest_revoke K keys r e t)) = e"
  using attest_wf [OF assms] attestation_round_trip
  by (simp_all add: vouches_def signer_of_def attested_epoch_def attest_trust_def attest_revoke_def)
    (simp_all add: attest_def Let_def)

section \<open>Over any relay\<close>

context artifact_relay
begin

lemma fetch_published:
  assumes "ok w" and "a = to_hex account" and "vw_devices (view w) d = Some (record_to_bytes s)"
    and "record_wf s" and "record_verify K s = Inr ()" and "dv_device_id (sr_record s) = d"
  shows "fetch_device_record K R account d w = (Inr s, w)"
  using device_get [OF assms(1), of d] assms
  by (simp add: fetch_device_record_def record_round_trip)

lemma fetch_genuine:
  assumes "ok w" and "a = to_hex account" and "fetch_device_record K R account d w = (Inr s, w')"
  shows "w' = w \<and> (\<exists>b. vw_devices (view w) d = Some b \<and> record_from_bytes b = Inr s)
    \<and> record_verify K s = Inr () \<and> dv_device_id (sr_record s) = d"
  using device_get [OF assms(1), of d] assms(2,3)
  by (auto simp: fetch_device_record_def result_iff split: option.splits if_splits)

lemma enroll_publish_law:
  assumes "ok w" and "a = to_hex account"
  shows "\<exists>w'. enroll_publish K R account keys now w = (Inr (), w') \<and> ok w'
    \<and> view w' = (view w)\<lparr>vw_devices := (vw_devices (view w))(dk_device_id keys \<mapsto> record_to_bytes (sign_record K keys now))\<rparr>"
  using device_put [OF assms(1)] by (simp add: enroll_publish_def assms(2))

lemma approve_law:
  assumes "ok w" and "a = to_hex account" and "fetch_device_record K R account d w = (Inr s, w)"
  shows "\<exists>w'. approve K R eph nonce account approver ark epoch d now w =
      (Inr (sas_compute K (local_peer approver) (record_peer (sr_record s))), w') \<and> ok w'
    \<and> view w' = (view w)\<lparr>
        vw_wraps := (vw_wraps (view w))(d := log_add (vw_wraps (view w) d)
          (seal_enrollment_bundle K eph nonce (dv_x25519_pub (sr_record s)) d ark account epoch)),
        vw_attestations := log_add (vw_attestations (view w))
          (attestation_to_bytes (attest_trust K approver (sr_record s) epoch now))\<rparr>"
proof -
  have d: "dv_device_id (sr_record s) = d" using fetch_genuine [OF assms] by simp
  let ?b = "seal_enrollment_bundle K eph nonce (dv_x25519_pub (sr_record s)) d ark account epoch"
    and ?t = "attestation_to_bytes (attest_trust K approver (sr_record s) epoch now)"
  obtain n w1 where w1: "rl_wrap_put R a d ?b w = (Inr n, w1)" "ok w1"
    "view w1 = (view w)\<lparr>vw_wraps := (vw_wraps (view w))(d := log_add (vw_wraps (view w) d) ?b)\<rparr>"
    using wrap_put [OF assms(1)] by blast
  obtain k w2 where w2: "rl_attestation_append R a ?t w1 = (Inr k, w2)" "ok w2"
    "view w2 = (view w1)\<lparr>vw_attestations := log_add (vw_attestations (view w1)) ?t\<rparr>"
    using attestation_append [OF w1(2)] by blast
  show ?thesis
    using w1 w2 assms(3) by (simp add: approve_def Let_def d assms(2))
qed

lemma truster_law:
  assumes "ok w" and "length (vw_attestations (view w)) \<le> page"
  shows "find_truster K R a d w = (Inr (map_option signer_of (find (vouches K d) (vw_attestations (view w)))), w)"
proof -
  obtain es where "rl_attestations_list R a 0 w = (Inr es, w)" "map re_bytes es = vw_attestations (view w)"
    using attestations_list [OF assms] by blast
  then show ?thesis by (simp only: find_truster_def act_simps truster_bytes)
qed

lemma current_epoch_law:
  assumes "ok w" and "a = to_hex account" and "length (vw_attestations (view w)) \<le> page"
  shows "current_epoch K R account w = (Inr (epoch_of K (vw_attestations (view w))), w)"
proof -
  obtain es where "rl_attestations_list R a 0 w = (Inr es, w)" "map re_bytes es = vw_attestations (view w)"
    using attestations_list [OF assms(1,3)] by blast
  then show ?thesis by (simp only: current_epoch_def act_simps assms(2) [symmetric] epoch_bytes epoch_of_def)
qed

lemma accept_law:
  assumes "ok w" and "a = to_hex account" and "length (vw_wraps (view w) (dk_device_id keys)) \<le> page"
    and "length (vw_attestations (view w)) \<le> page"
    and "opened_bundles K keys (vw_wraps (view w) (dk_device_id keys)) = b # bs" and "bn_account_id b = account"
  shows "accept K R account keys w = (Inr \<lparr>ac_bundle = b,
    ac_approver = map_option signer_of (find (vouches K (dk_device_id keys)) (vw_attestations (view w)))\<rparr>, w)"
proof -
  obtain es where es: "rl_wraps_list R a (dk_device_id keys) 0 w = (Inr es, w)"
    and bytes: "map re_bytes es = vw_wraps (view w) (dk_device_id keys)"
    using wraps_list [OF assms(1,3)] by blast
  have o: "List.map_filter (\<lambda>e. case open_enrollment_bundle K (dk_x25519_secret keys) (dk_device_id keys) (re_bytes e) of
      Inr b \<Rightarrow> Some b | Inl _ \<Rightarrow> None) es = b # bs"
    using assms(5) by (simp add: opened_bundles_def map_filter_map flip: bytes)
  then have "es \<noteq> []" by (auto simp: List.map_filter_def)
  then show ?thesis
    using es o truster_law [OF assms(1,4)] assms(6)
    by (simp add: accept_def Let_def assms(2) [symmetric])
qed

text \<open>What is accepted belongs to the account that was asked for, and was sealed to this device.\<close>

lemma accept_sound:
  assumes "ok w" and "a = to_hex account" and "length (vw_wraps (view w) (dk_device_id keys)) \<le> page"
    and "accept K R account keys w = (Inr acc, w')"
  shows "bn_account_id (ac_bundle acc) = account
    \<and> (\<exists>b \<in> set (vw_wraps (view w) (dk_device_id keys)).
         open_enrollment_bundle K (dk_x25519_secret keys) (dk_device_id keys) b = Inr (ac_bundle acc))"
proof -
  obtain es where es: "rl_wraps_list R a (dk_device_id keys) 0 w = (Inr es, w)"
    and bytes: "map re_bytes es = vw_wraps (view w) (dk_device_id keys)"
    using wraps_list [OF assms(1,3)] by blast
  from assms(4) es obtain bs where o: "List.map_filter (\<lambda>e. case open_enrollment_bundle K (dk_x25519_secret keys) (dk_device_id keys) (re_bytes e) of
      Inr b \<Rightarrow> Some b | Inl _ \<Rightarrow> None) es = ac_bundle acc # bs" and "bn_account_id (ac_bundle acc) = account"
    by (auto simp: accept_def Let_def assms(2) [symmetric] result_iff split: list.splits if_splits)
  moreover have "ac_bundle acc \<in> set (List.map_filter (\<lambda>e. case open_enrollment_bundle K (dk_x25519_secret keys) (dk_device_id keys) (re_bytes e) of
      Inr b \<Rightarrow> Some b | Inl _ \<Rightarrow> None) es)" using o by simp
  then obtain e where "e \<in> set es" "open_enrollment_bundle K (dk_x25519_secret keys) (dk_device_id keys) (re_bytes e) = Inr (ac_bundle acc)"
    by (auto simp: List.map_filter_def split: sum.splits)
  ultimately show ?thesis by (auto simp flip: bytes)
qed

lemma enrollment:
  assumes "keys_ok K" and "ok w" and "a = to_hex account"
    and "own_keys K approver" and "own_keys K self" and "own_record K self s"
    and "vw_devices (view w) (dk_device_id self) = Some (record_to_bytes s)"
    and "opened_bundles K self (vw_wraps (view w) (dk_device_id self)) = []"
    and "length nonce = NONCE_LEN" and "length ark = KEY_LEN" and "length account = ACCOUNT_ID_LEN"
  shows "\<exists>w1. approve K R eph nonce account approver ark epoch (dk_device_id self) now w =
      (Inr (sas_compute K (local_peer approver) (local_peer self)), w1) \<and> ok w1
    \<and> length (vw_wraps (view w1) (dk_device_id self)) \<le> Suc (length (vw_wraps (view w) (dk_device_id self)))
    \<and> length (vw_attestations (view w1)) \<le> Suc (length (vw_attestations (view w)))
    \<and> (\<forall>w2 ws as. ok w2 \<and> vw_wraps (view w2) (dk_device_id self) = vw_wraps (view w1) (dk_device_id self) @ ws
        \<and> vw_attestations (view w2) = vw_attestations (view w1) @ as
        \<and> length (vw_wraps (view w2) (dk_device_id self)) \<le> page \<and> length (vw_attestations (view w2)) \<le> page
        \<longrightarrow> (\<exists>by. accept K R account self w2 =
              (Inr \<lparr>ac_bundle = \<lparr>bn_ark = ark, bn_account_id = account, bn_key_epoch = epoch\<rparr>, ac_approver = Some by\<rparr>, w2)
              \<and> (find (vouches K (dk_device_id self)) (vw_attestations (view w)) = None \<longrightarrow> by = dk_device_id approver)))"
proof -
  note K = keys_okD [OF assms(1)]
  let ?d = "dk_device_id self"
  obtain t where s: "s = sign_record K self t" using assms(6) by (auto simp: own_record_def)
  note r = sign_record_wf [OF K(2) assms(5), of t, folded s]
  note k = own_keysD [OF assms(5)]
  have lens: "length (dk_x25519_public self) = KEY_LEN" "length (dk_ed25519_verifying self) = KEY_LEN"
    using K(2) by (simp_all add: k ed25519_ok_def)
  let ?b = "seal_enrollment_bundle K eph nonce (dk_x25519_public self) ?d ark account epoch"
    and ?t = "attestation_to_bytes (attest_trust K approver (sr_record s) epoch now)"
  have fetch: "fetch_device_record K R account ?d w = (Inr s, w)"
    by (rule fetch_published [OF assms(2,3,7) r(1-3)])
  obtain w1 where w1: "approve K R eph nonce account approver ark epoch ?d now w =
      (Inr (sas_compute K (local_peer approver) (local_peer self)), w1)" "ok w1"
    and v1: "view w1 = (view w)\<lparr>vw_wraps := (vw_wraps (view w))(?d := log_add (vw_wraps (view w) ?d) ?b),
        vw_attestations := log_add (vw_attestations (view w)) ?t\<rparr>"
    using approve_law [OF assms(2,3) fetch, of eph nonce approver ark epoch now] r(4,5)
    by (auto simp: record_peer_def local_peer_def)
  have opens: "open_enrollment_bundle K (dk_x25519_secret self) ?d ?b =
      Inr \<lparr>bn_ark = ark, bn_account_id = account, bn_key_epoch = epoch\<rparr>"
    using open_enrollment_iff [OF K(1) assms(9) lens(1) assms(10,11)] by (simp add: k)
  have first: "opened_bundles K self (log_add (vw_wraps (view w) ?d) ?b) = [\<lparr>bn_ark = ark, bn_account_id = account, bn_key_epoch = epoch\<rparr>]"
  proof -
    have "?b \<notin> set (vw_wraps (view w) ?d)"
      using assms(8) opens by (auto simp: opened_bundles_def List.map_filter_def filter_empty_conv split: sum.splits)
    then show ?thesis using assms(8) opens by (simp add: log_add_def opened_append) (simp add: opened_bundles_def List.map_filter_def)
  qed
  have v: "vouches K ?d ?t" "signer_of ?t = dk_device_id approver"
    using vouches_attest [OF K(2) assms(4), of "sr_record s"] r(3,5) lens k by simp_all
  have "\<exists>by. accept K R account self w2 =
        (Inr \<lparr>ac_bundle = \<lparr>bn_ark = ark, bn_account_id = account, bn_key_epoch = epoch\<rparr>, ac_approver = Some by\<rparr>, w2)
      \<and> (find (vouches K ?d) (vw_attestations (view w)) = None \<longrightarrow> by = dk_device_id approver)"
    if w2: "ok w2" "vw_wraps (view w2) ?d = vw_wraps (view w1) ?d @ ws" "vw_attestations (view w2) = vw_attestations (view w1) @ as"
      "length (vw_wraps (view w2) ?d) \<le> page" "length (vw_attestations (view w2)) \<le> page" for w2 ws as
  proof -
    have "opened_bundles K self (vw_wraps (view w2) ?d) =
        \<lparr>bn_ark = ark, bn_account_id = account, bn_key_epoch = epoch\<rparr> # opened_bundles K self ws"
      using first by (simp add: w2(2) v1 opened_append)
    note accept_law [OF w2(1) assms(3) w2(4,5) this]
    moreover have "find (vouches K ?d) (vw_attestations (view w2)) =
        Some (case find (vouches K ?d) (vw_attestations (view w)) of Some x \<Rightarrow> x | None \<Rightarrow> ?t)"
    proof -
      have "find P (xs @ ys) = (case find P xs of Some x \<Rightarrow> Some x | None \<Rightarrow> find P ys)" for P and xs ys :: "string list"
        by (induction xs) auto
      then show ?thesis using v(1) by (simp add: w2(3) v1 find_log_add split: option.split)
    qed
    ultimately show ?thesis using v(2) by (simp split: option.split)
  qed
  moreover have "length (log_add xs x) \<le> Suc (length xs)" for xs and x :: string by (simp add: log_add_def)
  then have "length (vw_wraps (view w1) ?d) \<le> Suc (length (vw_wraps (view w) ?d))"
    "length (vw_attestations (view w1)) \<le> Suc (length (vw_attestations (view w)))"
    by (simp_all add: v1)
  ultimately show ?thesis using w1 by blast
qed

lemma roster_law:
  assumes "ok w" and "a = to_hex account"
  shows "\<exists>rs. roster K R account w = (Inr rs, w) \<and> distinct (map (\<lambda>r. dv_device_id (sr_record r)) rs)
    \<and> sorted (map (\<lambda>r. dv_device_id (sr_record r)) rs)
    \<and> (\<forall>s. s \<in> set rs \<longleftrightarrow> (\<exists>b. vw_devices (view w) (dv_device_id (sr_record s)) = Some b
          \<and> record_from_bytes b = Inr s \<and> record_verify K s = Inr ()))"
proof -
  obtain ds where ds: "rl_devices_list R a w = (Inr ds, w)" "map_of ds = vw_devices (view w)"
    "sorted (map fst ds)" "distinct (map fst ds)"
    using devices_list [OF assms(1)] by blast
  let ?rs = "List.map_filter (usable_record K) ds"
  have i: "usable_record K e = Some s \<longleftrightarrow> record_from_bytes (snd e) = Inr s \<and> record_verify K s = Inr ()
      \<and> dv_device_id (sr_record s) = fst e" for e s
    by (auto simp: usable_record_def split: sum.splits)
  have "map (\<lambda>r. dv_device_id (sr_record r)) ?rs = map fst (filter (\<lambda>e. usable_record K e \<noteq> None) ds)"
  proof -
    have "dv_device_id (sr_record (the (usable_record K e))) = fst e" if "usable_record K e \<noteq> None" for e
      using that by (auto simp: usable_record_def split: sum.splits if_splits)
    then show ?thesis by (simp add: List.map_filter_def)
  qed
  moreover have "sorted (map fst (filter P ds))" "distinct (map fst (filter P ds))" for P
    using ds(3,4) by (simp_all add: sorted_filter distinct_map_filter)
  moreover have "s \<in> set ?rs \<longleftrightarrow> (\<exists>b. vw_devices (view w) (dv_device_id (sr_record s)) = Some b
          \<and> record_from_bytes b = Inr s \<and> record_verify K s = Inr ())" for s
  proof -
    have "s \<in> set ?rs \<longleftrightarrow> (\<exists>e \<in> set ds. usable_record K e = Some s)"
      by (force simp: List.map_filter_def)
    also have "\<dots> \<longleftrightarrow> (\<exists>b. (dv_device_id (sr_record s), b) \<in> set ds \<and> record_from_bytes b = Inr s \<and> record_verify K s = Inr ())"
      by (auto simp: i Bex_def)
    also have "\<dots> \<longleftrightarrow> (\<exists>b. map_of ds (dv_device_id (sr_record s)) = Some b \<and> record_from_bytes b = Inr s \<and> record_verify K s = Inr ())"
      by (simp add: map_of_eq_Some_iff [OF ds(4)])
    finally show ?thesis by (simp add: ds(2))
  qed
  moreover have "roster K R account w = (Inr ?rs, w)" using ds(1) by (simp add: roster_def assms(2))
  ultimately show ?thesis by metis
qed

text \<open>Handing out the bundles of a rotation.\<close>

lemma relay_wraps:
  assumes "ok w"
  shows "\<exists>w'. each (\<lambda>x. bindA (rl_wrap_put R a (rk_device_id x) (rk_sealed x)) (\<lambda>_. ret ())) xs w = (Inr (), w') \<and> ok w'
    \<and> view w' = (view w)\<lparr>vw_wraps := vw_wraps (view w')\<rparr>
    \<and> (\<forall>x \<in> set xs. rk_sealed x \<in> set (vw_wraps (view w') (rk_device_id x)))
    \<and> (\<forall>d. set (vw_wraps (view w) d) \<subseteq> set (vw_wraps (view w') d))
    \<and> (\<forall>d. d \<notin> rk_device_id ` set xs \<longrightarrow> vw_wraps (view w') d = vw_wraps (view w) d)"
  using assms
proof (induction xs arbitrary: w)
  case (Cons x xs)
  let ?d = "rk_device_id x"
  obtain n w1 where w1: "rl_wrap_put R a ?d (rk_sealed x) w = (Inr n, w1)" "ok w1"
    and v1: "view w1 = (view w)\<lparr>vw_wraps := (vw_wraps (view w))(?d := log_add (vw_wraps (view w) ?d) (rk_sealed x))\<rparr>"
    using wrap_put [OF Cons.prems] by blast
  obtain w2 where w2: "each (\<lambda>x. bindA (rl_wrap_put R a (rk_device_id x) (rk_sealed x)) (\<lambda>_. ret ())) xs w1 = (Inr (), w2)"
      "ok w2" "view w2 = (view w1)\<lparr>vw_wraps := vw_wraps (view w2)\<rparr>"
    and here: "\<forall>x \<in> set xs. rk_sealed x \<in> set (vw_wraps (view w2) (rk_device_id x))"
    and sub: "\<forall>d. set (vw_wraps (view w1) d) \<subseteq> set (vw_wraps (view w2) d)"
    and same: "\<forall>d. d \<notin> rk_device_id ` set xs \<longrightarrow> vw_wraps (view w2) d = vw_wraps (view w1) d"
    using Cons.IH [OF w1(2)] by blast
  have mine: "rk_sealed x \<in> set (vw_wraps (view w1) ?d)" and grow: "\<forall>d. set (vw_wraps (view w) d) \<subseteq> set (vw_wraps (view w1) d)"
    by (auto simp: v1)
  have "each (\<lambda>x. bindA (rl_wrap_put R a (rk_device_id x) (rk_sealed x)) (\<lambda>_. ret ())) (x # xs) w = (Inr (), w2)"
    using w1 w2(1) by simp
  moreover have "view w2 = (view w)\<lparr>vw_wraps := vw_wraps (view w2)\<rparr>" using w2(3) by (simp add: v1)
  moreover have "\<forall>y \<in> set (x # xs). rk_sealed y \<in> set (vw_wraps (view w2) (rk_device_id y))"
    using here mine sub by auto
  moreover have "\<forall>d. set (vw_wraps (view w) d) \<subseteq> set (vw_wraps (view w2) d)" using sub grow by blast
  moreover have "\<forall>d. d \<notin> rk_device_id ` set (x # xs) \<longrightarrow> vw_wraps (view w2) d = vw_wraps (view w) d"
    using same by (simp add: v1)
  ultimately show ?case using w2(2) by blast
qed simp

lemma recovery_law:
  assumes "aead_ok (kp_prims K)" and "ok w" and "a = to_hex account"
    and "length nonce = NONCE_LEN" and "length salt = RECOVERY_SALT_LEN" and "length ark = KEY_LEN"
    and "argon2id_kek K secret salt \<noteq> None"
  shows "\<exists>w'. recovery_publish K R salt nonce account ark secret w = (Inr (), w') \<and> ok w'
    \<and> (\<forall>w2 secret' ark'. ok w2 \<and> vw_recovery (view w2) = vw_recovery (view w') \<longrightarrow>
        (recover_ark K R account secret' w2 = (Inr ark', w2)
          \<longleftrightarrow> argon2id_kek K secret' salt = argon2id_kek K secret salt \<and> ark' = ark))"
proof -
  obtain kek where kek: "argon2id_kek K secret salt = Some kek" using assms(7) by blast
  let ?blob = "\<lparr>rb_salt = salt, rb_wrapped = aead_seal (kp_prims K) nonce kek (recovery_aad account) ark\<rparr>"
  have e: "enable_recovery K salt nonce ark account secret = Inr ?blob"
    by (simp add: enable_recovery_def stretch_def kek)
  obtain w' where w': "rl_recovery_put R a (blob_to_bytes ?blob) w = (Inr (), w')" "ok w'"
    "view w' = (view w)\<lparr>vw_recovery := Some (blob_to_bytes ?blob)\<rparr>"
    using recovery_put [OF assms(2)] by blast
  have "nonce \<noteq> []" using assms(4) by (auto simp: NONCE_LEN_def)
  then have parse: "blob_from_bytes (blob_to_bytes ?blob) = Inr ?blob"
    using assms(5) by (simp add: blob_round_trip aead_seal_def)
  have "recover_ark K R account secret' w2 = (Inr ark', w2)
      \<longleftrightarrow> argon2id_kek K secret' salt = argon2id_kek K secret salt \<and> ark' = ark"
    if w2: "ok w2" "vw_recovery (view w2) = vw_recovery (view w')" for w2 secret' ark'
  proof -
    have "recover_ark K R account secret' w2 = map_err (crypto_err ''recovering account key'') (recover K ?blob account secret') w2"
      using recovery_get [OF w2(1)] w2(2) parse by (simp add: recover_ark_def assms(3) w'(3))
    then show ?thesis
      using recover_iff [OF assms(1,4,6) e, of account secret' ark'] by (simp add: map_err_iff)
  qed
  moreover have "recovery_publish K R salt nonce account ark secret w = (Inr (), w')"
    using w'(1) by (simp add: recovery_publish_def e assms(3))
  ultimately show ?thesis using w'(2) by blast
qed

lemma revocation:
  assumes "keys_ok K" and "ok w" and "a = to_hex account" and "length account = ACCOUNT_ID_LEN"
    and "own_keys K approver" and "\<forall>i. length (snd (draw i)) = NONCE_LEN"
    and "roster K R account w = (Inr rs, w)" and "gone \<in> set rs" and "d = dv_device_id (sr_record gone)"
    and "\<forall>e b. vw_devices (view w) e = Some b \<longrightarrow> length b < 2 ^ 64"
  shows "\<exists>rv w'. revoke K R draw account approver ark cur d now w = (Inr rv, w') \<and> ok w'
    \<and> rv_new_epoch rv = sat_inc cur
    \<and> set (rv_rewrapped rv) = (\<lambda>r. dv_device_id (sr_record r)) ` set rs - {d}
    \<and> vw_devices (view w') = vw_devices (view w)
    \<and> (\<forall>e. e \<notin> (\<lambda>r. dv_device_id (sr_record r)) ` set rs - {d} \<longrightarrow> vw_wraps (view w') e = vw_wraps (view w) e)
    \<and> (\<forall>r \<in> set rs. dv_device_id (sr_record r) \<noteq> d \<longrightarrow>
        (\<exists>b \<in> set (vw_wraps (view w') (dv_device_id (sr_record r))). \<forall>sk.
           x25519_public K sk = dv_x25519_pub (sr_record r) \<longrightarrow>
           open_rewrapped K sk (dv_device_id (sr_record r)) account (sat_inc cur) b
             = Inr (content_key_at (kp_prims K) ark (sat_inc cur))))
    \<and> epoch_of K (vw_attestations (view w')) = max (epoch_of K (vw_attestations (view w))) (sat_inc cur)"
proof -
  note K = keys_okD [OF assms(1)]
  let ?id = "\<lambda>r. dv_device_id (sr_record r)" and ?e = "sat_inc cur"
  have members: "s \<in> set rs \<longleftrightarrow> (\<exists>b. vw_devices (view w) (?id s) = Some b \<and> record_from_bytes b = Inr s \<and> record_verify K s = Inr ())"
    and dist: "distinct (map ?id rs)" for s
    using roster_law [OF assms(2,3), of K] assms(7) by auto
  have wf: "record_wf r" "?id r = device_id_of_ed25519 K (dv_ed25519_pub (sr_record r))" if r: "r \<in> set rs" for r
  proof -
    obtain b where "vw_devices (view w) (?id r) = Some b" "record_from_bytes b = Inr r" "record_verify K r = Inr ()"
      using r unfolding members by (elim exE conjE)
    moreover from this have "length b < 2 ^ 64" using assms(10) by blast
    ultimately show "record_wf r" "?id r = device_id_of_ed25519 K (dv_ed25519_pub (sr_record r))"
      by (simp_all add: record_from_bytes_iff record_verify_def Let_def split: if_splits)
  qed
  let ?remaining = "filter (\<lambda>r. ?id r \<noteq> d) rs"
  let ?recipients = "map (\<lambda>r. \<lparr>rc_device_id = ?id r, rc_x25519_pub = dv_x25519_pub (sr_record r)\<rparr>) ?remaining"
  let ?xs = "snd (rotate_and_rewrap K draw ark account ?e ?recipients)"
    and ?t = "attestation_to_bytes (attest_revoke K approver (sr_record gone) ?e now)"
  have ids: "map rk_device_id ?xs = map ?id ?remaining" by (simp add: rewrap_ids)
  obtain w1 where w1: "each (\<lambda>x. bindA (rl_wrap_put R a (rk_device_id x) (rk_sealed x)) (\<lambda>_. ret ())) ?xs w = (Inr (), w1)"
      "ok w1" "view w1 = (view w)\<lparr>vw_wraps := vw_wraps (view w1)\<rparr>"
    and here: "\<forall>x \<in> set ?xs. rk_sealed x \<in> set (vw_wraps (view w1) (rk_device_id x))"
    and same: "\<forall>e. e \<notin> rk_device_id ` set ?xs \<longrightarrow> vw_wraps (view w1) e = vw_wraps (view w) e"
    using relay_wraps [OF assms(2)] by blast
  obtain n w2 where w2: "rl_attestation_append R a ?t w1 = (Inr n, w2)" "ok w2"
    and v2: "view w2 = (view w1)\<lparr>vw_attestations := log_add (vw_attestations (view w1)) ?t\<rparr>"
    using attestation_append [OF w1(2)] by blast
  have v1: "vw_devices (view w1) = vw_devices (view w)" "vw_attestations (view w1) = vw_attestations (view w)"
    by (subst w1(3), simp)+
  have find: "find (\<lambda>r. ?id r = d) rs = Some gone"
    using assms(8,9) dist by (auto simp: find_Some_iff in_set_conv_nth nth_eq_iff_index_eq distinct_conv_nth)
  have "revoke K R draw account approver ark cur d now w = (Inr \<lparr>rv_new_epoch = ?e, rv_rewrapped = map rk_device_id ?xs\<rparr>, w2)"
    using assms(7) find w1(1) w2(1) by (simp add: revoke_def Let_def case_prod_unfold assms(3))
  moreover have "set (map rk_device_id ?xs) = ?id ` set rs - {d}" unfolding ids by auto
  moreover have "vw_devices (view w2) = vw_devices (view w)" using v1 by (simp add: v2)
  moreover have "vw_wraps (view w2) e = vw_wraps (view w) e" if "e \<notin> ?id ` set rs - {d}" for e
  proof -
    have "e \<notin> rk_device_id ` set ?xs" using arg_cong [OF ids, of set] that by auto
    with same show ?thesis by (simp add: v2)
  qed
  moreover have "\<exists>b \<in> set (vw_wraps (view w2) (?id r)). \<forall>sk. x25519_public K sk = dv_x25519_pub (sr_record r) \<longrightarrow>
      open_rewrapped K sk (?id r) account ?e b = Inr (content_key_at (kp_prims K) ark ?e)"
    if r: "r \<in> set rs" "?id r \<noteq> d" for r
  proof -
    have "\<lparr>rc_device_id = ?id r, rc_x25519_pub = dv_x25519_pub (sr_record r)\<rparr> \<in> set ?recipients" using r by auto
    from rewrap_for [OF this, of ?e K draw ark account] obtain i where
      "\<lparr>rk_device_id = ?id r, rk_key_epoch = ?e, rk_sealed = rewrap_seal K (fst (draw i)) (snd (draw i))
          (dv_x25519_pub (sr_record r)) (?id r) ark account ?e\<rparr> \<in> set ?xs" (is "?x \<in> _")
      by auto
    then have "rk_sealed ?x \<in> set (vw_wraps (view w2) (?id r))" using here by (force simp: v2)
    moreover have "length (dv_x25519_pub (sr_record r)) = KEY_LEN" "length (?id r) < 2 ^ 32"
      using wf(1) [OF r(1)] by (simp_all add: record_wf_def)
    then have "open_rewrapped K sk (?id r) account ?e (rk_sealed ?x) = Inr (content_key_at (kp_prims K) ark ?e)"
      if "x25519_public K sk = dv_x25519_pub (sr_record r)" for sk
      using open_rewrapped_iff [OF K(1), of "snd (draw i)" "dv_x25519_pub (sr_record r)" account "?id r" account "?id r"]
        assms(4,6) that by (simp add: account_framed_def)
    ultimately show ?thesis by blast
  qed
  moreover have "epoch_of K (vw_attestations (view w2)) = max (epoch_of K (vw_attestations (view w))) ?e"
    using vouches_attest(4) [OF K(2) assms(5)] wf [OF assms(8)]
    by (simp add: v2 v1 epoch_of_log_add record_wf_def)
  ultimately show ?thesis using w2(2) by (intro exI conjI) (assumption | simp)+
qed

end

end
