(* ===== verification/Onboarding_Memory.thy ===== *)
theory Onboarding_Memory
  imports Onboarding_Proofs
begin

text \<open>
  The onboarding flows over the in-memory relay, with the primitives their witnesses use.
\<close>

section \<open>Concrete primitives\<close>

definition pad32 :: "string \<Rightarrow> string" where
  "pad32 s = take KEY_LEN (s @ replicate KEY_LEN (CHR ''p''))"

definition demo_key_prims :: key_prims where
  "demo_key_prims =
     \<lparr>kp_prims = demo_prims\<lparr>hkdf_sha256 := (\<lambda>n ikm info.
          if take (length SEALED_BOX_INFO) info = SEALED_BOX_INFO then code ikm @ info
          else take n (ikm @ info @ replicate n (CHR ''k'')))\<rparr>,
      x25519_public = pad32,
      diffie_hellman = (\<lambda>a p. if pad32 a \<le> p then pad32 a @ p else p @ pad32 a),
      ed25519_public = pad32,
      argon2id_kek = (\<lambda>secret salt. if length salt < 8 then None else Some (code secret @ salt))\<rparr>"

lemma length_pad32 [simp]: "length (pad32 s) = KEY_LEN"
  by (simp add: pad32_def)

lemma demo_keys_ok: "keys_ok demo_key_prims"
proof -
  have "aead_ok (kp_prims demo_key_prims)" using demo_aead_ok by (simp add: aead_ok_def demo_key_prims_def)
  moreover have "LABEL_ACCOUNT_CONTENT @ e \<noteq> SEALED_BOX_INFO @ i" for e i
    by (simp add: LABEL_ACCOUNT_CONTENT_def SEALED_BOX_INFO_def)
  then have "take (length SEALED_BOX_INFO) (LABEL_ACCOUNT_CONTENT @ e) \<noteq> SEALED_BOX_INFO" for e
    by (metis append_take_drop_id)
  moreover have "KEY_LEN \<le> 32" by (simp add: KEY_LEN_def)
  ultimately have "boxes_ok demo_key_prims"
    unfolding boxes_ok_def by (auto simp: demo_key_prims_def code_inj)
  moreover have "ed25519_ok demo_key_prims"
    by (simp add: ed25519_ok_def demo_key_prims_def demo_prims_def SIG_LEN_def)
  ultimately show ?thesis by (simp add: keys_ok_def)
qed

lemma demo_inj: "inj (blake3_hash (kp_prims demo_key_prims))"
  by (simp add: demo_key_prims_def demo_prims_def)

definition demo_alice :: device_keys where
  "demo_alice = from_secrets demo_key_prims ''alice-x'' ''alice-e''"

definition demo_bob :: device_keys where
  "demo_bob = from_secrets demo_key_prims ''bob-x'' ''bob-e''"

definition demo_ark :: string where
  "demo_ark = replicate KEY_LEN (CHR ''a'')"

definition demo_account_id :: string where
  "demo_account_id = replicate ACCOUNT_ID_LEN (CHR ''i'')"

definition demo_nonce :: string where
  "demo_nonce = replicate NONCE_LEN (CHR ''n'')"

lemma demo_lengths [simp]:
  "length demo_ark = KEY_LEN" "length demo_account_id = ACCOUNT_ID_LEN" "length demo_nonce = NONCE_LEN"
  by (simp_all add: demo_ark_def demo_account_id_def demo_nonce_def)

lemma demo_own [simp]: "own_keys demo_key_prims demo_alice" "own_keys demo_key_prims demo_bob"
  by (simp_all add: demo_alice_def demo_bob_def)

lemma demo_device_ids: "dk_device_id demo_alice \<noteq> dk_device_id demo_bob"
  by (simp add: demo_alice_def demo_bob_def from_secrets_def device_id_of_ed25519_def to_hex_inj
      demo_key_prims_def demo_prims_def pad32_def KEY_LEN_def DEVICE_ID_BYTES_def)

lemma empty_sound: "inj (blake3_hash P) \<Longrightarrow> memory_sound P Map.empty"
  by (simp add: memory_sound_def memory_relay_ok_def relay_of_def account_relay_default_def account_relay_ok_def
      entries_ok_def wrap_entries_def wrap_seen_def)

lemma empty_view: "memory_view a Map.empty = \<lparr>vw_devices = Map.empty, vw_wraps = (\<lambda>_. []), vw_attestations = [], vw_recovery = None\<rparr>"
  by (simp add: memory_view_def relay_of_def account_relay_default_def wrap_entries_def Let_def)

text \<open>A relay on which both have published their records.\<close>

definition demo_relay :: memory_relay where
  "demo_relay = snd (enroll_publish demo_key_prims (memory_relay_transport (kp_prims demo_key_prims)) demo_account_id demo_bob 7
     (snd (enroll_publish demo_key_prims (memory_relay_transport (kp_prims demo_key_prims)) demo_account_id demo_alice 5 Map.empty)))"

lemma demo_relay:
  "memory_sound (kp_prims demo_key_prims) demo_relay"
  "memory_view (to_hex demo_account_id) demo_relay =
     \<lparr>vw_devices = [dk_device_id demo_alice \<mapsto> record_to_bytes (sign_record demo_key_prims demo_alice 5),
        dk_device_id demo_bob \<mapsto> record_to_bytes (sign_record demo_key_prims demo_bob 7)],
      vw_wraps = (\<lambda>_. []), vw_attestations = [], vw_recovery = None\<rparr>"
proof -
  let ?K = demo_key_prims
  let ?R = "memory_relay_transport (kp_prims ?K)"
  obtain m1 where m1: "enroll_publish ?K ?R demo_account_id demo_alice 5 Map.empty = (Inr (), m1)" "memory_sound (kp_prims ?K) m1"
    "memory_view (to_hex demo_account_id) m1 = (memory_view (to_hex demo_account_id) Map.empty)\<lparr>vw_devices := (vw_devices
       (memory_view (to_hex demo_account_id) Map.empty))(dk_device_id demo_alice \<mapsto> record_to_bytes (sign_record ?K demo_alice 5))\<rparr>"
    using memory_relay.enroll_publish_law [OF empty_sound [OF demo_inj] refl] by blast
  obtain m2 where m2: "enroll_publish ?K ?R demo_account_id demo_bob 7 m1 = (Inr (), m2)" "memory_sound (kp_prims ?K) m2"
    "memory_view (to_hex demo_account_id) m2 = (memory_view (to_hex demo_account_id) m1)\<lparr>vw_devices := (vw_devices
       (memory_view (to_hex demo_account_id) m1))(dk_device_id demo_bob \<mapsto> record_to_bytes (sign_record ?K demo_bob 7))\<rparr>"
    using memory_relay.enroll_publish_law [OF m1(2) refl] by blast
  have "demo_relay = m2" using m1(1) m2(1) by (simp add: demo_relay_def)
  with m1(3) m2(2,3) show "memory_sound (kp_prims ?K) demo_relay"
    "memory_view (to_hex demo_account_id) demo_relay =
     \<lparr>vw_devices = [dk_device_id demo_alice \<mapsto> record_to_bytes (sign_record demo_key_prims demo_alice 5),
        dk_device_id demo_bob \<mapsto> record_to_bytes (sign_record demo_key_prims demo_bob 7)],
      vw_wraps = (\<lambda>_. []), vw_attestations = [], vw_recovery = None\<rparr>"
    by (simp_all add: empty_view)
qed

section \<open>Enrollment\<close>

text \<open>
  C10. An approved device obtains the account. When a device has published its own record and no bundle
  it can open lies on the relay yet, an approval succeeds and returns the short authentication
  string of the two key pairs; from then on, whatever else is appended to the relay, the device
  accepts: it obtains exactly the root key, account and epoch the approver sealed, and is told a
  device that vouched for it, the approver when no one else had.
\<close>
theorem approved_device_gets_the_account:
  assumes "keys_ok K" and "memory_sound (kp_prims K) m" and "R = memory_relay_transport (kp_prims K)"
    and "v = memory_view (to_hex account)" and "own_keys K approver" and "own_keys K self" and "own_record K self s"
    and "vw_devices (v m) (dk_device_id self) = Some (record_to_bytes s)"
    and "opened_bundles K self (vw_wraps (v m) (dk_device_id self)) = []"
    and "length nonce = NONCE_LEN" and "length ark = KEY_LEN" and "length account = ACCOUNT_ID_LEN"
  shows "\<exists>m1. approve K R eph nonce account approver ark epoch (dk_device_id self) now m =
      (Inr (sas_compute K (local_peer approver) (local_peer self)), m1)
    \<and> memory_sound (kp_prims K) m1
    \<and> length (vw_wraps (v m1) (dk_device_id self)) \<le> Suc (length (vw_wraps (v m) (dk_device_id self)))
    \<and> length (vw_attestations (v m1)) \<le> Suc (length (vw_attestations (v m)))
    \<and> (\<forall>m2 ws as. memory_sound (kp_prims K) m2
        \<and> vw_wraps (v m2) (dk_device_id self) = vw_wraps (v m1) (dk_device_id self) @ ws
        \<and> vw_attestations (v m2) = vw_attestations (v m1) @ as
        \<and> length (vw_wraps (v m2) (dk_device_id self)) \<le> 2 ^ 64 - 1 \<and> length (vw_attestations (v m2)) \<le> 2 ^ 64 - 1
        \<longrightarrow> (\<exists>by. accept K R account self m2 =
              (Inr \<lparr>ac_bundle = \<lparr>bn_ark = ark, bn_account_id = account, bn_key_epoch = epoch\<rparr>, ac_approver = Some by\<rparr>, m2)
              \<and> (find (vouches K (dk_device_id self)) (vw_attestations (v m)) = None \<longrightarrow> by = dk_device_id approver)))"
  using memory_relay.enrollment [OF assms(1,2) refl assms(5-7) _ _ assms(10-12)] assms(8,9)
  unfolding assms(3,4) by blast

lemma demo_bob_record: "own_record demo_key_prims demo_bob (sign_record demo_key_prims demo_bob 7)"
  by (auto simp: own_record_def)

theorem approved_device_gets_the_account_witness:
  "\<exists>m1. approve demo_key_prims (memory_relay_transport (kp_prims demo_key_prims)) ''e'' demo_nonce demo_account_id demo_alice demo_ark 3
       (dk_device_id demo_bob) 9 demo_relay = (Inr (sas_compute demo_key_prims (local_peer demo_alice) (local_peer demo_bob)), m1)
    \<and> accept demo_key_prims (memory_relay_transport (kp_prims demo_key_prims)) demo_account_id demo_bob m1 =
        (Inr \<lparr>ac_bundle = \<lparr>bn_ark = demo_ark, bn_account_id = demo_account_id, bn_key_epoch = 3\<rparr>,
              ac_approver = Some (dk_device_id demo_alice)\<rparr>, m1)"
proof -
  note v = demo_relay(2)
  have d: "vw_devices (memory_view (to_hex demo_account_id) demo_relay) (dk_device_id demo_bob)
      = Some (record_to_bytes (sign_record demo_key_prims demo_bob 7))"
    "opened_bundles demo_key_prims demo_bob (vw_wraps (memory_view (to_hex demo_account_id) demo_relay) (dk_device_id demo_bob)) = []"
    by (simp_all add: v opened_bundles_def List.map_filter_def)
  from approved_device_gets_the_account [OF demo_keys_ok demo_relay(1) refl refl demo_own demo_bob_record d demo_lengths(3,1,2),
      of "''e''" 3 9]
  obtain m1 where m1: "approve demo_key_prims (memory_relay_transport (kp_prims demo_key_prims)) ''e'' demo_nonce demo_account_id
        demo_alice demo_ark 3 (dk_device_id demo_bob) 9 demo_relay
        = (Inr (sas_compute demo_key_prims (local_peer demo_alice) (local_peer demo_bob)), m1)"
      "memory_sound (kp_prims demo_key_prims) m1"
      "length (vw_wraps (memory_view (to_hex demo_account_id) m1) (dk_device_id demo_bob)) \<le> Suc 0"
      "length (vw_attestations (memory_view (to_hex demo_account_id) m1)) \<le> Suc 0"
    and later: "\<And>m2 ws as. memory_sound (kp_prims demo_key_prims) m2
        \<and> vw_wraps (memory_view (to_hex demo_account_id) m2) (dk_device_id demo_bob)
          = vw_wraps (memory_view (to_hex demo_account_id) m1) (dk_device_id demo_bob) @ ws
        \<and> vw_attestations (memory_view (to_hex demo_account_id) m2) = vw_attestations (memory_view (to_hex demo_account_id) m1) @ as
        \<and> length (vw_wraps (memory_view (to_hex demo_account_id) m2) (dk_device_id demo_bob)) \<le> 2 ^ 64 - 1
        \<and> length (vw_attestations (memory_view (to_hex demo_account_id) m2)) \<le> 2 ^ 64 - 1 \<Longrightarrow>
        accept demo_key_prims (memory_relay_transport (kp_prims demo_key_prims)) demo_account_id demo_bob m2 =
        (Inr \<lparr>ac_bundle = \<lparr>bn_ark = demo_ark, bn_account_id = demo_account_id, bn_key_epoch = 3\<rparr>,
              ac_approver = Some (dk_device_id demo_alice)\<rparr>, m2)"
    by (auto simp: v)
  from later [of m1 "[]" "[]"] m1 show ?thesis by simp
qed

section \<open>Revocation\<close>

text \<open>
  C27. A revocation re-keys every other device with a record on the relay. When the device is on the
  roster, the genuine self-signed records the relay holds, the revocation succeeds. Each other
  device on the roster, whether or not a trusted device ever vouched for it or it was revoked before,
  finds a bundle that its secret key opens to the content key of the next epoch; nothing is added for
  the revoked device nor for a handle without a record, and records stay as they are. The epoch the
  attestations name becomes the greater of what it was and the next one; it advances by one
  when the epoch given is the current one and not the greatest number.
\<close>
theorem revocation_rekeys_the_rest:
  assumes "keys_ok K" and "memory_sound (kp_prims K) m" and "R = memory_relay_transport (kp_prims K)"
    and "v = memory_view (to_hex account)" and "length account = ACCOUNT_ID_LEN" and "own_keys K approver"
    and "\<forall>i. length (snd (draw i)) = NONCE_LEN"
    and "roster K R account m = (Inr rs, m)" and "gone \<in> set rs" and "d = dv_device_id (sr_record gone)"
    and "\<forall>e b. vw_devices (v m) e = Some b \<longrightarrow> length b < 2 ^ 64"
  shows "\<exists>rv m'. revoke K R draw account approver ark cur d now m = (Inr rv, m')
    \<and> rv_new_epoch rv = sat_inc cur
    \<and> set (rv_rewrapped rv) = (\<lambda>r. dv_device_id (sr_record r)) ` set rs - {d}
    \<and> vw_devices (v m') = vw_devices (v m)
    \<and> (\<forall>e. e \<notin> (\<lambda>r. dv_device_id (sr_record r)) ` set rs - {d} \<longrightarrow> vw_wraps (v m') e = vw_wraps (v m) e)
    \<and> (\<forall>r \<in> set rs. dv_device_id (sr_record r) \<noteq> d \<longrightarrow>
        (\<exists>b \<in> set (vw_wraps (v m') (dv_device_id (sr_record r))). \<forall>sk.
           x25519_public K sk = dv_x25519_pub (sr_record r) \<longrightarrow>
           open_rewrapped K sk (dv_device_id (sr_record r)) account (sat_inc cur) b
             = Inr (content_key_at (kp_prims K) ark (sat_inc cur))))
    \<and> epoch_of K (vw_attestations (v m')) = max (epoch_of K (vw_attestations (v m))) (sat_inc cur)
    \<and> (cur = epoch_of K (vw_attestations (v m)) \<and> cur \<noteq> - 1 \<longrightarrow> epoch_of K (vw_attestations (v m')) = cur + 1)"
proof -
  have "max c (sat_inc c) = c + 1" if "c \<noteq> - 1" for c :: u32
    using that less_sat_inc_iff [of c] by (simp add: sat_inc_def max_def)
  note step = this
  from memory_relay.revocation [OF assms(1,2) refl assms(5-7) assms(8) [unfolded assms(3)] assms(9,10)
      assms(11) [unfolded assms(4)], of ark cur now]
  obtain rv m' where r: "revoke K R draw account approver ark cur d now m = (Inr rv, m')"
    "rv_new_epoch rv = sat_inc cur" "set (rv_rewrapped rv) = (\<lambda>r. dv_device_id (sr_record r)) ` set rs - {d}"
    "vw_devices (v m') = vw_devices (v m)"
    "\<forall>e. e \<notin> (\<lambda>r. dv_device_id (sr_record r)) ` set rs - {d} \<longrightarrow> vw_wraps (v m') e = vw_wraps (v m) e"
    "\<forall>r \<in> set rs. dv_device_id (sr_record r) \<noteq> d \<longrightarrow>
        (\<exists>b \<in> set (vw_wraps (v m') (dv_device_id (sr_record r))). \<forall>sk.
           x25519_public K sk = dv_x25519_pub (sr_record r) \<longrightarrow>
           open_rewrapped K sk (dv_device_id (sr_record r)) account (sat_inc cur) b
             = Inr (content_key_at (kp_prims K) ark (sat_inc cur)))"
    and e: "epoch_of K (vw_attestations (v m')) = max (epoch_of K (vw_attestations (v m))) (sat_inc cur)"
    unfolding assms(3,4) by (elim exE conjE)
  have "cur = epoch_of K (vw_attestations (v m)) \<and> cur \<noteq> - 1 \<longrightarrow> epoch_of K (vw_attestations (v m')) = cur + 1"
    unfolding e using step by metis
  with r e show ?thesis by (intro exI [of _ rv] exI [of _ m'] conjI) (assumption | blast)+
qed

text \<open>
  Nothing takes a revoked device off the roster: the next revocation, of another device, hands it
  the next epoch's key again.
\<close>

lemma revoked_device_is_rekeyed_later:
  assumes "keys_ok K" and "memory_sound (kp_prims K) m" and "R = memory_relay_transport (kp_prims K)"
    and "v = memory_view (to_hex account)" and "length account = ACCOUNT_ID_LEN" and "own_keys K approver"
    and "\<forall>i. length (snd (draw i)) = NONCE_LEN" and "\<forall>i. length (snd (draw2 i)) = NONCE_LEN"
    and "roster K R account m = (Inr rs, m)" and "gone \<in> set rs" and "d = dv_device_id (sr_record gone)"
    and "next \<in> set rs" and "d2 = dv_device_id (sr_record next)" and "d2 \<noteq> d"
    and "\<forall>e b. vw_devices (v m) e = Some b \<longrightarrow> length b < 2 ^ 64"
    and "x25519_public K sk = dv_x25519_pub (sr_record gone)"
  shows "\<exists>rv m1 rv2 m2. revoke K R draw account approver ark cur d now m = (Inr rv, m1)
    \<and> revoke K R draw2 account approver ark (sat_inc cur) d2 now2 m1 = (Inr rv2, m2) \<and> d \<in> set (rv_rewrapped rv2)
    \<and> (\<exists>b \<in> set (vw_wraps (v m2) d). open_rewrapped K sk d account (sat_inc (sat_inc cur)) b
         = Inr (content_key_at (kp_prims K) ark (sat_inc (sat_inc cur))))"
proof -
  from memory_relay.revocation [OF assms(1,2) refl assms(5-7) assms(9) [unfolded assms(3)] assms(10,11)
      assms(15) [unfolded assms(4)], of ark cur now]
  obtain rv m1 where r1: "revoke K R draw account approver ark cur d now m = (Inr rv, m1)"
    and ok1: "memory_sound (kp_prims K) m1" and dev: "vw_devices (v m1) = vw_devices (v m)"
    unfolding assms(3,4) by (elim exE conjE)
  obtain rs1 where rs1: "roster K R account m1 = (Inr rs1, m1)" and set1: "\<forall>s. s \<in> set rs1 \<longleftrightarrow>
      (\<exists>b. vw_devices (v m1) (dv_device_id (sr_record s)) = Some b \<and> record_from_bytes b = Inr s \<and> record_verify K s = Inr ())"
    using memory_relay.roster_law [OF ok1 refl [of "to_hex account"], where K = K] unfolding assms(3,4) by blast
  obtain rs0 where rs0: "roster K R account m = (Inr rs0, m)" and set0: "\<forall>s. s \<in> set rs0 \<longleftrightarrow>
      (\<exists>b. vw_devices (v m) (dv_device_id (sr_record s)) = Some b \<and> record_from_bytes b = Inr s \<and> record_verify K s = Inr ())"
    using memory_relay.roster_law [OF assms(2) refl [of "to_hex account"], where K = K] unfolding assms(3,4) by blast
  have "rs0 = rs" using rs0 assms(9) by simp
  then have same: "gone \<in> set rs1" "next \<in> set rs1" using set0 set1 dev assms(10,12) by auto
  have small: "\<forall>e b. vw_devices (v m1) e = Some b \<longrightarrow> length b < 2 ^ 64" using assms(15) dev by simp
  from memory_relay.revocation [OF assms(1) ok1 refl assms(5,6,8) rs1 [unfolded assms(3)] same(2) assms(13)
      small [unfolded assms(4)], of ark "sat_inc cur" now2]
  obtain rv2 m2 where r2: "revoke K R draw2 account approver ark (sat_inc cur) d2 now2 m1 = (Inr rv2, m2)"
    and ids: "set (rv_rewrapped rv2) = (\<lambda>r. dv_device_id (sr_record r)) ` set rs1 - {d2}"
    and opens: "\<forall>r \<in> set rs1. dv_device_id (sr_record r) \<noteq> d2 \<longrightarrow>
        (\<exists>b \<in> set (vw_wraps (v m2) (dv_device_id (sr_record r))). \<forall>sk.
           x25519_public K sk = dv_x25519_pub (sr_record r) \<longrightarrow>
           open_rewrapped K sk (dv_device_id (sr_record r)) account (sat_inc (sat_inc cur)) b
             = Inr (content_key_at (kp_prims K) ark (sat_inc (sat_inc cur))))"
    unfolding assms(3,4) by (elim exE conjE)
  have "d \<in> set (rv_rewrapped rv2)" using ids same(1) assms(11,14) by auto
  moreover have "\<exists>b \<in> set (vw_wraps (v m2) d). open_rewrapped K sk d account (sat_inc (sat_inc cur)) b
         = Inr (content_key_at (kp_prims K) ark (sat_inc (sat_inc cur)))"
    using bspec [OF opens same(1)] assms(11,14,16) by auto
  ultimately show ?thesis using r1 r2 by blast
qed

lemma demo_roster:
  "\<exists>rs. roster demo_key_prims (memory_relay_transport (kp_prims demo_key_prims)) demo_account_id demo_relay = (Inr rs, demo_relay)
    \<and> sign_record demo_key_prims demo_alice 5 \<in> set rs \<and> sign_record demo_key_prims demo_bob 7 \<in> set rs"
proof -
  let ?K = demo_key_prims
  obtain rs where "roster ?K (memory_relay_transport (kp_prims ?K)) demo_account_id demo_relay = (Inr rs, demo_relay)"
    and rs: "\<forall>s. s \<in> set rs \<longleftrightarrow> (\<exists>b. vw_devices (memory_view (to_hex demo_account_id) demo_relay) (dv_device_id (sr_record s)) = Some b
          \<and> record_from_bytes b = Inr s \<and> record_verify ?K s = Inr ())"
    using memory_relay.roster_law [OF demo_relay(1) refl [of "to_hex demo_account_id"], where K = ?K] by blast
  moreover note a = sign_record_wf [OF keys_okD(2) [OF demo_keys_ok] demo_own(1), of 5]
    and b = sign_record_wf [OF keys_okD(2) [OF demo_keys_ok] demo_own(2), of 7]
  ultimately show ?thesis
    using demo_device_ids by (auto simp: demo_relay(2) record_round_trip)
qed

lemma record_length: "record_wf s \<Longrightarrow> length (record_to_bytes s) < 2 ^ 64"
  by (simp add: record_wf_def record_to_bytes_def DEVICE_RECORD_WIRE_TAG_def KEY_LEN_def SIG_LEN_def Let_def)

theorem revocation_rekeys_the_rest_witness:
  "\<exists>rv m' b. revoke demo_key_prims (memory_relay_transport (kp_prims demo_key_prims)) (\<lambda>_. (''e'', demo_nonce)) demo_account_id
       demo_alice demo_ark 3 (dk_device_id demo_bob) 9 demo_relay = (Inr rv, m')
    \<and> rv_new_epoch rv = 4 \<and> dk_device_id demo_alice \<in> set (rv_rewrapped rv) \<and> dk_device_id demo_bob \<notin> set (rv_rewrapped rv)
    \<and> vw_wraps (memory_view (to_hex demo_account_id) m') (dk_device_id demo_bob) = []
    \<and> b \<in> set (vw_wraps (memory_view (to_hex demo_account_id) m') (dk_device_id demo_alice))
    \<and> open_rewrapped demo_key_prims (dk_x25519_secret demo_alice) (dk_device_id demo_alice) demo_account_id 4 b
        = Inr (content_key_at (kp_prims demo_key_prims) demo_ark 4)"
proof -
  let ?K = demo_key_prims
  obtain rs where rs: "roster ?K (memory_relay_transport (kp_prims ?K)) demo_account_id demo_relay = (Inr rs, demo_relay)"
    and alice: "sign_record ?K demo_alice 5 \<in> set rs" and bob: "sign_record ?K demo_bob 7 \<in> set rs"
    using demo_roster by blast
  note a = sign_record_wf [OF keys_okD(2) [OF demo_keys_ok] demo_own(1), of 5]
    and b = sign_record_wf [OF keys_okD(2) [OF demo_keys_ok] demo_own(2), of 7]
  have bytes: "\<forall>e b. vw_devices (memory_view (to_hex demo_account_id) demo_relay) e = Some b \<longrightarrow> length b < 2 ^ 64"
    using record_length [OF a(1)] record_length [OF b(1)] by (auto simp: demo_relay(2) split: if_splits)
  have succ: "sat_inc (3 :: u32) = 4" by (simp add: sat_inc_def)
  have draw: "\<forall>i. length (snd ((\<lambda>_. (''e'', demo_nonce)) i)) = NONCE_LEN" by simp
  obtain rv m' where r: "revoke ?K (memory_relay_transport (kp_prims ?K)) (\<lambda>_. (''e'', demo_nonce)) demo_account_id demo_alice
        demo_ark 3 (dk_device_id demo_bob) 9 demo_relay = (Inr rv, m')" "rv_new_epoch rv = 4"
      "set (rv_rewrapped rv) = (\<lambda>r. dv_device_id (sr_record r)) ` set rs - {dk_device_id demo_bob}"
      "vw_wraps (memory_view (to_hex demo_account_id) m') (dk_device_id demo_bob)
         = vw_wraps (memory_view (to_hex demo_account_id) demo_relay) (dk_device_id demo_bob)"
    and opens: "\<forall>r \<in> set rs. dv_device_id (sr_record r) \<noteq> dk_device_id demo_bob \<longrightarrow>
        (\<exists>b \<in> set (vw_wraps (memory_view (to_hex demo_account_id) m') (dv_device_id (sr_record r))). \<forall>sk.
           x25519_public ?K sk = dv_x25519_pub (sr_record r) \<longrightarrow>
           open_rewrapped ?K sk (dv_device_id (sr_record r)) demo_account_id 4 b = Inr (content_key_at (kp_prims ?K) demo_ark 4))"
    using revocation_rekeys_the_rest [OF demo_keys_ok demo_relay(1) refl refl demo_lengths(2) demo_own(1) draw rs bob b(3) [symmetric] bytes,
        of demo_ark 3 9] unfolding succ by blast
  have "dk_device_id demo_alice \<in> (\<lambda>r. dv_device_id (sr_record r)) ` set rs"
    using alice a(3) by force
  moreover obtain x where "x \<in> set (vw_wraps (memory_view (to_hex demo_account_id) m') (dk_device_id demo_alice))"
    "open_rewrapped ?K (dk_x25519_secret demo_alice) (dk_device_id demo_alice) demo_account_id 4 x
       = Inr (content_key_at (kp_prims ?K) demo_ark 4)"
    using bspec [OF opens alice] a(3,4) demo_device_ids own_keysD(1) [OF demo_own(1)] by auto
  ultimately show ?thesis using r demo_device_ids by (auto simp: demo_relay(2))
qed

section \<open>Recovery\<close>

text \<open>
  C32. Recovery brings the root key back to who has the secret. Publishing succeeds whenever the
  stretching accepts the salt; as long as the blob on the relay is that one, recovering with a
  secret gives the published root key when the secret stretches to the same key, and fails
  otherwise.
\<close>
theorem recovery_restores_the_root_key:
  assumes "aead_ok (kp_prims K)" and "memory_sound (kp_prims K) m" and "R = memory_relay_transport (kp_prims K)"
    and "v = memory_view (to_hex account)"
    and "length nonce = NONCE_LEN" and "length salt = RECOVERY_SALT_LEN" and "length ark = KEY_LEN"
    and "argon2id_kek K secret salt \<noteq> None"
  shows "\<exists>m'. recovery_publish K R salt nonce account ark secret m = (Inr (), m') \<and> memory_sound (kp_prims K) m'
    \<and> (\<forall>m2 secret' ark'. memory_sound (kp_prims K) m2 \<and> vw_recovery (v m2) = vw_recovery (v m') \<longrightarrow>
        (recover_ark K R account secret' m2 = (Inr ark', m2)
          \<longleftrightarrow> argon2id_kek K secret' salt = argon2id_kek K secret salt \<and> ark' = ark))"
  unfolding assms(3,4) using memory_relay.recovery_law [OF assms(1,2) refl assms(5-8)] .

theorem recovery_restores_the_root_key_witness:
  "\<exists>m'. recovery_publish demo_key_prims (memory_relay_transport (kp_prims demo_key_prims)) (replicate RECOVERY_SALT_LEN (CHR ''s''))
       demo_nonce demo_account_id demo_ark ''correct horse'' Map.empty = (Inr (), m')
    \<and> recover_ark demo_key_prims (memory_relay_transport (kp_prims demo_key_prims)) demo_account_id ''correct horse'' m' = (Inr demo_ark, m')
    \<and> recover_ark demo_key_prims (memory_relay_transport (kp_prims demo_key_prims)) demo_account_id ''battery'' m' \<noteq> (Inr demo_ark, m')"
proof -
  let ?salt = "replicate RECOVERY_SALT_LEN (CHR ''s'')"
  have k: "argon2id_kek demo_key_prims ''correct horse'' ?salt \<noteq> None"
    "argon2id_kek demo_key_prims ''battery'' ?salt \<noteq> argon2id_kek demo_key_prims ''correct horse'' ?salt"
    by (simp_all add: demo_key_prims_def RECOVERY_SALT_LEN_def code_def)
  have "aead_ok (kp_prims demo_key_prims)" using keys_okD(1) [OF demo_keys_ok] by (simp add: boxes_ok_def)
  from recovery_restores_the_root_key [OF this empty_sound [OF demo_inj] refl refl demo_lengths(3) _ demo_lengths(1) k(1), of demo_account_id]
  show ?thesis using k(2) by auto
qed

section \<open>What the attestations do not settle\<close>

text \<open>
  The epoch an account is at is the greatest any device ever named, whoever the device is. One
  statement of a stranger about itself moves it to the greatest number, and the revocations that
  follow stay there.
\<close>

lemma stranger_exhausts_epochs:
  assumes "keys_ok K" and "memory_sound (kp_prims K) m" and "own_keys K stranger"
    and "Suc (length (vw_attestations (memory_view (to_hex account) m))) \<le> 2 ^ 64 - 1"
  shows "\<exists>n m'. memory_attestation_append (kp_prims K) (to_hex account)
      (attestation_to_bytes (attest_trust K stranger (sr_record (sign_record K stranger t)) (- 1) t)) m = (Inr n, m')
    \<and> current_epoch K (memory_relay_transport (kp_prims K)) account m' = (Inr (- 1), m') \<and> sat_inc (- 1 :: u32) = - 1"
proof -
  let ?t = "attestation_to_bytes (attest_trust K stranger (sr_record (sign_record K stranger t)) (- 1) t)"
  note K = keys_okD [OF assms(1)] and r = sign_record_wf [OF keys_okD(2) [OF assms(1)] assms(3), of t]
  obtain n m' where m': "rl_attestation_append (memory_relay_transport (kp_prims K)) (to_hex account) ?t m = (Inr n, m')"
    "memory_sound (kp_prims K) m'" and v: "memory_view (to_hex account) m' = (memory_view (to_hex account) m)
      \<lparr>vw_attestations := log_add (vw_attestations (memory_view (to_hex account) m)) ?t\<rparr>"
    using memory_relay.attestation_append [OF assms(2)] by blast
  have "attested_epoch K ?t = - 1"
    using vouches_attest(3) [OF K(2) assms(3)] r K(2) own_keysD [OF assms(3)] by (simp add: ed25519_ok_def)
  then have "epoch_of K (vw_attestations (memory_view (to_hex account) m')) = - 1"
    by (simp add: v epoch_of_log_add max.commute)
  moreover have "length (vw_attestations (memory_view (to_hex account) m')) \<le> 2 ^ 64 - 1"
    using assms(4) by (simp add: v log_add_def)
  ultimately show ?thesis
    using memory_relay.current_epoch_law [OF m'(2) refl, where K = K] m'(1) by simp
qed

end
