(* ===== verification/Auth_Proofs.thy ===== *)
theory Auth_Proofs
  imports Auth_Demo
begin

text \<open>
  The statements a device signs for the auth control plane: minting on login, refresh of a token,
  and allocation of a namespace. Each determines what it is about, and no two kinds coincide, so a
  signature for one cannot be presented as another.
\<close>

section \<open>64-bit fields\<close>

lemma char_bits:
  fixes m n :: nat
  assumes "(char_of m :: char) = char_of n" and "j < 8"
  shows "bit m j = bit n j"
proof -
  have "(of_char (char_of m :: char) :: nat) = of_char (char_of n :: char)" using assms(1) by simp
  then have "take_bit 8 m = take_bit 8 n" by (simp add: take_bit_eq_mod)
  with assms(2) show ?thesis by (metis bit_take_bit_iff)
qed

lemma i64_be_bytes_word:
  assumes "i64_be_bytes a = i64_be_bytes b"
  shows "(word_of_int a :: u64) = word_of_int b"
proof (rule bit_word_eqI)
  fix n assume "n < LENGTH(64)"
  then have k: "n div 8 \<in> set [7, 6, 5, 4, 3, 2, 1, 0]" by simp presburger
  let ?x = "\<lambda>a. drop_bit (8 * (n div 8)) (word_of_int a :: u64)"
  have "(char_of (unat (?x a)) :: char) = char_of (unat (?x b))"
    using assms k unfolding i64_be_bytes_def map_eq_conv by blast
  then have "bit (unat (?x a)) (n mod 8) = bit (unat (?x b)) (n mod 8)" by (rule char_bits) simp
  then show "bit (word_of_int a :: u64) n = bit (word_of_int b :: u64) n"
    by (simp add: bit_unsigned_iff bit_drop_bit_eq)
qed

definition i64 :: "int \<Rightarrow> bool" where
  "i64 n \<longleftrightarrow> - (2 ^ 63) \<le> n \<and> n \<le> I64_MAX"

lemma i64_be_bytes_inj:
  assumes "i64 a" and "i64 b" and "i64_be_bytes a = i64_be_bytes b"
  shows "a = b"
proof -
  have "signed_take_bit 63 a = signed_take_bit 63 b"
    using arg_cong [OF i64_be_bytes_word [OF assms(3)], of sint] by (simp add: sint_sbintrunc')
  then show ?thesis
    using assms(1,2) by (simp add: i64_def I64_MAX_def signed_take_bit_int_eq_self)
qed

lemma length_i64_be_bytes [simp]: "length (i64_be_bytes n) = 8"
  by (simp add: i64_be_bytes_def)

section \<open>The three statements\<close>

lemma lp_inj: "length s < 2 ^ 32 \<Longrightarrow> length t < 2 ^ 32 \<Longrightarrow> lp s = lp t \<longleftrightarrow> s = t"
  using lp_append_inj [of s t "[]" "[]"] by simp

lemma lp_field_Inr: "lp_field f out = Inr bytes \<longleftrightarrow> length f < 2 ^ 32 \<and> bytes = out @ lp f"
  by (auto simp: lp_field_def push_lp_def)

lemma signing_bytesD:
  assumes "signing_bytes E c = Inr bytes"
  shows "\<exists>nonce key. ae_b64_decode E (bc_nonce_b64 c) = Some nonce \<and> ae_b64_decode E (bc_pub_b64 c) = Some key
    \<and> length key = 32
    \<and> (\<forall>f \<in> {bc_server_instance_id c, bc_operation_id c, bc_challenge_id c, nonce, bc_tenant c,
                        bc_content_account_id c, bc_device_id c}. length f < 2 ^ 32)
    \<and> bytes = BINDING_POP_TAG @ lp (bc_server_instance_id c) @ lp (bc_operation_id c) @ lp (bc_challenge_id c) @ lp nonce
         @ lp (bc_tenant c) @ lp (bc_content_account_id c) @ lp (bc_device_id c) @ key
         @ i64_be_bytes (bc_binding_version c) @ i64_be_bytes (bc_expires_at_ms c)"
  using assms by (auto simp: signing_bytes_def result_iff lp_field_Inr split: option.splits if_splits)

lemma pop_tags [simp]:
  "(MINT_POP_TAG @ x) ! 23 = CHR ''m''" "(REFRESH_POP_TAG @ x) ! 23 = CHR ''r''"
  "(MINT_POP_TAG @ x) ! 10 = CHR ''1''" "(REFRESH_POP_TAG @ x) ! 10 = CHR ''1''" "(BINDING_POP_TAG @ x) ! 10 = CHR ''2''"
  by (simp_all add: MINT_POP_TAG_def REFRESH_POP_TAG_def BINDING_POP_TAG_def)

lemma mint_message: "mint_pop_message E l f d pub = MINT_POP_TAG @ lp l @ ae_blake3 E f @ lp d @ pub"
  by (simp add: mint_pop_message_def push_lp_def Let_def)

lemma refresh_message: "refresh_pop_message i n d pub = REFRESH_POP_TAG @ lp i @ lp n @ lp d @ pub"
  by (simp add: refresh_pop_message_def push_lp_def Let_def)

text \<open>
  C24. A signature for the control plane says one thing. A statement for minting determines the login,
  the hash of its last message, the device and the key; one for refreshing the token, nonce,
  device and key; one for binding every signed field of the challenge. No statement of one kind is
  a statement of another. (For a hash of fixed length, fields a 32-bit length can carry, and
  times and versions of 64 bits.)
\<close>
theorem device_statements_are_unambiguous:
  assumes "\<forall>s. length (ae_blake3 E s) = 32"
    and "length l < 2 ^ 32 \<and> length d < 2 ^ 32 \<and> length i < 2 ^ 32 \<and> length n < 2 ^ 32"
    and "length l2 < 2 ^ 32 \<and> length d2 < 2 ^ 32 \<and> length i2 < 2 ^ 32 \<and> length n2 < 2 ^ 32"
    and "signing_bytes E c = Inr b" and "signing_bytes E c2 = Inr b2"
    and "\<forall>x \<in> {c, c2}. i64 (bc_binding_version x) \<and> i64 (bc_expires_at_ms x)"
  shows "(mint_pop_message E l f d pub = mint_pop_message E l2 f2 d2 pub2
           \<longleftrightarrow> l = l2 \<and> ae_blake3 E f = ae_blake3 E f2 \<and> d = d2 \<and> pub = pub2)
    \<and> (refresh_pop_message i n d pub = refresh_pop_message i2 n2 d2 pub2 \<longleftrightarrow> i = i2 \<and> n = n2 \<and> d = d2 \<and> pub = pub2)
    \<and> (b = b2 \<longrightarrow> c2 = c\<lparr>bc_nonce_b64 := bc_nonce_b64 c2, bc_pub_b64 := bc_pub_b64 c2\<rparr>
         \<and> ae_b64_decode E (bc_nonce_b64 c) = ae_b64_decode E (bc_nonce_b64 c2)
         \<and> ae_b64_decode E (bc_pub_b64 c) = ae_b64_decode E (bc_pub_b64 c2))
    \<and> mint_pop_message E l f d pub \<noteq> refresh_pop_message i n d2 pub2
    \<and> mint_pop_message E l f d pub \<noteq> b \<and> refresh_pop_message i n d pub \<noteq> b"
proof -
  obtain nonce key where c: "ae_b64_decode E (bc_nonce_b64 c) = Some nonce" "ae_b64_decode E (bc_pub_b64 c) = Some key"
    "length key = 32" "\<forall>f \<in> {bc_server_instance_id c, bc_operation_id c, bc_challenge_id c, nonce, bc_tenant c,
                        bc_content_account_id c, bc_device_id c}. length f < 2 ^ 32"
    and b: "b = BINDING_POP_TAG @ lp (bc_server_instance_id c) @ lp (bc_operation_id c) @ lp (bc_challenge_id c) @ lp nonce
         @ lp (bc_tenant c) @ lp (bc_content_account_id c) @ lp (bc_device_id c) @ key
         @ i64_be_bytes (bc_binding_version c) @ i64_be_bytes (bc_expires_at_ms c)"
    using signing_bytesD [OF assms(4)] by blast
  obtain nonce2 key2 where c2: "ae_b64_decode E (bc_nonce_b64 c2) = Some nonce2" "ae_b64_decode E (bc_pub_b64 c2) = Some key2"
    "length key2 = 32" "\<forall>f \<in> {bc_server_instance_id c2, bc_operation_id c2, bc_challenge_id c2, nonce2, bc_tenant c2,
                        bc_content_account_id c2, bc_device_id c2}. length f < 2 ^ 32"
    and b2: "b2 = BINDING_POP_TAG @ lp (bc_server_instance_id c2) @ lp (bc_operation_id c2) @ lp (bc_challenge_id c2) @ lp nonce2
         @ lp (bc_tenant c2) @ lp (bc_content_account_id c2) @ lp (bc_device_id c2) @ key2
         @ i64_be_bytes (bc_binding_version c2) @ i64_be_bytes (bc_expires_at_ms c2)"
    using signing_bytesD [OF assms(5)] by blast
  have "c2 = c\<lparr>bc_nonce_b64 := bc_nonce_b64 c2, bc_pub_b64 := bc_pub_b64 c2\<rparr> \<and> nonce = nonce2 \<and> key = key2" if "b = b2"
  proof -
    have e: "bc_server_instance_id c = bc_server_instance_id c2" "bc_operation_id c = bc_operation_id c2"
      "bc_challenge_id c = bc_challenge_id c2" "nonce = nonce2" "bc_tenant c = bc_tenant c2"
      "bc_content_account_id c = bc_content_account_id c2" "bc_device_id c = bc_device_id c2" "key = key2"
      and t: "i64_be_bytes (bc_binding_version c) = i64_be_bytes (bc_binding_version c2)"
        "i64_be_bytes (bc_expires_at_ms c) = i64_be_bytes (bc_expires_at_ms c2)"
      using that c(3,4) c2(3,4) by (simp_all add: b b2 lp_append_inj lp_inj)
    have "bc_binding_version c = bc_binding_version c2" "bc_expires_at_ms c = bc_expires_at_ms c2"
      using t assms(6) by (auto intro: i64_be_bytes_inj)
    with e show ?thesis by (cases c; cases c2) simp
  qed
  moreover have "mint_pop_message E l f d pub = mint_pop_message E l2 f2 d2 pub2
      \<longleftrightarrow> l = l2 \<and> ae_blake3 E f = ae_blake3 E f2 \<and> d = d2 \<and> pub = pub2"
    using assms(1-3) by (auto simp: mint_message lp_append_inj)
  moreover have "refresh_pop_message i n d pub = refresh_pop_message i2 n2 d2 pub2 \<longleftrightarrow> i = i2 \<and> n = n2 \<and> d = d2 \<and> pub = pub2"
    using assms(2,3) by (auto simp: refresh_message lp_append_inj)
  moreover have "mint_pop_message E l f d pub ! 23 \<noteq> refresh_pop_message i n d2 pub2 ! 23"
    "mint_pop_message E l f d pub ! 10 \<noteq> b ! 10" "refresh_pop_message i n d pub ! 10 \<noteq> b ! 10"
    unfolding mint_message refresh_message b by simp_all
  then have "mint_pop_message E l f d pub \<noteq> refresh_pop_message i n d2 pub2"
    "mint_pop_message E l f d pub \<noteq> b" "refresh_pop_message i n d pub \<noteq> b" by metis+
  ultimately show ?thesis using c c2 by auto
qed

text \<open>The demo challenge, over a hash of 32 bytes.\<close>

definition demo_hash_env :: binding_env where
  "demo_hash_env = demo_auth_env\<lparr>ae_blake3 := (\<lambda>s. take 32 (s @ replicate 32 (CHR ''z'')))\<rparr>"

lemma demo_signing_bytes: "\<exists>b. signing_bytes demo_hash_env demo_challenge = Inr b"
proof -
  have l: "length demo_device = 32" "length demo_account = 32"
    by (simp_all add: demo_device_def to_hex_def length_concat o_def sum_list_triv demo_account_def)
  show ?thesis by (simp add: demo_challenge_def signing_bytes_def lp_field_def l demo_hash_env_def)
qed

lemma device_statements_are_unambiguous_witness:
  "mint_pop_message demo_hash_env ''l'' ''m'' demo_device demo_pub \<noteq> mint_pop_message demo_hash_env ''l2'' ''m'' demo_device demo_pub
   \<and> mint_pop_message demo_hash_env ''l'' ''m'' demo_device demo_pub \<noteq> refresh_pop_message ''i'' ''n'' demo_device demo_pub"
proof -
  obtain b where b: "signing_bytes demo_hash_env demo_challenge = Inr b" using demo_signing_bytes by blast
  have d: "length demo_device = 32"
    by (simp add: demo_device_def to_hex_def length_concat o_def sum_list_triv)
  have h: "\<forall>s. length (ae_blake3 demo_hash_env s) = 32" by (auto simp: demo_hash_env_def min_def)
  have t: "\<forall>x \<in> {demo_challenge, demo_challenge}. i64 (bc_binding_version x) \<and> i64 (bc_expires_at_ms x)"
    by (simp add: i64_def I64_MAX_def demo_challenge_def)
  from device_statements_are_unambiguous [OF h _ _ b b t, of "''l''" demo_device "''i''" "''n''" "''l2''" demo_device "''i''" "''n''"
      "''m''" demo_pub "''m''" demo_pub] d show ?thesis by simp
qed

end
