(* ===== verification/Device_Proofs.thy ===== *)
theory Device_Proofs
  imports Onboarding_Memory Auth_Proofs
begin

text \<open>
  Encodings of the device layer and of the key layer: what a decoder accepts is what the encoder
  writes, a box opens for its recipient only, a short authentication string tells substituted
  keys, and everything a device ever signs means one thing.
\<close>

section \<open>Wire forms\<close>

text \<open>
  C33. The relayed forms of a device record and of an attestation are read back exactly. A decoder
  accepts a byte string when and only when it is the encoding of a well-formed value (handles are
  UTF-8 of a length 32 bits can carry, keys and signatures have their size), and returns that value:
  nothing truncated, extended or in another form is accepted. The same holds of the stored
  key package.
\<close>
theorem wire_forms_round_trip:
  assumes "length bytes < 2 ^ 64"
  shows "(record_from_bytes bytes = Inr s \<longleftrightarrow> record_wf s \<and> bytes = record_to_bytes s)
    \<and> (attestation_from_bytes bytes = Inr t \<longleftrightarrow> attestation_wf t \<and> bytes = attestation_to_bytes t)
    \<and> (package_from_bytes bytes = Inr p \<longleftrightarrow> length (kg_account_id p) = ACCOUNT_ID_LEN
        \<and> length (rb_salt (kg_blob p)) = RECOVERY_SALT_LEN \<and> rb_wrapped (kg_blob p) \<noteq> [] \<and> bytes = package_to_bytes p)"
  using record_from_bytes_iff [OF assms] attestation_from_bytes_iff [OF assms] package_round_trip by auto

theorem wire_forms_round_trip_witness:
  "record_from_bytes (record_to_bytes (sign_record demo_key_prims demo_bob 7)) = Inr (sign_record demo_key_prims demo_bob 7)
    \<and> (\<forall>s. record_from_bytes (record_to_bytes (sign_record demo_key_prims demo_bob 7) @ ''x'') \<noteq> Inr s)"
proof -
  let ?s = "sign_record demo_key_prims demo_bob 7"
  note b = sign_record_wf [OF keys_okD(2) [OF demo_keys_ok] demo_own(2), of 7]
  have r: "record_from_bytes (record_to_bytes ?s) = Inr ?s"
    using wire_forms_round_trip [OF record_length [OF b(1)], THEN conjunct1] b(1) by simp
  have "length (record_to_bytes ?s @ ''x'') < 2 ^ 64"
    using b(1) by (simp add: record_wf_def record_to_bytes_def DEVICE_RECORD_WIRE_TAG_def KEY_LEN_def SIG_LEN_def Let_def)
  then have long: "record_from_bytes (record_to_bytes ?s @ ''x'') = Inr s \<longleftrightarrow> record_wf s \<and> record_to_bytes ?s @ ''x'' = record_to_bytes s" for s
    using wire_forms_round_trip [THEN conjunct1] by blast
  have "record_to_bytes ?s @ ''x'' \<noteq> record_to_bytes s" if "record_wf s" for s
  proof
    assume e: "record_to_bytes ?s @ ''x'' = record_to_bytes s"
    obtain d x k c g where s: "s = \<lparr>sr_record = \<lparr>dv_device_id = d, dv_x25519_pub = x, dv_ed25519_pub = k, dv_created_at = c\<rparr>,
      sr_signature = g\<rparr>" by (metis device_record.cases signed_record.cases)
    obtain d' x' k' c' g' where s': "?s = \<lparr>sr_record = \<lparr>dv_device_id = d', dv_x25519_pub = x', dv_ed25519_pub = k', dv_created_at = c'\<rparr>,
      sr_signature = g'\<rparr>" by (metis device_record.cases signed_record.cases)
    have "length d < 2 ^ 32" "length x = KEY_LEN" "length k = KEY_LEN" "length g = SIG_LEN"
      using that by (simp_all add: s record_wf_def)
    moreover have "length d' < 2 ^ 32" "length x' = KEY_LEN" "length k' = KEY_LEN" "length g' = SIG_LEN"
      using b(1) by (simp_all add: s' record_wf_def)
    ultimately show False
      using e lp_append_inj [of d' d] unfolding s s' record_bytes append_assoc
      by (auto simp: append_eq_append_conv)
  qed
  with r long show ?thesis by blast
qed

section \<open>Boxes\<close>

text \<open>
  C11. A sealed key opens for the device it was sealed to, and for nothing else. An enrollment bundle
  opens exactly with a secret of the recipient's public key and its handle, and yields what was
  sealed; the epoch key of a rotation opens exactly with such a secret, the handle, the account and
  the epoch, and yields the content key of that epoch; neither kind opens as the other.
\<close>
theorem boxes_open_for_their_recipient:
  assumes "boxes_ok K" and "length nonce = NONCE_LEN" and "length pub = KEY_LEN" and "length ark = KEY_LEN"
    and "account_framed account d" and "account_framed account' d'"
  shows "(open_enrollment_bundle K sk d' (seal_enrollment_bundle K eph nonce pub d ark account epoch) = Inr b
       \<longleftrightarrow> x25519_public K sk = pub \<and> d' = d \<and> b = \<lparr>bn_ark = ark, bn_account_id = account, bn_key_epoch = epoch\<rparr>)
    \<and> (open_rewrapped K sk d' account' epoch' (rk_sealed (hd (snd (rotate_and_rewrap K (\<lambda>_. (eph, nonce)) ark account epoch
          [\<lparr>rc_device_id = d, rc_x25519_pub = pub\<rparr>])))) = Inr ack
       \<longleftrightarrow> x25519_public K sk = pub \<and> d' = d \<and> account' = account \<and> epoch' = epoch \<and> ack = content_key_at (kp_prims K) ark epoch)
    \<and> open_enrollment_bundle K sk d' (rk_sealed (hd (snd (rotate_and_rewrap K (\<lambda>_. (eph, nonce)) ark account epoch
          [\<lparr>rc_device_id = d, rc_x25519_pub = pub\<rparr>])))) \<noteq> Inr b
    \<and> open_rewrapped K sk d' account' epoch' (seal_enrollment_bundle K eph nonce pub d ark account epoch) \<noteq> Inr ack"
proof -
  have account: "length account = ACCOUNT_ID_LEN" using assms(5) by (simp add: account_framed_def)
  have s: "rk_sealed (hd (snd (rotate_and_rewrap K (\<lambda>_. (eph, nonce)) ark account epoch [\<lparr>rc_device_id = d, rc_x25519_pub = pub\<rparr>])))
      = rewrap_seal K eph nonce pub d ark account epoch"
    by (simp add: rewraps)
  have "open_rewrapped K sk d' account' epoch' (seal_enrollment_bundle K eph nonce pub d ark account epoch) \<noteq> Inr ack"
    by (auto simp: open_rewrapped_def seal_enrollment_bundle_def result_iff open_sealed_iff [OF assms(1-3)]
        enrollment_aad_def rewrap_aad_def ENROLL_AAD_TAG_def REWRAP_AAD_TAG_def)
  moreover have "open_enrollment_bundle K sk d' (rewrap_seal K eph nonce pub d ark account epoch) \<noteq> Inr b"
    using bundle_is_not_rewrap [OF assms(1-3)] by metis
  ultimately show ?thesis
    unfolding s by (intro conjI open_enrollment_iff [OF assms(1-4) account] open_rewrapped_iff [OF assms(1-3,5,6)])
qed

theorem boxes_open_for_their_recipient_witness:
  "open_enrollment_bundle demo_key_prims ''bob-x'' ''bob''
      (seal_enrollment_bundle demo_key_prims ''e'' demo_nonce (pad32 ''bob-x'') ''bob'' demo_ark demo_account_id 3)
    = Inr \<lparr>bn_ark = demo_ark, bn_account_id = demo_account_id, bn_key_epoch = 3\<rparr>
   \<and> open_enrollment_bundle demo_key_prims ''bob-x'' ''eve''
      (seal_enrollment_bundle demo_key_prims ''e'' demo_nonce (pad32 ''bob-x'') ''bob'' demo_ark demo_account_id 3)
    \<noteq> Inr \<lparr>bn_ark = demo_ark, bn_account_id = demo_account_id, bn_key_epoch = 3\<rparr>"
proof -
  have f: "account_framed demo_account_id ''bob''" "account_framed demo_account_id ''eve''" by (simp_all add: account_framed_def)
  note b = boxes_open_for_their_recipient [OF keys_okD(1) [OF demo_keys_ok] demo_lengths(3) length_pad32 demo_lengths(1) f(1) f(1),
      of "''bob-x''" "''e''" "''bob-x''" 3]
    and e = boxes_open_for_their_recipient [OF keys_okD(1) [OF demo_keys_ok] demo_lengths(3) length_pad32 demo_lengths(1) f(1) f(2),
      of "''bob-x''" "''e''" "''bob-x''" 3]
  have "x25519_public demo_key_prims ''bob-x'' = pad32 ''bob-x''" by (simp add: demo_key_prims_def)
  then show ?thesis using b e by blast
qed

section \<open>Short authentication strings\<close>

text \<open>
  C26. Two devices see matching short authentication strings exactly when each was shown the other's
  keys. Device \<open>p\<close> computes the string of its own keys and those it was shown for its peer, device
  \<open>q\<close> likewise; the strings match when both were shown the true keys, and for different devices
  only then: a substitution on either side is noticed. (For keys of 32 bytes and a hash without
  collisions; comparison is of the whole commitment.)
\<close>
theorem matching_strings_mean_true_keys:
  assumes "inj (blake3_hash (kp_prims K))"
    and "\<forall>x \<in> {p, q, shown_to_p, shown_to_q}. length (ep_x25519_pub x) = KEY_LEN \<and> length (ep_ed25519_pub x) = KEY_LEN"
    and "length (sas_compute K p shown_to_p) = length (sas_compute K q shown_to_q)" and "p \<noteq> q"
  shows "sas_matches (sas_compute K p shown_to_p) (sas_compute K q shown_to_q) \<longleftrightarrow> shown_to_p = q \<and> shown_to_q = p"
proof -
  have c: "peer_concat x = peer_concat y \<longleftrightarrow> x = y"
    if "x \<in> {p, q, shown_to_p, shown_to_q}" "y \<in> {p, q, shown_to_p, shown_to_q}" for x y
  proof -
    have "length (ep_x25519_pub x) = length (ep_x25519_pub y)" using assms(2) that by metis
    then show ?thesis by (cases x; cases y) (simp add: peer_concat_def)
  qed
  have l: "length (peer_concat x) = 64" if "x \<in> {p, q, shown_to_p, shown_to_q}" for x
    using assms(2) that by (auto simp: peer_concat_def KEY_LEN_def)
  define pair where "pair x y = (if peer_concat x \<le> peer_concat y then (peer_concat x, peer_concat y) else (peer_concat y, peer_concat x))" for x y
  have sas: "sas_compute K x y = blake3_hash (kp_prims K) (SAS_TAG @ fst (pair x y) @ snd (pair x y))" for x y
    by (simp add: sas_compute_def pair_def Let_def)
  have "length (fst (pair p shown_to_p)) = length (fst (pair q shown_to_q))"
    using l by (simp add: pair_def)
  then have "sas_compute K p shown_to_p = sas_compute K q shown_to_q \<longleftrightarrow> pair p shown_to_p = pair q shown_to_q"
    using assms(1) by (auto simp: sas inj_eq prod_eq_iff)
  also have "\<dots> \<longleftrightarrow> {peer_concat p, peer_concat shown_to_p} = {peer_concat q, peer_concat shown_to_q}"
    by (auto simp: pair_def doubleton_eq_iff)
  also have "\<dots> \<longleftrightarrow> shown_to_p = q \<and> shown_to_q = p"
    using assms(4) by (auto simp: doubleton_eq_iff c)
  finally show ?thesis unfolding sas_matches_iff [OF assms(3)] .
qed

theorem matching_strings_mean_true_keys_witness:
  "sas_matches (sas_compute demo_key_prims (local_peer demo_alice) (local_peer demo_bob))
       (sas_compute demo_key_prims (local_peer demo_bob) (local_peer demo_alice))
    \<and> \<not> sas_matches (sas_compute demo_key_prims (local_peer demo_alice) ((local_peer demo_bob)\<lparr>ep_x25519_pub := pad32 ''eve''\<rparr>))
       (sas_compute demo_key_prims (local_peer demo_bob) (local_peer demo_alice))"
proof -
  let ?a = "local_peer demo_alice" and ?b = "local_peer demo_bob"
  let ?e = "?b\<lparr>ep_x25519_pub := pad32 ''eve''\<rparr>"
  have keys: "ep_x25519_pub ?a = pad32 ''alice-x''" "ep_ed25519_pub ?a = pad32 ''alice-e''"
    "ep_x25519_pub ?b = pad32 ''bob-x''" "ep_ed25519_pub ?b = pad32 ''bob-e''"
    by (simp_all add: local_peer_def demo_alice_def demo_bob_def from_secrets_def Let_def demo_key_prims_def)
  have diff: "pad32 ''alice-x'' \<noteq> pad32 ''bob-x''" "pad32 ''eve'' \<noteq> pad32 ''bob-x''" by (simp_all add: pad32_def KEY_LEN_def)
  then have ab: "?a \<noteq> ?b" and eb: "?e \<noteq> ?b" using keys by (metis, metis enrollment_peer.select_convs(1) enrollment_peer.surjective enrollment_peer.update_convs(1))
  have len: "length (sas_compute demo_key_prims x y) = length SAS_TAG + (length (peer_concat x) + length (peer_concat y))" for x y
    by (simp add: sas_compute_def Let_def demo_key_prims_def demo_prims_def)
  have pc: "length (peer_concat ?a) = 64" "length (peer_concat ?b) = 64" "length (peer_concat ?e) = 64"
    using keys by (simp_all add: peer_concat_def KEY_LEN_def)
  have l: "\<forall>x \<in> {?a, ?b, ?b, ?a}. length (ep_x25519_pub x) = KEY_LEN \<and> length (ep_ed25519_pub x) = KEY_LEN"
    "\<forall>x \<in> {?a, ?b, ?e, ?a}. length (ep_x25519_pub x) = KEY_LEN \<and> length (ep_ed25519_pub x) = KEY_LEN"
    using keys by simp_all
  have n: "length (sas_compute demo_key_prims ?a ?b) = length (sas_compute demo_key_prims ?b ?a)"
    "length (sas_compute demo_key_prims ?a ?e) = length (sas_compute demo_key_prims ?b ?a)"
    by (simp_all only: len pc)
  show ?thesis
    using matching_strings_mean_true_keys [OF demo_inj l(1) n(1) ab] matching_strings_mean_true_keys [OF demo_inj l(2) n(2) ab] eb
    by simp
qed

text \<open>The twelve digits shown to people are less than the commitment: different commitments can have
  the same digits.\<close>

lemma digits_are_not_the_commitment:
  "sas_digits (replicate 8 (CHR ''x'') @ replicate 24 (CHR ''y'')) = sas_digits (replicate 8 (CHR ''x'') @ replicate 24 (CHR ''z''))"
  by (simp add: sas_digits_def)

section \<open>One key, many statements\<close>

lemma be64_inj: "be64 x = be64 y \<longleftrightarrow> x = y"
  by (metis be_word_be(2))

definition attestation_framed :: "attestation \<Rightarrow> bool" where
  "attestation_framed a \<longleftrightarrow> length (at_signer_device_id a) < 2 ^ 32 \<and> length (at_signer_ed25519_pub a) = KEY_LEN
     \<and> length (at_subject_device_id a) < 2 ^ 32 \<and> length (at_subject_ed25519_pub a) = KEY_LEN"

definition record_framed :: "device_record \<Rightarrow> bool" where
  "record_framed r \<longleftrightarrow> length (dv_device_id r) < 2 ^ 32 \<and> length (dv_x25519_pub r) = KEY_LEN \<and> length (dv_ed25519_pub r) = KEY_LEN"

lemma record_signing_inj:
  assumes "record_framed r" and "record_framed r'"
  shows "record_signing_bytes r = record_signing_bytes r' \<longleftrightarrow> r = r'"
proof -
  have b: "record_signing_bytes r = DEVICE_RECORD_TAG @ lp (dv_device_id r) @ dv_x25519_pub r @ dv_ed25519_pub r @ be64 (dv_created_at r)" for r
    by (simp add: record_signing_bytes_def lp_def)
  show ?thesis
    using assms unfolding b record_framed_def
    by (cases r; cases r') (auto simp: lp_append_inj lp_inj append_eq_append_conv be64_inj)
qed

lemma attestation_signing_inj:
  assumes "attestation_framed a" and "attestation_framed a'"
  shows "attestation_signing_bytes a = attestation_signing_bytes a' \<longleftrightarrow> a = a'"
proof -
  have b: "attestation_signing_bytes a = ATTESTATION_TAG @ [char_of (kind_tag (at_kind a))] @ lp (at_signer_device_id a)
      @ at_signer_ed25519_pub a @ lp (at_subject_device_id a) @ at_subject_ed25519_pub a @ to_be_bytes (at_key_epoch a)
      @ be64 (at_issued_at a)" for a
    by (simp add: attestation_signing_bytes_def push_lp_def)
  have k: "kind_tag k mod 256 = kind_tag k' mod 256 \<longleftrightarrow> k = k'" for k k'
    by (cases k; cases k') simp_all
  show ?thesis
    using assms unfolding b attestation_framed_def
    by (cases a; cases a') (auto simp: lp_append_inj lp_inj append_eq_append_conv be64_inj k)
qed

text \<open>
  C25. The signing key of a device never signs one string for two purposes. The key signs device
  records, attestations, events, and the proofs of possession for minting, refreshing and binding;
  the strings of any two of these kinds differ, and a device record or an attestation is determined
  by its string.
\<close>
theorem signing_domains_are_separate:
  assumes "record_framed r" and "record_framed r'" and "attestation_framed a" and "attestation_framed a'"
    and "signing_bytes E c = Inr b"
  shows "(record_signing_bytes r = record_signing_bytes r' \<longleftrightarrow> r = r')
    \<and> (attestation_signing_bytes a = attestation_signing_bytes a' \<longleftrightarrow> a = a')
    \<and> distinct [record_signing_bytes r, attestation_signing_bytes a, event_signing_bytes h ct,
         mint_pop_message E l f d pub, refresh_pop_message i n d pub, b]"
proof -
  let ?all = "[record_signing_bytes r, attestation_signing_bytes a, event_signing_bytes h ct,
         mint_pop_message E l f d pub, refresh_pop_message i n d pub, b]"
  obtain x where b: "b = BINDING_POP_TAG @ x" using signing_bytesD [OF assms(5)] by blast
  have "map (\<lambda>s. [s ! 10, s ! 12, s ! 13, s ! 23]) ?all =
      [[record_signing_bytes r ! 10, CHR ''d'', CHR ''e'', record_signing_bytes r ! 23],
       [attestation_signing_bytes a ! 10, CHR ''a'', CHR ''t'', attestation_signing_bytes a ! 23],
       [event_signing_bytes h ct ! 10, CHR ''e'', CHR ''v'', event_signing_bytes h ct ! 23],
       [CHR ''1'', CHR ''a'', CHR ''u'', CHR ''m''], [CHR ''1'', CHR ''a'', CHR ''u'', CHR ''r''],
       [CHR ''2'', CHR ''a'', CHR ''u'', b ! 23]]"
    unfolding mint_message refresh_message b record_signing_bytes_def attestation_signing_bytes_def event_signing_bytes_def
    by (simp add: push_lp_def Let_def DEVICE_RECORD_TAG_def ATTESTATION_TAG_def EVENT_SIG_TAG_def MINT_POP_TAG_def
        REFRESH_POP_TAG_def BINDING_POP_TAG_def)
  then have "distinct (map (\<lambda>s. [s ! 10, s ! 12, s ! 13, s ! 23]) ?all)" by simp
  then have "distinct ?all" unfolding distinct_map by (rule conjunct1)
  then show ?thesis using record_signing_inj [OF assms(1,2)] attestation_signing_inj [OF assms(3,4)] by blast
qed

theorem signing_domains_are_separate_witness:
  "record_signing_bytes (sr_record (sign_record demo_key_prims demo_bob 7)) \<noteq> record_signing_bytes (sr_record (sign_record demo_key_prims demo_bob 8))
    \<and> refresh_pop_message ''i'' ''n'' ''d'' demo_pub \<noteq>
       attestation_signing_bytes (sa_attestation (attest_trust demo_key_prims demo_alice (sr_record (sign_record demo_key_prims demo_bob 7)) 3 9))"
proof -
  let ?r = "\<lambda>t. sr_record (sign_record demo_key_prims demo_bob t)"
  let ?a = "sa_attestation (attest_trust demo_key_prims demo_alice (?r 7) 3 9)"
  note E = keys_okD(2) [OF demo_keys_ok]
  have r: "record_framed (?r t)" for t
    using sign_record_wf(1) [OF E demo_own(2), of t] by (simp add: record_wf_def record_framed_def)
  note w = sign_record_wf [OF E demo_own(2), of 7]
  have "attestation_wf (attest demo_key_prims demo_alice Trust (?r 7) 3 9)"
    by (rule attest_wf(1) [OF E demo_own(1)]) (use w own_keysD(3) [OF demo_own(2)] in \<open>simp_all add: record_wf_def\<close>)
  then have a: "attestation_framed ?a" by (simp add: attestation_wf_def attestation_framed_def attest_trust_def Let_def)
  obtain b where b: "signing_bytes demo_hash_env demo_challenge = Inr b" using demo_signing_bytes by blast
  have "?r 7 \<noteq> ?r 8" by (simp add: sign_record_def Let_def)
  with signing_domains_are_separate [OF r r a a b, of 7 8 h ct l f "''d''" demo_pub "''i''" "''n''" for h ct l f]
  show ?thesis by auto
qed

end
