(* ===== verification/Account_Flow.thy ===== *)
theory Account_Flow
  imports Prelude
begin

text \<open>
  The choice between creating, attaching and joining an account:
  \<^verbatim>\<open>crates/pergamon-core/src/account_flow.rs\<close>. Pure guards over what a device observes of itself.
\<close>

datatype account_flow = CreateNew | AttachExisting | JoinOnNewDevice

fun cli_command :: "account_flow \<Rightarrow> string" where
  "cli_command CreateNew = ''sync-device bootstrap''"
| "cli_command AttachExisting = ''sync-remote enable''"
| "cli_command JoinOnNewDevice = ''sync-device enroll / accept / recover''"

fun describe :: "account_flow \<Rightarrow> string" where
  "describe CreateNew = ''create a new account (first device)''"
| "describe AttachExisting = ''attach this existing local account to a server''"
| "describe JoinOnNewDevice = ''join an existing account on a new device''"

record local_account_state =
  has_device_keys :: bool
  has_ark :: bool
  has_account_id :: bool
  is_sync_bound :: bool
  has_local_content :: bool

definition local_account_empty :: local_account_state where
  "local_account_empty = \<lparr>has_device_keys = False, has_ark = False, has_account_id = False,
     is_sync_bound = False, has_local_content = False\<rparr>"

definition belongs_to_account :: "local_account_state \<Rightarrow> bool" where
  "belongs_to_account s \<longleftrightarrow> has_ark s \<or> is_sync_bound s"

datatype create_account_block = AlreadyHasAccount | NeedsExplicitConfirmation

definition suggested_flow :: "create_account_block \<Rightarrow> account_flow" where
  "suggested_flow b = JoinOnNewDevice"

definition guard_create_new :: "local_account_state \<Rightarrow> bool \<Rightarrow> create_account_block + unit" where
  "guard_create_new s explicit_confirm =
     (if belongs_to_account s then Inl AlreadyHasAccount
      else if has_local_content s \<and> \<not> explicit_confirm then Inl NeedsExplicitConfirmation
      else Inr ())"

datatype account_adoption_block = MissingKeys | ExistingLibrary

definition guard_attach_existing :: "local_account_state \<Rightarrow> account_adoption_block + unit" where
  "guard_attach_existing s = (if \<not> has_ark s \<or> \<not> has_device_keys s then Inl MissingKeys else Inr ())"

definition guard_join_new_device :: "local_account_state \<Rightarrow> bool \<Rightarrow> account_adoption_block + unit" where
  "guard_join_new_device s matching_pending =
     (if has_local_content s \<or> has_ark s \<and> \<not> matching_pending \<or> is_sync_bound s
         \<or> has_account_id s \<and> \<not> matching_pending
      then Inl ExistingLibrary else Inr ())"

lemmas guards = guard_create_new_def guard_attach_existing_def guard_join_new_device_def belongs_to_account_def

text \<open>A device that may attach its account may neither create another nor, unless it resumes its own
  enrollment, join one; and what may join afresh may also be asked to create, never the reverse
  once it has content.\<close>

lemma flows_exclude_each_other:
  assumes "guard_attach_existing s = Inr ()"
  shows "guard_create_new s c = Inl AlreadyHasAccount" "guard_join_new_device s False = Inl ExistingLibrary"
  using assms by (auto simp: guards split: if_splits)

lemma joining_device_is_clean:
  assumes "guard_join_new_device s False = Inr ()"
  shows "guard_create_new s c = Inr ()" "guard_attach_existing s = Inl MissingKeys"
    "s\<lparr>has_device_keys := False\<rparr> = local_account_empty"
  using assms by (cases s; auto simp: guards local_account_empty_def split: if_splits)+

lemma confirmation_never_forks:
  "guard_create_new s c = Inr () \<Longrightarrow> \<not> belongs_to_account s"
  by (auto simp: guards split: if_splits)

end
