(* ===== verification/Spec2Isabelle.thy ===== *)
theory Spec2Isabelle
  imports Apply_Edge Apply_Delete Baseline Engine_Server Server_Simulation Content_Rule Fairness
    Content_Authority Auth_Allocation Auth_Login Device_Proofs Account_Flow
begin

text \<open>
  Pergamon keeps a reading library on several devices. Each device works on its own
  database; what the user changes is queued, encrypted, signed and pushed to a relay that
  cannot read it, and what other devices pushed is pulled, verified, opened and merged. This
  library models that loop, from the clock a change is stamped with to the relay's tables, the
  rule engine that organises what arrives, the control plane that decides who may use the
  relay, and the exchange of keys by which a device joins, leaves or recovers an account.

  \<^bold>\<open>How the parts meet.\<close> A tracked write (\<open>Emit\<close>) draws a stamp from the clock
  (\<open>Hlc\<close>), writes the row (\<open>Canonical\<close>) and queues the change (\<open>Sync_Store\<close>). The engine's
  push (\<open>Engine\<close>) reads the queue, seals and signs each change (\<open>Envelope\<close>) and sends a
  batch through a transport: the in-memory log of the tests (\<open>Memory_Transport\<close>) or the HTTP
  client (\<open>Http_Transport\<close>) talking to the server (\<open>Server_Routes\<close> over \<open>Server_Store\<close>, behind
  the checks of \<open>Server_Api\<close>). Its pull reads pages past a cursor, verifies and opens each
  event, and hands the change to \<open>Apply\<close>, which consults the policy of \<open>Merge\<close> and, for
  review cards, the fold of \<open>Review\<close>. A bearer of the server stands for a row the auth routes
  (\<open>Auth_Routes\<close>) issued; the server asks for it twice, when the request arrives and when it
  enters the store. The root key the engine works with reaches a device through \<open>Onboarding\<close>,
  over a relay of sealed and signed artifacts.

  \<^bold>\<open>Theories and code.\<close>
  \<^item> \<open>Prelude\<close>, \<open>Unicode_Text\<close>, \<open>Json\<close>, \<open>Wire\<close>: machine integers, results, strings.
  \<^item> \<open>Hlc\<close>: pergamon-core \<^verbatim>\<open>sync/hlc.rs\<close>. Stamps are a record with 64- and 32-bit words.
  \<^item> \<open>Change_Event\<close>, \<open>Merge\<close>, \<open>Review\<close>, \<open>Convergence\<close>: pergamon-core \<^verbatim>\<open>sync/event.rs\<close>,
    \<^verbatim>\<open>sync/merge.rs\<close>, \<^verbatim>\<open>sync/review.rs\<close> and the enumerations of \<^verbatim>\<open>fsrs.rs\<close>;
    \<open>Convergence\<close> holds the generic facts about folds that do not depend on order.
  \<^item> \<open>Canonical\<close>, \<open>Sync_Store\<close>, \<open>Emit\<close>, \<open>Outbox\<close>, \<open>Collection_Order\<close>, \<open>Baseline\<close>:
    pergamon-storage \<^verbatim>\<open>sync.rs\<close>: typed rows, sync bookkeeping, tracked writes, the outbox
    invariant, and the backfill of a library that predates sync, over the listings of \<^verbatim>\<open>db.rs\<close>
    (\<open>Library_Rows\<close>), where a text that is no UUID or time is a panic.
  \<^item> \<open>Apply\<close>, \<open>Apply_Live\<close>, \<open>Apply_Converge\<close>, \<open>Apply_Edge\<close>, \<open>Apply_Delete\<close>:
    pergamon-sync \<^verbatim>\<open>apply.rs\<close>.
  \<^item> \<open>Effects\<close>: pergamon-sync \<^verbatim>\<open>error.rs\<close> and the reasoning about methods that fail after
    changing the state. \<open>Relay_Log\<close>, \<open>Append_Log\<close>: the frames of \<^verbatim>\<open>wire.rs\<close> and the two
    interfaces of a relay. \<open>Memory_Transport\<close>: \<^verbatim>\<open>transport.rs\<close>.
  \<^item> \<open>Envelope\<close>: pergamon-crypto \<^verbatim>\<open>envelope.rs\<close>, \<^verbatim>\<open>hierarchy.rs\<close>, \<^verbatim>\<open>blob.rs\<close>.
  \<^item> \<open>Engine\<close>, \<open>Engine_Push\<close>, \<open>Engine_Pull\<close>: pergamon-sync \<^verbatim>\<open>engine.rs\<close>, \<^verbatim>\<open>crypto.rs\<close>,
    \<^verbatim>\<open>blob.rs\<close>.
  \<^item> \<open>Server_Store\<close>, \<open>Server_Log\<close>, \<open>Server_Quota\<close>: pergamon-sync-server \<^verbatim>\<open>store.rs\<close> and
    \<^verbatim>\<open>quota.rs\<close>. \<open>Server_Api\<close>, \<open>Server_Routes\<close>, \<open>Server_Isolation\<close>: \<^verbatim>\<open>error.rs\<close>,
    \<^verbatim>\<open>auth/authz.rs\<close>, \<^verbatim>\<open>state.rs\<close>, \<^verbatim>\<open>routes/\<close>, \<^verbatim>\<open>lib.rs\<close>. \<open>Server_Refine\<close>,
    \<open>Server_Simulation\<close>: the server against the in-memory log. \<open>Fairness\<close>: \<^verbatim>\<open>fairness.rs\<close>.
  \<^item> \<open>Http_Transport\<close>, \<open>Engine_Server\<close>: pergamon-sync \<^verbatim>\<open>http.rs\<close> and the engine over it.
  \<^item> \<open>Auth_Token\<close>, \<open>Auth_Store\<close>, \<open>Auth_Binding\<close>, \<open>Auth_Routes\<close>: pergamon-sync-server
    \<^verbatim>\<open>auth/token.rs\<close>, \<^verbatim>\<open>throttle.rs\<close>, \<^verbatim>\<open>store.rs\<close>, \<^verbatim>\<open>binding.rs\<close>, \<^verbatim>\<open>routes.rs\<close>, \<^verbatim>\<open>state.rs\<close>,
    \<^verbatim>\<open>wire.rs\<close>. \<open>Auth_Invariant\<close>, \<open>Auth_Lifecycle\<close>, \<open>Auth_Allocation\<close>, \<open>Auth_Login\<close>,
    \<open>Auth_Proofs\<close>, \<open>Content_Authority\<close>: the tables' invariant and history, the properties, and
    the control plane under the content routes. \<open>Auth_Demo\<close>: the deployment of the witnesses.
  \<^item> \<open>Wire_Cursor\<close>, \<open>Device_Trust\<close>, \<open>Sealed_Keys\<close>: pergamon-crypto \<^verbatim>\<open>wire.rs\<close>, \<^verbatim>\<open>device.rs\<close>,
    \<^verbatim>\<open>attestation.rs\<close>, \<^verbatim>\<open>enrollment.rs\<close>, \<^verbatim>\<open>rotation.rs\<close>, \<^verbatim>\<open>recovery.rs\<close> and the boxes of
    \<^verbatim>\<open>primitives.rs\<close>. \<open>Device_Proofs\<close>: their encodings and signed strings.
  \<^item> \<open>Artifact_Relay\<close>, \<open>Onboarding\<close>, \<open>Onboarding_Proofs\<close>, \<open>Onboarding_Memory\<close>: pergamon-sync
    \<^verbatim>\<open>relay.rs\<close> and \<^verbatim>\<open>onboarding.rs\<close>. \<open>Account_Flow\<close>: pergamon-core \<^verbatim>\<open>account_flow.rs\<close>.
  \<^item> \<open>Smart_Filter\<close>, \<open>Filter_Roundtrip\<close>, \<open>Content_Rule\<close>: pergamon-core \<^verbatim>\<open>smart_filter.rs\<close>,
    \<^verbatim>\<open>content_type.rs\<close>, \<^verbatim>\<open>status.rs\<close>, \<^verbatim>\<open>rule.rs\<close>.

  \<^bold>\<open>Interfaces.\<close> \<open>paged_log\<close> is what a puller relies on (pages are the events past the
  cursor, in order) and \<open>append_log\<close> what a pusher relies on (a batch is the abstract log
  machine); \<open>log_transport\<close> extends the first to the engine's pull loop. The in-memory log and
  the server over HTTP interpret them, so push and pull are proved once. \<open>artifact_relay\<close> is what
  the onboarding flows rely on, provided by the in-memory relay; \<open>wire_enum\<close> and \<open>tagged_enum\<close>
  are the contracts of enumerations sent as text and as a byte.

  \<^bold>\<open>What the lemmas show.\<close>
  \<^item> Clocks: stamps of a device increase as long as its counter does not saturate.
  \<^item> Policy: last-writer-wins cells, edges and review cards do not depend on order or
    repetition of delivery; prose is kept, live or in the inbox.
  \<^item> Store: a tracked write queues one row behind the others under a new id; the allowlist of
    columns is closed; the backfill is complete and puts parents first.
  \<^item> Apply: the handler is the policy field by field, and devices that applied the same
    changes agree where the policy is order-free; deletes keep prose they had not seen, and a
    deleted entity comes back only with a field that is not prose and not older than the delete.
  \<^item> Envelope: framing is injective, a ciphertext opens only under its header, and a peer can
    read what a device pushed.
  \<^item> Engine: push ends and empties the queue, pull ends at the end of the log, nothing
    unauthenticated is written, the cursor never passes an event that was not handled, and a
    lost answer costs nothing.
  \<^item> Server: a push is all or nothing, quotas hold, tenants are isolated, content needs a live
    token, an open server simulates the in-memory log, and one tenant cannot exhaust the pool.
  \<^item> Control plane: tables stay well formed, an account has one owner for good, a refresh works
    once, a revoked device is shut out even of requests under way, a namespace is allocated only
    with proof of possession, failed logins lock.
  \<^item> Keys: decoders accept exactly what encoders write, boxes open for their recipient only,
    signatures of different purpose never coincide, an approved device obtains the account, a
    revocation re-keys every other device on record, recovery restores the root key.
  \<^item> Rules: plain filters print and parse back; rules fire in priority order, each seeing the
    tags of those that fired before it.

  \<^bold>\<open>Bounds and fuel.\<close> Push recurses on the pending rows. Pull takes fuel, as a relay that
  answers full pages without advancing keeps the code looping; one more than the number of
  events past the cursor is proved to be enough over either relay. Counters, sequence
  numbers and sizes are words; where a saturating or clamped conversion matters the property
  says so (\<open>fits\<close> bounds an account by 63 bits).

  \<^bold>\<open>Parameters.\<close> Ciphers, hashes, signatures and Base64 (record \<open>prims\<close>), JSON of a body
  (\<open>codec\<close>), what SQLite adds to a statement (\<open>sqlite\<close>: defaults, affinity, constraints,
  foreign keys), curves and Argon2id (\<open>key_prims\<close>), OPAQUE, hashes and clocks of the control plane
  (\<open>auth_env\<close>, \<open>ambient\<close>) and whether an account was ever used, the FSRS formulas, lower-casing and RFC 3339, UUIDs and the row order of
  a query (\<open>listing\<close>), the system clock and randomness,
  and the network (a list of faults). The contract a property needs of one is a hypothesis
  its witness discharges on a concrete instance.

  \<^bold>\<open>Not modelled.\<close> The user interfaces, importers, exporters, feeds and extraction, and the
  SQL of the reader application beyond the backfill's listings, whose meaning is in third-party
  parsers and SQLite; the
  floating-point formulas of the scheduler; poisoned locks and pool exhaustion of the server.
  Of the client: attachment and stored sessions, the onboarding relay over HTTP and the background
  driver, which wrap HTTP, OPAQUE and the platform key store. A failing random source is not a state.
\<close>

end
